(* ===== verification/Sbs_Prelude.thy ===== *)
theory Sbs_Prelude
  imports Main "HOL-Library.Word" "HOL-Library.AList" "HOL-Library.Multiset"
    "HOL-Library.Char_ord" "HOL-Library.List_Lexorder" "HOL-Library.Product_Lexorder"
begin

text \<open>
  What the components share: the result codes of \<open>src/include/sbs/types.h\<close>, the
  ring-buffer view of a fixed array (used by the frame slot, the SPSC queue, the encoder
  hand-off queue and the canvas mailboxes), the tables keyed by strings, and the interface
  of a bounded queue that drops its oldest element when it is full.
\<close>

unbundle bit_operations_syntax

named_theorems ring_simps \<open>reading and writing through a ring-buffer view\<close>
named_theorems step_defs \<open>the definitions of a component's operations\<close>

type_synonym u8 = "8 word"
type_synonym u32 = "32 word"
type_synonym u64 = "64 word"

section \<open>Result codes\<close>

datatype sbs_result =
    SBS_OK
  | SBS_ERR_GENERIC
  | SBS_ERR_NOMEM
  | SBS_ERR_INVAL
  | SBS_ERR_IO
  | SBS_ERR_WOULD_BLOCK
  | SBS_ERR_PIPE
  | SBS_ERR_EOF
  | SBS_ERR_TIMEOUT
  | SBS_ERR_NOT_FOUND

fun result_code :: "sbs_result \<Rightarrow> int" where
  "result_code SBS_OK = 0"
| "result_code SBS_ERR_GENERIC = -1"
| "result_code SBS_ERR_NOMEM = -2"
| "result_code SBS_ERR_INVAL = -3"
| "result_code SBS_ERR_IO = -4"
| "result_code SBS_ERR_WOULD_BLOCK = -5"
| "result_code SBS_ERR_PIPE = -6"
| "result_code SBS_ERR_EOF = -7"
| "result_code SBS_ERR_TIMEOUT = -8"
| "result_code SBS_ERR_NOT_FOUND = -9"

lemma result_code_inj: "result_code a = result_code b \<Longrightarrow> a = b"
  by (cases a; cases b; simp)

lemma result_code_negative: "result_code r < 0 \<longleftrightarrow> r \<noteq> SBS_OK"
  by (cases r) auto

section \<open>Arrays read as rings\<close>

text \<open>The live cells of a ring: \<open>c\<close> cells from index \<open>h\<close> on, wrapping at the array's end.\<close>

definition ring_list :: "'a list \<Rightarrow> nat \<Rightarrow> nat \<Rightarrow> 'a list" where
  "ring_list xs h c = map (\<lambda>i. xs ! ((h + i) mod length xs)) [0..<c]"

lemma length_ring_list [simp]: "length (ring_list xs h c) = c"
  by (simp add: ring_list_def)

lemma ring_list_0 [simp]: "ring_list xs h 0 = []"
  by (simp add: ring_list_def)

lemma nth_ring_list [ring_simps]:
  "i < c \<Longrightarrow> ring_list xs h c ! i = xs ! ((h + i) mod length xs)"
  by (simp add: ring_list_def)

lemma ring_list_eq_Nil [simp]: "ring_list xs h c = [] \<longleftrightarrow> c = 0"
  by (simp add: ring_list_def)

lemma ring_index_inj:
  assumes "i < N" "j < N" "(h + i) mod N = (h + j) mod (N :: nat)"
  shows "i = j"
proof -
  have "(int h + int i) mod int N = (int h + int j) mod int N"
    using assms(3) by (metis of_nat_add zmod_int)
  then have "int N dvd int i - int j"
    by (simp add: mod_eq_dvd_iff)
  moreover have "\<bar>int i - int j\<bar> < int N"
    using assms(1,2) by linarith
  ultimately have "int i - int j = 0"
    by (metis dvd_imp_le_int not_le abs_of_nat)
  then show ?thesis by simp
qed

lemma ring_list_update_other [ring_simps]:
  assumes "c \<le> i" "i < length xs" "c \<le> length xs"
  shows "ring_list (xs[(h + i) mod length xs := x]) h c = ring_list xs h c"
proof -
  have "(h + i) mod length xs \<noteq> (h + j) mod length xs" if "j < c" for j
    using ring_index_inj [of i "length xs" j h] assms that by auto
  then show ?thesis
    by (auto simp: ring_list_def nth_list_update)
qed

lemma ring_list_Suc [ring_simps]:
  "ring_list xs h (Suc c) = ring_list xs h c @ [xs ! ((h + c) mod length xs)]"
  by (simp add: ring_list_def)

lemma ring_list_push [ring_simps]:
  assumes "c < length xs"
  shows "ring_list (xs[(h + c) mod length xs := x]) h (Suc c) = ring_list xs h c @ [x]"
proof -
  have "(h + c) mod length xs < length xs"
    using assms by (intro mod_less_divisor) auto
  then show ?thesis
    using assms ring_list_update_other [of c c xs h x]
    by (simp add: ring_list_Suc)
qed

lemma ring_list_Cons [ring_simps]:
  assumes "h < length xs"
  shows "ring_list xs h (Suc c) = xs ! h # ring_list xs ((h + 1) mod length xs) c"
proof -
  have "(h + Suc i) mod length xs = ((h + 1) mod length xs + i) mod length xs" for i
    by (simp add: mod_add_left_eq)
  then have "map (\<lambda>i. xs ! ((h + i) mod length xs)) [1..<Suc c]
      = map (\<lambda>i. xs ! (((h + 1) mod length xs + i) mod length xs)) [0..<c]"
    by (simp add: map_Suc_upt [symmetric] del: map_Suc_upt upt_Suc)
  then show ?thesis
    using assms by (simp add: ring_list_def upt_conv_Cons del: upt_Suc)
qed

lemma ring_list_head_update [ring_simps]:
  assumes "h < length xs" "c < length xs"
  shows "ring_list (xs[h := x]) ((h + 1) mod length xs) c = ring_list xs ((h + 1) mod length xs) c"
proof -
  have "((h + 1) mod length xs + i) mod length xs \<noteq> h" if "i < c" for i
  proof
    assume "((h + 1) mod length xs + i) mod length xs = h"
    then have "(h + Suc i) mod length xs = (h + 0) mod length xs"
      using assms(1) by (simp add: mod_add_left_eq)
    moreover have "Suc i < length xs"
      using that assms(2) by simp
    ultimately show False
      using ring_index_inj [of "Suc i" "length xs" 0 h] assms by (metis Zero_not_Suc gr_implies_not0 not_gr_zero)
  qed
  then have "xs[h := x] ! (((h + 1) mod length xs + i) mod length xs)
      = xs ! (((h + 1) mod length xs + i) mod length xs)" if "i < c" for i
    using that by (intro nth_list_update_neq) metis
  then show ?thesis
    unfolding ring_list_def length_list_update by (intro map_cong refl) auto
qed

lemma ring_list_tl:
  assumes "0 < c" "h < length xs"
  shows "ring_list xs ((h + 1) mod length xs) (c - 1) = tl (ring_list xs h c)"
    and "hd (ring_list xs h c) = xs ! h"
  using assms ring_list_Cons [of h xs "c - 1"] by simp_all

text \<open>Every index of the array is some number of places after the head.\<close>

lemma ring_index_surj:
  assumes "h < N" "i < (N :: nat)"
  shows "\<exists>j < N. i = (h + j) mod N"
proof (intro exI [of _ "(i + N - h) mod N"] conjI)
  show "(i + N - h) mod N < N"
    using assms by simp
  show "i = (h + (i + N - h) mod N) mod N"
    using assms by (simp add: mod_add_right_eq)
qed

lemma ring_list_all_shift:
  "list_all P (ring_list xs h c) \<longleftrightarrow> (\<forall>j < c. P (xs ! ((h + j) mod length xs)))"
  by (auto simp: ring_list_def list_all_iff)

section \<open>The first element of an array that matches\<close>

text \<open>A loop over a \<open>GPtrArray\<close> that stops at the first match, then writes or removes there.\<close>

fun update_first :: "('a \<Rightarrow> bool) \<Rightarrow> ('a \<Rightarrow> 'a) \<Rightarrow> 'a list \<Rightarrow> 'a list" where
  "update_first P f [] = []"
| "update_first P f (x # xs) = (if P x then f x # xs else x # update_first P f xs)"

fun remove_first :: "('a \<Rightarrow> bool) \<Rightarrow> 'a list \<Rightarrow> 'a list" where
  "remove_first P [] = []"
| "remove_first P (x # xs) = (if P x then xs else x # remove_first P xs)"

lemma length_update_first [simp]: "length (update_first P f xs) = length xs"
  by (induction xs) simp_all

lemma map_update_first: "(\<And>x. g (f x) = g x) \<Longrightarrow> map g (update_first P f xs) = map g xs"
  by (induction xs) simp_all

lemma set_update_first: "y \<in> set (update_first P f xs) \<Longrightarrow> y \<in> set xs \<or> (\<exists>x \<in> set xs. P x \<and> y = f x)"
  by (induction xs) (auto split: if_splits)

lemma update_first_all: "(\<And>x. x \<in> set xs \<Longrightarrow> Q x) \<Longrightarrow> (\<And>x. x \<in> set xs \<Longrightarrow> P x \<Longrightarrow> Q (f x))
    \<Longrightarrow> \<forall>y \<in> set (update_first P f xs). Q y"
  by (induction xs) auto

lemma find_update_first:
  "(\<And>x. P x \<Longrightarrow> P (f x)) \<Longrightarrow> find P (update_first P f xs) = map_option f (find P xs)"
  by (induction xs) auto

lemma update_first_none: "find P xs = None \<Longrightarrow> update_first P f xs = xs"
  by (induction xs) (auto split: if_splits)

lemma set_remove_first: "set (remove_first P xs) \<subseteq> set xs"
  by (induction xs) auto

lemma remove_first_eq_filter:
  "distinct (map g xs) \<Longrightarrow> remove_first (\<lambda>x. g x = k) xs = filter (\<lambda>x. g x \<noteq> k) xs"
proof (induction xs)
  case Nil
  then show ?case by simp
next
  case (Cons x xs)
  have "g y \<noteq> g x" if "y \<in> set xs" for y
    using Cons.prems that by (metis distinct.simps(2) image_eqI list.set_map list.simps(9))
  then have "filter (\<lambda>y. g y \<noteq> g x) xs = xs"
    by (simp add: filter_id_conv)
  then show ?case
    using Cons by auto
qed

lemma distinct_remove_first: "distinct (map g xs) \<Longrightarrow> distinct (map g (remove_first P xs))"
  by (induction xs) (use set_remove_first in \<open>auto, fastforce\<close>)

lemma sorted_remove_first: "sorted (map g xs) \<Longrightarrow> sorted (map g (remove_first P xs))"
  by (induction xs) (use set_remove_first in \<open>auto, fastforce\<close>)

lemma find_eq_None_iff: "find P xs = None \<longleftrightarrow> (\<forall>x \<in> set xs. \<not> P x)"
  by (auto simp: find_None_iff)

lemma find_SomeD: "find P xs = Some x \<Longrightarrow> x \<in> set xs \<and> P x"
  by (induction xs) (auto split: if_splits)

lemma update_first_eq_map:
  "distinct (map g xs) \<Longrightarrow> update_first (\<lambda>x. g x = k) f xs = map (\<lambda>x. if g x = k then f x else x) xs"
proof (induction xs)
  case Nil
  then show ?case by simp
next
  case (Cons x xs)
  have "map (\<lambda>y. if g y = g x then f y else y) xs = xs"
    using Cons.prems by (intro map_idI) (metis distinct.simps(2) image_eqI list.set_map list.simps(9))
  then show ?case
    using Cons by auto
qed

text \<open>The position of the first occurrence.\<close>

primrec position :: "'a list \<Rightarrow> 'a \<Rightarrow> nat" where
  "position [] x = 0"
| "position (y # ys) x = (if x = y then 0 else Suc (position ys x))"

lemma position_less: "x \<in> set xs \<Longrightarrow> position xs x < length xs"
  by (induction xs) auto

lemma nth_position: "x \<in> set xs \<Longrightarrow> xs ! position xs x = x"
  by (induction xs) auto

lemma position_nth: "distinct xs \<Longrightarrow> i < length xs \<Longrightarrow> position xs (xs ! i) = i"
  by (induction xs arbitrary: i) (auto simp: nth_Cons split: nat.splits)

text \<open>A permutation whose elements come in the order of their positions is the list itself.\<close>

lemma permutation_by_position:
  assumes "distinct xs" "mset ys = mset xs" "sorted (map (position xs) ys)"
  shows "ys = xs"
proof -
  have len: "length ys = length xs" and set: "set ys = set xs" and "distinct ys"
    using assms(1,2) by (metis size_mset, metis set_mset_mset, metis mset_eq_imp_distinct_iff)
  have inj: "inj_on (position xs) (set xs)"
    by (rule inj_onI) (metis nth_position)
  then have d: "distinct (map (position xs) ys)"
    using \<open>distinct ys\<close> set by (simp add: distinct_map)
  have "position xs ` set xs = {0..<length xs}"
  proof (rule card_subset_eq)
    show "position xs ` set xs \<subseteq> {0..<length xs}"
      using position_less by fastforce
    show "card (position xs ` set xs) = card {0..<length xs}"
      using card_image [OF inj] distinct_card [OF assms(1)] by simp
  qed simp
  then have "set (map (position xs) ys) = set [0..<length xs]"
    using set by simp
  then have "map (position xs) ys = [0..<length xs]"
    using assms(3) d by (intro sorted_distinct_set_unique) simp_all
  also have "\<dots> = map (position xs) xs"
    using position_nth [OF assms(1)] by (intro nth_equalityI) simp_all
  finally show "ys = xs"
    using inj_on_map_eq_map [of "position xs" ys xs] inj set by simp
qed

section \<open>Tables keyed by strings\<close>

text \<open>
  A \<open>GHashTable\<close> with string keys is the list of its entries in the table's iteration
  order; every result below that depends on the order says so.
\<close>

type_synonym 'v htab = "(string \<times> 'v) list"

definition ht_lookup :: "'v htab \<Rightarrow> string \<Rightarrow> 'v option" where
  "ht_lookup t k = map_of t k"

definition ht_contains :: "'v htab \<Rightarrow> string \<Rightarrow> bool" where
  "ht_contains t k \<longleftrightarrow> ht_lookup t k \<noteq> None"

definition ht_insert :: "string \<Rightarrow> 'v \<Rightarrow> 'v htab \<Rightarrow> 'v htab" where
  "ht_insert k v t = AList.update k v t"

definition ht_remove :: "string \<Rightarrow> 'v htab \<Rightarrow> 'v htab" where
  "ht_remove k t = AList.delete k t"

definition ht_map :: "('v \<Rightarrow> 'w) \<Rightarrow> 'v htab \<Rightarrow> 'w htab" where
  "ht_map f t = map (\<lambda>(k, v). (k, f v)) t"

definition ht_wf :: "'v htab \<Rightarrow> bool" where
  "ht_wf t \<longleftrightarrow> distinct (map fst t)"

lemma ht_lookup_empty [simp]: "ht_lookup [] k = None"
  by (simp add: ht_lookup_def)

lemma ht_lookup_Cons: "ht_lookup (x # t) k = (if fst x = k then Some (snd x) else ht_lookup t k)"
  by (cases x) (auto simp: ht_lookup_def)

lemma ht_lookup_insert [simp]:
  "ht_lookup (ht_insert k v t) k' = (if k' = k then Some v else ht_lookup t k')"
  by (simp add: ht_lookup_def ht_insert_def update_conv')

lemma ht_lookup_remove [simp]:
  "ht_lookup (ht_remove k t) k' = (if k' = k then None else ht_lookup t k')"
  by (simp add: ht_lookup_def ht_remove_def delete_conv')

lemma ht_lookup_map [simp]: "ht_lookup (ht_map f t) k = map_option f (ht_lookup t k)"
  by (simp add: ht_lookup_def ht_map_def map_of_map)

lemma ht_contains_simps [simp]:
  "ht_contains (ht_insert k v t) k' \<longleftrightarrow> k' = k \<or> ht_contains t k'"
  "ht_contains (ht_remove k t) k' \<longleftrightarrow> k' \<noteq> k \<and> ht_contains t k'"
  "ht_contains (ht_map f t) k' \<longleftrightarrow> ht_contains t k'"
  "\<not> ht_contains [] k'"
  by (auto simp: ht_contains_def)

lemma ht_wf_simps [simp]:
  "ht_wf []"
  "ht_wf t \<Longrightarrow> ht_wf (ht_insert k v t)"
  "ht_wf t \<Longrightarrow> ht_wf (ht_remove k t)"
  "ht_wf (ht_map f t) \<longleftrightarrow> ht_wf t"
  by (simp_all add: ht_wf_def ht_insert_def ht_remove_def ht_map_def distinct_update
      distinct_delete case_prod_unfold comp_def)

lemma ht_lookup_in_set: "ht_lookup t k = Some v \<Longrightarrow> (k, v) \<in> set t"
  by (simp add: ht_lookup_def map_of_SomeD)

lemma ht_lookup_iff: "ht_wf t \<Longrightarrow> ht_lookup t k = Some v \<longleftrightarrow> (k, v) \<in> set t"
  by (simp add: ht_lookup_def ht_wf_def)

lemma ht_insert_entries: "(k', v') \<in> set (ht_insert k v t) \<Longrightarrow> (k' = k \<and> v' = v) \<or> (k', v') \<in> set t"
  by (induction t) (auto simp: ht_insert_def split: if_splits)

lemma ht_remove_entries: "(k', v') \<in> set (ht_remove k t) \<longleftrightarrow> k' \<noteq> k \<and> (k', v') \<in> set t"
  by (auto simp: ht_remove_def AList.delete_eq)

lemma ht_contains_iff: "ht_contains t k \<longleftrightarrow> k \<in> fst ` set t"
  by (auto simp: ht_contains_def ht_lookup_def map_of_eq_None_iff)

lemma ht_fresh_insert: "\<not> ht_contains t k \<Longrightarrow> ht_insert k v t = t @ [(k, v)]"
  by (induction t) (auto simp: ht_insert_def ht_contains_iff)

text \<open>The interface the components rely on: what a lookup returns after each update.\<close>

locale string_table =
  fixes lookup :: "'t \<Rightarrow> string \<Rightarrow> 'v option"
    and insert :: "string \<Rightarrow> 'v \<Rightarrow> 't \<Rightarrow> 't"
    and remove :: "string \<Rightarrow> 't \<Rightarrow> 't"
    and empty :: "'t"
  assumes lookup_empty: "lookup empty k = None"
    and lookup_insert: "lookup (insert k v t) = (lookup t)(k := Some v)"
    and lookup_remove: "lookup (remove k t) = (lookup t)(k := None)"
begin

lemma insert_remove_fresh:
  "lookup t k = None \<Longrightarrow> lookup (remove k (insert k v t)) = lookup t"
  by (auto simp: lookup_insert lookup_remove fun_eq_iff)

lemma insert_commute:
  "k \<noteq> k' \<Longrightarrow> lookup (insert k v (insert k' v' t)) = lookup (insert k' v' (insert k v t))"
  by (simp add: lookup_insert fun_upd_twist)

lemma dom_insert: "dom (lookup (insert k v t)) = Set.insert k (dom (lookup t))"
  by (simp add: lookup_insert)

lemma dom_remove: "dom (lookup (remove k t)) = dom (lookup t) - {k}"
  by (simp add: lookup_remove)

end

interpretation ht: string_table ht_lookup ht_insert ht_remove "[]"
  by unfold_locales (auto simp: fun_eq_iff)

section \<open>Bounded queues that drop their oldest element\<close>

text \<open>
  The contract several components share: a queue of at most \<open>cap\<close> elements whose
  \<open>put\<close> hands back the element it had to drop.
\<close>

locale drop_oldest_queue =
  fixes inv :: "'s \<Rightarrow> bool"
    and view :: "'s \<Rightarrow> 'a list"
    and cap :: nat
    and put :: "'a \<Rightarrow> 's \<Rightarrow> 's"
    and victim :: "'s \<Rightarrow> 'a option"
  assumes cap_pos: "0 < cap"
    and view_bound: "inv s \<Longrightarrow> length (view s) \<le> cap"
    and inv_put: "inv s \<Longrightarrow> inv (put x s)"
    and view_put: "inv s \<Longrightarrow>
      view (put x s) = (if length (view s) = cap then tl (view s) else view s) @ [x]"
    and victim_eq: "inv s \<Longrightarrow>
      victim s = (if length (view s) = cap then Some (hd (view s)) else None)"
begin

text \<open>What a run of puts drops, in order, and the state it leaves.\<close>

fun put_all :: "'a list \<Rightarrow> 's \<Rightarrow> 's" where
  "put_all [] s = s"
| "put_all (x # xs) s = put_all xs (put x s)"

fun dropped :: "'a list \<Rightarrow> 's \<Rightarrow> 'a list" where
  "dropped [] s = []"
| "dropped (x # xs) s = (case victim s of None \<Rightarrow> [] | Some y \<Rightarrow> [y]) @ dropped xs (put x s)"

lemma inv_put_all: "inv s \<Longrightarrow> inv (put_all xs s)"
  by (induction xs arbitrary: s) (auto intro: inv_put)

lemma put_step:
  assumes "inv s"
  shows "(case victim s of None \<Rightarrow> [] | Some y \<Rightarrow> [y]) @ view (put x s) = view s @ [x]"
  using assms cap_pos by (cases "view s") (auto simp: view_put victim_eq)

text \<open>Nothing is lost, duplicated or reordered: what was dropped, then what is held.\<close>

lemma put_all_conserves:
  "inv s \<Longrightarrow> dropped xs s @ view (put_all xs s) = view s @ xs"
proof (induction xs arbitrary: s)
  case Nil
  then show ?case by simp
next
  case (Cons x xs)
  then have IH: "dropped xs (put x s) @ view (put_all xs (put x s)) = view (put x s) @ xs"
    by (simp add: inv_put)
  let ?v = "case victim s of None \<Rightarrow> [] | Some y \<Rightarrow> [y]"
  have "dropped (x # xs) s @ view (put_all (x # xs) s) = ?v @ (view (put x s) @ xs)"
    by (simp add: IH)
  also have "\<dots> = (view s @ [x]) @ xs"
    using put_step [OF Cons.prems, of x] by (simp only: append_assoc [symmetric])
  finally show ?case by simp
qed

lemma put_all_keeps_newest:
  assumes "inv s" and "cap \<le> length xs"
  shows "view (put_all xs s) = drop (length xs - cap) xs"
proof -
  have full: "length (view (put_all ys t)) = min cap (length (view t) + length ys)" if "inv t" for ys t
    using that
  proof (induction ys arbitrary: t)
    case Nil
    then show ?case using view_bound [of t] by simp
  next
    case (Cons y ys)
    then show ?case
      using view_bound [OF Cons.prems] cap_pos by (auto simp: inv_put view_put)
  qed
  have len: "length (view (put_all xs s)) = cap"
    using full [OF assms(1), of xs] assms(2) by simp
  have "view (put_all xs s) = drop (length (dropped xs s)) (view s @ xs)"
    using put_all_conserves [OF assms(1), of xs] by (metis append_eq_conv_conj)
  moreover have "length (dropped xs s) = length (view s) + (length xs - cap)"
    using arg_cong [OF put_all_conserves [OF assms(1), of xs], of length] len assms(2) by simp
  ultimately show ?thesis by simp
qed

end

section \<open>Bounded queues that refuse an element when full\<close>

datatype 'a fifo_call = Fifo_push 'a | Fifo_pop

datatype 'a fifo_reply = Pushed bool | Popped "'a option"

text \<open>The reference: a list of at most \<open>n\<close> elements.\<close>

fun fifo_list_call :: "nat \<Rightarrow> 'a fifo_call \<Rightarrow> 'a list \<Rightarrow> 'a fifo_reply \<times> 'a list" where
  "fifo_list_call n (Fifo_push x) xs = (if length xs < n then (Pushed True, xs @ [x]) else (Pushed False, xs))"
| "fifo_list_call n Fifo_pop xs = (case xs of [] \<Rightarrow> (Popped None, []) | y # ys \<Rightarrow> (Popped (Some y), ys))"

fun run_calls :: "('c \<Rightarrow> 's \<Rightarrow> 'r \<times> 's) \<Rightarrow> 'c list \<Rightarrow> 's \<Rightarrow> 'r list \<times> 's" where
  "run_calls f [] s = ([], s)"
| "run_calls f (c # cs) s = (let (r, s') = f c s; (rs, s'') = run_calls f cs s' in (r # rs, s''))"

text \<open>A simulation that holds for each call holds for every sequence of calls.\<close>

lemma run_calls_simulation:
  assumes "R a b"
    and "\<And>c a b. R a b \<Longrightarrow> fst (f c a) = fst (g c b) \<and> R (snd (f c a)) (snd (g c b))"
  shows "fst (run_calls f cs a) = fst (run_calls g cs b) \<and> R (snd (run_calls f cs a)) (snd (run_calls g cs b))"
  using assms(1)
proof (induction cs arbitrary: a b)
  case Nil
  then show ?case by simp
next
  case (Cons c cs)
  then show ?case
    using assms(2) [OF Cons.prems, of c] Cons.IH [of "snd (f c a)" "snd (g c b)"]
    by (simp add: case_prod_unfold Let_def)
qed

locale bounded_fifo =
  fixes inv :: "'s \<Rightarrow> bool"
    and view :: "'s \<Rightarrow> 'a list"
    and room :: "'s \<Rightarrow> nat"
    and push :: "'s \<Rightarrow> 'a \<Rightarrow> bool \<times> 's"
    and pop :: "'s \<Rightarrow> 'a option \<times> 's"
  assumes view_le: "inv s \<Longrightarrow> length (view s) \<le> room s"
    and push_ok: "inv s \<Longrightarrow> length (view s) < room s \<Longrightarrow>
      fst (push s x) \<and> inv (snd (push s x)) \<and> view (snd (push s x)) = view s @ [x]
        \<and> room (snd (push s x)) = room s"
    and push_refused: "inv s \<Longrightarrow> length (view s) = room s \<Longrightarrow> push s x = (False, s)"
    and pop_ok: "inv s \<Longrightarrow> view s = y # ys \<Longrightarrow>
      fst (pop s) = Some y \<and> inv (snd (pop s)) \<and> view (snd (pop s)) = ys \<and> room (snd (pop s)) = room s"
    and pop_none: "inv s \<Longrightarrow> view s = [] \<Longrightarrow> pop s = (None, s)"
begin

fun do_call :: "'a fifo_call \<Rightarrow> 's \<Rightarrow> 'a fifo_reply \<times> 's" where
  "do_call (Fifo_push x) s = (let (ok, s') = push s x in (Pushed ok, s'))"
| "do_call Fifo_pop s = (let (r, s') = pop s in (Popped r, s'))"

text \<open>Every sequence of calls answers as the list does.\<close>

lemma call_simulates:
  assumes "inv s \<and> room s = n \<and> view s = xs"
  shows "fst (do_call c s) = fst (fifo_list_call n c xs)
    \<and> (inv (snd (do_call c s)) \<and> room (snd (do_call c s)) = n
      \<and> view (snd (do_call c s)) = snd (fifo_list_call n c xs))"
proof (cases c)
  case (Fifo_push x)
  show ?thesis
  proof (cases "length (view s) < room s")
    case True
    then show ?thesis
      using push_ok [of s x] assms Fifo_push by (simp add: case_prod_unfold Let_def)
  next
    case False
    then show ?thesis
      using push_refused [of s x] view_le [of s] assms Fifo_push by simp
  qed
next
  case Fifo_pop
  then show ?thesis
    using pop_ok [of s "hd xs" "tl xs"] pop_none [of s] assms
    by (cases xs) (simp_all add: case_prod_unfold Let_def)
qed

lemma calls_refine_list:
  assumes "inv s"
  shows "fst (run_calls do_call cs s) = fst (run_calls (fifo_list_call (room s)) cs (view s))"
  using run_calls_simulation [of "\<lambda>t xs. inv t \<and> room t = room s \<and> view t = xs" s "view s"
      do_call "fifo_list_call (room s)" cs] call_simulates assms
  by blast

end

section \<open>Resources owned by objects\<close>

text \<open>
  \<open>owns F m R\<close>: the resources \<open>R\<close> are those the objects of the memory \<open>m\<close> hold, each held by one
  object only. \<open>F\<close> gives what an object holds.
\<close>

definition owned :: "('e \<Rightarrow> 'r set) \<Rightarrow> 'e option \<Rightarrow> 'r set" where
  "owned F x = (case x of None \<Rightarrow> {} | Some e \<Rightarrow> F e)"

lemma owned_simps [simp]: "owned F None = {}" "owned F (Some e) = F e"
  by (simp_all add: owned_def)

definition owns :: "('e \<Rightarrow> 'r set) \<Rightarrow> ('h \<rightharpoonup> 'e) \<Rightarrow> 'r set \<Rightarrow> bool" where
  "owns F m R \<longleftrightarrow> R = (\<Union>h. owned F (m h)) \<and> (\<forall>h h'. h \<noteq> h' \<longrightarrow> owned F (m h) \<inter> owned F (m h') = {})"

lemma UN_split_at: "(\<Union>k. f k) = f h \<union> (\<Union>k \<in> - {h}. f k)"
  by blast

lemma owns_upd:
  assumes "owns F m R" "owned F x \<inter> (R - owned F (m h)) = {}"
  shows "owns F (m(h := x)) ((R - owned F (m h)) \<union> owned F x)"
proof -
  have R: "R = (\<Union>h. owned F (m h))" and dis: "\<And>h h'. h \<noteq> h' \<Longrightarrow> owned F (m h) \<inter> owned F (m h') = {}"
    using assms(1) by (auto simp: owns_def)
  have others: "R - owned F (m h) = (\<Union>k \<in> - {h}. owned F (m k))"
  proof (intro equalityI subsetI)
    fix r assume "r \<in> (\<Union>k \<in> - {h}. owned F (m k))"
    then obtain k where "k \<noteq> h" "r \<in> owned F (m k)" by auto
    then show "r \<in> R - owned F (m h)"
      using dis [of k h] R by blast
  next
    fix r assume "r \<in> R - owned F (m h)"
    then obtain k where "r \<in> owned F (m k)" "r \<notin> owned F (m h)"
      using R by blast
    then show "r \<in> (\<Union>k \<in> - {h}. owned F (m k))"
      by (cases "k = h") auto
  qed
  have away: "owned F x \<inter> owned F (m k) = {}" if "k \<noteq> h" for k
    using assms(2) that unfolding others by blast
  have "(R - owned F (m h)) \<union> owned F x = (\<Union>k. owned F ((m(h := x)) k))"
  proof -
    have "(\<Union>k. owned F ((m(h := x)) k)) = owned F x \<union> (\<Union>k \<in> - {h}. owned F (m k))"
      unfolding UN_split_at [of "\<lambda>k. owned F ((m(h := x)) k)" h] by simp
    then show ?thesis
      unfolding others by (simp only: Un_commute)
  qed
  moreover have "owned F ((m(h := x)) k) \<inter> owned F ((m(h := x)) k') = {}" if "k \<noteq> k'" for k k'
    using dis [OF that] away that by (auto simp: Int_commute)
  ultimately show ?thesis
    by (simp add: owns_def)
qed

lemma owns_subset:
  assumes "owns F m R" "m h = Some e"
  shows "F e \<subseteq> R"
proof -
  have "owned F (m h) \<subseteq> (\<Union>h. owned F (m h))"
    by blast
  then show ?thesis
    using assms by (simp add: owns_def)
qed

lemma owns_empty: "owns F (\<lambda>_. None) {}"
  by (simp add: owns_def)

lemma owns_no_objects: "owns F m R \<Longrightarrow> (\<And>h. m h = None) \<Longrightarrow> R = {}"
  by (simp add: owns_def)

end
