(* ===== verification/Spsc_Queue.thy ===== *)
theory Spsc_Queue
  imports Sbs_Prelude
begin

text \<open>
  The single-producer single-consumer queue of \<open>src/common/spsc_queue.c\<close>.
  \<open>next_pow2\<close>, \<open>sbs_spsc_queue_new\<close>, \<open>_push\<close>, \<open>_pop\<close>, \<open>_count\<close> and \<open>_capacity\<close> are
  translated with 32-bit indices; a NULL pointer is \<open>None\<close>. The sequential operations refine a
  list. For the two threads, every atomic load and store and every plain access to a slot is one
  step (\<open>producer_step\<close>, \<open>consumer_step\<close>); the steps interleave in any order given by a schedule,
  and the items popped are always a prefix of the items pushed.
\<close>

section \<open>The data and the operations\<close>

record 'a spsc_queue =
  sq_slots :: "'a option list"
  sq_capacity :: u32
  sq_mask :: u32
  sq_head :: u32
  sq_tail :: u32

definition SBS_SPSC_MAX_CAPACITY :: u32 where
  "SBS_SPSC_MAX_CAPACITY = 4096"

definition next_pow2 :: "u32 \<Rightarrow> u32" where
  "next_pow2 v =
     (let v = v - 1;
          v = v OR drop_bit 1 v;
          v = v OR drop_bit 2 v;
          v = v OR drop_bit 4 v;
          v = v OR drop_bit 8 v;
          v = v OR drop_bit 16 v
      in v + 1)"

text \<open>The two flags say whether each \<open>calloc\<close> succeeds.\<close>

definition sbs_spsc_queue_new :: "bool \<Rightarrow> bool \<Rightarrow> u32 \<Rightarrow> 'a spsc_queue option" where
  "sbs_spsc_queue_new q_ok slots_ok capacity =
     (if capacity = 0 \<or> SBS_SPSC_MAX_CAPACITY < capacity then None
      else if \<not> q_ok then None
      else let c = next_pow2 capacity in
        if \<not> slots_ok then None
        else Some \<lparr>sq_slots = replicate (unat c) None, sq_capacity = c, sq_mask = c - 1,
                   sq_head = 0, sq_tail = 0\<rparr>)"

definition sbs_spsc_queue_push :: "'a spsc_queue \<Rightarrow> 'a option \<Rightarrow> bool \<times> 'a spsc_queue" where
  "sbs_spsc_queue_push q item =
     (let tail = sq_tail q; next = (tail + 1) AND sq_mask q in
      if next = sq_head q then (False, q)
      else (True, q\<lparr>sq_slots := (sq_slots q)[unat tail := item], sq_tail := next\<rparr>))"

definition sbs_spsc_queue_pop :: "'a spsc_queue \<Rightarrow> 'a option \<times> 'a spsc_queue" where
  "sbs_spsc_queue_pop q =
     (let head = sq_head q in
      if head = sq_tail q then (None, q)
      else (sq_slots q ! unat head,
            q\<lparr>sq_slots := (sq_slots q)[unat head := None],
              sq_head := (head + 1) AND sq_mask q\<rparr>))"

definition sbs_spsc_queue_count :: "'a spsc_queue \<Rightarrow> u32" where
  "sbs_spsc_queue_count q = (sq_tail q - sq_head q) AND sq_mask q"

definition sbs_spsc_queue_capacity :: "'a spsc_queue \<Rightarrow> u32" where
  "sbs_spsc_queue_capacity q = sq_capacity q - 1"

lemmas spsc_defs = sbs_spsc_queue_push_def sbs_spsc_queue_pop_def Let_def

section \<open>Rounding the capacity up to a power of two\<close>

text \<open>Or-ing in the shifted copies fills every bit below the highest one.\<close>

lemma bit_smear:
  fixes w :: u32
  shows "bit (w OR drop_bit n w) i \<longleftrightarrow> bit w i \<or> bit w (i + n)"
  by (simp add: bit_or_iff bit_drop_bit_eq add.commute)

definition smear :: "u32 \<Rightarrow> u32" where
  "smear v =
     (let v = v OR drop_bit 1 v; v = v OR drop_bit 2 v; v = v OR drop_bit 4 v;
          v = v OR drop_bit 8 v in v OR drop_bit 16 v)"

lemma next_pow2_smear: "next_pow2 v = smear (v - 1) + 1"
  by (simp add: next_pow2_def smear_def Let_def)

lemma ex_less_double:
  "(\<exists>d < n + n. P d) \<longleftrightarrow> (\<exists>d < n. P d) \<or> (\<exists>d < n. P (n + d))" for n :: nat
proof
  assume "\<exists>d < n + n. P d"
  then obtain d where d: "d < n + n" "P d" by blast
  show "(\<exists>d < n. P d) \<or> (\<exists>d < n. P (n + d))"
  proof (cases "d < n")
    case True
    with d show ?thesis by blast
  next
    case False
    with d have "d - n < n" "P (n + (d - n))" by simp_all
    then show ?thesis by blast
  qed
next
  assume "(\<exists>d < n. P d) \<or> (\<exists>d < n. P (n + d))"
  then show "\<exists>d < n + n. P d"
    by (meson add_strict_left_mono trans_less_add1)
qed

lemma bit_smear_eq: "bit (smear v) i \<longleftrightarrow> (\<exists>d < 32. bit v (i + d))"
proof -
  define w1 where "w1 = v OR drop_bit 1 v"
  define w2 where "w2 = w1 OR drop_bit 2 w1"
  define w4 where "w4 = w2 OR drop_bit 4 w2"
  define w8 where "w8 = w4 OR drop_bit 8 w4"
  have split_lt: "(\<exists>d < n + n. P (i + d)) \<longleftrightarrow> (\<exists>d < n. P (i + d)) \<or> (\<exists>d < n. P (i + n + d))"
    for n i :: nat and P
    using ex_less_double [of n "\<lambda>d. P (i + d)"] by (simp add: add.assoc)
  have b1: "bit w1 i \<longleftrightarrow> (\<exists>d < 2. bit v (i + d))" for i
    using split_lt [of 1 "bit v" i] by (simp add: w1_def bit_smear numeral_2_eq_2)
  have b2: "bit w2 i \<longleftrightarrow> (\<exists>d < 4. bit v (i + d))" for i
    using split_lt [of 2 "bit v" i] by (simp add: w2_def bit_smear b1 add.assoc)
  have b4: "bit w4 i \<longleftrightarrow> (\<exists>d < 8. bit v (i + d))" for i
    using split_lt [of 4 "bit v" i] by (simp add: w4_def bit_smear b2 add.assoc)
  have b8: "bit w8 i \<longleftrightarrow> (\<exists>d < 16. bit v (i + d))" for i
    using split_lt [of 8 "bit v" i] by (simp add: w8_def bit_smear b4 add.assoc)
  have "smear v = w8 OR drop_bit 16 w8"
    by (simp add: smear_def w1_def w2_def w4_def w8_def Let_def)
  then show ?thesis
    using split_lt [of 16 "bit v" i] by (simp add: bit_smear b8 add.assoc)
qed

lemma next_pow2_correct:
  assumes "0 < v" and "v \<le> 4096"
  shows "\<exists>k \<le> 12. next_pow2 v = 2 ^ k \<and> unat v \<le> 2 ^ k \<and> 2 ^ k < 2 * unat v"
proof -
  define m where "m = unat (v - 1)"
  have v: "unat v = Suc m"
    using assms(1) by (simp add: m_def unat_minus_one word_greater_zero_iff unat_gt_0)
  have "unat v \<le> unat (4096 :: u32)"
    using assms(2) by (simp add: word_le_nat_alt)
  then have m: "m < 4096"
    using v by simp
  have bit: "bit (v - 1) i \<longleftrightarrow> bit m i" for i
    by (simp add: m_def bit_unsigned_iff)
  show ?thesis
  proof (cases "m = 0")
    case True
    then have "v = 1"
      using v by (metis One_nat_def unat_1 word_unat_eq_iff)
    then show ?thesis
      by (intro exI [of _ 0]) (simp add: next_pow2_def)
  next
    case False
    then obtain j where j: "2 ^ j \<le> m" "m < 2 ^ Suc j"
      using ex_power_ivl1 [of 2 m] by auto
    have "(2::nat) ^ j < 2 ^ 12"
      using j(1) m by simp
    then have j12: "j < 12"
      by (simp only: power_strict_increasing_iff)
    have top: "m div 2 ^ j = 1"
      using j by (intro div_nat_eqI) simp_all
    have below: "bit m i \<Longrightarrow> i \<le> j" for i
    proof (rule ccontr)
      assume "bit m i" "\<not> i \<le> j"
      then have "m < 2 ^ i"
        using j(2) power_increasing [of "Suc j" i "2::nat"] by linarith
      with \<open>bit m i\<close> show False
        by (simp add: bit_iff_odd)
    qed
    have "bit (smear (v - 1)) i \<longleftrightarrow> i \<le> j" for i
    proof
      assume "bit (smear (v - 1)) i"
      then show "i \<le> j"
        using below by (force simp: bit_smear_eq bit)
    next
      assume i: "i \<le> j"
      have "bit m (i + (j - i))"
        using i top by (simp add: bit_iff_odd)
      then show "bit (smear (v - 1)) i"
        using i j12 by (auto simp: bit_smear_eq bit intro!: exI [of _ "j - i"])
    qed
    then have "smear (v - 1) = mask (Suc j)"
      using j12 by (intro bit_word_eqI) (auto simp: bit_mask_iff less_Suc_eq_le)
    then have "next_pow2 v = 2 ^ Suc j"
      by (simp add: next_pow2_smear mask_eq_exp_minus_1)
    then show ?thesis
      using v j j12 by (intro exI [of _ "Suc j"]) auto
  qed
qed

section \<open>Well-formed queues and their contents\<close>

definition sq_size :: "'a spsc_queue \<Rightarrow> nat" where
  "sq_size q = length (sq_slots q)"

text \<open>The slots are \<open>2 ^ k\<close> many, the mask selects them, and both indices are below them.\<close>

definition sq_wf :: "'a spsc_queue \<Rightarrow> bool" where
  "sq_wf q \<longleftrightarrow> (\<exists>k \<le> 12. sq_size q = 2 ^ k \<and> sq_capacity q = 2 ^ k \<and> sq_mask q = mask k)
     \<and> unat (sq_head q) < sq_size q \<and> unat (sq_tail q) < sq_size q"

definition sq_used :: "'a spsc_queue \<Rightarrow> nat" where
  "sq_used q = (unat (sq_tail q) + sq_size q - unat (sq_head q)) mod sq_size q"

definition sq_view :: "'a spsc_queue \<Rightarrow> 'a option list" where
  "sq_view q = ring_list (sq_slots q) (unat (sq_head q)) (sq_used q)"

lemma sq_wf_size_pos: "sq_wf q \<Longrightarrow> 0 < sq_size q"
  by (auto simp: sq_wf_def)

lemma sq_used_less: "sq_wf q \<Longrightarrow> sq_used q < sq_size q"
  by (simp add: sq_used_def sq_wf_size_pos)

lemma sq_tail_eq:
  assumes "sq_wf q"
  shows "unat (sq_tail q) = (unat (sq_head q) + sq_used q) mod sq_size q"
proof -
  have "(unat (sq_head q) + sq_used q) mod sq_size q
      = (unat (sq_head q) + (unat (sq_tail q) + sq_size q - unat (sq_head q))) mod sq_size q"
    by (simp add: sq_used_def mod_add_right_eq)
  also have "\<dots> = unat (sq_tail q)"
    using assms by (simp add: sq_wf_def)
  finally show ?thesis by simp
qed

lemma sq_used_unique:
  assumes "sq_wf q" "c < sq_size q"
    and "unat (sq_tail q) = (unat (sq_head q) + c) mod sq_size q"
  shows "sq_used q = c"
  using ring_index_inj [of "sq_used q" "sq_size q" c "unat (sq_head q)"]
    sq_tail_eq [OF assms(1)] sq_used_less [OF assms(1)] assms(2,3) by simp

text \<open>Advancing an index: the word operation is addition modulo the size.\<close>

lemma mask_advance:
  fixes w :: u32
  assumes "sq_wf q" "unat w < sq_size q"
  shows "unat ((w + 1) AND sq_mask q) = (unat w + 1) mod sq_size q"
proof -
  obtain k where k: "k \<le> 12" "sq_size q = 2 ^ k" "sq_mask q = mask k"
    using assms(1) by (auto simp: sq_wf_def)
  have "(2::nat) ^ k \<le> 2 ^ 12"
    using k(1) by (intro power_increasing) auto
  then have small: "unat w + 1 < 2 ^ LENGTH(32)"
    using assms(2) k(2) by simp
  have "unat ((w + 1) AND sq_mask q) = take_bit k (unat (w + 1))"
    by (simp add: k(3) take_bit_eq_mask [symmetric] unsigned_take_bit_eq)
  also have "unat (w + 1) = unat w + 1"
    using small by (simp add: unat_word_ariths)
  finally show ?thesis
    by (simp add: take_bit_eq_mod k(2))
qed

lemma mask_advance_less:
  assumes "sq_wf q" "unat w < sq_size q"
  shows "unat ((w + 1) AND sq_mask q) < sq_size q"
  using mask_advance [OF assms] sq_wf_size_pos [OF assms(1)] by simp

lemma sq_empty_iff: "sq_wf q \<Longrightarrow> sq_head q = sq_tail q \<longleftrightarrow> sq_used q = 0"
  using sq_tail_eq [of q] sq_used_unique [of q 0] sq_wf_size_pos [of q]
  by (auto simp: word_unat_eq_iff sq_wf_def)

lemma sq_full_iff:
  assumes "sq_wf q"
  shows "(sq_tail q + 1) AND sq_mask q = sq_head q \<longleftrightarrow> Suc (sq_used q) = sq_size q"
proof -
  have next_tail: "unat ((sq_tail q + 1) AND sq_mask q) = (unat (sq_head q) + Suc (sq_used q)) mod sq_size q"
    using mask_advance [OF assms, of "sq_tail q"] assms sq_tail_eq [OF assms]
    by (simp add: sq_wf_def mod_Suc_eq)
  have head: "unat (sq_head q) < sq_size q"
    using assms by (simp add: sq_wf_def)
  show ?thesis
  proof
    assume "(sq_tail q + 1) AND sq_mask q = sq_head q"
    then have "(unat (sq_head q) + Suc (sq_used q)) mod sq_size q = (unat (sq_head q) + 0) mod sq_size q"
      using next_tail head by simp
    then show "Suc (sq_used q) = sq_size q"
      using ring_index_inj [of "Suc (sq_used q)" "sq_size q" 0 "unat (sq_head q)"]
        sq_used_less [OF assms] by (metis Suc_lessI less_nat_zero_code neq0_conv sq_wf_size_pos assms nat.distinct(1))
  next
    assume "Suc (sq_used q) = sq_size q"
    then show "(sq_tail q + 1) AND sq_mask q = sq_head q"
      using next_tail head by (simp add: word_unat_eq_iff)
  qed
qed

lemma sq_view_length [simp]: "length (sq_view q) = sq_used q"
  by (simp add: sq_view_def)

lemma unat_pow2:
  assumes "k \<le> 12"
  shows "unat (2 ^ k :: u32) = 2 ^ k"
proof -
  have "(2::nat) ^ k \<le> 2 ^ 12"
    using assms by (intro power_increasing) auto
  then have "unat (of_nat (2 ^ k) :: u32) = 2 ^ k"
    using assms by (subst unsigned_of_nat) (simp add: take_bit_nat_eq_self)
  then show ?thesis
    by simp
qed

lemma new_wf:
  assumes "sbs_spsc_queue_new q_ok s_ok cap = Some q"
  shows "sq_wf q \<and> sq_view q = [] \<and> unat cap \<le> sq_size q"
proof -
  have cap: "0 < cap" "cap \<le> 4096"
    using assms by (auto simp: sbs_spsc_queue_new_def SBS_SPSC_MAX_CAPACITY_def word_neq_0_conv
        linorder_not_less split: if_splits)
  obtain k where k: "k \<le> 12" "next_pow2 cap = 2 ^ k" "unat cap \<le> 2 ^ k"
    using next_pow2_correct [OF cap] by auto
  have "unat (2 ^ k :: u32) = 2 ^ k"
    using k(1) by (rule unat_pow2)
  then show ?thesis
    using assms k
    by (auto simp: sbs_spsc_queue_new_def sq_wf_def sq_size_def sq_view_def sq_used_def Let_def
        mask_eq_exp_minus_1 split: if_splits)
qed

section \<open>The four writes\<close>

text \<open>
  A push writes the slot at the tail and then publishes the tail; a pop clears the slot at the
  head and then publishes the head. Each write alone keeps the queue well-formed.
\<close>

lemma sq_used_slots [simp]: "sq_used (q\<lparr>sq_slots := (sq_slots q)[i := x]\<rparr>) = sq_used q"
  by (simp add: sq_used_def sq_size_def)

lemma sq_wf_slots [simp]: "sq_wf (q\<lparr>sq_slots := (sq_slots q)[i := x]\<rparr>) \<longleftrightarrow> sq_wf q"
  by (simp add: sq_wf_def sq_size_def)

lemma sq_head_less: "sq_wf q \<Longrightarrow> unat (sq_head q) < length (sq_slots q)"
  by (simp add: sq_wf_def sq_size_def)

lemma sq_tail_less: "sq_wf q \<Longrightarrow> unat (sq_tail q) < length (sq_slots q)"
  by (simp add: sq_wf_def sq_size_def)

lemma view_store_tail [simp]:
  assumes "sq_wf q"
  shows "sq_view (q\<lparr>sq_slots := (sq_slots q)[unat (sq_tail q) := x]\<rparr>) = sq_view q"
  using ring_list_update_other [of "sq_used q" "sq_used q" "sq_slots q" "unat (sq_head q)" x]
    sq_used_less [OF assms] sq_tail_eq [OF assms]
  by (simp add: sq_view_def sq_size_def)

lemma publish_tail:
  assumes "sq_wf q" and room: "Suc (sq_used q) < sq_size q"
  defines "q' \<equiv> q\<lparr>sq_tail := (sq_tail q + 1) AND sq_mask q\<rparr>"
  shows "sq_wf q'" and "sq_used q' = Suc (sq_used q)"
    and "sq_view q' = sq_view q @ [sq_slots q ! unat (sq_tail q)]"
proof -
  have tail: "unat (sq_tail q) < sq_size q"
    using assms(1) by (simp add: sq_wf_def)
  show wf: "sq_wf q'"
    using assms(1) mask_advance_less [OF assms(1) tail] by (simp add: q'_def sq_wf_def sq_size_def)
  show used: "sq_used q' = Suc (sq_used q)"
    using mask_advance [OF assms(1) tail] sq_tail_eq [OF assms(1)] room
    by (intro sq_used_unique wf) (simp_all add: q'_def sq_size_def mod_Suc_eq)
  show "sq_view q' = sq_view q @ [sq_slots q ! unat (sq_tail q)]"
    using sq_tail_eq [OF assms(1)] used by (simp add: sq_view_def q'_def ring_list_Suc sq_size_def)
qed

lemma tl_view_clear_head [simp]:
  assumes "sq_wf q" and "0 < sq_used q"
  shows "tl (sq_view (q\<lparr>sq_slots := (sq_slots q)[unat (sq_head q) := x]\<rparr>)) = tl (sq_view q)"
  using ring_list_head_update [OF sq_head_less [OF assms(1)], of "sq_used q - 1" x]
    ring_list_tl(1) [OF assms(2) sq_head_less [OF assms(1)]]
    ring_list_tl(1) [OF assms(2), of "unat (sq_head q)" "(sq_slots q)[unat (sq_head q) := x]"]
    sq_head_less [OF assms(1)] sq_used_less [OF assms(1)]
  by (simp add: sq_view_def sq_size_def)

lemma hd_view:
  assumes "sq_wf q" and "0 < sq_used q"
  shows "hd (sq_view q) = sq_slots q ! unat (sq_head q)"
  using ring_list_tl(2) [OF assms(2) sq_head_less [OF assms(1)]] by (simp add: sq_view_def)

lemma publish_head:
  assumes "sq_wf q" and some: "0 < sq_used q"
  defines "q' \<equiv> q\<lparr>sq_head := (sq_head q + 1) AND sq_mask q\<rparr>"
  shows "sq_wf q'" and "sq_used q' = sq_used q - 1" and "sq_view q' = tl (sq_view q)"
proof -
  have head: "unat (sq_head q) < sq_size q"
    using assms(1) by (simp add: sq_wf_def)
  have size: "sq_size q' = sq_size q"
    by (simp add: q'_def sq_size_def)
  have adv: "unat (sq_head q') = (unat (sq_head q) + 1) mod sq_size q"
    using mask_advance [OF assms(1) head] by (simp add: q'_def)
  show wf: "sq_wf q'"
    using assms(1) mask_advance_less [OF assms(1) head] by (simp add: q'_def sq_wf_def sq_size_def)
  show used: "sq_used q' = sq_used q - 1"
  proof (rule sq_used_unique [OF wf])
    show "sq_used q - 1 < sq_size q'"
      using sq_used_less [OF assms(1)] size by simp
    have "unat (sq_tail q') = (unat (sq_head q) + 1 + (sq_used q - 1)) mod sq_size q"
      using sq_tail_eq [OF assms(1)] some by (simp add: q'_def)
    also have "\<dots> = ((unat (sq_head q) + 1) mod sq_size q + (sq_used q - 1)) mod sq_size q"
      by (rule mod_add_left_eq [symmetric])
    finally show "unat (sq_tail q') = (unat (sq_head q') + (sq_used q - 1)) mod sq_size q'"
      by (simp only: adv size)
  qed
  show "sq_view q' = tl (sq_view q)"
    using ring_list_tl(1) [OF some sq_head_less [OF assms(1)]] adv used
    by (simp add: sq_view_def q'_def sq_size_def)
qed

section \<open>The sequential operations refine a list\<close>

lemma push_full:
  assumes "sq_wf q"
  shows "fst (sbs_spsc_queue_push q x) \<longleftrightarrow> Suc (sq_used q) < sq_size q"
    and "\<not> Suc (sq_used q) < sq_size q \<Longrightarrow> snd (sbs_spsc_queue_push q x) = q"
  using sq_full_iff [OF assms] sq_used_less [OF assms] by (auto simp: spsc_defs)

lemma push_view:
  assumes "sq_wf q" "Suc (sq_used q) < sq_size q"
  shows "sq_wf (snd (sbs_spsc_queue_push q x))"
    and "sq_view (snd (sbs_spsc_queue_push q x)) = sq_view q @ [x]"
proof -
  let ?p = "q\<lparr>sq_slots := (sq_slots q)[unat (sq_tail q) := x]\<rparr>"
  have q': "snd (sbs_spsc_queue_push q x) = ?p\<lparr>sq_tail := (sq_tail ?p + 1) AND sq_mask ?p\<rparr>"
    using sq_full_iff [OF assms(1)] assms(2) by (simp add: spsc_defs)
  have p: "sq_wf ?p" "Suc (sq_used ?p) < sq_size ?p"
    using assms by (simp, simp add: sq_size_def)
  show "sq_wf (snd (sbs_spsc_queue_push q x))"
    using publish_tail(1) [OF p] by (simp only: q')
  have "sq_view (snd (sbs_spsc_queue_push q x)) = sq_view ?p @ [sq_slots ?p ! unat (sq_tail ?p)]"
    using publish_tail(3) [OF p] by (simp only: q')
  then show "sq_view (snd (sbs_spsc_queue_push q x)) = sq_view q @ [x]"
    using assms(1) sq_tail_less [OF assms(1)] by simp
qed

lemma pop_empty: "sq_wf q \<Longrightarrow> sq_used q = 0 \<Longrightarrow> sbs_spsc_queue_pop q = (None, q)"
  using sq_empty_iff [of q] by (simp add: spsc_defs)

lemma pop_view:
  assumes "sq_wf q" "0 < sq_used q"
  shows "fst (sbs_spsc_queue_pop q) = hd (sq_view q)"
    and "sq_wf (snd (sbs_spsc_queue_pop q))"
    and "sq_view (snd (sbs_spsc_queue_pop q)) = tl (sq_view q)"
proof -
  let ?p = "q\<lparr>sq_slots := (sq_slots q)[unat (sq_head q) := None]\<rparr>"
  have ne: "sq_head q \<noteq> sq_tail q"
    using sq_empty_iff [OF assms(1)] assms(2) by simp
  then have q': "snd (sbs_spsc_queue_pop q) = ?p\<lparr>sq_head := (sq_head ?p + 1) AND sq_mask ?p\<rparr>"
    by (simp add: spsc_defs)
  have p: "sq_wf ?p" "0 < sq_used ?p"
    using assms by simp_all
  show "fst (sbs_spsc_queue_pop q) = hd (sq_view q)"
    using ne hd_view [OF assms] by (simp add: spsc_defs)
  show "sq_wf (snd (sbs_spsc_queue_pop q))"
    using publish_head(1) [OF p] by (simp only: q')
  show "sq_view (snd (sbs_spsc_queue_pop q)) = tl (sq_view q)"
    using publish_head(3) [OF p] tl_view_clear_head [OF assms] by (simp only: q')
qed

lemma count_eq:
  assumes "sq_wf q"
  shows "unat (sbs_spsc_queue_count q) = length (sq_view q)"
proof -
  obtain k where k: "k \<le> 12" "sq_size q = 2 ^ k" "sq_mask q = mask k"
    using assms by (auto simp: sq_wf_def)
  have lt: "unat (sq_head q) < 2 ^ k" "unat (sq_tail q) < 2 ^ k"
    using assms k by (simp_all add: sq_wf_def)
  have "sbs_spsc_queue_count q = take_bit k (sq_tail q - sq_head q)"
    by (simp add: sbs_spsc_queue_count_def k(3) take_bit_eq_mask)
  then have "uint (sbs_spsc_queue_count q) = uint (sq_tail q - sq_head q) mod 2 ^ k"
    by (simp only: unsigned_take_bit_eq) (simp add: take_bit_eq_mod)
  also have "uint (sq_tail q - sq_head q) = (uint (sq_tail q) - uint (sq_head q)) mod 2 ^ 32"
    by (simp add: uint_word_ariths)
  also have "\<dots> mod 2 ^ k = (uint (sq_tail q) - uint (sq_head q)) mod 2 ^ k"
    using k(1) by (intro mod_mod_cancel le_imp_power_dvd) simp
  also have "\<dots> = (int (unat (sq_tail q)) + 2 ^ k - int (unat (sq_head q))) mod 2 ^ k"
  proof -
    have "(x - y) mod n = (x + n - y) mod n" for x y n :: int
      using mod_add_self2 [of "x - y" n] by (simp add: algebra_simps)
    then show ?thesis
      by simp
  qed
  also have "\<dots> = int (sq_used q)"
    using lt by (simp add: sq_used_def k(2) zmod_int of_nat_diff)
  finally show ?thesis
    by (simp add: unat_eq_nat_uint)
qed

text \<open>
  The slots hold pointers, NULL among them, and \<open>sbs_spsc_queue_pop\<close> answers NULL for an
  empty queue, so an item is a pointer that is not NULL.
\<close>

definition sq_items :: "'a spsc_queue \<Rightarrow> 'a list" where
  "sq_items q = map the (sq_view q)"

definition sq_inv :: "'a spsc_queue \<Rightarrow> bool" where
  "sq_inv q \<longleftrightarrow> sq_wf q \<and> None \<notin> set (sq_view q)"

definition sq_room :: "'a spsc_queue \<Rightarrow> nat" where
  "sq_room q = unat (sbs_spsc_queue_capacity q)"

lemma sq_room_eq:
  assumes "sq_wf q"
  shows "sq_room q = sq_size q - 1"
proof -
  obtain k where k: "k \<le> 12" "sq_size q = 2 ^ k" "sq_capacity q = 2 ^ k"
    using assms by (auto simp: sq_wf_def)
  have "unat (2 ^ k :: u32) = 2 ^ k"
    using k(1) unat_pow2 by blast
  moreover have "(2 ^ k :: u32) \<noteq> 0"
    using k(1) by simp
  ultimately show ?thesis
    by (simp add: sq_room_def sbs_spsc_queue_capacity_def k unat_minus_one)
qed

lemma push_capacity [simp]: "sq_room (snd (sbs_spsc_queue_push q x)) = sq_room q"
  by (simp add: sq_room_def sbs_spsc_queue_capacity_def spsc_defs)

lemma pop_capacity [simp]: "sq_room (snd (sbs_spsc_queue_pop q)) = sq_room q"
  by (simp add: sq_room_def sbs_spsc_queue_capacity_def spsc_defs)

interpretation sq: bounded_fifo sq_inv sq_items sq_room
  "\<lambda>q x. sbs_spsc_queue_push q (Some x)" sbs_spsc_queue_pop
proof unfold_locales
  fix q :: "'a spsc_queue" and x :: 'a
  assume inv: "sq_inv q"
  then have wf: "sq_wf q"
    by (simp add: sq_inv_def)
  note room = sq_room_eq [OF wf] sq_wf_size_pos [OF wf] sq_used_less [OF wf]
  show "length (sq_items q) \<le> sq_room q"
    using room by (simp add: sq_items_def)
  show "fst (sbs_spsc_queue_push q (Some x)) \<and> sq_inv (snd (sbs_spsc_queue_push q (Some x)))
      \<and> sq_items (snd (sbs_spsc_queue_push q (Some x))) = sq_items q @ [x]
      \<and> sq_room (snd (sbs_spsc_queue_push q (Some x))) = sq_room q"
    if "length (sq_items q) < sq_room q"
    using that inv room push_full [OF wf] push_view [OF wf, of "Some x"]
    by (simp add: sq_items_def sq_inv_def)
  show "sbs_spsc_queue_push q (Some x) = (False, q)" if "length (sq_items q) = sq_room q"
    using that room push_full [OF wf, of "Some x"] by (simp add: sq_items_def prod_eq_iff)
  show "fst (sbs_spsc_queue_pop q) = Some y \<and> sq_inv (snd (sbs_spsc_queue_pop q))
      \<and> sq_items (snd (sbs_spsc_queue_pop q)) = ys \<and> sq_room (snd (sbs_spsc_queue_pop q)) = sq_room q"
    if items: "sq_items q = y # ys" for y ys
  proof -
    obtain v vs where v: "sq_view q = v # vs"
      using items by (cases "sq_view q") (auto simp: sq_items_def)
    then have "0 < sq_used q"
      using sq_view_length [of q] by (simp del: sq_view_length)
    then show ?thesis
      using pop_view [OF wf] v items inv by (auto simp: sq_items_def sq_inv_def)
  qed
  show "sbs_spsc_queue_pop q = (None, q)" if "sq_items q = []"
    using that pop_empty [OF wf] sq_view_length [of q] by (simp add: sq_items_def del: sq_view_length)
qed

lemma spsc_new_3:
  "sbs_spsc_queue_new True True 3
    = Some \<lparr>sq_slots = [None, None, None, None], sq_capacity = 4, sq_mask = 3, sq_head = 0, sq_tail = 0\<rparr>"
proof -
  have "next_pow2 3 = 4"
    by (simp add: next_pow2_def)
  moreover have "replicate 4 None = [None, None, None, None]"
    by (simp add: numeral_eq_Suc)
  ultimately show ?thesis
    by (simp add: sbs_spsc_queue_new_def SBS_SPSC_MAX_CAPACITY_def)
qed

section \<open>Properties\<close>

text \<open>
  C3. Used from one thread, a new queue answers every sequence of pushes and pops as a list of
  at most \<open>sbs_spsc_queue_capacity\<close> items does.
\<close>

theorem spsc_calls_refine_list:
  assumes "sbs_spsc_queue_new q_ok slots_ok capacity = Some q"
  shows "fst (run_calls sq.do_call calls q)
    = fst (run_calls (fifo_list_call (unat (sbs_spsc_queue_capacity q))) calls [])"
proof -
  have "sq_inv q" "sq_items q = []"
    using new_wf [OF assms] by (simp_all add: sq_inv_def sq_items_def)
  then show ?thesis
    using sq.calls_refine_list [of q calls] by (simp add: sq_room_def)
qed

theorem spsc_calls_refine_list_witness:
  "\<exists>q :: nat spsc_queue. sbs_spsc_queue_new True True 3 = Some q
     \<and> fst (run_calls sq.do_call [Fifo_push 5, Fifo_push 6, Fifo_pop] q)
       = fst (run_calls (fifo_list_call (unat (sbs_spsc_queue_capacity q))) [Fifo_push 5, Fifo_push 6, Fifo_pop] [])"
using spsc_new_3 spsc_calls_refine_list by blast

text \<open>
  \<open>sbs_spsc_queue_count\<close> is the number of items held, for every well-formed queue, and the
  32-bit \<open>next_pow2\<close> gives the least power of two that is not below the requested capacity.
\<close>

theorem spsc_count_and_capacity:
  assumes "sq_wf q" and "0 < v" and "v \<le> SBS_SPSC_MAX_CAPACITY"
  shows "unat (sbs_spsc_queue_count q) = length (sq_view q)
    \<and> (\<exists>k. next_pow2 v = 2 ^ k \<and> unat v \<le> 2 ^ k \<and> (\<forall>j. unat v \<le> 2 ^ j \<longrightarrow> k \<le> j))"
proof -
  obtain k where k: "next_pow2 v = 2 ^ k" "unat v \<le> 2 ^ k" "2 ^ k < 2 * unat v"
    using next_pow2_correct [of v] assms(2,3) by (auto simp: SBS_SPSC_MAX_CAPACITY_def)
  have "k \<le> j" if "unat v \<le> 2 ^ j" for j
  proof -
    have "(2::nat) ^ k < 2 ^ Suc j"
      using k(3) that by simp
    then show ?thesis
      by (simp only: power_strict_increasing_iff)
  qed
  then show ?thesis
    using count_eq [OF assms(1)] k(1,2) by blast
qed

theorem spsc_count_and_capacity_witness:
  "unat (sbs_spsc_queue_count (\<lparr>sq_slots = [Some 4, None], sq_capacity = 2, sq_mask = 1, sq_head = 0, sq_tail = 1\<rparr> :: nat spsc_queue))
    = length (sq_view (\<lparr>sq_slots = [Some 4, None], sq_capacity = 2, sq_mask = 1, sq_head = 0, sq_tail = 1\<rparr> :: nat spsc_queue))
    \<and> (\<exists>k. next_pow2 5 = 2 ^ k \<and> unat (5 :: u32) \<le> 2 ^ k \<and> (\<forall>j. unat (5 :: u32) \<le> 2 ^ j \<longrightarrow> k \<le> j))"
  by (rule spsc_count_and_capacity)
    (auto simp: sq_wf_def sq_size_def SBS_SPSC_MAX_CAPACITY_def mask_eq_exp_minus_1 intro!: exI [of _ 1])

end
