(* ===== verification/Spsc_Threads.thy ===== *)
theory Spsc_Threads
  imports Spsc_Queue
begin

text \<open>
  The two threads of \<open>src/common/spsc_queue.c\<close>. Every atomic access to an index and every plain
  access to a slot is one step; a schedule interleaves the steps of the producer and of the
  consumer in any order. The release store of one index and the acquire load of it by the other
  thread are what makes an interleaving the right model of the plain slot accesses.
\<close>

section \<open>The steps\<close>

text \<open>Where each thread is inside its operation, with the values of its local variables.\<close>

datatype 'a producer_pc =
    P_idle
  | P_tail_loaded "'a option" u32
  | P_has_room "'a option" u32 u32
  | P_slot_written "'a option" u32 u32

datatype 'a consumer_pc =
    C_idle
  | C_head_loaded u32
  | C_has_item u32
  | C_slot_read u32 "'a option"
  | C_slot_cleared u32 "'a option"

record 'a spsc_threads =
  th_queue :: "'a spsc_queue"
  th_producer :: "'a producer_pc"
  th_consumer :: "'a consumer_pc"
  th_pushed :: "'a option list"
  th_popped :: "'a option list"

text \<open>\<open>Producer x\<close>: the producer takes its next step; when it is idle, it calls push with \<open>x\<close>.\<close>

datatype 'a spsc_event = Producer "'a option" | Consumer

fun producer_step :: "'a option \<Rightarrow> 'a spsc_threads \<Rightarrow> 'a spsc_threads" where
  "producer_step x s =
     (let q = th_queue s in
      case th_producer s of
        P_idle \<Rightarrow> s\<lparr>th_producer := P_tail_loaded x (sq_tail q)\<rparr>
      | P_tail_loaded item tail \<Rightarrow>
          (let next = (tail + 1) AND sq_mask q in
           if next = sq_head q then s\<lparr>th_producer := P_idle\<rparr>
           else s\<lparr>th_producer := P_has_room item tail next\<rparr>)
      | P_has_room item tail next \<Rightarrow>
          s\<lparr>th_queue := q\<lparr>sq_slots := (sq_slots q)[unat tail := item]\<rparr>,
            th_producer := P_slot_written item tail next\<rparr>
      | P_slot_written item tail next \<Rightarrow>
          s\<lparr>th_queue := q\<lparr>sq_tail := next\<rparr>, th_producer := P_idle,
            th_pushed := th_pushed s @ [item]\<rparr>)"

fun consumer_step :: "'a spsc_threads \<Rightarrow> 'a spsc_threads" where
  "consumer_step s =
     (let q = th_queue s in
      case th_consumer s of
        C_idle \<Rightarrow> s\<lparr>th_consumer := C_head_loaded (sq_head q)\<rparr>
      | C_head_loaded head \<Rightarrow>
          (if head = sq_tail q then s\<lparr>th_consumer := C_idle\<rparr>
           else s\<lparr>th_consumer := C_has_item head\<rparr>)
      | C_has_item head \<Rightarrow> s\<lparr>th_consumer := C_slot_read head (sq_slots q ! unat head)\<rparr>
      | C_slot_read head item \<Rightarrow>
          s\<lparr>th_queue := q\<lparr>sq_slots := (sq_slots q)[unat head := None]\<rparr>,
            th_consumer := C_slot_cleared head item\<rparr>
      | C_slot_cleared head item \<Rightarrow>
          s\<lparr>th_queue := q\<lparr>sq_head := (head + 1) AND sq_mask q\<rparr>, th_consumer := C_idle,
            th_popped := th_popped s @ [item]\<rparr>)"

fun take_step :: "'a spsc_event \<Rightarrow> 'a spsc_threads \<Rightarrow> 'a spsc_threads" where
  "take_step (Producer x) s = producer_step x s"
| "take_step Consumer s = consumer_step s"

definition spsc_run :: "'a spsc_event list \<Rightarrow> 'a spsc_queue \<Rightarrow> 'a spsc_threads" where
  "spsc_run evs q = fold take_step evs
     \<lparr>th_queue = q, th_producer = P_idle, th_consumer = C_idle, th_pushed = [], th_popped = []\<rparr>"

section \<open>The invariant\<close>

text \<open>What each thread knows of the shared queue between two of its steps.\<close>

fun producer_ok :: "'a producer_pc \<Rightarrow> 'a spsc_queue \<Rightarrow> bool" where
  "producer_ok P_idle q \<longleftrightarrow> True"
| "producer_ok (P_tail_loaded item tail) q \<longleftrightarrow> tail = sq_tail q"
| "producer_ok (P_has_room item tail next) q \<longleftrightarrow>
     tail = sq_tail q \<and> next = (tail + 1) AND sq_mask q \<and> Suc (sq_used q) < sq_size q"
| "producer_ok (P_slot_written item tail next) q \<longleftrightarrow>
     tail = sq_tail q \<and> next = (tail + 1) AND sq_mask q \<and> Suc (sq_used q) < sq_size q
       \<and> sq_slots q ! unat tail = item"

fun consumer_ok :: "'a consumer_pc \<Rightarrow> 'a spsc_queue \<Rightarrow> bool" where
  "consumer_ok C_idle q \<longleftrightarrow> True"
| "consumer_ok (C_head_loaded head) q \<longleftrightarrow> head = sq_head q"
| "consumer_ok (C_has_item head) q \<longleftrightarrow> head = sq_head q \<and> 0 < sq_used q"
| "consumer_ok (C_slot_read head item) q \<longleftrightarrow>
     head = sq_head q \<and> 0 < sq_used q \<and> sq_slots q ! unat head = item"
| "consumer_ok (C_slot_cleared head item) q \<longleftrightarrow> head = sq_head q \<and> 0 < sq_used q"

fun in_flight :: "'a consumer_pc \<Rightarrow> 'a spsc_queue \<Rightarrow> 'a option list" where
  "in_flight (C_slot_cleared head item) q = item # tl (sq_view q)"
| "in_flight _ q = sq_view q"

definition threads_inv :: "'a spsc_threads \<Rightarrow> bool" where
  "threads_inv s \<longleftrightarrow> sq_wf (th_queue s) \<and> producer_ok (th_producer s) (th_queue s)
     \<and> consumer_ok (th_consumer s) (th_queue s)
     \<and> th_pushed s = th_popped s @ in_flight (th_consumer s) (th_queue s)"

lemma length_in_flight:
  "consumer_ok c q \<Longrightarrow> length (in_flight c q) = sq_used q"
  by (cases c) auto

lemma head_neq_tail:
  assumes "sq_wf q" "0 < sq_used q"
  shows "unat (sq_head q) \<noteq> unat (sq_tail q)"
  using sq_empty_iff [OF assms(1)] assms(2) by (simp add: word_unat_eq_iff)

lemma view_Cons:
  assumes "sq_wf q" "0 < sq_used q"
  shows "sq_view q = sq_slots q ! unat (sq_head q) # tl (sq_view q)"
proof -
  have "sq_view q \<noteq> []"
    using assms(2) by (simp add: sq_view_def)
  then show ?thesis
    using hd_view [OF assms] by (metis list.collapse)
qed

text \<open>Publishing an item neither disturbs the consumer nor what is in flight before it.\<close>

lemma consumer_publish_tail:
  assumes "sq_wf q" "Suc (sq_used q) < sq_size q" "consumer_ok c q"
  defines "q' \<equiv> q\<lparr>sq_tail := (sq_tail q + 1) AND sq_mask q\<rparr>"
  shows "consumer_ok c q' \<and> in_flight c q' = in_flight c q @ [sq_slots q ! unat (sq_tail q)]"
proof -
  note pub = publish_tail [OF assms(1,2), folded q'_def]
  have "0 < sq_used q \<Longrightarrow> sq_view q \<noteq> []"
    by (simp add: sq_view_def)
  then show ?thesis
    using pub assms(3) by (cases c) (auto simp: q'_def)
qed

lemma consumer_store_tail:
  fixes x :: "'a option"
  assumes "sq_wf q" "consumer_ok c q"
  defines "q' \<equiv> q\<lparr>sq_slots := (sq_slots q)[unat (sq_tail q) := x]\<rparr>"
  shows "consumer_ok c q' \<and> in_flight c q' = in_flight c q"
proof -
  have "0 < sq_used q \<Longrightarrow> unat (sq_tail q) \<noteq> unat (sq_head q)"
    using head_neq_tail [OF assms(1)] by metis
  then show ?thesis
    using assms(1,2) by (cases c) (auto simp: q'_def)
qed

lemma producer_inv:
  assumes "threads_inv s"
  shows "threads_inv (producer_step x s)"
proof -
  let ?q = "th_queue s"
  note inv = assms [unfolded threads_inv_def]
  note wf = conjunct1 [OF inv]
  show ?thesis
  proof (cases "th_producer s")
    case P_idle
    then show ?thesis
      using inv by (simp add: threads_inv_def Let_def)
  next
    case (P_tail_loaded item tail)
    then show ?thesis
      using inv sq_full_iff [OF wf] sq_used_less [OF wf] by (auto simp: threads_inv_def Let_def)
  next
    case (P_has_room item tail n)
    let ?q' = "?q\<lparr>sq_slots := (sq_slots ?q)[unat (sq_tail ?q) := item]\<rparr>"
    have "sq_size ?q' = sq_size ?q"
      by (simp add: sq_size_def)
    then show ?thesis
      using inv P_has_room consumer_store_tail [OF wf, of "th_consumer s" item] sq_tail_less [OF wf]
      by (auto simp: threads_inv_def Let_def)
  next
    case (P_slot_written item tail n)
    then show ?thesis
      using inv publish_tail(1) [OF wf] consumer_publish_tail [OF wf, of "th_consumer s"]
      by (auto simp: threads_inv_def Let_def)
  qed
qed

lemma producer_clear_head:
  assumes "sq_wf q" "0 < sq_used q" "producer_ok p q"
  shows "producer_ok p (q\<lparr>sq_slots := (sq_slots q)[unat (sq_head q) := x]\<rparr>)"
  using assms head_neq_tail [OF assms(1,2)] by (cases p) (auto simp: sq_size_def)

lemma producer_publish_head:
  assumes "sq_wf q" "0 < sq_used q" "producer_ok p q"
  shows "producer_ok p (q\<lparr>sq_head := (sq_head q + 1) AND sq_mask q\<rparr>)"
  using assms publish_head(2) [OF assms(1,2)] by (cases p) (auto simp: sq_size_def)

lemma consumer_inv:
  assumes "threads_inv s"
  shows "threads_inv (consumer_step s)"
proof -
  let ?q = "th_queue s"
  note inv = assms [unfolded threads_inv_def]
  note wf = conjunct1 [OF inv]
  show ?thesis
  proof (cases "th_consumer s")
    case C_idle
    then show ?thesis
      using inv by (simp add: threads_inv_def Let_def)
  next
    case (C_head_loaded h)
    then show ?thesis
      using inv sq_empty_iff [OF wf] by (auto simp: threads_inv_def Let_def)
  next
    case (C_has_item h)
    then show ?thesis
      using inv by (auto simp: threads_inv_def Let_def)
  next
    case (C_slot_read h item)
    then show ?thesis
      using inv producer_clear_head [OF wf, of "th_producer s" None] view_Cons [OF wf]
      by (auto simp: threads_inv_def Let_def)
  next
    case (C_slot_cleared h item)
    then show ?thesis
      using inv publish_head [OF wf] producer_publish_head [OF wf, of "th_producer s"]
      by (auto simp: threads_inv_def Let_def)
  qed
qed

lemma spsc_run_inv:
  assumes "sq_wf q" "sq_view q = []"
  shows "threads_inv (spsc_run evs q)"
proof -
  have "threads_inv (fold take_step evs s)" if "threads_inv s" for s :: "'a spsc_threads"
    using that
  proof (induction evs arbitrary: s)
    case Nil
    then show ?case by simp
  next
    case (Cons e evs)
    then show ?case
      by (cases e) (simp_all del: producer_step.simps consumer_step.simps add: producer_inv consumer_inv)
  qed
  then show ?thesis
    using assms by (simp add: spsc_run_def threads_inv_def)
qed

section \<open>Properties\<close>

text \<open>
  C1. Whatever way the steps of the two threads interleave, the items the consumer has popped are
  the first items the producer has pushed, in order, and no more items are in flight than
  \<open>sbs_spsc_queue_capacity\<close> says the queue can hold.
\<close>

theorem spsc_threads_fifo:
  assumes "sbs_spsc_queue_new q_ok slots_ok capacity = Some q"
  shows "\<exists>rest. th_pushed (spsc_run evs q) = th_popped (spsc_run evs q) @ rest
    \<and> length rest \<le> unat (sbs_spsc_queue_capacity (th_queue (spsc_run evs q)))"
proof -
  let ?s = "spsc_run evs q"
  have inv: "threads_inv ?s"
    using new_wf [OF assms] spsc_run_inv by blast
  then have wf: "sq_wf (th_queue ?s)"
    by (simp add: threads_inv_def Let_def)
  show ?thesis
    using inv length_in_flight [of "th_consumer ?s" "th_queue ?s"] sq_room_eq [OF wf] sq_used_less [OF wf]
    by (intro exI [of _ "in_flight (th_consumer ?s) (th_queue ?s)"]) (simp add: threads_inv_def sq_room_def)
qed

theorem spsc_threads_fifo_witness:
  "\<exists>q :: nat spsc_queue. sbs_spsc_queue_new True True 3 = Some q
     \<and> (\<exists>rest. th_pushed (spsc_run [Producer (Some 7), Producer None, Consumer] q)
           = th_popped (spsc_run [Producer (Some 7), Producer None, Consumer] q) @ rest
         \<and> length rest \<le> unat (sbs_spsc_queue_capacity
              (th_queue (spsc_run [Producer (Some 7), Producer None, Consumer] q))))"
using spsc_new_3 spsc_threads_fifo by blast

end
