(* ===== verification/Frame_Slot.thy ===== *)
theory Frame_Slot
  imports Sbs_Prelude "HOL-Library.Sublist"
begin

text \<open>
  The frame hand-off slot of \<open>src/server/engine/frame_slot.c\<close>: a ring of four entries between
  a source's receive path and the compositor. Each function holds the slot's mutex from its
  first to its last access, so it is one step. \<open>fs_release_fn\<close> says whether a release function
  is installed, \<open>fs_released\<close> is the history of the frames it was called on. Head and count are
  naturals: the invariant keeps both at most 4. Counters are 64-bit words.
  \<open>fs_run\<close> executes a sequence of calls; every frame published is in the end released, handed
  to the consumer or still held, exactly once.
\<close>

section \<open>State and operations\<close>

type_synonym 'f slot_entry = "'f option \<times> u64"

record 'f frame_slot =
  fs_entries :: "'f slot_entry list"
  fs_head :: nat
  fs_count :: nat
  fs_release_fn :: bool
  fs_produced :: u64
  fs_dropped :: u64
  fs_consumed :: u64
  fs_released :: "'f list"

text \<open>What the slots of the sources carry: one or two DMA-BUF descriptors and the release lease.\<close>

record frame_fds =
  fd_dmabuf :: int
  fd_dmabuf2 :: int
  fd_release_sock :: int
  fd_release_sequence :: u64
  fd_needs_release_ack :: bool

record frame_slot_stats =
  st_produced :: u64
  st_dropped :: u64
  st_consumed :: u64
  st_held :: nat

definition SBS_FRAME_SLOT_RING_SIZE :: nat where
  "SBS_FRAME_SLOT_RING_SIZE = 4"

definition release_frame :: "'f option \<Rightarrow> 'f frame_slot \<Rightarrow> 'f frame_slot" where
  "release_frame frame s =
     (case frame of
        None \<Rightarrow> s
      | Some f \<Rightarrow> if fs_release_fn s then s\<lparr>fs_released := fs_released s @ [f]\<rparr> else s)"

definition clear_entry :: "nat \<Rightarrow> bool \<Rightarrow> 'f frame_slot \<Rightarrow> 'f frame_slot" where
  "clear_entry idx count_drop s =
     (let frame = fst (fs_entries s ! idx);
          s = s\<lparr>fs_entries := (fs_entries s)[idx := (None, 0)]\<rparr>;
          s = release_frame frame s
      in if count_drop then s\<lparr>fs_dropped := fs_dropped s + 1\<rparr> else s)"

definition sbs_frame_slot_init :: "'f frame_slot" where
  "sbs_frame_slot_init =
     \<lparr>fs_entries = replicate SBS_FRAME_SLOT_RING_SIZE (None, 0), fs_head = 0, fs_count = 0,
      fs_release_fn = False, fs_produced = 0, fs_dropped = 0, fs_consumed = 0, fs_released = []\<rparr>"

definition sbs_frame_slot_set_release_func :: "bool \<Rightarrow> 'f frame_slot \<Rightarrow> 'f frame_slot" where
  "sbs_frame_slot_set_release_func fn s = s\<lparr>fs_release_fn := fn\<rparr>"

definition drop_oldest :: "'f frame_slot \<Rightarrow> 'f option \<times> 'f frame_slot" where
  "drop_oldest s =
     (let dropped = fst (fs_entries s ! fs_head s);
          s = s\<lparr>fs_entries := (fs_entries s)[fs_head s := (None, 0)],
                fs_head := (fs_head s + 1) mod SBS_FRAME_SLOT_RING_SIZE,
                fs_count := fs_count s - 1,
                fs_dropped := fs_dropped s + 1\<rparr>
      in if fs_release_fn s then (None, release_frame dropped s) else (dropped, s))"

definition append_entry :: "'f \<Rightarrow> u64 \<Rightarrow> 'f frame_slot \<Rightarrow> 'f frame_slot" where
  "append_entry f timestamp_us s =
     s\<lparr>fs_entries := (fs_entries s)[(fs_head s + fs_count s) mod SBS_FRAME_SLOT_RING_SIZE
           := (Some f, timestamp_us)],
       fs_count := fs_count s + 1\<rparr>"

definition sbs_frame_slot_exchange :: "'f option \<Rightarrow> u64 \<Rightarrow> 'f frame_slot \<Rightarrow> 'f option \<times> 'f frame_slot" where
  "sbs_frame_slot_exchange frame timestamp_us s =
     (case frame of
        None \<Rightarrow> (None, s)
      | Some f \<Rightarrow>
          (let s = s\<lparr>fs_produced := fs_produced s + 1\<rparr>;
               (dropped, s) = (if fs_count s = SBS_FRAME_SLOT_RING_SIZE then drop_oldest s else (None, s))
           in (dropped, append_entry f timestamp_us s)))"

definition sbs_frame_slot_publish :: "'f option \<Rightarrow> u64 \<Rightarrow> 'f frame_slot \<Rightarrow> 'f frame_slot" where
  "sbs_frame_slot_publish frame timestamp_us s =
     (let (dropped, s) = sbs_frame_slot_exchange frame timestamp_us s in release_frame dropped s)"

text \<open>The result is the frame and the time stamp written to \<open>out_timestamp_us\<close>.\<close>

definition sbs_frame_slot_acquire :: "'f frame_slot \<Rightarrow> 'f slot_entry" where
  "sbs_frame_slot_acquire s =
     (if 0 < fs_count s
      then fs_entries s ! ((fs_head s + fs_count s - 1) mod SBS_FRAME_SLOT_RING_SIZE)
      else (None, 0))"

definition sbs_frame_slot_take :: "'f frame_slot \<Rightarrow> 'f slot_entry \<times> 'f frame_slot" where
  "sbs_frame_slot_take s =
     (if fs_count s = 0 then ((None, 0), s)
      else
        let newest = (fs_head s + fs_count s - 1) mod SBS_FRAME_SLOT_RING_SIZE;
            s = fold (\<lambda>n s. let idx = (fs_head s + n) mod SBS_FRAME_SLOT_RING_SIZE in
                       if idx = newest then s else clear_entry idx True s)
                  [0..<fs_count s] s;
            entry = fs_entries s ! newest
        in (entry, s\<lparr>fs_entries := (fs_entries s)[newest := (None, 0)], fs_head := 0, fs_count := 0,
                     fs_consumed := fs_consumed s + 1\<rparr>))"

definition sbs_frame_slot_take_oldest :: "'f frame_slot \<Rightarrow> 'f slot_entry \<times> 'f frame_slot" where
  "sbs_frame_slot_take_oldest s =
     (if fs_count s = 0 then ((None, 0), s)
      else
        let idx = fs_head s;
            entry = fs_entries s ! idx;
            s = s\<lparr>fs_entries := (fs_entries s)[idx := (None, 0)],
                  fs_head := (fs_head s + 1) mod SBS_FRAME_SLOT_RING_SIZE,
                  fs_count := fs_count s - 1\<rparr>;
            s = (if fs_count s = 0 then s\<lparr>fs_head := 0\<rparr> else s)
        in (entry, s\<lparr>fs_consumed := fs_consumed s + 1\<rparr>))"

text \<open>The loop that clears the first \<open>m\<close> entries from the head on.\<close>

definition clear_first :: "nat \<Rightarrow> 'f frame_slot \<Rightarrow> 'f frame_slot" where
  "clear_first m s =
     fold (\<lambda>n s. clear_entry ((fs_head s + n) mod SBS_FRAME_SLOT_RING_SIZE) True s) [0..<m] s"

definition sbs_frame_slot_flush :: "'f frame_slot \<Rightarrow> 'f frame_slot" where
  "sbs_frame_slot_flush s = (clear_first (fs_count s) s)\<lparr>fs_head := 0, fs_count := 0\<rparr>"

definition sbs_frame_slot_destroy :: "'f frame_slot \<Rightarrow> 'f frame_slot" where
  "sbs_frame_slot_destroy s = sbs_frame_slot_flush s"

definition sbs_frame_slot_get_stats :: "'f frame_slot \<Rightarrow> frame_slot_stats" where
  "sbs_frame_slot_get_stats s =
     \<lparr>st_produced = fs_produced s, st_dropped = fs_dropped s, st_consumed = fs_consumed s,
      st_held = fs_count s\<rparr>"

section \<open>The invariant\<close>

definition fs_window :: "'f frame_slot \<Rightarrow> 'f slot_entry list" where
  "fs_window s = ring_list (fs_entries s) (fs_head s) (fs_count s)"

definition fs_view :: "'f frame_slot \<Rightarrow> ('f \<times> u64) list" where
  "fs_view s = map (\<lambda>(f, t). (the f, t)) (fs_window s)"

text \<open>Exactly the entries of the window hold a frame; the counters account for every frame.\<close>

definition fs_live :: "'f slot_entry list \<Rightarrow> nat \<Rightarrow> nat \<Rightarrow> bool" where
  "fs_live es h c \<longleftrightarrow> (\<forall>j < SBS_FRAME_SLOT_RING_SIZE.
     if j < c then fst (es ! ((h + j) mod SBS_FRAME_SLOT_RING_SIZE)) \<noteq> None
     else es ! ((h + j) mod SBS_FRAME_SLOT_RING_SIZE) = (None, 0))"

definition fs_inv :: "'f frame_slot \<Rightarrow> bool" where
  "fs_inv s \<longleftrightarrow> length (fs_entries s) = SBS_FRAME_SLOT_RING_SIZE
     \<and> fs_head s < SBS_FRAME_SLOT_RING_SIZE \<and> fs_count s \<le> SBS_FRAME_SLOT_RING_SIZE
     \<and> fs_live (fs_entries s) (fs_head s) (fs_count s)
     \<and> fs_produced s = fs_dropped s + fs_consumed s + of_nat (fs_count s)"

abbreviation (input) ring_size :: nat where
  "ring_size \<equiv> SBS_FRAME_SLOT_RING_SIZE"

lemma ring_size_pos [simp]: "0 < SBS_FRAME_SLOT_RING_SIZE"
  by (simp add: SBS_FRAME_SLOT_RING_SIZE_def)

lemma length_fs_view [simp]: "length (fs_view s) = fs_count s"
  by (simp add: fs_view_def fs_window_def)

lemma fs_liveI:
  assumes "\<And>j. j < ring_size \<Longrightarrow> j < c \<Longrightarrow> fst (es ! ((h + j) mod SBS_FRAME_SLOT_RING_SIZE)) \<noteq> None"
    and "\<And>j. j < ring_size \<Longrightarrow> c \<le> j \<Longrightarrow> es ! ((h + j) mod SBS_FRAME_SLOT_RING_SIZE) = (None, 0)"
  shows "fs_live es h c"
  using assms by (auto simp: fs_live_def)

lemma fs_liveD:
  assumes "fs_live es h c" "j < ring_size"
  shows "j < c \<Longrightarrow> fst (es ! ((h + j) mod SBS_FRAME_SLOT_RING_SIZE)) \<noteq> None"
    and "c \<le> j \<Longrightarrow> es ! ((h + j) mod SBS_FRAME_SLOT_RING_SIZE) = (None, 0)"
  using assms by (auto simp: fs_live_def split: if_splits)

lemma fs_live_cleared [simp]: "fs_live (replicate SBS_FRAME_SLOT_RING_SIZE (None, 0)) h 0"
  by (simp add: fs_live_def)

lemma fs_inv_init: "fs_inv sbs_frame_slot_init"
  by (simp add: fs_inv_def sbs_frame_slot_init_def)

lemma release_frame_simps [simp]:
  "fs_entries (release_frame f s) = fs_entries s" "fs_head (release_frame f s) = fs_head s"
  "fs_count (release_frame f s) = fs_count s" "fs_release_fn (release_frame f s) = fs_release_fn s"
  "fs_produced (release_frame f s) = fs_produced s" "fs_dropped (release_frame f s) = fs_dropped s"
  "fs_consumed (release_frame f s) = fs_consumed s"
  "fs_released (release_frame f s) = fs_released s @ (if fs_release_fn s then (case f of None \<Rightarrow> [] | Some g \<Rightarrow> [g]) else [])"
  by (auto simp: release_frame_def split: option.splits)

lemma clear_entry_simps [simp]:
  "fs_entries (clear_entry i b s) = (fs_entries s)[i := (None, 0)]" "fs_head (clear_entry i b s) = fs_head s"
  "fs_count (clear_entry i b s) = fs_count s" "fs_release_fn (clear_entry i b s) = fs_release_fn s"
  "fs_produced (clear_entry i b s) = fs_produced s"
  "fs_dropped (clear_entry i b s) = fs_dropped s + (if b then 1 else 0)"
  "fs_consumed (clear_entry i b s) = fs_consumed s"
  "fs_released (clear_entry i b s)
     = fs_released s @ (if fs_release_fn s then (case fst (fs_entries s ! i) of None \<Rightarrow> [] | Some g \<Rightarrow> [g]) else [])"
  by (auto simp: clear_entry_def Let_def)

text \<open>Clearing the first entries of the window releases their frames in order.\<close>

lemma clear_first_0 [simp]: "clear_first 0 s = s"
  by (simp add: clear_first_def)

lemma clear_first_scalars [simp]:
  "fs_head (clear_first m s) = fs_head s \<and> fs_count (clear_first m s) = fs_count s
    \<and> fs_release_fn (clear_first m s) = fs_release_fn s \<and> fs_produced (clear_first m s) = fs_produced s
    \<and> fs_dropped (clear_first m s) = fs_dropped s + of_nat m
    \<and> fs_consumed (clear_first m s) = fs_consumed s \<and> length (fs_entries (clear_first m s)) = length (fs_entries s)"
  by (induction m) (simp_all add: clear_first_def)

lemma clear_first_Suc:
  "clear_first (Suc m) s
    = clear_entry ((fs_head s + m) mod SBS_FRAME_SLOT_RING_SIZE) True (clear_first m s)"
  using clear_first_scalars [of m s] by (simp add: clear_first_def)

lemma clear_first_entry:
  assumes "length (fs_entries s) = SBS_FRAME_SLOT_RING_SIZE" "m \<le> ring_size" "j < ring_size"
  shows "fs_entries (clear_first m s) ! ((fs_head s + j) mod SBS_FRAME_SLOT_RING_SIZE)
    = (if j < m then (None, 0) else fs_entries s ! ((fs_head s + j) mod SBS_FRAME_SLOT_RING_SIZE))"
  using assms(2)
proof (induction m)
  case 0
  then show ?case by simp
next
  case (Suc m)
  then have "(fs_head s + m) mod ring_size = (fs_head s + j) mod ring_size \<longleftrightarrow> m = j"
    using ring_index_inj [of m ring_size j "fs_head s"] assms(3) by auto
  then show ?case
    using Suc assms(1,3) by (auto simp: clear_first_Suc nth_list_update)
qed

lemma fs_view_nth:
  assumes "fs_inv s" "j < fs_count s"
  shows "\<exists>f ts. fs_entries s ! ((fs_head s + j) mod SBS_FRAME_SLOT_RING_SIZE) = (Some f, ts)
    \<and> fs_view s ! j = (f, ts)"
proof -
  have "fst (fs_entries s ! ((fs_head s + j) mod SBS_FRAME_SLOT_RING_SIZE)) \<noteq> None"
    using assms by (intro fs_liveD) (auto simp: fs_inv_def)
  then obtain f ts where "fs_entries s ! ((fs_head s + j) mod SBS_FRAME_SLOT_RING_SIZE) = (Some f, ts)"
    by (metis not_Some_eq prod.collapse)
  then show ?thesis
    using assms by (simp add: fs_view_def fs_window_def nth_ring_list fs_inv_def)
qed

lemma clear_first_released:
  assumes "fs_inv s" "m \<le> fs_count s"
  shows "fs_released (clear_first m s)
    = fs_released s @ (if fs_release_fn s then map fst (take m (fs_view s)) else [])"
  using assms(2)
proof (induction m)
  case 0
  then show ?case by simp
next
  case (Suc m)
  then have m: "m < fs_count s" and le: "m < ring_size"
    using assms(1) by (simp_all add: fs_inv_def)
  obtain f ts where f: "fs_entries s ! ((fs_head s + m) mod SBS_FRAME_SLOT_RING_SIZE) = (Some f, ts)"
    "fs_view s ! m = (f, ts)"
    using fs_view_nth [OF assms(1) m] by blast
  then show ?case
    using Suc m clear_first_entry [of s m m] assms(1) le
    by (simp add: clear_first_Suc fs_inv_def take_Suc_conv_app_nth)
qed

lemma clear_all_entries:
  assumes "fs_inv s"
  shows "fs_entries (clear_first (fs_count s) s) = replicate ring_size (None, 0)"
proof (rule nth_equalityI)
  show "length (fs_entries (clear_first (fs_count s) s)) = length (replicate ring_size (None, 0))"
    using assms by (simp add: fs_inv_def)
  fix i assume "i < length (fs_entries (clear_first (fs_count s) s))"
  then have i: "i < ring_size"
    using assms by (simp add: fs_inv_def)
  then obtain j where j: "j < ring_size" "i = (fs_head s + j) mod ring_size"
    using ring_index_surj [of "fs_head s" ring_size i] assms by (auto simp: fs_inv_def)
  then show "fs_entries (clear_first (fs_count s) s) ! i = replicate ring_size (None, 0) ! i"
    using clear_first_entry [of s "fs_count s" j] fs_liveD(2) [of "fs_entries s" "fs_head s" "fs_count s" j] assms i
    by (auto simp: fs_inv_def)
qed

lemma flush_result:
  assumes "fs_inv s"
  shows "fs_inv (sbs_frame_slot_flush s) \<and> fs_view (sbs_frame_slot_flush s) = []
    \<and> fs_release_fn (sbs_frame_slot_flush s) = fs_release_fn s
    \<and> fs_released (sbs_frame_slot_flush s)
      = fs_released s @ (if fs_release_fn s then map fst (fs_view s) else [])"
  using clear_all_entries [OF assms] clear_first_released [OF assms, of "fs_count s"] assms
  by (simp add: sbs_frame_slot_flush_def fs_inv_def fs_view_def fs_window_def)

text \<open>The loop of \<open>sbs_frame_slot_take\<close> clears all entries but the newest.\<close>

lemma take_loop:
  assumes "fs_inv s" "fs_count s \<noteq> 0" "m \<le> fs_count s"
  shows "fold (\<lambda>n u. if (fs_head u + n) mod SBS_FRAME_SLOT_RING_SIZE
              = (fs_head s + fs_count s - Suc 0) mod SBS_FRAME_SLOT_RING_SIZE then u
            else clear_entry ((fs_head u + n) mod SBS_FRAME_SLOT_RING_SIZE) True u)
          [0..<m] s = clear_first (min m (fs_count s - 1)) s"
  using assms(3)
proof (induction m)
  case 0
  then show ?case by simp
next
  case (Suc m)
  have idx: "(fs_head s + m) mod ring_size = (fs_head s + fs_count s - Suc 0) mod ring_size \<longleftrightarrow> m = fs_count s - 1"
    using ring_index_inj [of m ring_size "fs_count s - 1" "fs_head s"] Suc.prems assms(1,2)
    by (auto simp: fs_inv_def)
  show ?case
  proof (cases "m = fs_count s - 1")
    case True
    then have "fs_count s = Suc m"
      using assms(2) by simp
    then show ?thesis
      using Suc.IH idx clear_first_scalars [of m s] by simp
  next
    case False
    then have "min (Suc m) (fs_count s - 1) = Suc m" "min m (fs_count s - 1) = m"
      using Suc.prems by auto
    then show ?thesis
      using Suc idx False clear_first_scalars [of m s] by (simp add: clear_first_Suc)
  qed
qed

lemma take_unfold:
  assumes "fs_inv s" "fs_count s = Suc m"
  shows "sbs_frame_slot_take s
    = (let c = clear_first m s; newest = (fs_head s + m) mod SBS_FRAME_SLOT_RING_SIZE in
       (fs_entries c ! newest,
        c\<lparr>fs_entries := (fs_entries c)[newest := (None, 0)], fs_head := 0, fs_count := 0,
          fs_consumed := fs_consumed c + 1\<rparr>))"
proof -
  have "fold (\<lambda>n u. if (fs_head u + n) mod SBS_FRAME_SLOT_RING_SIZE = (fs_head s + m) mod SBS_FRAME_SLOT_RING_SIZE
          then u else clear_entry ((fs_head u + n) mod SBS_FRAME_SLOT_RING_SIZE) True u) [0..<Suc m] s
      = clear_first m s"
    using take_loop [OF assms(1) _ order_refl] by (simp only: assms(2)) simp
  then show ?thesis
    by (simp add: sbs_frame_slot_take_def assms(2) Let_def del: upt_Suc)
qed

lemma take_result:
  assumes "fs_inv s" "fs_count s \<noteq> 0"
  defines "r \<equiv> sbs_frame_slot_take s"
  shows "fs_inv (snd r) \<and> fs_view (snd r) = [] \<and> fs_release_fn (snd r) = fs_release_fn s
    \<and> fs_released (snd r) = fs_released s @ (if fs_release_fn s then map fst (butlast (fs_view s)) else [])
    \<and> fst r = (Some (fst (last (fs_view s))), snd (last (fs_view s)))"
proof -
  obtain m where m: "fs_count s = Suc m"
    using assms(2) by (cases "fs_count s") auto
  let ?c = "clear_first m s"
  let ?newest = "(fs_head s + m) mod SBS_FRAME_SLOT_RING_SIZE"
  have "clear_first (Suc m) s = clear_entry ?newest True ?c"
    by (rule clear_first_Suc)
  then have all: "(fs_entries ?c)[?newest := (None, 0)] = replicate ring_size (None, 0)"
    using clear_all_entries [OF assms(1)] m by simp
  have "length (fs_view s) = Suc m"
    using m by simp
  then have last: "last (fs_view s) = fs_view s ! m" "butlast (fs_view s) = take m (fs_view s)"
    by (simp_all add: last_conv_nth butlast_conv_take del: length_fs_view flip: length_0_conv)
  obtain f ts where f: "fs_entries s ! ?newest = (Some f, ts)" "fs_view s ! m = (f, ts)"
    using fs_view_nth [OF assms(1), of m] m by auto
  have entry: "fs_entries ?c ! ?newest = (Some f, ts)"
    using clear_first_entry [of s m m] assms(1) m f by (simp add: fs_inv_def)
  show ?thesis
    using all entry f last clear_first_released [OF assms(1), of m] assms(1) m
    by (simp add: r_def take_unfold [OF assms(1) m] Let_def fs_inv_def fs_view_def fs_window_def)
qed

text \<open>Dropping the oldest entry, as both a full exchange and \<open>take_oldest\<close> do.\<close>

lemma ring_shift:
  "((h + 1) mod n + j) mod n = (h + Suc j) mod (n :: nat)"
  by (simp add: mod_add_left_eq)

lemma drop_head:
  fixes s :: "'f frame_slot"
  assumes "fs_inv s" "fs_count s = Suc m"
  defines "s' \<equiv> s\<lparr>fs_entries := (fs_entries s)[fs_head s := (None, 0)],
      fs_head := (fs_head s + 1) mod SBS_FRAME_SLOT_RING_SIZE, fs_count := m\<rparr>"
  shows "fs_live (fs_entries s') (fs_head s') m"
    and "fs_view s' = tl (fs_view s)"
    and "\<exists>f ts. fs_entries s ! fs_head s = (Some f, ts) \<and> hd (fs_view s) = (f, ts)"
proof -
  have len: "length (fs_entries s) = ring_size" and h: "fs_head s < ring_size" and m: "m < ring_size"
    using assms(1,2) by (simp_all add: fs_inv_def)
  have live: "fs_live (fs_entries s) (fs_head s) (Suc m)"
    using assms(1,2) by (simp add: fs_inv_def)
  have at: "(fs_head s' + j) mod ring_size = (fs_head s + Suc j) mod ring_size" for j
    using ring_shift [of "fs_head s" ring_size j] by (simp add: s'_def)
  have other: "(fs_head s + Suc j) mod ring_size \<noteq> fs_head s" if "Suc j < ring_size" for j
    using ring_index_inj [of "Suc j" ring_size 0 "fs_head s"] h that by auto
  have last: "(fs_head s + Suc j) mod ring_size = fs_head s" if "Suc j = ring_size" for j
    using that h by simp
  show "fs_live (fs_entries s') (fs_head s') m"
  proof (rule fs_liveI)
    fix j assume "j < ring_size" "j < m"
    then show "fst (fs_entries s' ! ((fs_head s' + j) mod ring_size)) \<noteq> None"
      using fs_liveD(1) [OF live, of "Suc j"] other [of j] m by (simp only: at) (simp add: s'_def)
  next
    fix j assume j: "j < ring_size" "m \<le> j"
    show "fs_entries s' ! ((fs_head s' + j) mod ring_size) = (None, 0)"
    proof (cases "Suc j = ring_size")
      case True
      then show ?thesis
        using last [of j] h len by (simp only: at) (simp add: s'_def)
    next
      case False
      then show ?thesis
        using fs_liveD(2) [OF live, of "Suc j"] other [of j] j by (simp only: at) (simp add: s'_def)
    qed
  qed
  have "fs_window s' = tl (fs_window s)"
    using ring_list_head_update [of "fs_head s" "fs_entries s" m] ring_list_tl(1) [of "Suc m" "fs_head s" "fs_entries s"]
      h m len assms(2)
    by (simp add: fs_window_def s'_def)
  then show "fs_view s' = tl (fs_view s)"
    by (simp add: fs_view_def map_tl)
  have "fs_view s ! 0 = hd (fs_view s)"
    using assms(2) length_fs_view [of s] by (intro hd_conv_nth [symmetric]) (auto simp del: length_fs_view)
  then show "\<exists>f ts. fs_entries s ! fs_head s = (Some f, ts) \<and> hd (fs_view s) = (f, ts)"
    using fs_view_nth [OF assms(1), of 0] assms(2) h by auto
qed

lemma take_oldest_result:
  assumes "fs_inv s" "fs_count s = Suc m"
  defines "r \<equiv> sbs_frame_slot_take_oldest s"
  shows "fs_inv (snd r) \<and> fs_view (snd r) = tl (fs_view s) \<and> fs_release_fn (snd r) = fs_release_fn s
    \<and> fs_released (snd r) = fs_released s
    \<and> fst r = (Some (fst (hd (fs_view s))), snd (hd (fs_view s)))"
proof -
  note d = drop_head [OF assms(1,2)]
  have "fs_live ((fs_entries s)[fs_head s := (None, 0)]) 0 0" if m0: "m = 0"
  proof (rule fs_liveI)
    fix i assume i: "i < ring_size"
    then obtain j where "j < ring_size" "i = ((fs_head s + 1) mod ring_size + j) mod ring_size"
      using ring_index_surj [of "(fs_head s + 1) mod ring_size" ring_size i] by auto
    then show "(fs_entries s)[fs_head s := (None, 0)] ! ((0 + i) mod ring_size) = (None, 0)"
      using fs_liveD(2) [OF d(1), of j] m0 i by simp
  qed simp
  then show ?thesis
    using d assms(1,2) by (auto simp: r_def sbs_frame_slot_take_oldest_def fs_inv_def Let_def fs_view_def fs_window_def)
qed

lemma append_result:
  assumes len: "length (fs_entries s) = SBS_FRAME_SLOT_RING_SIZE" "fs_head s < ring_size" "fs_count s < ring_size"
    and live: "fs_live (fs_entries s) (fs_head s) (fs_count s)"
    and cnt: "fs_produced s = fs_dropped s + fs_consumed s + of_nat (fs_count s) + 1"
  shows "fs_inv (append_entry f ts s) \<and> fs_view (append_entry f ts s) = fs_view s @ [(f, ts)]
    \<and> fs_release_fn (append_entry f ts s) = fs_release_fn s
    \<and> fs_released (append_entry f ts s) = fs_released s"
proof -
  have idx: "(fs_head s + j) mod ring_size = (fs_head s + fs_count s) mod ring_size \<longleftrightarrow> j = fs_count s"
    if "j < ring_size" for j
    using ring_index_inj [of j ring_size "fs_count s" "fs_head s"] that len by auto
  have "fs_live (fs_entries (append_entry f ts s)) (fs_head s) (Suc (fs_count s))"
  proof (rule fs_liveI)
    fix j assume "j < ring_size" "j < Suc (fs_count s)"
    then show "fst (fs_entries (append_entry f ts s) ! ((fs_head s + j) mod ring_size)) \<noteq> None"
      using idx [of j] fs_liveD(1) [OF live, of j] len by (cases "j = fs_count s") (auto simp: append_entry_def)
  next
    fix j assume "j < ring_size" "Suc (fs_count s) \<le> j"
    then show "fs_entries (append_entry f ts s) ! ((fs_head s + j) mod ring_size) = (None, 0)"
      using idx [of j] fs_liveD(2) [OF live, of j] len by (simp add: append_entry_def)
  qed
  then show ?thesis
    using assms ring_list_push [of "fs_count s" "fs_entries s" "fs_head s" "(Some f, ts)"]
    by (simp add: fs_inv_def append_entry_def fs_view_def fs_window_def)
qed

text \<open>Publishing a frame: the ring's oldest frame makes room when the ring is full.\<close>

lemma publish_result:
  fixes s :: "'f frame_slot" and f :: 'f and ts :: u64
  assumes "fs_inv s"
  defines "s' \<equiv> sbs_frame_slot_publish (Some f) ts s"
    and "full \<equiv> fs_count s = SBS_FRAME_SLOT_RING_SIZE"
  shows "fs_inv s' \<and> fs_view s' = (if full then tl (fs_view s) else fs_view s) @ [(f, ts)]
    \<and> fs_release_fn s' = fs_release_fn s
    \<and> fs_released s' = fs_released s @ (if full \<and> fs_release_fn s then [fst (hd (fs_view s))] else [])"
proof (cases full)
  case False
  then have "fs_count s < ring_size"
    using assms(1) by (auto simp: full_def fs_inv_def)
  then show ?thesis
    using append_result [of "s\<lparr>fs_produced := fs_produced s + 1\<rparr>" f ts] assms(1) False
    by (simp add: s'_def sbs_frame_slot_publish_def sbs_frame_slot_exchange_def full_def fs_inv_def
        fs_view_def fs_window_def)
next
  case True
  then obtain m where m: "fs_count s = Suc m" "m < ring_size"
    by (auto simp: full_def SBS_FRAME_SLOT_RING_SIZE_def)
  note d = drop_head [OF assms(1) m(1)]
  obtain g gts where g: "fs_entries s ! fs_head s = (Some g, gts)" "hd (fs_view s) = (g, gts)"
    using d(3) by blast
  define u where "u = snd (drop_oldest (s\<lparr>fs_produced := fs_produced s + 1\<rparr>))"
  have u: "fs_entries u = (fs_entries s)[fs_head s := (None, 0)]"
    "fs_head u = (fs_head s + 1) mod ring_size" "fs_count u = m"
    "fs_dropped u = fs_dropped s + 1" "fs_produced u = fs_produced s + 1" "fs_consumed u = fs_consumed s"
    "fs_release_fn u = fs_release_fn s"
    "fs_released u = fs_released s @ (if fs_release_fn s then [g] else [])"
    using m(1) g by (simp_all add: u_def drop_oldest_def Let_def)
  have d1: "fst (drop_oldest (s\<lparr>fs_produced := fs_produced s + 1\<rparr>)) = (if fs_release_fn s then None else Some g)"
    using g by (simp add: drop_oldest_def Let_def)
  have s': "s' = release_frame (if fs_release_fn s then None else Some g) (append_entry f ts u)"
    using True d1 by (simp add: s'_def sbs_frame_slot_publish_def sbs_frame_slot_exchange_def full_def
        u_def case_prod_unfold Let_def)
  have view: "fs_view u = tl (fs_view s)"
    using d(2) u(1-3) by (simp add: fs_view_def fs_window_def)
  have "fs_inv (append_entry f ts u) \<and> fs_view (append_entry f ts u) = fs_view u @ [(f, ts)]
    \<and> fs_release_fn (append_entry f ts u) = fs_release_fn u
    \<and> fs_released (append_entry f ts u) = fs_released u"
  proof (rule append_result)
    show "fs_produced u = fs_dropped u + fs_consumed u + of_nat (fs_count u) + 1"
      using assms(1) m(1) u by (simp add: fs_inv_def)
  qed (use assms(1) m d(1) u in \<open>simp_all add: fs_inv_def\<close>)
  then show ?thesis
    using True g u view by (simp add: s' fs_inv_def fs_view_def fs_window_def)
qed

section \<open>The slot as a queue that drops its oldest frame\<close>

definition slot_put :: "'f \<times> u64 \<Rightarrow> 'f frame_slot \<Rightarrow> 'f frame_slot" where
  "slot_put e s = sbs_frame_slot_publish (Some (fst e)) (snd e) s"

text \<open>The entry the next publish drops.\<close>

definition slot_victim :: "'f frame_slot \<Rightarrow> ('f \<times> u64) option" where
  "slot_victim s =
     (if fs_count s = SBS_FRAME_SLOT_RING_SIZE
      then Some (the (fst (fs_entries s ! fs_head s)), snd (fs_entries s ! fs_head s)) else None)"

definition slot_ready :: "'f frame_slot \<Rightarrow> bool" where
  "slot_ready s \<longleftrightarrow> fs_inv s \<and> fs_release_fn s"

lemma slot_victim_eq:
  assumes "fs_inv s"
  shows "slot_victim s = (if length (fs_view s) = ring_size then Some (hd (fs_view s)) else None)"
proof (cases "fs_count s = ring_size")
  case True
  then have "fs_count s = Suc 3"
    by (simp add: SBS_FRAME_SLOT_RING_SIZE_def)
  then obtain f ts where "fs_entries s ! fs_head s = (Some f, ts)" "hd (fs_view s) = (f, ts)"
    using drop_head(3) [OF assms] by blast
  then show ?thesis
    using True by (simp add: slot_victim_def)
qed (simp add: slot_victim_def)

lemma slot_put_result:
  assumes "slot_ready s"
  shows "slot_ready (slot_put e s)
    \<and> fs_view (slot_put e s) = (if length (fs_view s) = ring_size then tl (fs_view s) else fs_view s) @ [e]
    \<and> fs_released (slot_put e s)
      = fs_released s @ (case slot_victim s of None \<Rightarrow> [] | Some y \<Rightarrow> [fst y])"
proof -
  have inv: "fs_inv s"
    using assms by (simp add: slot_ready_def)
  show ?thesis
    using publish_result [OF inv, of "fst e" "snd e"] assms slot_victim_eq [OF inv]
    by (simp add: slot_put_def slot_ready_def)
qed

interpretation slot: drop_oldest_queue slot_ready fs_view ring_size slot_put slot_victim
proof unfold_locales
  fix s :: "'a frame_slot" and e
  assume ready: "slot_ready s"
  then have inv: "fs_inv s"
    by (simp add: slot_ready_def)
  show "length (fs_view s) \<le> ring_size"
    using inv by (simp add: fs_inv_def)
  show "slot_ready (slot_put e s)"
    and "fs_view (slot_put e s) = (if length (fs_view s) = ring_size then tl (fs_view s) else fs_view s) @ [e]"
    using slot_put_result [OF ready] by blast+
  show "slot_victim s = (if length (fs_view s) = ring_size then Some (hd (fs_view s)) else None)"
    by (rule slot_victim_eq [OF inv])
qed simp

lemma slot_put_all_released:
  "slot_ready s \<Longrightarrow> fs_released (slot.put_all xs s) = fs_released s @ map fst (slot.dropped xs s)"
proof (induction xs arbitrary: s)
  case Nil
  then show ?case by simp
next
  case (Cons x xs)
  then show ?case
    using slot_put_result [OF Cons.prems, of x] by (simp split: option.splits)
qed

section \<open>Sequences of calls\<close>

datatype 'f slot_call = Publish 'f u64 | Acquire | Take | Take_oldest | Flush

text \<open>A call answers with the frame it hands over to the caller, if any.\<close>

fun do_slot_call :: "'f slot_call \<Rightarrow> 'f frame_slot \<Rightarrow> 'f list \<times> 'f frame_slot" where
  "do_slot_call (Publish f ts) s = ([], sbs_frame_slot_publish (Some f) ts s)"
| "do_slot_call Acquire s = ([], s)"
| "do_slot_call Take s = (let ((f, _), s') = sbs_frame_slot_take s in (case f of None \<Rightarrow> [] | Some x \<Rightarrow> [x], s'))"
| "do_slot_call Take_oldest s =
     (let ((f, _), s') = sbs_frame_slot_take_oldest s in (case f of None \<Rightarrow> [] | Some x \<Rightarrow> [x], s'))"
| "do_slot_call Flush s = ([], sbs_frame_slot_flush s)"

fun fs_run :: "'f slot_call list \<Rightarrow> 'f frame_slot \<Rightarrow> 'f list \<times> 'f frame_slot" where
  "fs_run [] s = ([], s)"
| "fs_run (c # cs) s = (let (xs, s') = do_slot_call c s; (ys, s'') = fs_run cs s' in (xs @ ys, s''))"

fun published :: "'f slot_call list \<Rightarrow> 'f list" where
  "published [] = []"
| "published (Publish f ts # cs) = f # published cs"
| "published (_ # cs) = published cs"

definition held :: "'f frame_slot \<Rightarrow> 'f list" where
  "held s = map fst (fs_view s)"

text \<open>One call, for the multisets, the order and the counters at once.\<close>

lemma fs_view_nonempty: "fs_count s = Suc m \<Longrightarrow> \<exists>x xs. fs_view s = x # xs"
  using length_fs_view [of s] by (cases "fs_view s") auto

lemma do_slot_call_step:
  fixes c :: "'f slot_call" and s :: "'f frame_slot"
  assumes "slot_ready s"
  defines "r \<equiv> do_slot_call c s"
  shows "slot_ready (snd r)
    \<and> mset (held s) + mset (published [c]) + mset (fs_released s)
      = mset (fst r) + mset (held (snd r)) + mset (fs_released (snd r))
    \<and> subseq (fst r @ held (snd r)) (held s @ published [c])
    \<and> fs_produced (snd r) = fs_produced s + of_nat (length (published [c]))
    \<and> fs_consumed (snd r) = fs_consumed s + of_nat (length (fst r))"
proof (cases c)
  case (Publish f ts)
  have ready: "fs_inv s"
    using assms(1) by (simp add: slot_ready_def)
  have counters: "fs_produced (slot_put (f, ts) s) = fs_produced s + 1 \<and> fs_consumed (slot_put (f, ts) s) = fs_consumed s"
    by (simp add: slot_put_def sbs_frame_slot_publish_def sbs_frame_slot_exchange_def append_entry_def
        drop_oldest_def Let_def case_prod_unfold)
  have call: "r = ([], slot_put (f, ts) s)"
    by (simp add: r_def Publish slot_put_def)
  show ?thesis
  proof (cases "fs_count s = ring_size")
    case True
    then have "fs_count s = Suc 3"
      by (simp add: SBS_FRAME_SLOT_RING_SIZE_def)
    then obtain x xs where x: "fs_view s = x # xs"
      using fs_view_nonempty by blast
    then show ?thesis
      using slot_put_result [OF assms(1), of "(f, ts)"] slot_victim_eq [of s] ready True counters length_fs_view [of s]
      by (simp add: call Publish held_def list_emb_Cons del: length_fs_view)
  next
    case False
    then show ?thesis
      using slot_put_result [OF assms(1), of "(f, ts)"] slot_victim_eq [of s] ready counters
      by (simp add: call Publish held_def)
  qed
next
  case Acquire
  then show ?thesis using assms by simp
next
  case Flush
  then show ?thesis
    using flush_result [of s] assms clear_first_scalars [of "fs_count s" s]
    by (simp add: slot_ready_def held_def sbs_frame_slot_flush_def)
next
  case Take
  have inv: "fs_inv s"
    using assms by (simp add: slot_ready_def)
  show ?thesis
  proof (cases "fs_count s")
    case 0
    then show ?thesis
      using assms Take by (simp add: sbs_frame_slot_take_def)
  next
    case (Suc m)
    have counters: "fs_produced (snd (sbs_frame_slot_take s)) = fs_produced s
        \<and> fs_consumed (snd (sbs_frame_slot_take s)) = fs_consumed s + 1"
      using clear_first_scalars [of m s] by (simp add: take_unfold [OF inv Suc] Let_def)
    obtain xs x where x: "fs_view s = xs @ [x]"
      using fs_view_nonempty [OF Suc] by (metis neq_Nil_conv rev_exhaust)
    have "r = ([fst x], snd (sbs_frame_slot_take s))"
      using take_result [OF inv] Suc x by (simp add: r_def Take case_prod_unfold Let_def)
    then show ?thesis
      using take_result [OF inv] Suc x counters assms(1) Take
      by (simp add: slot_ready_def held_def list_emb_append2)
  qed
next
  case Take_oldest
  have inv: "fs_inv s"
    using assms by (simp add: slot_ready_def)
  show ?thesis
  proof (cases "fs_count s")
    case 0
    then show ?thesis
      using assms Take_oldest by (simp add: sbs_frame_slot_take_oldest_def)
  next
    case (Suc m)
    have counters: "fs_produced (snd (sbs_frame_slot_take_oldest s)) = fs_produced s
        \<and> fs_consumed (snd (sbs_frame_slot_take_oldest s)) = fs_consumed s + 1"
      using Suc by (simp add: sbs_frame_slot_take_oldest_def Let_def)
    obtain x xs where x: "fs_view s = x # xs"
      using fs_view_nonempty [OF Suc] by blast
    have "r = ([fst x], snd (sbs_frame_slot_take_oldest s))"
      using take_oldest_result [OF inv Suc] x by (simp add: r_def Take_oldest case_prod_unfold Let_def)
    then show ?thesis
      using take_oldest_result [OF inv Suc] x counters assms(1) Take_oldest by (simp add: slot_ready_def held_def)
  qed
qed

lemma published_Cons: "published (c # cs) = published [c] @ published cs"
  by (cases c) simp_all

lemma fs_run_result:
  assumes "slot_ready s"
  shows "slot_ready (snd (fs_run cs s))
    \<and> mset (held s) + mset (published cs) + mset (fs_released s)
      = mset (fst (fs_run cs s)) + mset (held (snd (fs_run cs s))) + mset (fs_released (snd (fs_run cs s)))
    \<and> subseq (fst (fs_run cs s) @ held (snd (fs_run cs s))) (held s @ published cs)
    \<and> fs_produced (snd (fs_run cs s)) = fs_produced s + of_nat (length (published cs))
    \<and> fs_consumed (snd (fs_run cs s)) = fs_consumed s + of_nat (length (fst (fs_run cs s)))"
  using assms
proof (induction cs arbitrary: s)
  case Nil
  then show ?case by simp
next
  case (Cons c cs)
  obtain xs s1 where c: "do_slot_call c s = (xs, s1)"
    by fastforce
  obtain ys s2 where r: "fs_run cs s1 = (ys, s2)"
    by fastforce
  note step = do_slot_call_step [OF Cons.prems, of c, unfolded c, simplified]
  note IH = Cons.IH [of s1, unfolded r, simplified]
  have "subseq (xs @ (ys @ held s2)) (xs @ (held s1 @ published cs))"
    by (rule list_emb_append_mono) (use IH step in auto)
  also have "subseq (xs @ (held s1 @ published cs)) ((held s @ published [c]) @ published cs)"
    using step by (simp add: subseq_append' flip: append_assoc)
  finally have "subseq (xs @ ys @ held s2) (held s @ published (c # cs))"
    by (simp add: published_Cons [of c cs])
  moreover have "mset (held s) + mset (published (c # cs)) + mset (fs_released s)
      = mset (xs @ ys) + mset (held s2) + mset (fs_released s2)"
  proof -
    have "mset (held s) + mset (published [c]) + mset (fs_released s)
        = mset xs + mset (held s1) + mset (fs_released s1)"
      using step by blast
    moreover have "mset (held s1) + mset (published cs) + mset (fs_released s1)
        = mset ys + mset (held s2) + mset (fs_released s2)"
      using IH step by blast
    ultimately show ?thesis
      by (simp add: published_Cons [of c cs] ac_simps) (metis (no_types, lifting) add.left_commute add.commute)
  qed
  ultimately show ?case
    using IH step by (simp add: c r published_Cons [of c cs])
qed

section \<open>Properties\<close>

text \<open>The slot a source owns: initialised, with a release function.\<close>

definition source_slot :: "'f frame_slot" where
  "source_slot = sbs_frame_slot_set_release_func True sbs_frame_slot_init"

lemma source_slot_ready: "slot_ready source_slot"
  using fs_inv_init by (simp add: slot_ready_def source_slot_def sbs_frame_slot_set_release_func_def fs_inv_def)

text \<open>
  C2. With a release function installed, whatever the calls on the slot, every published frame
  is exactly once released, handed to the consumer or still held, and the counters of
  \<open>sbs_frame_slot_get_stats\<close> are these numbers (as 64-bit words).
\<close>

theorem frame_slot_conserves_frames:
  fixes calls :: "'f slot_call list"
  defines "r \<equiv> fs_run calls source_slot"
  shows "mset (published calls) = mset (fs_released (snd r)) + mset (fst r) + mset (held (snd r))
    \<and> sbs_frame_slot_get_stats (snd r)
      = \<lparr>st_produced = of_nat (length (published calls)), st_dropped = of_nat (length (fs_released (snd r))),
         st_consumed = of_nat (length (fst r)), st_held = length (held (snd r))\<rparr>"
proof -
  note run = fs_run_result [OF source_slot_ready, of calls, folded r_def]
  have start: "held (source_slot :: 'f frame_slot) = []" "fs_released (source_slot :: 'f frame_slot) = []"
    "fs_produced (source_slot :: 'f frame_slot) = 0" "fs_consumed (source_slot :: 'f frame_slot) = 0"
    by (simp_all add: source_slot_def sbs_frame_slot_set_release_func_def sbs_frame_slot_init_def
        held_def fs_view_def fs_window_def)
  have ms: "mset (published calls) = mset (fs_released (snd r)) + mset (fst r) + mset (held (snd r))"
    using run start by (simp add: ac_simps)
  have inv: "fs_produced (snd r) = fs_dropped (snd r) + fs_consumed (snd r) + of_nat (fs_count (snd r))"
    using run by (simp add: slot_ready_def fs_inv_def)
  have "length (published calls) = length (fs_released (snd r)) + length (fst r) + length (held (snd r))"
    using arg_cong [OF ms, of size] by simp
  then have "fs_dropped (snd r) = of_nat (length (fs_released (snd r)))"
    using inv run start by (simp add: held_def)
  then show ?thesis
    using ms run start by (simp add: sbs_frame_slot_get_stats_def held_def)
qed

text \<open>
  The consumer sees frames in the order they were published, each at most once, whichever of
  \<open>sbs_frame_slot_take\<close> (newest) and \<open>sbs_frame_slot_take_oldest\<close> it calls, and what is still
  held comes later still.
\<close>

theorem frame_slot_keeps_order:
  "subseq (fst (fs_run calls source_slot) @ held (snd (fs_run calls source_slot))) (published calls)"
  using fs_run_result [OF source_slot_ready, of calls]
  by (simp add: source_slot_def sbs_frame_slot_set_release_func_def sbs_frame_slot_init_def
      held_def fs_view_def fs_window_def)

text \<open>
  A burst of publishes to a slot with a release function keeps the newest four frames, and
  releases all older ones, oldest first.
\<close>

theorem frame_slot_burst:
  assumes "slot_ready s" and "SBS_FRAME_SLOT_RING_SIZE \<le> length burst"
  shows "fs_view (fold slot_put burst s) = drop (length burst - SBS_FRAME_SLOT_RING_SIZE) burst
    \<and> fs_released (fold slot_put burst s)
      = fs_released s @ held s @ map fst (take (length burst - SBS_FRAME_SLOT_RING_SIZE) burst)"
proof -
  have fold: "slot.put_all xs t = fold slot_put xs t" for xs and t :: "'a frame_slot"
    by (induction xs arbitrary: t) simp_all
  have view: "fs_view (fold slot_put burst s) = drop (length burst - ring_size) burst"
    using slot.put_all_keeps_newest [OF assms] by (simp add: fold)
  have "slot.dropped burst s @ drop (length burst - ring_size) burst = fs_view s @ burst"
    using slot.put_all_conserves [OF assms(1), of burst] view by (simp add: fold)
  also have "\<dots> = (fs_view s @ take (length burst - ring_size) burst) @ drop (length burst - ring_size) burst"
    by simp
  finally have "slot.dropped burst s = fs_view s @ take (length burst - ring_size) burst"
    by (simp only: append_same_eq)
  then show ?thesis
    using view slot_put_all_released [OF assms(1), of burst] by (simp add: fold held_def)
qed

theorem frame_slot_burst_witness:
  "let burst = [(10, 1), (11, 2), (12, 3), (13, 4), (14, 5)] :: (nat \<times> u64) list in
    fs_view (fold slot_put burst source_slot) = drop (length burst - SBS_FRAME_SLOT_RING_SIZE) burst
    \<and> fs_released (fold slot_put burst source_slot)
      = fs_released source_slot @ held source_slot @ map fst (take (length burst - SBS_FRAME_SLOT_RING_SIZE) burst)"
  unfolding Let_def by (rule frame_slot_burst [OF source_slot_ready]) (simp add: SBS_FRAME_SLOT_RING_SIZE_def)

end
