(* ===== verification/Uuid.thy ===== *)
theory Uuid
  imports Sbs_Prelude
begin

text \<open>
  UUID version 4 generation and validation, \<open>src/common/uuid.c\<close>. The bytes come from
  \<open>/dev/urandom\<close>, which is a parameter: \<open>None\<close> when the device cannot be opened, otherwise the
  bytes \<open>read\<close> returned (possibly fewer than 16). \<open>isxdigit\<close> and \<open>tolower\<close> are those of the C
  locale.
\<close>

section \<open>Characters and hexadecimal output\<close>

definition hex_digits :: string where
  "hex_digits = ''0123456789abcdef''"

definition hex_digit :: "nat \<Rightarrow> char" where
  "hex_digit n = hex_digits ! n"

text \<open>The conversion \<open>%02x\<close> of a byte.\<close>

definition byte_hex :: "u8 \<Rightarrow> string" where
  "byte_hex b = [hex_digit (unat b div 16), hex_digit (unat b mod 16)]"

definition isxdigit :: "char \<Rightarrow> bool" where
  "isxdigit c \<longleftrightarrow> c \<in> set ''0123456789abcdefABCDEF''"

definition tolower_char :: "char \<Rightarrow> char" where
  "tolower_char c = (if of_char c \<ge> (65 :: nat) \<and> of_char c \<le> (90 :: nat) then char_of (of_char c + (32 :: nat)) else c)"

section \<open>The functions\<close>

definition zero_uuid :: string where
  "zero_uuid = ''00000000-0000-4000-8000-000000000000''"

definition stamp_version :: "u8 list \<Rightarrow> u8 list" where
  "stamp_version buf =
     (let buf = buf[6 := (buf ! 6 AND 0x0F) OR 0x40] in buf[8 := (buf ! 8 AND 0x3F) OR 0x80])"

definition format_uuid :: "u8 list \<Rightarrow> string" where
  "format_uuid buf =
     concat (map byte_hex (take 4 buf)) @ ''-'' @
     concat (map byte_hex (take 2 (drop 4 buf))) @ ''-'' @
     concat (map byte_hex (take 2 (drop 6 buf))) @ ''-'' @
     concat (map byte_hex (take 2 (drop 8 buf))) @ ''-'' @
     concat (map byte_hex (take 6 (drop 10 buf)))"

definition sbs_uuid_generate :: "u8 list option \<Rightarrow> string" where
  "sbs_uuid_generate urandom =
     (case urandom of
        None \<Rightarrow> zero_uuid
      | Some buf \<Rightarrow> if length buf \<noteq> 16 then zero_uuid else format_uuid (stamp_version buf))"

definition uuid_char_ok :: "nat \<Rightarrow> char \<Rightarrow> bool" where
  "uuid_char_ok i c =
     (if i = 8 \<or> i = 13 \<or> i = 18 \<or> i = 23 then c = CHR ''-''
      else if i = 14 then c = CHR ''4''
      else if i = 19 then
        (let lc = tolower_char c in lc = CHR ''8'' \<or> lc = CHR ''9'' \<or> lc = CHR ''a'' \<or> lc = CHR ''b'')
      else isxdigit c)"

definition sbs_uuid_validate :: "string option \<Rightarrow> bool" where
  "sbs_uuid_validate uuid =
     (case uuid of
        None \<Rightarrow> False
      | Some s \<Rightarrow> if length s \<noteq> 36 then False else list_all (\<lambda>i. uuid_char_ok i (s ! i)) [0..<36])"

section \<open>Lemmas\<close>

lemma sixteen_cases: "n < 16 \<Longrightarrow> n \<in> {0, 1, 2, 3, 4, 5, 6, 7, 8, 9, 10, 11, 12, 13, 14, 15 :: nat}"
  unfolding insert_iff empty_iff by presburger

lemma isxdigit_hex_digit: "n < 16 \<Longrightarrow> isxdigit (hex_digit n)"
  using sixteen_cases [of n] by (auto simp: hex_digit_def hex_digits_def isxdigit_def)

lemma hex_digit_inj: "n < 16 \<Longrightarrow> m < 16 \<Longrightarrow> hex_digit n = hex_digit m \<Longrightarrow> n = m"
proof -
  have "distinct hex_digits" "length hex_digits = 16"
    by (simp_all add: hex_digits_def)
  then show "n < 16 \<Longrightarrow> m < 16 \<Longrightarrow> hex_digit n = hex_digit m \<Longrightarrow> n = m"
    by (simp add: hex_digit_def nth_eq_iff_index_eq)
qed

lemma byte_halves:
  fixes b :: u8
  shows "unat b div 16 < 16" "unat b mod 16 < 16"
proof -
  have "unat b < 256"
    using unsigned_less [of b, where 'a = nat] by simp
  then show "unat b div 16 < 16" by (simp add: less_mult_imp_div_less)
qed simp

lemma byte_hex_inj: "byte_hex a = byte_hex b \<Longrightarrow> a = b"
proof -
  assume "byte_hex a = byte_hex b"
  then have "unat a div 16 = unat b div 16" "unat a mod 16 = unat b mod 16"
    using hex_digit_inj byte_halves by (auto simp: byte_hex_def)
  then have "unat a = unat b"
    by (metis mult_div_mod_eq)
  then show "a = b"
    by (simp add: word_unat_eq_iff)
qed

lemma pow_4: "(2 :: nat) ^ 4 = 16" and pow_6: "(2 :: nat) ^ 6 = 64"
  by simp_all

lemma div_64_16: "m div 64 = 2 \<Longrightarrow> m div 16 \<in> {8, 9, 10, 11 :: nat}"
proof -
  assume "m div 64 = 2"
  then have "m = 64 * 2 + m mod 64" "m mod 64 < 64"
    using mult_div_mod_eq [of 64 m] by simp_all
  then have "128 \<le> m" "m < 12 * 16"
    by linarith+
  then have "128 div 16 \<le> m div 16" "m div 16 < 12"
    by (simp_all only: div_le_mono less_mult_imp_div_less)
  then show ?thesis
    unfolding insert_iff empty_iff by linarith
qed

lemma version_byte:
  fixes b :: u8
  shows "unat ((b AND 0x0F) OR 0x40) div 16 = 4"
proof -
  have "drop_bit 4 ((b AND 0x0F) OR 0x40) = (4 :: u8)"
    by (rule bit_word_eqI) (auto simp: bit_simps bit_numeral_rec less_Suc_eq numeral_eq_Suc)
  then have "unat (drop_bit 4 ((b AND 0x0F) OR 0x40) :: u8) = 4"
    by (simp only:) simp
  then have "drop_bit 4 (unat ((b AND 0x0F) OR 0x40 :: u8)) = 4"
    by (simp only: unat_drop_bit_eq)
  then show ?thesis
    unfolding drop_bit_eq_div by (simp only: pow_4)
qed

lemma variant_byte:
  fixes b :: u8
  shows "unat ((b AND 0x3F) OR 0x80) div 16 \<in> {8, 9, 10, 11}"
proof -
  let ?w = "(b AND 0x3F) OR 0x80"
  have "drop_bit 6 ?w = 2"
    by (rule bit_word_eqI) (auto simp: bit_simps bit_numeral_rec less_Suc_eq numeral_eq_Suc)
  then have "unat (drop_bit 6 ?w) = 2"
    by (simp only:) simp
  then have "drop_bit 6 (unat ?w) = 2"
    by (simp only: unat_drop_bit_eq)
  then have "unat ?w div 2 ^ 6 = 2"
    unfolding drop_bit_eq_div .
  then have "unat ?w div 64 = 2"
    by (simp only: pow_6)
  then show ?thesis
    by (rule div_64_16)
qed

lemma variant_char:
  assumes "n \<in> {8, 9, 10, 11}"
  shows "uuid_char_ok 19 (hex_digit n)"
proof -
  have digits: "hex_digit 8 = CHR ''8''" "hex_digit 9 = CHR ''9''" "hex_digit 10 = CHR ''a''" "hex_digit 11 = CHR ''b''"
    by (simp_all add: hex_digit_def hex_digits_def)
  have lower: "tolower_char CHR ''8'' = CHR ''8''" "tolower_char CHR ''9'' = CHR ''9''"
    "tolower_char CHR ''a'' = CHR ''a''" "tolower_char CHR ''b'' = CHR ''b''"
    by code_simp+
  show ?thesis
    using assms digits lower by (auto simp: uuid_char_ok_def)
qed

lemma version_char: "uuid_char_ok 14 (hex_digit 4)"
  by (simp add: uuid_char_ok_def hex_digit_def hex_digits_def)

lemma plain_char:
  "i \<notin> {8, 13, 14, 18, 19, 23} \<Longrightarrow> n < 16 \<Longrightarrow> uuid_char_ok i (hex_digit n)"
  by (simp add: uuid_char_ok_def isxdigit_hex_digit)

lemma sixteen_bytes:
  assumes "length buf = 16"
  obtains b0 b1 b2 b3 b4 b5 b6 b7 b8 b9 b10 b11 b12 b13 b14 b15
  where "buf = [b0, b1, b2, b3, b4, b5, b6, b7, b8, b9, b10, b11, b12, b13, b14, b15]"
proof -
  have "length buf = Suc (Suc (Suc (Suc (Suc (Suc (Suc (Suc (Suc (Suc (Suc (Suc (Suc (Suc (Suc (Suc 0)))))))))))))))"
    using assms by simp
  then show ?thesis
    using that by (auto simp: length_Suc_conv simp del: length_0_conv)
qed

lemma format_valid:
  assumes "unat b6 div 16 = 4" "unat b8 div 16 \<in> {8, 9, 10, 11}"
  shows "sbs_uuid_validate (Some (format_uuid [b0, b1, b2, b3, b4, b5, b6, b7, b8, b9, b10, b11, b12, b13, b14, b15]))"
proof -
  have dash: "uuid_char_ok i CHR ''-''" if "i \<in> {8, 13, 18, 23}" for i
    using that by (auto simp: uuid_char_ok_def)
  have upt: "[0..<36] = [0, 1, 2, 3, 4, 5, 6, 7, 8, 9, 10, 11, 12, 13, 14, 15, 16, 17, 18, 19, 20, 21, 22,
      23, 24, 25, 26, 27, 28, 29, 30, 31, 32, 33, 34, 35]"
    by (simp add: upt_rec)
  show ?thesis
    using version_char variant_char [OF assms(2)] assms(1) byte_halves dash plain_char
    by (simp add: sbs_uuid_validate_def format_uuid_def byte_hex_def upt)
qed

section \<open>Properties\<close>

text \<open>
  Whatever \<open>/dev/urandom\<close> does (it cannot be opened, it returns too few bytes, or any 16
  bytes), \<open>sbs_uuid_generate\<close> writes a string that \<open>sbs_uuid_validate\<close> accepts.
\<close>

theorem generated_uuid_is_valid: "sbs_uuid_validate (Some (sbs_uuid_generate urandom))"
proof (cases "\<exists>buf. urandom = Some buf \<and> length buf = 16")
  case False
  have "sbs_uuid_validate (Some zero_uuid)"
    by code_simp
  then show ?thesis
    using False by (auto simp: sbs_uuid_generate_def split: option.splits)
next
  case True
  then obtain buf where buf: "urandom = Some buf" "length buf = 16"
    by blast
  obtain b0 b1 b2 b3 b4 b5 b6 b7 b8 b9 b10 b11 b12 b13 b14 b15
    where b: "buf = [b0, b1, b2, b3, b4, b5, b6, b7, b8, b9, b10, b11, b12, b13, b14, b15]"
    using buf(2) by (rule sixteen_bytes)
  have "stamp_version buf = [b0, b1, b2, b3, b4, b5, (b6 AND 0x0F) OR 0x40, b7, (b8 AND 0x3F) OR 0x80,
      b9, b10, b11, b12, b13, b14, b15]"
    by (simp add: b stamp_version_def Let_def)
  then show ?thesis
    using format_valid [OF version_byte variant_byte] buf by (simp only: sbs_uuid_generate_def) simp
qed

text \<open>
  \<open>sbs_uuid_generate\<close> keeps every random bit but the six of the version and the variant:
  two reads give the same UUID exactly when they agree outside those bits.
\<close>

theorem generated_uuid_injective:
  assumes "length a = 16" "length b = 16"
  shows "sbs_uuid_generate (Some a) = sbs_uuid_generate (Some b) \<longleftrightarrow> stamp_version a = stamp_version b"
proof
  assume eq: "sbs_uuid_generate (Some a) = sbs_uuid_generate (Some b)"
  have len: "length (stamp_version a) = 16" "length (stamp_version b) = 16"
    using assms by (simp_all add: stamp_version_def Let_def)
  obtain a0 a1 a2 a3 a4 a5 a6 a7 a8 a9 a10 a11 a12 a13 a14 a15
    where a: "stamp_version a = [a0, a1, a2, a3, a4, a5, a6, a7, a8, a9, a10, a11, a12, a13, a14, a15]"
    using len(1) by (rule sixteen_bytes)
  obtain b0 b1 b2 b3 b4 b5 b6 b7 b8 b9 b10 b11 b12 b13 b14 b15
    where b: "stamp_version b = [b0, b1, b2, b3, b4, b5, b6, b7, b8, b9, b10, b11, b12, b13, b14, b15]"
    using len(2) by (rule sixteen_bytes)
  have byte: "hex_digit (unat x div 16) = hex_digit (unat y div 16) \<Longrightarrow>
      hex_digit (unat x mod 16) = hex_digit (unat y mod 16) \<Longrightarrow> x = y" for x y :: u8
    by (rule byte_hex_inj) (simp add: byte_hex_def)
  show "stamp_version a = stamp_version b"
    using eq assms byte unfolding a b by (simp add: sbs_uuid_generate_def a b format_uuid_def byte_hex_def)
qed (use assms in \<open>simp add: sbs_uuid_generate_def\<close>)

theorem generated_uuid_injective_witness:
  "sbs_uuid_generate (Some (replicate 16 0)) = sbs_uuid_generate (Some ((replicate 16 0)[6 := 0x50]))
    \<longleftrightarrow> stamp_version (replicate 16 0) = stamp_version ((replicate 16 0)[6 := 0x50])"
  by (rule generated_uuid_injective) simp_all

end
