(* ===== verification/Ieee.thy ===== *)
theory Ieee
  imports Complex_Main Sbs_Prelude "HOL-Library.Signed_Division"
begin

text \<open>
  The C types \<open>double\<close> and \<open>float\<close> as far as the modelled code computes with them: finite
  values are rationals, every operation rounds its exact result to the nearest representable
  value, ties to even, and overflow gives an infinity. The sign of zero is not represented (no
  modelled comparison depends on it). \<open>lround\<close> of a value that does not fit saturates and of NaN
  is 0, which is what the AArch64 instruction behind it does; the conversion of \<open>long\<close> to
  \<open>int\<close> keeps the low 32 bits.
\<close>

section \<open>Values and rounding\<close>

datatype fp = Fin rat | PInf | NInf | NaN

record fp_format =
  fp_precision :: int
  fp_min_ulp :: int
  fp_overflow :: int

definition binary64 :: fp_format where
  "binary64 = \<lparr>fp_precision = 53, fp_min_ulp = -1074, fp_overflow = 1024\<rparr>"

definition binary32 :: fp_format where
  "binary32 = \<lparr>fp_precision = 24, fp_min_ulp = -149, fp_overflow = 128\<rparr>"

definition pow2 :: "int \<Rightarrow> rat" where
  "pow2 k = (if 0 \<le> k then 2 ^ nat k else 1 / 2 ^ nat (- k))"

fun log2_nat :: "nat \<Rightarrow> nat" where
  "log2_nat n = (if n < 2 then 0 else Suc (log2_nat (n div 2)))"

declare log2_nat.simps [simp del]

text \<open>The binary exponent of a positive rational.\<close>

definition ilog2 :: "rat \<Rightarrow> int" where
  "ilog2 q =
     (let (n, d) = quotient_of q;
          k = int (log2_nat (nat n)) - int (log2_nat (nat d))
      in if pow2 k \<le> q then k else k - 1)"

definition round_half_even :: "rat \<Rightarrow> int" where
  "round_half_even q =
     (let f = \<lfloor>q\<rfloor>; r = q - of_int f in
      if r < 1 / 2 then f else if 1 / 2 < r then f + 1 else if even f then f else f + 1)"

definition fp_round :: "fp_format \<Rightarrow> rat \<Rightarrow> fp" where
  "fp_round fmt q =
     (if q = 0 then Fin 0
      else
        let u = pow2 (max (ilog2 \<bar>q\<bar> - (fp_precision fmt - 1)) (fp_min_ulp fmt));
            r = of_int (round_half_even (q / u)) * u
        in if pow2 (fp_overflow fmt) \<le> r then PInf
           else if r \<le> - pow2 (fp_overflow fmt) then NInf else Fin r)"

fun fp_neg :: "fp \<Rightarrow> fp" where
  "fp_neg (Fin q) = Fin (- q)"
| "fp_neg PInf = NInf"
| "fp_neg NInf = PInf"
| "fp_neg NaN = NaN"

fun fp_div :: "fp_format \<Rightarrow> fp \<Rightarrow> fp \<Rightarrow> fp" where
  "fp_div fmt NaN y = NaN"
| "fp_div fmt x NaN = NaN"
| "fp_div fmt (Fin a) (Fin b) =
     (if b = 0 then (if a = 0 then NaN else if 0 < a then PInf else NInf) else fp_round fmt (a / b))"
| "fp_div fmt (Fin a) PInf = Fin 0"
| "fp_div fmt (Fin a) NInf = Fin 0"
| "fp_div fmt PInf (Fin b) = (if 0 \<le> b then PInf else NInf)"
| "fp_div fmt NInf (Fin b) = (if 0 \<le> b then NInf else PInf)"
| "fp_div fmt PInf PInf = NaN"
| "fp_div fmt PInf NInf = NaN"
| "fp_div fmt NInf PInf = NaN"
| "fp_div fmt NInf NInf = NaN"

fun fp_sgn :: "fp \<Rightarrow> int" where
  "fp_sgn (Fin q) = (if q < 0 then - 1 else if q = 0 then 0 else 1)"
| "fp_sgn PInf = 1"
| "fp_sgn NInf = - 1"
| "fp_sgn NaN = 0"

definition fp_mul :: "fp_format \<Rightarrow> fp \<Rightarrow> fp \<Rightarrow> fp" where
  "fp_mul fmt x y =
     (case (x, y) of
        (Fin a, Fin b) \<Rightarrow> fp_round fmt (a * b)
      | _ \<Rightarrow> (case fp_sgn x * fp_sgn y of
            s \<Rightarrow> if x = NaN \<or> y = NaN \<or> s = 0 then NaN else if 0 < s then PInf else NInf))"

text \<open>The comparison \<open>x < y\<close>, false when an operand is NaN; \<open>>\<close> and \<open>>=\<close> come from it.\<close>

fun fp_less :: "fp \<Rightarrow> fp \<Rightarrow> bool" where
  "fp_less (Fin a) (Fin b) \<longleftrightarrow> a < b"
| "fp_less NInf y \<longleftrightarrow> y \<noteq> NInf \<and> y \<noteq> NaN"
| "fp_less x PInf \<longleftrightarrow> x \<noteq> PInf \<and> x \<noteq> NaN"
| "fp_less x y \<longleftrightarrow> False"

definition fp_le :: "fp \<Rightarrow> fp \<Rightarrow> bool" where
  "fp_le x y \<longleftrightarrow> fp_less x y \<or> (x = y \<and> x \<noteq> NaN)"

section \<open>Conversions\<close>

definition c_int :: "int \<Rightarrow> int" where
  "c_int n = signed_take_bit 31 n"

definition dbl_of_int :: "int \<Rightarrow> fp" where
  "dbl_of_int n = fp_round binary64 (of_int n)"

text \<open>Half-way cases away from zero.\<close>

definition round_half_away :: "rat \<Rightarrow> int" where
  "round_half_away q = (if 0 \<le> q then \<lfloor>q + 1 / 2\<rfloor> else - \<lfloor>1 / 2 - q\<rfloor>)"

fun lround :: "fp \<Rightarrow> int" where
  "lround (Fin q) = max (- (2 ^ 63)) (min (2 ^ 63 - 1) (round_half_away q))"
| "lround PInf = 2 ^ 63 - 1"
| "lround NInf = - (2 ^ 63)"
| "lround NaN = 0"

section \<open>Lemmas\<close>

lemma fp_less_irrefl [simp]: "\<not> fp_less x x"
  by (cases x) simp_all

lemma fp_le_refl_Fin [simp]: "fp_le (Fin a) (Fin b) \<longleftrightarrow> a \<le> b"
  by (auto simp: fp_le_def)

lemma fp_round_zero [simp]: "fp_round fmt 0 = Fin 0"
  by (simp add: fp_round_def)

lemma fp_round_not_NaN [simp]: "fp_round fmt q \<noteq> NaN"
  by (simp add: fp_round_def Let_def)

text \<open>Two values that are not NaN compare one way or the other.\<close>

lemma fp_less_total:
  "x \<noteq> NaN \<Longrightarrow> y \<noteq> NaN \<Longrightarrow> fp_less x y \<or> fp_le y x"
  by (cases x; cases y) (auto simp: fp_le_def)

text \<open>\<open>((q % 4) + 4) % 4\<close> with the truncating remainder of C is the residue in 0..3.\<close>

lemma c_mod_4: "((q smod 4) + 4) smod 4 = q mod (4 :: int)"
proof -
  have "\<bar>q smod 4\<bar> < 4"
    using smod_int_range [of 4 q] by auto
  then have "0 \<le> q smod 4 + 4"
    by linarith
  then have "(q smod 4 + 4) smod 4 = (q smod 4 + 4) mod 4"
    by (simp add: smod_int_alt_def sgn_if)
  moreover have "q smod 4 mod 4 = q mod 4"
    using arg_cong [OF smod_sdiv_mult_eq [of q 4], of "\<lambda>n. n mod 4"] by simp
  ultimately show ?thesis
    by simp
qed

text \<open>Integers below 2 ^ 53 are exact.\<close>

lemma log2_nat_less: "0 < m \<Longrightarrow> n < 2 ^ m \<Longrightarrow> log2_nat n < m"
proof (induction m arbitrary: n)
  case 0
  then show ?case by simp
next
  case (Suc m)
  show ?case
  proof (cases "n < 2")
    case True
    then show ?thesis
      by (simp add: log2_nat.simps [of n])
  next
    case False
    then have "n div 2 < 2 ^ m" "0 < m"
      using Suc.prems(2) by (auto intro: Nat.gr0I)
    then show ?thesis
      using Suc.IH [of "n div 2"] False by (simp add: log2_nat.simps [of n])
  qed
qed

lemma ilog2_int:
  assumes "0 < n" "n < 2 ^ m" "0 < m"
  shows "ilog2 (of_int n) \<le> int m - 1"
proof -
  have "nat n < 2 ^ m"
    using assms by (simp add: nat_less_iff)
  then have "log2_nat (nat n) < m"
    using assms by (intro log2_nat_less)
  moreover have "log2_nat (Suc 0) = 0"
    by (simp add: log2_nat.simps)
  ultimately show ?thesis
    by (simp add: ilog2_def Let_def)
qed

lemma round_half_even_int [simp]: "round_half_even (of_int n) = n"
  by (simp add: round_half_even_def Let_def)

lemma pow2_pos [simp]: "0 < pow2 k"
  by (simp add: pow2_def)

lemma fp_round_int_exact:
  assumes n: "\<bar>n\<bar> < 2 ^ p"
    and fmt: "fp_precision fmt = int p" "0 < p" "fp_min_ulp fmt \<le> 0" "int p \<le> fp_overflow fmt"
  shows "fp_round fmt (of_int n) = Fin (of_int n)"
proof (cases "n = 0")
  case False
  define k where "k = max (ilog2 \<bar>of_int n\<bar> - (int p - 1)) (fp_min_ulp fmt)"
  let ?r = "of_int (round_half_even (of_int n / pow2 k)) * pow2 k"
  have unfold: "fp_round fmt (of_int n)
      = (if pow2 (fp_overflow fmt) \<le> ?r then PInf
         else if ?r \<le> - pow2 (fp_overflow fmt) then NInf else Fin ?r)"
    using False by (simp add: fp_round_def Let_def k_def fmt)
  have "ilog2 (of_int \<bar>n\<bar>) \<le> int p - 1"
    using n fmt(2) False by (intro ilog2_int) auto
  then have k: "k \<le> 0"
    using fmt(3) by (simp add: k_def of_int_abs)
  then have "of_int n / pow2 k = (of_int (n * 2 ^ nat (- k)) :: rat)"
    by (auto simp: pow2_def)
  then have "round_half_even (of_int n / pow2 k) = n * 2 ^ nat (- k)"
    by (simp only: round_half_even_int)
  moreover have "of_int (n * 2 ^ nat (- k)) * pow2 k = (of_int n :: rat)"
    using k by (auto simp: pow2_def)
  ultimately have r: "?r = of_int n"
    by (simp only:)
  have "\<bar>of_int n :: rat\<bar> < 2 ^ p"
    using n by (metis of_int_abs of_int_less_iff of_int_numeral of_int_power)
  also have "(2 :: rat) ^ p \<le> 2 ^ nat (fp_overflow fmt)"
    using fmt(4) by (intro power_increasing) simp_all
  also have "\<dots> = pow2 (fp_overflow fmt)"
    using fmt(4) by (simp add: pow2_def)
  finally have "\<not> pow2 (fp_overflow fmt) \<le> (of_int n :: rat)" "\<not> (of_int n :: rat) \<le> - pow2 (fp_overflow fmt)"
    by (simp_all only: not_le abs_less_iff) linarith
  then show ?thesis
    unfolding unfold r by (simp only: if_False)
qed simp

lemma fp_round_int: "\<bar>n\<bar> < 2 ^ 53 \<Longrightarrow> fp_round binary64 (of_int n) = Fin (of_int n)"
  by (rule fp_round_int_exact [where p = 53]) (simp_all add: binary64_def)

lemma fp_round_int32: "\<bar>n\<bar> < 2 ^ 24 \<Longrightarrow> fp_round binary32 (of_int n) = Fin (of_int n)"
  by (rule fp_round_int_exact [where p = 24]) (simp_all add: binary32_def)

lemma dbl_of_int_exact: "\<bar>n\<bar> < 2 ^ 53 \<Longrightarrow> dbl_of_int n = Fin (of_int n)"
  by (simp add: dbl_of_int_def fp_round_int)

lemma lround_int: "\<bar>n\<bar> < 2 ^ 53 \<Longrightarrow> lround (Fin (of_int n)) = n"
proof -
  assume n: "\<bar>n\<bar> < 2 ^ 53"
  have "\<lfloor>of_int n + 1 / 2 :: rat\<rfloor> = n" "\<lfloor>1 / 2 - of_int n :: rat\<rfloor> = - n"
    by (simp_all add: floor_eq_iff)
  then have "round_half_away (of_int n) = n"
    by (simp add: round_half_away_def)
  then show ?thesis
    using n by simp
qed

end
