(* ===== verification/Scene_Types.thy ===== *)
theory Scene_Types
  imports Ieee Frame_Slot
begin

text \<open>
  The data of \<open>src/include/sbs/scene_graph.h\<close> and the small helpers of
  \<open>src/server/engine/scene_graph.c\<close> that copy, compare and normalise it. A \<open>char *\<close> that may be
  NULL is a \<open>string option\<close>; a hash table of strings is a \<open>string htab\<close>; a \<open>GPtrArray\<close> is a
  list. \<open>g_ascii_strtod\<close> is a parameter of the definitions that use it.
\<close>

section \<open>Records\<close>

datatype color_mode = COLOR_MODE_SDR | COLOR_MODE_HDR10

datatype source_kind =
    KIND_V4L2SRC | KIND_URIDECODEBIN | KIND_VIDEOTESTSRC | KIND_IMAGE | KIND_TEXT | KIND_VFMCAP
  | KIND_ALSA_AUDIO

datatype transition_kind = TRANSITION_CUT | TRANSITION_FADE | TRANSITION_SLIDE

record canvas_state =
  cv_width :: u32
  cv_height :: u32
  cv_fps_num :: u32
  cv_fps_den :: u32
  cv_color_mode :: color_mode
  cv_background_color :: string

record audio_binding =
  ab_enabled :: bool
  ab_device :: "string option"
  ab_volume :: fp
  ab_left_gain :: fp
  ab_right_gain :: fp
  ab_delay_ms :: int
  ab_eq_bands :: "fp list"
  ab_mute :: bool
  ab_monitor :: bool

record filter_state =
  fl_id :: string
  fl_type :: string
  fl_enabled :: bool
  fl_params :: "string htab"

record item_transform =
  tr_position_x :: int
  tr_position_y :: int
  tr_width :: int
  tr_height :: int
  tr_crop_top :: int
  tr_crop_bottom :: int
  tr_crop_left :: int
  tr_crop_right :: int
  tr_rotation_deg :: fp
  tr_flip_horizontal :: bool
  tr_flip_vertical :: bool
  tr_bounds_type :: "string option"
  tr_alignment :: "string option"
  tr_opacity :: fp

record source_state =
  so_id :: string
  so_name :: string
  so_kind :: source_kind
  so_enabled :: bool
  so_keep_alive :: bool
  so_config :: "string htab"
  so_filters :: "filter_state list"
  so_audio :: audio_binding
  so_frame_slot :: "frame_fds frame_slot"
  so_slot_initialized :: bool
  so_frame_width :: u32
  so_frame_height :: u32
  so_color_depth :: u32
  so_hdr :: bool
  so_color_space :: string
  so_hdr_eotf :: string
  so_drm_format :: u32
  so_drm_modifier :: u64
  so_plane_offset :: "u32 list"
  so_plane_stride :: "u32 list"
  so_running :: bool
  so_muted :: bool
  so_runtime_state :: "string option"
  so_v4l2_effective_decode_mode :: "string option"
  so_error_message :: "string option"

record item_state =
  it_id :: string
  it_source_id :: string
  it_visible :: bool
  it_locked :: bool
  it_z_order :: int
  it_transform :: item_transform
  it_audio :: audio_binding
  it_filters :: "filter_state list"

record scene_state =
  sc_id :: string
  sc_name :: string
  sc_items :: "item_state list"
  sc_filters :: "filter_state list"

record sink_state =
  sk_id :: string
  sk_type :: string
  sk_enabled :: bool
  sk_config :: "string htab"

record output_state =
  ou_id :: string
  ou_name :: string
  ou_enabled :: bool
  ou_autostart :: bool
  ou_encoder :: "string htab"
  ou_sinks :: "sink_state list"
  ou_running :: bool
  ou_runtime_state :: "string option"

record transition_state =
  ts_id :: string
  ts_kind :: transition_kind
  ts_duration_ms :: u32
  ts_params :: "string htab"

record transition_runtime =
  rt_active :: bool
  rt_from_scene_id :: "string option"
  rt_to_scene_id :: "string option"
  rt_transition_id :: "string option"
  rt_kind :: transition_kind
  rt_duration_ms :: u32
  rt_progress :: fp
  rt_start_time_us :: int

record scene_graph =
  gr_canvas :: canvas_state
  gr_sources :: "source_state htab"
  gr_scenes :: "scene_state htab"
  gr_outputs :: "output_state htab"
  gr_transitions :: "transition_state htab"
  gr_active_scene_id :: "string option"
  gr_preview_scene_id :: "string option"
  gr_default_transition_id :: "string option"
  gr_version :: u64
  gr_transition_runtime :: transition_runtime

section \<open>Parameters of the operations\<close>

record source_create_params =
  scp_id :: "string option"
  scp_name :: "string option"
  scp_kind :: source_kind
  scp_enabled :: bool
  scp_keep_alive :: bool
  scp_config :: "string htab option"

record source_update_params =
  sup_set_name :: bool
  sup_name :: "string option"
  sup_set_enabled :: bool
  sup_enabled :: bool
  sup_set_keep_alive :: bool
  sup_keep_alive :: bool
  sup_set_config :: bool
  sup_config :: "string htab option"

record item_create_params =
  icp_id :: "string option"
  icp_source_id :: "string option"
  icp_visible :: bool
  icp_locked :: bool
  icp_z_order :: int
  icp_transform :: item_transform
  icp_audio :: "audio_binding option"

record item_update_params =
  iup_set_visible :: bool
  iup_visible :: bool
  iup_set_locked :: bool
  iup_locked :: bool
  iup_set_z_order :: bool
  iup_z_order :: int
  iup_set_transform :: bool
  iup_transform :: item_transform

record filter_create_params =
  fcp_id :: "string option"
  fcp_type :: "string option"
  fcp_enabled :: bool
  fcp_params :: "string htab option"

record filter_update_params =
  fup_set_enabled :: bool
  fup_enabled :: bool
  fup_params :: "string htab option"

record output_create_params =
  ocp_id :: "string option"
  ocp_name :: "string option"
  ocp_enabled :: bool
  ocp_autostart :: bool

section \<open>Identifiers and string tables\<close>

definition g_ascii_isalnum :: "char \<Rightarrow> bool" where
  "g_ascii_isalnum c \<longleftrightarrow>
     (CHR ''0'' \<le> c \<and> c \<le> CHR ''9'') \<or> (CHR ''A'' \<le> c \<and> c \<le> CHR ''Z'') \<or> (CHR ''a'' \<le> c \<and> c \<le> CHR ''z'')"

definition valid_graph_id :: "string option \<Rightarrow> bool" where
  "valid_graph_id gid =
     (case gid of
        None \<Rightarrow> False
      | Some s \<Rightarrow>
          if s = [] then False
          else if 96 < length s then False
          else list_all (\<lambda>c. g_ascii_isalnum c \<or> c = CHR ''-'' \<or> c = CHR ''_'' \<or> c = CHR ''.'') s)"

definition str_map_set :: "string htab \<Rightarrow> string \<Rightarrow> string \<Rightarrow> string htab" where
  "str_map_set m k v = ht_insert k v m"

definition str_map_copy :: "string htab option \<Rightarrow> string htab" where
  "str_map_copy src =
     (case src of None \<Rightarrow> [] | Some s \<Rightarrow> fold (\<lambda>(k, v) dst. str_map_set dst k v) s [])"

section \<open>Copying and normalising\<close>

definition zero_audio :: audio_binding where
  "zero_audio = \<lparr>ab_enabled = False, ab_device = None, ab_volume = Fin 0, ab_left_gain = Fin 0,
     ab_right_gain = Fin 0, ab_delay_ms = 0, ab_eq_bands = replicate 10 (Fin 0), ab_mute = False,
     ab_monitor = False\<rparr>"

definition at_least_zero :: "fp \<Rightarrow> fp" where
  "at_least_zero x = (if fp_le (Fin 0) x then x else Fin 1)"

definition audio_binding_copy :: "audio_binding option \<Rightarrow> audio_binding" where
  "audio_binding_copy src =
     (case src of
        None \<Rightarrow> zero_audio\<lparr>ab_volume := Fin 1\<rparr>
      | Some a \<Rightarrow> \<lparr>ab_enabled = ab_enabled a, ab_device = ab_device a,
          ab_volume = at_least_zero (ab_volume a), ab_left_gain = at_least_zero (ab_left_gain a),
          ab_right_gain = at_least_zero (ab_right_gain a), ab_delay_ms = ab_delay_ms a,
          ab_eq_bands = ab_eq_bands a, ab_mute = ab_mute a, ab_monitor = ab_monitor a\<rparr>)"

definition quarter_turns :: "fp \<Rightarrow> int" where
  "quarter_turns degrees =
     (let quarter = c_int (lround (fp_div binary64 degrees (Fin 90))) in ((quarter smod 4) + 4) smod 4)"

definition snap_quarter_rotation :: "fp \<Rightarrow> fp" where
  "snap_quarter_rotation degrees = dbl_of_int (quarter_turns degrees * 90)"

definition item_transform_copy :: "item_transform \<Rightarrow> item_transform" where
  "item_transform_copy src =
     src\<lparr>tr_rotation_deg := snap_quarter_rotation (tr_rotation_deg src),
         tr_bounds_type := Some (case tr_bounds_type src of None \<Rightarrow> ''stretch'' | Some b \<Rightarrow> b),
         tr_alignment := Some (case tr_alignment src of None \<Rightarrow> ''center'' | Some a \<Rightarrow> a),
         tr_opacity := (if fp_less (Fin 0) (tr_opacity src) then tr_opacity src else Fin 1)\<rparr>"

text \<open>The conversion \<open>%.0f\<close> of a quarter turn.\<close>

fun digits_of_nat :: "nat \<Rightarrow> string" where
  "digits_of_nat n =
     (if n < 10 then [char_of (48 + n)] else digits_of_nat (n div 10) @ [char_of (48 + n mod 10)])"

declare digits_of_nat.simps [simp del]

definition filter_params_copy ::
  "(string \<Rightarrow> fp) \<Rightarrow> string \<Rightarrow> string htab option \<Rightarrow> string htab" where
  "filter_params_copy strtod type src =
     (let dst = str_map_copy src in
      if type = ''rotation'' then
        let degrees = (case ht_lookup dst ''degrees'' of None \<Rightarrow> Fin 90 | Some v \<Rightarrow> strtod v)
        in str_map_set dst ''degrees'' (digits_of_nat (nat (quarter_turns degrees * 90)))
      else dst)"

section \<open>The order of the items of a scene\<close>

text \<open>\<open>strcmp\<close> compares the characters as unsigned bytes; only the sign of its result is used.\<close>

fun strcmp :: "string \<Rightarrow> string \<Rightarrow> int" where
  "strcmp [] [] = 0"
| "strcmp [] (_ # _) = - 1"
| "strcmp (_ # _) [] = 1"
| "strcmp (a # as) (b # bs) = (if a < b then - 1 else if b < a then 1 else strcmp as bs)"

datatype item_key = Item_key (key_z: int) (key_id: string)

fun item_compare_z_order :: "item_key \<Rightarrow> item_key \<Rightarrow> int" where
  "item_compare_z_order (Item_key za ia) (Item_key zb ib) =
     (if za < zb then - 1 else if zb < za then 1 else strcmp ia ib)"

definition item_key_of :: "item_state \<Rightarrow> item_key" where
  "item_key_of it = Item_key (it_z_order it) (it_id it)"

lemma strcmp_le: "strcmp a b \<le> 0 \<longleftrightarrow> a \<le> b"
  by (induction a b rule: strcmp.induct) auto

lemma strcmp_eq: "strcmp a b = 0 \<longleftrightarrow> a = b"
  by (induction a b rule: strcmp.induct) auto

text \<open>The comparison function is a total order, so sorting by it is well defined.\<close>

instantiation item_key :: linorder
begin

definition less_eq_item_key :: "item_key \<Rightarrow> item_key \<Rightarrow> bool" where
  "less_eq_item_key a b \<longleftrightarrow> item_compare_z_order a b \<le> 0"

definition less_item_key :: "item_key \<Rightarrow> item_key \<Rightarrow> bool" where
  "less_item_key a b \<longleftrightarrow> item_compare_z_order a b < 0"

lemma item_key_le: "a \<le> b \<longleftrightarrow> (key_z a, key_id a) \<le> (key_z b, key_id b)" for a b :: item_key
  by (cases a; cases b) (auto simp: less_eq_item_key_def strcmp_le)

lemma item_key_less: "a < b \<longleftrightarrow> a \<le> b \<and> a \<noteq> b" for a b :: item_key
  using strcmp_eq [of "key_id a" "key_id b"]
  by (cases a; cases b) (auto simp: less_eq_item_key_def less_item_key_def)

instance
proof
  fix a b c :: item_key
  have anti: "a \<le> b \<Longrightarrow> b \<le> a \<Longrightarrow> a = b"
    by (cases a; cases b) (auto simp: item_key_le)
  then show "a \<le> b \<Longrightarrow> b \<le> a \<Longrightarrow> a = b" .
  show "a < b \<longleftrightarrow> a \<le> b \<and> \<not> b \<le> a"
    using anti by (auto simp: item_key_less item_key_le)
  show "a \<le> a"
    by (simp add: item_key_le)
  show "a \<le> b \<Longrightarrow> b \<le> c \<Longrightarrow> a \<le> c"
    unfolding item_key_le by (rule order_trans)
  show "a \<le> b \<or> b \<le> a"
    unfolding item_key_le by (rule linear)
qed

end

definition scene_sort_items :: "scene_state \<Rightarrow> scene_state" where
  "scene_sort_items scene = scene\<lparr>sc_items := sort_key item_key_of (sc_items scene)\<rparr>"

section \<open>Finding items and filters\<close>

definition filter_array_find :: "filter_state list \<Rightarrow> string option \<Rightarrow> filter_state option" where
  "filter_array_find filters fid =
     (case fid of None \<Rightarrow> None | Some k \<Rightarrow> find (\<lambda>f. fl_id f = k) filters)"

definition scene_find_item :: "scene_state \<Rightarrow> string option \<Rightarrow> item_state option" where
  "scene_find_item scene iid =
     (case iid of None \<Rightarrow> None | Some k \<Rightarrow> find (\<lambda>it. it_id it = k) (sc_items scene))"

section \<open>Names of the kinds\<close>

fun source_kind_name :: "source_kind \<Rightarrow> string" where
  "source_kind_name KIND_V4L2SRC = ''v4l2src''"
| "source_kind_name KIND_URIDECODEBIN = ''uridecodebin''"
| "source_kind_name KIND_VIDEOTESTSRC = ''videotestsrc''"
| "source_kind_name KIND_IMAGE = ''image''"
| "source_kind_name KIND_TEXT = ''text''"
| "source_kind_name KIND_VFMCAP = ''vfmcap''"
| "source_kind_name KIND_ALSA_AUDIO = ''alsa_audio''"

definition parse_source_kind :: "string option \<Rightarrow> source_kind option" where
  "parse_source_kind type =
     (case type of
        None \<Rightarrow> Some KIND_VIDEOTESTSRC
      | Some t \<Rightarrow>
          if t = ''videotestsrc'' then Some KIND_VIDEOTESTSRC
          else if t = ''v4l2src'' then Some KIND_V4L2SRC
          else if t = ''uridecodebin'' then Some KIND_URIDECODEBIN
          else if t = ''image'' then Some KIND_IMAGE
          else if t = ''text'' then Some KIND_TEXT
          else if t = ''vfmcap'' then Some KIND_VFMCAP
          else if t = ''alsa_audio'' \<or> t = ''audio'' then Some KIND_ALSA_AUDIO
          else None)"

fun transition_kind_name :: "transition_kind \<Rightarrow> string" where
  "transition_kind_name TRANSITION_CUT = ''cut''"
| "transition_kind_name TRANSITION_FADE = ''fade''"
| "transition_kind_name TRANSITION_SLIDE = ''slide''"

section \<open>Lemmas\<close>

lemma quarter_turns_mod: "quarter_turns d = c_int (lround (fp_div binary64 d (Fin 90))) mod 4"
  by (simp add: quarter_turns_def c_mod_4 Let_def)

lemma mod_4_cases: "n mod 4 \<in> {0, 1, 2, 3 :: int}"
  unfolding insert_iff empty_iff by presburger

lemma quarter_turns_range: "quarter_turns d \<in> {0, 1, 2, 3}"
  unfolding quarter_turns_mod by (rule mod_4_cases)

lemma snap_eq: "snap_quarter_rotation d = Fin (of_int (quarter_turns d * 90))"
  using quarter_turns_range [of d] unfolding snap_quarter_rotation_def
  by (intro dbl_of_int_exact) auto

lemma quarter_turns_of_quarter:
  assumes "q \<in> {0, 1, 2, 3}"
  shows "quarter_turns (Fin (of_int (q * 90))) = q"
proof -
  have "fp_div binary64 (Fin (of_int (q * 90))) (Fin 90) = Fin (of_int q)"
    using assms fp_round_int [of q] by auto
  moreover have "lround (Fin (of_int q)) = q"
    using assms by (intro lround_int) auto
  moreover have "c_int q = q"
    using assms by (auto simp: c_int_def)
  ultimately show ?thesis
    using assms by (auto simp: quarter_turns_mod)
qed

lemma snap_idem [simp]: "snap_quarter_rotation (snap_quarter_rotation d) = snap_quarter_rotation d"
  using quarter_turns_of_quarter [OF quarter_turns_range] by (simp only: snap_eq)

lemma str_map_copy_wf: "ht_wf (str_map_copy src)"
proof -
  have "ht_wf (fold (\<lambda>(k, v) dst. str_map_set dst k v) xs t)" if "ht_wf t" for xs t
    using that by (induction xs arbitrary: t) (auto simp: str_map_set_def)
  then show ?thesis
    by (simp add: str_map_copy_def split: option.splits)
qed

text \<open>A copy has the same entries.\<close>

lemma str_map_copy_lookup:
  assumes "ht_wf src"
  shows "ht_lookup (str_map_copy (Some src)) k = ht_lookup src k"
proof -
  have "ht_lookup (fold (\<lambda>(k, v) dst. str_map_set dst k v) xs t) k
      = (case ht_lookup xs k of None \<Rightarrow> ht_lookup t k | Some v \<Rightarrow> Some v)" if "ht_wf xs" for xs t
    using that
  proof (induction xs arbitrary: t)
    case Nil
    then show ?case by simp
  next
    case (Cons x xs)
    then have "fst x \<notin> fst ` set xs" "ht_wf xs"
      by (auto simp: ht_wf_def)
    then have "ht_lookup xs (fst x) = None"
      by (simp add: ht_lookup_def map_of_eq_None_iff)
    then show ?case
      using Cons.IH [OF \<open>ht_wf xs\<close>]
      by (cases x) (auto simp: str_map_set_def ht_lookup_Cons split: option.splits)
  qed
  then show ?thesis
    using assms by (simp add: str_map_copy_def split: option.splits)
qed

lemma valid_graph_id_Some: "valid_graph_id gid \<Longrightarrow> \<exists>s. gid = Some s \<and> s \<noteq> []"
  by (auto simp: valid_graph_id_def split: option.splits if_splits)

end
