(* ===== verification/Scene_Graph.thy ===== *)
theory Scene_Graph
  imports Scene_Types
begin

text \<open>
  The operations of \<open>src/server/engine/scene_graph.c\<close> on the scene graph. An operation answers
  with its result code and the graph it leaves; the pointer it writes to \<open>out_*\<close> is the stored
  record, which the getters return. The graph and the parameter records are never NULL in the
  model, identifiers and tables may be. Time is a parameter of the operations that read the
  monotonic clock.
\<close>

section \<open>Lookups\<close>

definition lookup_opt :: "'v htab \<Rightarrow> string option \<Rightarrow> 'v option" where
  "lookup_opt t k = (case k of None \<Rightarrow> None | Some s \<Rightarrow> ht_lookup t s)"

definition sbs_scene_graph_get_source :: "scene_graph \<Rightarrow> string option \<Rightarrow> source_state option" where
  "sbs_scene_graph_get_source g sid = lookup_opt (gr_sources g) sid"

definition sbs_scene_graph_get_scene :: "scene_graph \<Rightarrow> string option \<Rightarrow> scene_state option" where
  "sbs_scene_graph_get_scene g sid = lookup_opt (gr_scenes g) sid"

definition sbs_scene_graph_get_item ::
  "scene_graph \<Rightarrow> string option \<Rightarrow> string option \<Rightarrow> item_state option" where
  "sbs_scene_graph_get_item g scene_id item_id =
     (if scene_id = None \<or> item_id = None then None
      else case sbs_scene_graph_get_scene g scene_id of
        None \<Rightarrow> None
      | Some scene \<Rightarrow> scene_find_item scene item_id)"

definition sbs_scene_graph_get_output :: "scene_graph \<Rightarrow> string option \<Rightarrow> output_state option" where
  "sbs_scene_graph_get_output g oid = lookup_opt (gr_outputs g) oid"

definition sbs_scene_graph_get_transition ::
  "scene_graph \<Rightarrow> string option \<Rightarrow> transition_state option" where
  "sbs_scene_graph_get_transition g tid = lookup_opt (gr_transitions g) tid"

definition graph_bump_version :: "scene_graph \<Rightarrow> scene_graph" where
  "graph_bump_version g = g\<lparr>gr_version := gr_version g + 1\<rparr>"

text \<open>Writing through a pointer to a stored scene or source.\<close>

definition put_scene :: "string \<Rightarrow> scene_state \<Rightarrow> scene_graph \<Rightarrow> scene_graph" where
  "put_scene k scene g = g\<lparr>gr_scenes := ht_insert k scene (gr_scenes g)\<rparr>"

definition put_source :: "string \<Rightarrow> source_state \<Rightarrow> scene_graph \<Rightarrow> scene_graph" where
  "put_source k source g = g\<lparr>gr_sources := ht_insert k source (gr_sources g)\<rparr>"

section \<open>Sources\<close>

definition new_source :: "string \<Rightarrow> source_create_params \<Rightarrow> source_state" where
  "new_source sid p =
     \<lparr>so_id = sid,
      so_name = (case scp_name p of Some n \<Rightarrow> n | None \<Rightarrow> sid),
      so_kind = scp_kind p, so_enabled = scp_enabled p, so_keep_alive = scp_keep_alive p,
      so_config = str_map_copy (scp_config p), so_filters = [],
      so_audio = zero_audio\<lparr>ab_volume := Fin 1, ab_left_gain := Fin 1, ab_right_gain := Fin 1\<rparr>,
      so_frame_slot = sbs_frame_slot_set_release_func True sbs_frame_slot_init,
      so_slot_initialized = True,
      so_frame_width = 0, so_frame_height = 0, so_color_depth = 0, so_hdr = False,
      so_color_space = [], so_hdr_eotf = [], so_drm_format = 0, so_drm_modifier = 0,
      so_plane_offset = [0, 0], so_plane_stride = [0, 0], so_running = False, so_muted = False,
      so_runtime_state = Some ''created'', so_v4l2_effective_decode_mode = None,
      so_error_message = None\<rparr>"

definition sbs_scene_graph_create_source ::
  "source_create_params \<Rightarrow> scene_graph \<Rightarrow> sbs_result \<times> scene_graph" where
  "sbs_scene_graph_create_source p g =
     (if \<not> valid_graph_id (scp_id p) then (SBS_ERR_INVAL, g)
      else let sid = the (scp_id p) in
        if ht_contains (gr_sources g) sid then (SBS_ERR_INVAL, g)
        else (SBS_OK, graph_bump_version (put_source sid (new_source sid p) g)))"

definition updated_source :: "source_update_params \<Rightarrow> source_state \<Rightarrow> source_state" where
  "updated_source p s =
     (let s = (if sup_set_name p \<and> sup_name p \<noteq> None then s\<lparr>so_name := the (sup_name p)\<rparr> else s);
          s = (if sup_set_enabled p then s\<lparr>so_enabled := sup_enabled p\<rparr> else s);
          s = (if sup_set_keep_alive p then s\<lparr>so_keep_alive := sup_keep_alive p\<rparr> else s)
      in if sup_set_config p \<and> sup_config p \<noteq> None then s\<lparr>so_config := str_map_copy (sup_config p)\<rparr> else s)"

definition sbs_scene_graph_update_source ::
  "string option \<Rightarrow> source_update_params \<Rightarrow> scene_graph \<Rightarrow> sbs_result \<times> scene_graph" where
  "sbs_scene_graph_update_source sid p g =
     (case sid of
        None \<Rightarrow> (SBS_ERR_INVAL, g)
      | Some k \<Rightarrow>
          (case ht_lookup (gr_sources g) k of
             None \<Rightarrow> (SBS_ERR_NOT_FOUND, g)
           | Some s \<Rightarrow> (SBS_OK, graph_bump_version (put_source k (updated_source p s) g))))"

text \<open>Removing a source removes its items from every scene; the loop is a filter.\<close>

definition strip_source :: "string \<Rightarrow> scene_state \<Rightarrow> scene_state" where
  "strip_source k scene = scene\<lparr>sc_items := filter (\<lambda>it. it_source_id it \<noteq> k) (sc_items scene)\<rparr>"

definition sbs_scene_graph_remove_source ::
  "string option \<Rightarrow> scene_graph \<Rightarrow> sbs_result \<times> scene_graph" where
  "sbs_scene_graph_remove_source sid g =
     (case sid of
        None \<Rightarrow> (SBS_ERR_INVAL, g)
      | Some k \<Rightarrow>
          if \<not> ht_contains (gr_sources g) k then (SBS_ERR_NOT_FOUND, g)
          else (SBS_OK, graph_bump_version
            (g\<lparr>gr_scenes := ht_map (strip_source k) (gr_scenes g), gr_sources := ht_remove k (gr_sources g)\<rparr>)))"

definition sbs_scene_graph_steal_source ::
  "string option \<Rightarrow> scene_graph \<Rightarrow> source_state option \<times> scene_graph" where
  "sbs_scene_graph_steal_source sid g =
     (case sid of
        None \<Rightarrow> (None, g)
      | Some k \<Rightarrow>
          (case ht_lookup (gr_sources g) k of
             None \<Rightarrow> (None, g)
           | Some s \<Rightarrow> (Some s, g\<lparr>gr_sources := ht_remove k (gr_sources g)\<rparr>)))"

section \<open>Scenes\<close>

definition sbs_scene_graph_create_scene ::
  "string option \<Rightarrow> string option \<Rightarrow> scene_graph \<Rightarrow> sbs_result \<times> scene_graph" where
  "sbs_scene_graph_create_scene sid name g =
     (if \<not> valid_graph_id sid then (SBS_ERR_INVAL, g)
      else let k = the sid in
        if ht_contains (gr_scenes g) k then (SBS_ERR_INVAL, g)
        else
          let scene = \<lparr>sc_id = k, sc_name = (case name of Some n \<Rightarrow> n | None \<Rightarrow> k), sc_items = [], sc_filters = []\<rparr>;
              g = put_scene k scene g;
              g = (if gr_active_scene_id g = None then g\<lparr>gr_active_scene_id := Some k\<rparr> else g)
          in (SBS_OK, graph_bump_version g))"

definition sbs_scene_graph_update_scene_name ::
  "string option \<Rightarrow> string option \<Rightarrow> scene_graph \<Rightarrow> sbs_result \<times> scene_graph" where
  "sbs_scene_graph_update_scene_name sid name g =
     (case sbs_scene_graph_get_scene g sid of
        None \<Rightarrow> (SBS_ERR_NOT_FOUND, g)
      | Some scene \<Rightarrow>
          (case name of
             None \<Rightarrow> (SBS_ERR_INVAL, g)
           | Some n \<Rightarrow> (SBS_OK, graph_bump_version (put_scene (the sid) (scene\<lparr>sc_name := n\<rparr>) g))))"

definition sbs_scene_graph_remove_scene ::
  "string option \<Rightarrow> scene_graph \<Rightarrow> sbs_result \<times> scene_graph" where
  "sbs_scene_graph_remove_scene sid g =
     (case sid of
        None \<Rightarrow> (SBS_ERR_INVAL, g)
      | Some k \<Rightarrow>
          if \<not> ht_contains (gr_scenes g) k then (SBS_ERR_NOT_FOUND, g)
          else if gr_active_scene_id g = Some k then (SBS_ERR_INVAL, g)
          else
            let g = (if gr_preview_scene_id g = Some k then g\<lparr>gr_preview_scene_id := None\<rparr> else g)
            in (SBS_OK, graph_bump_version (g\<lparr>gr_scenes := ht_remove k (gr_scenes g)\<rparr>)))"

section \<open>Items\<close>

definition new_item :: "item_create_params \<Rightarrow> string \<Rightarrow> scene_graph \<Rightarrow> item_state" where
  "new_item p source_id g =
     \<lparr>it_id = (case icp_id p of Some i \<Rightarrow> i | None \<Rightarrow> ''item-auto''),
      it_source_id = source_id, it_visible = icp_visible p, it_locked = icp_locked p,
      it_z_order = icp_z_order p, it_transform = item_transform_copy (icp_transform p),
      it_audio = (case icp_audio p of
                    Some a \<Rightarrow> audio_binding_copy (Some a)
                  | None \<Rightarrow> audio_binding_copy
                      (map_option so_audio (sbs_scene_graph_get_source g (Some source_id)))),
      it_filters = []\<rparr>"

definition sbs_scene_graph_add_item ::
  "string option \<Rightarrow> item_create_params \<Rightarrow> scene_graph \<Rightarrow> sbs_result \<times> scene_graph" where
  "sbs_scene_graph_add_item scene_id p g =
     (if scene_id = None \<or> icp_source_id p = None then (SBS_ERR_INVAL, g)
      else case sbs_scene_graph_get_scene g scene_id of
        None \<Rightarrow> (SBS_ERR_NOT_FOUND, g)
      | Some scene \<Rightarrow>
          if sbs_scene_graph_get_source g (icp_source_id p) = None then (SBS_ERR_NOT_FOUND, g)
          else if icp_id p \<noteq> None \<and> scene_find_item scene (icp_id p) \<noteq> None then (SBS_ERR_INVAL, g)
          else
            let item = new_item p (the (icp_source_id p)) g;
                scene = scene_sort_items (scene\<lparr>sc_items := sc_items scene @ [item]\<rparr>)
            in (SBS_OK, graph_bump_version (put_scene (the scene_id) scene g)))"

definition updated_item :: "item_update_params \<Rightarrow> item_state \<Rightarrow> item_state" where
  "updated_item p it =
     (let it = (if iup_set_visible p then it\<lparr>it_visible := iup_visible p\<rparr> else it);
          it = (if iup_set_locked p then it\<lparr>it_locked := iup_locked p\<rparr> else it);
          it = (if iup_set_z_order p then it\<lparr>it_z_order := iup_z_order p\<rparr> else it)
      in if iup_set_transform p then it\<lparr>it_transform := item_transform_copy (iup_transform p)\<rparr> else it)"

definition change_item :: "string \<Rightarrow> (item_state \<Rightarrow> item_state) \<Rightarrow> scene_state \<Rightarrow> scene_state" where
  "change_item k f scene = scene\<lparr>sc_items := update_first (\<lambda>it. it_id it = k) f (sc_items scene)\<rparr>"

definition sbs_scene_graph_update_item ::
  "string option \<Rightarrow> string option \<Rightarrow> item_update_params \<Rightarrow> scene_graph \<Rightarrow> sbs_result \<times> scene_graph" where
  "sbs_scene_graph_update_item scene_id item_id p g =
     (if scene_id = None \<or> item_id = None then (SBS_ERR_INVAL, g)
      else case sbs_scene_graph_get_scene g scene_id of
        None \<Rightarrow> (SBS_ERR_NOT_FOUND, g)
      | Some scene \<Rightarrow>
          (case scene_find_item scene item_id of
             None \<Rightarrow> (SBS_ERR_NOT_FOUND, g)
           | Some _ \<Rightarrow>
               (SBS_OK, graph_bump_version
                 (put_scene (the scene_id) (scene_sort_items (change_item (the item_id) (updated_item p) scene)) g))))"

definition sbs_scene_graph_update_item_audio ::
  "string option \<Rightarrow> string option \<Rightarrow> audio_binding option \<Rightarrow> scene_graph \<Rightarrow> sbs_result \<times> scene_graph" where
  "sbs_scene_graph_update_item_audio scene_id item_id audio g =
     (if scene_id = None \<or> item_id = None \<or> audio = None then (SBS_ERR_INVAL, g)
      else case sbs_scene_graph_get_item g scene_id item_id of
        None \<Rightarrow> (SBS_ERR_NOT_FOUND, g)
      | Some _ \<Rightarrow>
          (SBS_OK, graph_bump_version
            (put_scene (the scene_id)
              (change_item (the item_id) (\<lambda>it. it\<lparr>it_audio := audio_binding_copy audio\<rparr>)
                (the (sbs_scene_graph_get_scene g scene_id))) g)))"

definition sbs_scene_graph_remove_item ::
  "string option \<Rightarrow> string option \<Rightarrow> scene_graph \<Rightarrow> sbs_result \<times> scene_graph" where
  "sbs_scene_graph_remove_item scene_id item_id g =
     (if scene_id = None \<or> item_id = None then (SBS_ERR_INVAL, g)
      else case sbs_scene_graph_get_scene g scene_id of
        None \<Rightarrow> (SBS_ERR_NOT_FOUND, g)
      | Some scene \<Rightarrow>
          if scene_find_item scene item_id = None then (SBS_ERR_NOT_FOUND, g)
          else (SBS_OK, graph_bump_version
            (put_scene (the scene_id)
              (scene\<lparr>sc_items := remove_first (\<lambda>it. it_id it = the item_id) (sc_items scene)\<rparr>) g)))"

text \<open>
  The loop of \<open>sbs_scene_graph_reorder_items\<close>: it writes as it goes, and when an identifier is
  unknown it stops with what it has written so far.
\<close>

fun reorder_loop :: "nat \<Rightarrow> string option list \<Rightarrow> scene_state \<Rightarrow> bool \<times> scene_state" where
  "reorder_loop i [] scene = (True, scene)"
| "reorder_loop i (iid # ids) scene =
     (case scene_find_item scene iid of
        None \<Rightarrow> (False, scene)
      | Some _ \<Rightarrow>
          reorder_loop (Suc i) ids
            (change_item (the iid) (\<lambda>it. it\<lparr>it_z_order := c_int (int i * 10)\<rparr>) scene))"

definition sbs_scene_graph_reorder_items ::
  "string option \<Rightarrow> string option list option \<Rightarrow> scene_graph \<Rightarrow> sbs_result \<times> scene_graph" where
  "sbs_scene_graph_reorder_items scene_id item_ids g =
     (if scene_id = None \<or> item_ids = None then (SBS_ERR_INVAL, g)
      else case sbs_scene_graph_get_scene g scene_id of
        None \<Rightarrow> (SBS_ERR_NOT_FOUND, g)
      | Some scene \<Rightarrow>
          if length (the item_ids) \<noteq> length (sc_items scene) then (SBS_ERR_INVAL, g)
          else
            let (ok, scene) = reorder_loop 0 (the item_ids) scene in
            if \<not> ok then (SBS_ERR_NOT_FOUND, put_scene (the scene_id) scene g)
            else (SBS_OK, graph_bump_version (put_scene (the scene_id) (scene_sort_items scene) g)))"

section \<open>Filters\<close>

definition new_filter :: "(string \<Rightarrow> fp) \<Rightarrow> filter_create_params \<Rightarrow> string \<Rightarrow> filter_state" where
  "new_filter strtod p type =
     \<lparr>fl_id = (case fcp_id p of Some i \<Rightarrow> i | None \<Rightarrow> ''filter-auto''), fl_type = type,
      fl_enabled = fcp_enabled p, fl_params = filter_params_copy strtod type (fcp_params p)\<rparr>"

definition updated_filter :: "(string \<Rightarrow> fp) \<Rightarrow> filter_update_params \<Rightarrow> filter_state \<Rightarrow> filter_state" where
  "updated_filter strtod p f =
     (let f = (if fup_set_enabled p then f\<lparr>fl_enabled := fup_enabled p\<rparr> else f)
      in if fup_params p \<noteq> None then f\<lparr>fl_params := filter_params_copy strtod (fl_type f) (fup_params p)\<rparr> else f)"

definition sbs_scene_graph_add_filter ::
  "(string \<Rightarrow> fp) \<Rightarrow> string option \<Rightarrow> filter_create_params \<Rightarrow> scene_graph \<Rightarrow> sbs_result \<times> scene_graph" where
  "sbs_scene_graph_add_filter strtod source_id p g =
     (if source_id = None \<or> fcp_type p = None then (SBS_ERR_INVAL, g)
      else case sbs_scene_graph_get_source g source_id of
        None \<Rightarrow> (SBS_ERR_NOT_FOUND, g)
      | Some source \<Rightarrow>
          if fcp_id p \<noteq> None \<and> filter_array_find (so_filters source) (fcp_id p) \<noteq> None then (SBS_ERR_INVAL, g)
          else (SBS_OK, graph_bump_version
            (put_source (the source_id)
              (source\<lparr>so_filters := so_filters source @ [new_filter strtod p (the (fcp_type p))]\<rparr>) g)))"

definition sbs_scene_graph_add_scene_filter ::
  "(string \<Rightarrow> fp) \<Rightarrow> string option \<Rightarrow> filter_create_params \<Rightarrow> scene_graph \<Rightarrow> sbs_result \<times> scene_graph" where
  "sbs_scene_graph_add_scene_filter strtod scene_id p g =
     (if scene_id = None \<or> fcp_type p = None then (SBS_ERR_INVAL, g)
      else case sbs_scene_graph_get_scene g scene_id of
        None \<Rightarrow> (SBS_ERR_NOT_FOUND, g)
      | Some scene \<Rightarrow>
          if fcp_id p \<noteq> None \<and> filter_array_find (sc_filters scene) (fcp_id p) \<noteq> None then (SBS_ERR_INVAL, g)
          else (SBS_OK, graph_bump_version
            (put_scene (the scene_id)
              (scene\<lparr>sc_filters := sc_filters scene @ [new_filter strtod p (the (fcp_type p))]\<rparr>) g)))"

definition sbs_scene_graph_update_filter ::
  "(string \<Rightarrow> fp) \<Rightarrow> string option \<Rightarrow> string option \<Rightarrow> filter_update_params \<Rightarrow> scene_graph
    \<Rightarrow> sbs_result \<times> scene_graph" where
  "sbs_scene_graph_update_filter strtod source_id filter_id p g =
     (if source_id = None \<or> filter_id = None then (SBS_ERR_INVAL, g)
      else case sbs_scene_graph_get_source g source_id of
        None \<Rightarrow> (SBS_ERR_NOT_FOUND, g)
      | Some source \<Rightarrow>
          if filter_array_find (so_filters source) filter_id = None then (SBS_ERR_NOT_FOUND, g)
          else (SBS_OK, graph_bump_version
            (put_source (the source_id)
              (source\<lparr>so_filters := update_first (\<lambda>f. fl_id f = the filter_id) (updated_filter strtod p)
                 (so_filters source)\<rparr>) g)))"

definition sbs_scene_graph_update_scene_filter ::
  "(string \<Rightarrow> fp) \<Rightarrow> string option \<Rightarrow> string option \<Rightarrow> filter_update_params \<Rightarrow> scene_graph
    \<Rightarrow> sbs_result \<times> scene_graph" where
  "sbs_scene_graph_update_scene_filter strtod scene_id filter_id p g =
     (if scene_id = None \<or> filter_id = None then (SBS_ERR_INVAL, g)
      else case sbs_scene_graph_get_scene g scene_id of
        None \<Rightarrow> (SBS_ERR_NOT_FOUND, g)
      | Some scene \<Rightarrow>
          if filter_array_find (sc_filters scene) filter_id = None then (SBS_ERR_NOT_FOUND, g)
          else (SBS_OK, graph_bump_version
            (put_scene (the scene_id)
              (scene\<lparr>sc_filters := update_first (\<lambda>f. fl_id f = the filter_id) (updated_filter strtod p)
                 (sc_filters scene)\<rparr>) g)))"

definition sbs_scene_graph_remove_filter ::
  "string option \<Rightarrow> string option \<Rightarrow> scene_graph \<Rightarrow> sbs_result \<times> scene_graph" where
  "sbs_scene_graph_remove_filter source_id filter_id g =
     (if source_id = None \<or> filter_id = None then (SBS_ERR_INVAL, g)
      else case sbs_scene_graph_get_source g source_id of
        None \<Rightarrow> (SBS_ERR_NOT_FOUND, g)
      | Some source \<Rightarrow>
          if filter_array_find (so_filters source) filter_id = None then (SBS_ERR_NOT_FOUND, g)
          else (SBS_OK, graph_bump_version
            (put_source (the source_id)
              (source\<lparr>so_filters := remove_first (\<lambda>f. fl_id f = the filter_id) (so_filters source)\<rparr>) g)))"

definition sbs_scene_graph_remove_scene_filter ::
  "string option \<Rightarrow> string option \<Rightarrow> scene_graph \<Rightarrow> sbs_result \<times> scene_graph" where
  "sbs_scene_graph_remove_scene_filter scene_id filter_id g =
     (if scene_id = None \<or> filter_id = None then (SBS_ERR_INVAL, g)
      else case sbs_scene_graph_get_scene g scene_id of
        None \<Rightarrow> (SBS_ERR_NOT_FOUND, g)
      | Some scene \<Rightarrow>
          if filter_array_find (sc_filters scene) filter_id = None then (SBS_ERR_NOT_FOUND, g)
          else (SBS_OK, graph_bump_version
            (put_scene (the scene_id)
              (scene\<lparr>sc_filters := remove_first (\<lambda>f. fl_id f = the filter_id) (sc_filters scene)\<rparr>) g)))"

section \<open>Outputs\<close>

definition sbs_scene_graph_create_output ::
  "output_create_params \<Rightarrow> scene_graph \<Rightarrow> sbs_result \<times> scene_graph" where
  "sbs_scene_graph_create_output p g =
     (if \<not> valid_graph_id (ocp_id p) then (SBS_ERR_INVAL, g)
      else let k = the (ocp_id p) in
        if ht_contains (gr_outputs g) k then (SBS_ERR_INVAL, g)
        else
          let out = \<lparr>ou_id = k, ou_name = (case ocp_name p of Some n \<Rightarrow> n | None \<Rightarrow> k),
                ou_enabled = ocp_enabled p, ou_autostart = ocp_autostart p, ou_encoder = [], ou_sinks = [],
                ou_running = False, ou_runtime_state = Some ''created''\<rparr>
          in (SBS_OK, graph_bump_version (g\<lparr>gr_outputs := ht_insert k out (gr_outputs g)\<rparr>)))"

definition sbs_scene_graph_remove_output ::
  "string option \<Rightarrow> scene_graph \<Rightarrow> sbs_result \<times> scene_graph" where
  "sbs_scene_graph_remove_output oid g =
     (case oid of
        None \<Rightarrow> (SBS_ERR_INVAL, g)
      | Some k \<Rightarrow>
          if \<not> ht_contains (gr_outputs g) k then (SBS_ERR_NOT_FOUND, g)
          else (SBS_OK, graph_bump_version (g\<lparr>gr_outputs := ht_remove k (gr_outputs g)\<rparr>)))"

section \<open>Transitions\<close>

definition sbs_scene_graph_create_transition ::
  "string option \<Rightarrow> transition_kind \<Rightarrow> u32 \<Rightarrow> scene_graph \<Rightarrow> sbs_result \<times> scene_graph" where
  "sbs_scene_graph_create_transition tid kind duration_ms g =
     (if \<not> valid_graph_id tid then (SBS_ERR_INVAL, g)
      else let k = the tid in
        if ht_contains (gr_transitions g) k then (SBS_ERR_INVAL, g)
        else
          let t = \<lparr>ts_id = k, ts_kind = kind, ts_duration_ms = duration_ms, ts_params = []\<rparr>
          in (SBS_OK, graph_bump_version (g\<lparr>gr_transitions := ht_insert k t (gr_transitions g)\<rparr>)))"

definition sbs_scene_graph_update_transition ::
  "string option \<Rightarrow> u32 \<Rightarrow> scene_graph \<Rightarrow> sbs_result \<times> scene_graph" where
  "sbs_scene_graph_update_transition tid duration_ms g =
     (case tid of
        None \<Rightarrow> (SBS_ERR_INVAL, g)
      | Some k \<Rightarrow>
          (case sbs_scene_graph_get_transition g tid of
             None \<Rightarrow> (SBS_ERR_NOT_FOUND, g)
           | Some t \<Rightarrow>
               (SBS_OK, graph_bump_version
                 (g\<lparr>gr_transitions := ht_insert k (t\<lparr>ts_duration_ms := duration_ms\<rparr>) (gr_transitions g)\<rparr>))))"

definition sbs_scene_graph_set_default_transition ::
  "string option \<Rightarrow> scene_graph \<Rightarrow> sbs_result \<times> scene_graph" where
  "sbs_scene_graph_set_default_transition tid g =
     (if tid = None then (SBS_ERR_INVAL, g)
      else if sbs_scene_graph_get_transition g tid = None then (SBS_ERR_NOT_FOUND, g)
      else (SBS_OK, graph_bump_version (g\<lparr>gr_default_transition_id := tid\<rparr>)))"

definition start_transition ::
  "int \<Rightarrow> string option \<Rightarrow> string \<Rightarrow> string option \<Rightarrow> transition_state option \<Rightarrow> transition_runtime" where
  "start_transition now from scene_id resolved transition =
     (let kind = (case transition of None \<Rightarrow> TRANSITION_CUT | Some t \<Rightarrow> ts_kind t);
          duration = (case transition of None \<Rightarrow> 0 | Some t \<Rightarrow> ts_duration_ms t);
          active = (transition \<noteq> None \<and> kind \<noteq> TRANSITION_CUT \<and> 0 < duration);
          progress = (if transition \<noteq> None \<and> 0 < duration then Fin 0 else Fin 1)
      in \<lparr>rt_active = active, rt_from_scene_id = from, rt_to_scene_id = Some scene_id,
          rt_transition_id = resolved, rt_kind = kind, rt_duration_ms = duration,
          rt_progress = (if \<not> active then Fin 1 else progress), rt_start_time_us = now\<rparr>)"

definition sbs_scene_graph_set_active_scene ::
  "int \<Rightarrow> string option \<Rightarrow> string option \<Rightarrow> scene_graph \<Rightarrow> sbs_result \<times> scene_graph" where
  "sbs_scene_graph_set_active_scene now scene_id transition_id g =
     (if scene_id = None then (SBS_ERR_INVAL, g)
      else if sbs_scene_graph_get_scene g scene_id = None then (SBS_ERR_NOT_FOUND, g)
      else
        let resolved = (if transition_id \<noteq> None then transition_id else gr_default_transition_id g);
            transition = sbs_scene_graph_get_transition g resolved
        in if resolved \<noteq> None \<and> transition = None then (SBS_ERR_NOT_FOUND, g)
           else (SBS_OK, graph_bump_version
             (g\<lparr>gr_transition_runtime :=
                  start_transition now (gr_active_scene_id g) (the scene_id) resolved transition,
                gr_active_scene_id := scene_id\<rparr>)))"

definition sbs_scene_graph_set_preview_scene ::
  "string option \<Rightarrow> scene_graph \<Rightarrow> sbs_result \<times> scene_graph" where
  "sbs_scene_graph_set_preview_scene scene_id g =
     (if scene_id \<noteq> None \<and> sbs_scene_graph_get_scene g scene_id = None then (SBS_ERR_NOT_FOUND, g)
      else (SBS_OK, graph_bump_version (g\<lparr>gr_preview_scene_id := scene_id\<rparr>)))"

definition sbs_scene_graph_transition_to_preview ::
  "int \<Rightarrow> string option \<Rightarrow> scene_graph \<Rightarrow> sbs_result \<times> scene_graph" where
  "sbs_scene_graph_transition_to_preview now transition_id g =
     (if gr_preview_scene_id g = None then (SBS_ERR_INVAL, g)
      else sbs_scene_graph_set_active_scene now (gr_preview_scene_id g) transition_id g)"

definition transition_progress :: "transition_runtime \<Rightarrow> int \<Rightarrow> fp" where
  "transition_progress rt now_us =
     (let elapsed_ms = fp_div binary64 (dbl_of_int (now_us - rt_start_time_us rt)) (Fin 1000)
      in fp_div binary64 elapsed_ms (dbl_of_int (uint (rt_duration_ms rt))))"

definition sbs_scene_graph_update_transition_runtime :: "int \<Rightarrow> scene_graph \<Rightarrow> scene_graph" where
  "sbs_scene_graph_update_transition_runtime now_us g =
     (let rt = gr_transition_runtime g in
      if \<not> rt_active rt then g
      else if rt_duration_ms rt = 0 then
        g\<lparr>gr_transition_runtime := rt\<lparr>rt_progress := Fin 1, rt_active := False\<rparr>\<rparr>
      else
        let progress = transition_progress rt now_us in
        if fp_le (Fin 1) progress
        then g\<lparr>gr_transition_runtime := rt\<lparr>rt_progress := Fin 1, rt_active := False\<rparr>\<rparr>
        else g\<lparr>gr_transition_runtime := rt\<lparr>rt_progress := progress\<rparr>\<rparr>)"

section \<open>Counting references, and the initial graph\<close>

definition count_item_refs :: "string \<Rightarrow> item_state list \<Rightarrow> nat" where
  "count_item_refs k items = length (filter (\<lambda>it. it_source_id it = k) items)"

definition sbs_scene_graph_count_source_refs :: "scene_graph \<Rightarrow> string option \<Rightarrow> nat" where
  "sbs_scene_graph_count_source_refs g source_id =
     (case source_id of
        None \<Rightarrow> 0
      | Some k \<Rightarrow> sum_list (map (\<lambda>(_, scene). count_item_refs k (sc_items scene)) (gr_scenes g)))"

definition empty_graph :: scene_graph where
  "empty_graph =
     \<lparr>gr_canvas = \<lparr>cv_width = 1920, cv_height = 1080, cv_fps_num = 60, cv_fps_den = 1,
        cv_color_mode = COLOR_MODE_SDR, cv_background_color = ''#000000''\<rparr>,
      gr_sources = [], gr_scenes = [], gr_outputs = [], gr_transitions = [],
      gr_active_scene_id = None, gr_preview_scene_id = None, gr_default_transition_id = None,
      gr_version = 0,
      gr_transition_runtime = \<lparr>rt_active = False, rt_from_scene_id = None, rt_to_scene_id = None,
        rt_transition_id = None, rt_kind = TRANSITION_CUT, rt_duration_ms = 0, rt_progress = Fin 0,
        rt_start_time_us = 0\<rparr>\<rparr>"

definition sbs_scene_graph_new_default :: scene_graph where
  "sbs_scene_graph_new_default =
     (let g = empty_graph;
          g = snd (sbs_scene_graph_create_transition (Some ''trans-cut'') TRANSITION_CUT 0 g);
          g = snd (sbs_scene_graph_create_transition (Some ''trans-fade'') TRANSITION_FADE 2000 g)
      in g\<lparr>gr_default_transition_id := Some ''trans-fade'', gr_version := 1\<rparr>)"

end
