(* ===== verification/Scene_Inv.thy ===== *)
theory Scene_Inv
  imports Scene_Graph
begin

text \<open>
  The invariant of the scene graph and its preservation by every operation of
  \<open>Scene_Graph\<close>, and the operations as the requests of a client (\<open>graph_op\<close>), so that
  statements about any sequence of requests can be made.
\<close>

section \<open>The invariant\<close>

text \<open>A stored transform is normalised.\<close>

definition transform_ok :: "item_transform \<Rightarrow> bool" where
  "transform_ok t \<longleftrightarrow> tr_rotation_deg t \<in> {Fin 0, Fin 90, Fin 180, Fin 270}
     \<and> fp_less (Fin 0) (tr_opacity t) \<and> tr_bounds_type t \<noteq> None \<and> tr_alignment t \<noteq> None"

definition scene_ok :: "(string \<Rightarrow> bool) \<Rightarrow> string \<Rightarrow> scene_state \<Rightarrow> bool" where
  "scene_ok known k sc \<longleftrightarrow> sc_id sc = k \<and> valid_graph_id (Some k)
     \<and> (\<forall>it \<in> set (sc_items sc). known (it_source_id it) \<and> transform_ok (it_transform it))"

definition runtime_ok :: "transition_runtime \<Rightarrow> bool" where
  "runtime_ok rt \<longleftrightarrow> fp_le (rt_progress rt) (Fin 1)
     \<and> (rt_active rt \<longrightarrow> rt_kind rt \<noteq> TRANSITION_CUT \<and> 0 < rt_duration_ms rt \<and> fp_less (rt_progress rt) (Fin 1))"

definition keyed :: "('v \<Rightarrow> string) \<Rightarrow> 'v htab \<Rightarrow> bool" where
  "keyed f t \<longleftrightarrow> ht_wf t \<and> (\<forall>(k, v) \<in> set t. f v = k \<and> valid_graph_id (Some k))"

fun names :: "'v htab \<Rightarrow> string option \<Rightarrow> bool" where
  "names t None \<longleftrightarrow> True"
| "names t (Some k) \<longleftrightarrow> ht_contains t k"

text \<open>
  Every table is keyed by its records' own, valid, identifiers; every item shows a source that
  exists; some scene is active exactly when there is one, and it exists; the preview scene and
  the default transition exist; a running transition has not reached its end.
\<close>

definition graph_inv :: "scene_graph \<Rightarrow> bool" where
  "graph_inv g \<longleftrightarrow> keyed so_id (gr_sources g)
     \<and> ht_wf (gr_scenes g) \<and> (\<forall>(k, sc) \<in> set (gr_scenes g). scene_ok (ht_contains (gr_sources g)) k sc)
     \<and> keyed ou_id (gr_outputs g) \<and> keyed ts_id (gr_transitions g)
     \<and> (gr_active_scene_id g = None \<longleftrightarrow> gr_scenes g = []) \<and> names (gr_scenes g) (gr_active_scene_id g)
     \<and> names (gr_scenes g) (gr_preview_scene_id g)
     \<and> names (gr_transitions g) (gr_default_transition_id g)
     \<and> runtime_ok (gr_transition_runtime g)"

lemma graph_invD:
  assumes "graph_inv g"
  shows "keyed so_id (gr_sources g)" "ht_wf (gr_scenes g)"
    "ht_lookup (gr_scenes g) k = Some sc \<Longrightarrow> scene_ok (ht_contains (gr_sources g)) k sc"
    "ht_lookup (gr_sources g) k = Some s \<Longrightarrow> so_id s = k \<and> valid_graph_id (Some k)"
    "ht_lookup (gr_transitions g) k = Some t \<Longrightarrow> ts_id t = k \<and> valid_graph_id (Some k)"
  using assms ht_lookup_in_set [of "gr_scenes g" k sc] ht_lookup_in_set [of "gr_sources g" k s]
    ht_lookup_in_set [of "gr_transitions g" k t]
  by (auto simp: graph_inv_def keyed_def)

lemma keyed_insert:
  "keyed f t \<Longrightarrow> f v = k \<Longrightarrow> valid_graph_id (Some k) \<Longrightarrow> keyed f (ht_insert k v t)"
  by (auto simp: keyed_def dest!: ht_insert_entries)

lemma keyed_remove: "keyed f t \<Longrightarrow> keyed f (ht_remove k t)"
  by (auto simp: keyed_def ht_remove_entries)

lemma names_insert: "names t k \<Longrightarrow> names (ht_insert k' v t) k"
  by (cases k) simp_all

lemma names_remove: "names t k \<Longrightarrow> k \<noteq> Some k' \<Longrightarrow> names (ht_remove k' t) k"
  by (cases k) simp_all

lemma names_map [simp]: "names (ht_map f t) k = names t k"
  by (cases k) simp_all

lemma ht_map_Nil [simp]: "ht_map f t = [] \<longleftrightarrow> t = []"
  by (simp add: ht_map_def)

lemma valid_the: "valid_graph_id gid \<Longrightarrow> valid_graph_id (Some (the gid))"
  by (cases gid) (simp_all add: valid_graph_id_def)

lemma scene_ok_mono:
  "scene_ok known k sc \<Longrightarrow> (\<And>x. known x \<Longrightarrow> known' x) \<Longrightarrow> scene_ok known' k sc"
  by (auto simp: scene_ok_def)

lemma ht_insert_nonempty [simp]: "ht_insert k v t \<noteq> []"
  by (cases t) (auto simp: ht_insert_def)

lemma inv_bump [simp]: "graph_inv (graph_bump_version g) \<longleftrightarrow> graph_inv g"
  by (simp add: graph_bump_version_def graph_inv_def)

lemma inv_put_scene:
  assumes "graph_inv g" "ht_contains (gr_scenes g) k" "scene_ok (ht_contains (gr_sources g)) k sc"
  shows "graph_inv (put_scene k sc g)"
  using assms by (auto simp: graph_inv_def put_scene_def names_insert dest!: ht_insert_entries)

lemma inv_put_source:
  assumes "graph_inv g" "so_id s = k" "valid_graph_id (Some k)"
  shows "graph_inv (put_source k s g)"
  using assms by (fastforce simp: graph_inv_def put_source_def keyed_insert intro: scene_ok_mono)

lemma transform_copy_ok: "transform_ok (item_transform_copy t)"
  using quarter_turns_range [of "tr_rotation_deg t"]
  by (auto simp: transform_ok_def item_transform_copy_def snap_eq)

section \<open>Scenes through their pointers\<close>

lemma get_scene_Some:
  "sbs_scene_graph_get_scene g sid = Some sc \<Longrightarrow> \<exists>k. sid = Some k \<and> ht_lookup (gr_scenes g) k = Some sc"
  by (auto simp: sbs_scene_graph_get_scene_def lookup_opt_def split: option.splits)

lemma get_source_Some:
  "sbs_scene_graph_get_source g sid = Some s \<Longrightarrow> \<exists>k. sid = Some k \<and> ht_lookup (gr_sources g) k = Some s"
  by (auto simp: sbs_scene_graph_get_source_def lookup_opt_def split: option.splits)

lemma contains_lookup: "ht_lookup t k = Some v \<Longrightarrow> ht_contains t k"
  by (simp add: ht_contains_def)

text \<open>Writing back a scene with the same identifier and good items keeps the invariant.\<close>

lemma inv_put_items:
  assumes "graph_inv g" "sbs_scene_graph_get_scene g sid = Some sc" "sc_id sc' = sc_id sc"
    and "\<And>it. it \<in> set (sc_items sc') \<Longrightarrow> ht_contains (gr_sources g) (it_source_id it) \<and> transform_ok (it_transform it)"
  shows "graph_inv (put_scene (the sid) sc' g)"
proof -
  obtain k where k: "sid = Some k" "ht_lookup (gr_scenes g) k = Some sc"
    using get_scene_Some [OF assms(2)] by blast
  have "scene_ok (ht_contains (gr_sources g)) k sc'"
    using graph_invD(3) [OF assms(1) k(2)] assms(3,4) by (simp add: scene_ok_def)
  then show ?thesis
    using inv_put_scene [OF assms(1) contains_lookup [OF k(2)]] k(1) by simp
qed

lemma items_of_scene:
  assumes "graph_inv g" "sbs_scene_graph_get_scene g sid = Some sc" "it \<in> set (sc_items sc)"
  shows "ht_contains (gr_sources g) (it_source_id it) \<and> transform_ok (it_transform it)"
  using get_scene_Some [OF assms(2)] graph_invD(3) [OF assms(1)] assms(3) by (auto simp: scene_ok_def)

lemma inv_put_same_source:
  assumes "graph_inv g" "sbs_scene_graph_get_source g sid = Some s" "so_id s' = so_id s"
  shows "graph_inv (put_source (the sid) s' g)"
  using get_source_Some [OF assms(2)] graph_invD(4) [OF assms(1)] assms(1,3) inv_put_source by fastforce

section \<open>Preservation, operation by operation\<close>

lemma change_item_simps [simp]:
  "sc_id (change_item k f sc) = sc_id sc" "sc_name (change_item k f sc) = sc_name sc"
  "sc_filters (change_item k f sc) = sc_filters sc"
  "sc_id (scene_sort_items sc) = sc_id sc" "set (sc_items (scene_sort_items sc)) = set (sc_items sc)"
  by (simp_all add: change_item_def scene_sort_items_def)

lemma change_item_items:
  "it \<in> set (sc_items (change_item k f sc)) \<Longrightarrow> it \<in> set (sc_items sc) \<or> (\<exists>x \<in> set (sc_items sc). it = f x)"
  by (auto simp: change_item_def dest: set_update_first)

lemma inv_create_source: "graph_inv g \<Longrightarrow> graph_inv (snd (sbs_scene_graph_create_source p g))"
  by (simp add: sbs_scene_graph_create_source_def Let_def new_source_def inv_put_source valid_the)

lemma updated_source_id [simp]: "so_id (updated_source p s) = so_id s"
  by (simp add: updated_source_def Let_def)

lemma inv_update_source: "graph_inv g \<Longrightarrow> graph_inv (snd (sbs_scene_graph_update_source sid p g))"
  using graph_invD(4) [of g]
  by (simp add: sbs_scene_graph_update_source_def inv_put_source split: option.split)

lemma inv_remove_source:
  assumes "graph_inv g"
  shows "graph_inv (snd (sbs_scene_graph_remove_source sid g))"
proof (cases sid)
  case None
  then show ?thesis using assms by (simp add: sbs_scene_graph_remove_source_def)
next
  case (Some k)
  have "scene_ok (ht_contains (ht_remove k (gr_sources g))) c (strip_source k sc)"
    if "(c, sc) \<in> set (gr_scenes g)" for c sc
    using assms that by (auto simp: graph_inv_def scene_ok_def strip_source_def)
  then have "\<forall>(c, sc) \<in> set (ht_map (strip_source k) (gr_scenes g)). scene_ok (ht_contains (ht_remove k (gr_sources g))) c sc"
    by (auto simp: ht_map_def)
  then show ?thesis
    using assms Some by (simp add: sbs_scene_graph_remove_source_def graph_inv_def keyed_remove graph_bump_version_def)
qed

lemma inv_create_scene:
  assumes "graph_inv g"
  shows "graph_inv (snd (sbs_scene_graph_create_scene sid name g))"
proof (cases "valid_graph_id sid \<and> \<not> ht_contains (gr_scenes g) (the sid)")
  case True
  let ?k = "the sid"
  let ?sc = "\<lparr>sc_id = ?k, sc_name = (case name of Some n \<Rightarrow> n | None \<Rightarrow> ?k), sc_items = [], sc_filters = []\<rparr>"
  have new: "scene_ok known ?k ?sc" for known
    using True valid_the by (simp add: scene_ok_def)
  have all: "\<forall>(c, sc) \<in> set (ht_insert ?k ?sc (gr_scenes g)). scene_ok (ht_contains (gr_sources g)) c sc"
    using assms new by (auto simp: graph_inv_def dest!: ht_insert_entries)
  have prev: "names (ht_insert ?k ?sc (gr_scenes g)) (gr_preview_scene_id g)"
    "names (ht_insert ?k ?sc (gr_scenes g)) (gr_active_scene_id g)"
    using assms names_insert by (auto simp: graph_inv_def)
  show ?thesis
    using assms True all prev
    by (cases "gr_active_scene_id g")
      (simp_all add: sbs_scene_graph_create_scene_def Let_def graph_inv_def put_scene_def names_insert graph_bump_version_def)
qed (use assms in \<open>auto simp: sbs_scene_graph_create_scene_def Let_def\<close>)

lemma inv_update_scene_name:
  assumes "graph_inv g"
  shows "graph_inv (snd (sbs_scene_graph_update_scene_name sid name g))"
proof -
  have "graph_inv (put_scene (the sid) (sc\<lparr>sc_name := n\<rparr>) g)"
    if "sbs_scene_graph_get_scene g sid = Some sc" for sc n
    by (rule inv_put_items [OF assms that]) (use items_of_scene [OF assms that] in auto)
  then show ?thesis
    using assms by (simp add: sbs_scene_graph_update_scene_name_def split: option.split)
qed

lemma inv_remove_scene:
  assumes "graph_inv g"
  shows "graph_inv (snd (sbs_scene_graph_remove_scene sid g))"
proof (cases "\<exists>k. sid = Some k \<and> ht_contains (gr_scenes g) k \<and> gr_active_scene_id g \<noteq> Some k")
  case True
  then obtain k where k: "sid = Some k" "ht_contains (gr_scenes g) k" "gr_active_scene_id g \<noteq> Some k"
    by blast
  then obtain a where a: "gr_active_scene_id g = Some a" "ht_contains (gr_scenes g) a" "a \<noteq> k"
    using assms by (cases "gr_active_scene_id g") (auto simp: graph_inv_def)
  then have "ht_remove k (gr_scenes g) \<noteq> []"
    using ht_contains_simps(2) [of k "gr_scenes g" a] ht_contains_simps(4) [of a] by metis
  then show ?thesis
    using assms k a
    by (auto simp: sbs_scene_graph_remove_scene_def Let_def graph_inv_def graph_bump_version_def ht_remove_entries names_remove)
qed (use assms in \<open>auto simp: sbs_scene_graph_remove_scene_def Let_def split: option.splits\<close>)

text \<open>Items that keep their source and stay normalised can be written back.\<close>

lemma inv_put_kept_items:
  assumes "graph_inv g" "sbs_scene_graph_get_scene g sid = Some sc" "sc_id sc' = sc_id sc"
    and "\<And>it. it \<in> set (sc_items sc') \<Longrightarrow> \<exists>x \<in> set (sc_items sc).
      it_source_id it = it_source_id x \<and> (transform_ok (it_transform x) \<longrightarrow> transform_ok (it_transform it))"
  shows "graph_inv (put_scene (the sid) sc' g)"
  by (rule inv_put_items [OF assms(1-3)]) (use items_of_scene [OF assms(1,2)] assms(4) in fastforce)

lemma inv_add_item:
  assumes "graph_inv g"
  shows "graph_inv (snd (sbs_scene_graph_add_item scene_id p g))"
proof -
  let ?add = "\<lambda>sc. scene_sort_items (sc\<lparr>sc_items := sc_items sc @ [new_item p (the (icp_source_id p)) g]\<rparr>)"
  have "graph_inv (put_scene (the scene_id) (?add sc) g)"
    if sc: "sbs_scene_graph_get_scene g scene_id = Some sc"
      and src: "sbs_scene_graph_get_source g (icp_source_id p) = Some s" for sc s
  proof (rule inv_put_items [OF assms sc])
    have "ht_contains (gr_sources g) (the (icp_source_id p))"
      using get_source_Some [OF src] contains_lookup by auto
    then show "ht_contains (gr_sources g) (it_source_id it) \<and> transform_ok (it_transform it)"
      if "it \<in> set (sc_items (?add sc))" for it
      using that items_of_scene [OF assms sc] by (auto simp: new_item_def transform_copy_ok)
  qed simp
  then show ?thesis
    using assms by (auto simp: sbs_scene_graph_add_item_def Let_def split: option.split)
qed

lemma updated_item_ok:
  "it_id (updated_item p it) = it_id it" "it_source_id (updated_item p it) = it_source_id it"
  "transform_ok (it_transform it) \<Longrightarrow> transform_ok (it_transform (updated_item p it))"
  by (simp_all add: updated_item_def Let_def transform_copy_ok)

lemma inv_change_item:
  assumes "graph_inv g" "sbs_scene_graph_get_scene g sid = Some sc"
    and "\<And>it. it_source_id (f it) = it_source_id it"
    and "\<And>it. transform_ok (it_transform it) \<Longrightarrow> transform_ok (it_transform (f it))"
  shows "graph_inv (put_scene (the sid) (change_item k f sc) g)"
    and "graph_inv (put_scene (the sid) (scene_sort_items (change_item k f sc)) g)"
  by (rule inv_put_kept_items [OF assms(1,2)], simp, use assms(3,4) in \<open>fastforce dest: change_item_items\<close>)+

lemma inv_update_item:
  assumes "graph_inv g"
  shows "graph_inv (snd (sbs_scene_graph_update_item scene_id item_id p g))"
  using assms inv_change_item(2) [OF assms _ updated_item_ok(2,3)]
  by (auto simp: sbs_scene_graph_update_item_def split: option.split)

lemma get_item_scene:
  "sbs_scene_graph_get_item g scene_id item_id = Some it \<Longrightarrow>
    \<exists>sc. sbs_scene_graph_get_scene g scene_id = Some sc \<and> scene_find_item sc item_id = Some it"
  by (auto simp: sbs_scene_graph_get_item_def split: if_splits option.splits)

lemma inv_update_item_audio:
  assumes "graph_inv g"
  shows "graph_inv (snd (sbs_scene_graph_update_item_audio scene_id item_id audio g))"
proof -
  let ?f = "\<lambda>it. it\<lparr>it_audio := audio_binding_copy audio\<rparr>"
  have "graph_inv (put_scene (the scene_id) (change_item k ?f sc) g)"
    if "sbs_scene_graph_get_scene g scene_id = Some sc" for sc k
    by (rule inv_change_item(1) [OF assms that]) simp_all
  then show ?thesis
    using assms
    by (auto simp: sbs_scene_graph_update_item_audio_def dest!: get_item_scene split: option.split)
qed

lemma inv_remove_item:
  assumes "graph_inv g"
  shows "graph_inv (snd (sbs_scene_graph_remove_item scene_id item_id g))"
proof -
  have "graph_inv (put_scene (the scene_id) (sc\<lparr>sc_items := remove_first P (sc_items sc)\<rparr>) g)"
    if "sbs_scene_graph_get_scene g scene_id = Some sc" for sc P
    by (rule inv_put_kept_items [OF assms that]) (use set_remove_first in \<open>fastforce+\<close>)
  then show ?thesis
    using assms by (auto simp: sbs_scene_graph_remove_item_def split: option.split)
qed

lemma reorder_loop_items:
  "it \<in> set (sc_items (snd (reorder_loop i ids sc))) \<Longrightarrow>
    \<exists>x \<in> set (sc_items sc). it_source_id it = it_source_id x \<and> it_transform it = it_transform x"
proof (induction ids arbitrary: i sc)
  case Nil
  then show ?case by auto
next
  case (Cons iid ids)
  show ?case
  proof (cases "scene_find_item sc iid")
    case None
    then show ?thesis using Cons.prems by auto
  next
    case (Some x)
    then obtain y where y: "y \<in> set (sc_items (change_item (the iid) (\<lambda>it. it\<lparr>it_z_order := c_int (int i * 10)\<rparr>) sc))"
      "it_source_id it = it_source_id y" "it_transform it = it_transform y"
      using Cons by auto
    then show ?thesis
      using change_item_items [OF y(1)] by auto
  qed
qed

lemma reorder_loop_id [simp]: "sc_id (snd (reorder_loop i ids sc)) = sc_id sc"
  by (induction ids arbitrary: i sc) (auto split: option.splits)

lemma inv_reorder_items:
  assumes "graph_inv g"
  shows "graph_inv (snd (sbs_scene_graph_reorder_items scene_id ids g))"
proof -
  have "graph_inv (put_scene (the scene_id) (snd (reorder_loop 0 xs sc)) g)"
    "graph_inv (put_scene (the scene_id) (scene_sort_items (snd (reorder_loop 0 xs sc))) g)"
    if "sbs_scene_graph_get_scene g scene_id = Some sc" for sc xs
    by (rule inv_put_kept_items [OF assms that], simp, use reorder_loop_items in fastforce)+
  then show ?thesis
    using assms
    by (auto simp: sbs_scene_graph_reorder_items_def case_prod_unfold Let_def split: option.split)
qed

lemma inv_filters:
  assumes "graph_inv g"
  shows "graph_inv (snd (sbs_scene_graph_add_filter strtod sid fcp g))"
    and "graph_inv (snd (sbs_scene_graph_update_filter strtod sid fid fup g))"
    and "graph_inv (snd (sbs_scene_graph_remove_filter sid fid g))"
  using assms inv_put_same_source [OF assms]
  by (auto simp: sbs_scene_graph_add_filter_def sbs_scene_graph_update_filter_def
      sbs_scene_graph_remove_filter_def split: option.split)

lemma inv_put_filters:
  assumes "graph_inv g" "sbs_scene_graph_get_scene g sid = Some sc"
  shows "graph_inv (put_scene (the sid) (sc\<lparr>sc_filters := fs\<rparr>) g)"
  by (rule inv_put_kept_items [OF assms]) auto

lemma inv_scene_filters:
  assumes "graph_inv g"
  shows "graph_inv (snd (sbs_scene_graph_add_scene_filter strtod sid fcp g))"
    and "graph_inv (snd (sbs_scene_graph_update_scene_filter strtod sid fid fup g))"
    and "graph_inv (snd (sbs_scene_graph_remove_scene_filter sid fid g))"
  using assms inv_put_filters [OF assms]
  by (auto simp: sbs_scene_graph_add_scene_filter_def sbs_scene_graph_update_scene_filter_def
      sbs_scene_graph_remove_scene_filter_def split: option.split)

lemma inv_outputs:
  assumes "graph_inv g"
  shows "graph_inv (snd (sbs_scene_graph_create_output ocp g))"
    and "graph_inv (snd (sbs_scene_graph_remove_output oid g))"
  using assms
  by (simp_all add: sbs_scene_graph_create_output_def sbs_scene_graph_remove_output_def Let_def graph_inv_def
      graph_bump_version_def keyed_remove keyed_insert valid_the split: option.split)

lemma inv_transitions:
  assumes "graph_inv g"
  shows "graph_inv (snd (sbs_scene_graph_create_transition tid kind d g))"
    and "graph_inv (snd (sbs_scene_graph_update_transition tid d g))"
    and "graph_inv (snd (sbs_scene_graph_set_default_transition tid g))"
proof -
  show "graph_inv (snd (sbs_scene_graph_create_transition tid kind d g))"
    using assms
    by (simp add: sbs_scene_graph_create_transition_def Let_def graph_inv_def graph_bump_version_def
        keyed_insert valid_the names_insert)
  show "graph_inv (snd (sbs_scene_graph_update_transition tid d g))"
    using assms graph_invD(5) [OF assms]
    by (auto simp: sbs_scene_graph_update_transition_def graph_inv_def graph_bump_version_def
        sbs_scene_graph_get_transition_def lookup_opt_def keyed_insert names_insert split: option.split)
  show "graph_inv (snd (sbs_scene_graph_set_default_transition tid g))"
    using assms
    by (auto simp: sbs_scene_graph_set_default_transition_def graph_inv_def graph_bump_version_def
        sbs_scene_graph_get_transition_def lookup_opt_def contains_lookup split: option.splits)
qed

lemma start_transition_ok: "runtime_ok (start_transition now from sid res t)"
  by (simp add: start_transition_def Let_def runtime_ok_def)

lemma inv_active:
  assumes "graph_inv g"
  shows "graph_inv (snd (sbs_scene_graph_set_active_scene now sid tid g))"
    and "graph_inv (snd (sbs_scene_graph_set_preview_scene sid g))"
    and "graph_inv (snd (sbs_scene_graph_transition_to_preview now tid g))"
proof -
  have known: "names (gr_scenes g) sid \<and> gr_scenes g \<noteq> []"
    if "sbs_scene_graph_get_scene g sid = Some sc" for sid sc
    using get_scene_Some [OF that] contains_lookup by force
  show active: "graph_inv (snd (sbs_scene_graph_set_active_scene now sid tid g))" for sid
    using assms known start_transition_ok
    by (auto simp: sbs_scene_graph_set_active_scene_def Let_def graph_inv_def graph_bump_version_def)
  show "graph_inv (snd (sbs_scene_graph_set_preview_scene sid g))"
    using assms known [of sid]
    by (cases sid) (auto simp: sbs_scene_graph_set_preview_scene_def graph_inv_def graph_bump_version_def)
  show "graph_inv (snd (sbs_scene_graph_transition_to_preview now tid g))"
    using assms active by (simp add: sbs_scene_graph_transition_to_preview_def)
qed

text \<open>The progress of a running transition is a number, and below 1 as long as it runs.\<close>

lemma fp_div_not_NaN: "x \<noteq> NaN \<Longrightarrow> b \<noteq> 0 \<Longrightarrow> fp_div fmt x (Fin b) \<noteq> NaN"
  by (cases x) simp_all

lemma progress_not_NaN:
  assumes "rt_duration_ms rt \<noteq> 0"
  shows "transition_progress rt now \<noteq> NaN"
proof -
  let ?d = "uint (rt_duration_ms rt)"
  have "?d < 2 ^ 32"
    using uint_lt2p [of "rt_duration_ms rt"] by simp
  then have "dbl_of_int ?d = Fin (of_int ?d)"
    by (intro dbl_of_int_exact) simp
  moreover have "(of_int ?d :: rat) \<noteq> 0"
    unfolding of_int_eq_0_iff using assms by (simp add: uint_0_iff)
  moreover have "dbl_of_int n \<noteq> NaN" for n
    by (simp add: dbl_of_int_def)
  ultimately show ?thesis
    by (simp add: transition_progress_def Let_def fp_div_not_NaN)
qed

lemma inv_tick:
  assumes "graph_inv g"
  shows "graph_inv (sbs_scene_graph_update_transition_runtime now g)"
proof -
  let ?rt = "gr_transition_runtime g"
  have "fp_less (transition_progress ?rt now) (Fin 1)"
    if "rt_duration_ms ?rt \<noteq> 0" "\<not> fp_le (Fin 1) (transition_progress ?rt now)"
    using fp_less_total [OF progress_not_NaN [OF that(1)], of "Fin 1" now] that(2) by simp
  then have "runtime_ok (gr_transition_runtime (sbs_scene_graph_update_transition_runtime now g))"
    using assms by (simp add: sbs_scene_graph_update_transition_runtime_def Let_def graph_inv_def
        runtime_ok_def fp_le_def)
  then show ?thesis
    using assms by (simp add: sbs_scene_graph_update_transition_runtime_def Let_def graph_inv_def)
qed

lemma keyed_Nil [simp]: "keyed f []"
  by (simp add: keyed_def)

lemma inv_empty: "graph_inv empty_graph"
  by (simp add: graph_inv_def empty_graph_def runtime_ok_def)

lemma new_default_eq:
  "sbs_scene_graph_new_default = empty_graph\<lparr>
     gr_transitions :=
       [(''trans-cut'', \<lparr>ts_id = ''trans-cut'', ts_kind = TRANSITION_CUT, ts_duration_ms = 0, ts_params = []\<rparr>),
        (''trans-fade'', \<lparr>ts_id = ''trans-fade'', ts_kind = TRANSITION_FADE, ts_duration_ms = 2000, ts_params = []\<rparr>)],
     gr_default_transition_id := Some ''trans-fade'', gr_version := 1\<rparr>"
proof -
  have "valid_graph_id (Some ''trans-cut'')" "valid_graph_id (Some ''trans-fade'')"
    by code_simp+
  then show ?thesis
    by (simp add: sbs_scene_graph_new_default_def sbs_scene_graph_create_transition_def Let_def
        graph_bump_version_def empty_graph_def ht_contains_def ht_lookup_def ht_insert_def)
qed

lemma inv_new_default: "graph_inv sbs_scene_graph_new_default"
proof -
  have "valid_graph_id (Some ''trans-cut'')" "valid_graph_id (Some ''trans-fade'')"
    by code_simp+
  then show ?thesis
    using inv_empty
    by (simp add: new_default_eq graph_inv_def keyed_def ht_wf_def ht_contains_def ht_lookup_def)
qed

section \<open>Requests\<close>

datatype graph_op =
    Create_source source_create_params
  | Update_source "string option" source_update_params
  | Remove_source "string option"
  | Create_scene "string option" "string option"
  | Rename_scene "string option" "string option"
  | Remove_scene "string option"
  | Add_item "string option" item_create_params
  | Update_item "string option" "string option" item_update_params
  | Update_item_audio "string option" "string option" "audio_binding option"
  | Remove_item "string option" "string option"
  | Reorder_items "string option" "string option list option"
  | Add_filter "string option" filter_create_params
  | Update_filter "string option" "string option" filter_update_params
  | Remove_filter "string option" "string option"
  | Add_scene_filter "string option" filter_create_params
  | Update_scene_filter "string option" "string option" filter_update_params
  | Remove_scene_filter "string option" "string option"
  | Create_output output_create_params
  | Remove_output "string option"
  | Create_transition "string option" transition_kind u32
  | Update_transition "string option" u32
  | Set_default_transition "string option"
  | Set_active_scene int "string option" "string option"
  | Set_preview_scene "string option"
  | Transition_to_preview int "string option"
  | Tick int

fun apply_op :: "(string \<Rightarrow> fp) \<Rightarrow> graph_op \<Rightarrow> scene_graph \<Rightarrow> sbs_result \<times> scene_graph" where
  "apply_op strtod (Create_source p) g = sbs_scene_graph_create_source p g"
| "apply_op strtod (Update_source sid p) g = sbs_scene_graph_update_source sid p g"
| "apply_op strtod (Remove_source sid) g = sbs_scene_graph_remove_source sid g"
| "apply_op strtod (Create_scene sid n) g = sbs_scene_graph_create_scene sid n g"
| "apply_op strtod (Rename_scene sid n) g = sbs_scene_graph_update_scene_name sid n g"
| "apply_op strtod (Remove_scene sid) g = sbs_scene_graph_remove_scene sid g"
| "apply_op strtod (Add_item sid p) g = sbs_scene_graph_add_item sid p g"
| "apply_op strtod (Update_item sid iid p) g = sbs_scene_graph_update_item sid iid p g"
| "apply_op strtod (Update_item_audio sid iid a) g = sbs_scene_graph_update_item_audio sid iid a g"
| "apply_op strtod (Remove_item sid iid) g = sbs_scene_graph_remove_item sid iid g"
| "apply_op strtod (Reorder_items sid ids) g = sbs_scene_graph_reorder_items sid ids g"
| "apply_op strtod (Add_filter sid p) g = sbs_scene_graph_add_filter strtod sid p g"
| "apply_op strtod (Update_filter sid fid p) g = sbs_scene_graph_update_filter strtod sid fid p g"
| "apply_op strtod (Remove_filter sid fid) g = sbs_scene_graph_remove_filter sid fid g"
| "apply_op strtod (Add_scene_filter sid p) g = sbs_scene_graph_add_scene_filter strtod sid p g"
| "apply_op strtod (Update_scene_filter sid fid p) g = sbs_scene_graph_update_scene_filter strtod sid fid p g"
| "apply_op strtod (Remove_scene_filter sid fid) g = sbs_scene_graph_remove_scene_filter sid fid g"
| "apply_op strtod (Create_output p) g = sbs_scene_graph_create_output p g"
| "apply_op strtod (Remove_output oid) g = sbs_scene_graph_remove_output oid g"
| "apply_op strtod (Create_transition tid k d) g = sbs_scene_graph_create_transition tid k d g"
| "apply_op strtod (Update_transition tid d) g = sbs_scene_graph_update_transition tid d g"
| "apply_op strtod (Set_default_transition tid) g = sbs_scene_graph_set_default_transition tid g"
| "apply_op strtod (Set_active_scene now sid tid) g = sbs_scene_graph_set_active_scene now sid tid g"
| "apply_op strtod (Set_preview_scene sid) g = sbs_scene_graph_set_preview_scene sid g"
| "apply_op strtod (Transition_to_preview now tid) g = sbs_scene_graph_transition_to_preview now tid g"
| "apply_op strtod (Tick now) g = (SBS_OK, sbs_scene_graph_update_transition_runtime now g)"

definition run_ops :: "(string \<Rightarrow> fp) \<Rightarrow> graph_op list \<Rightarrow> scene_graph \<Rightarrow> scene_graph" where
  "run_ops strtod ops g = fold (\<lambda>op g. snd (apply_op strtod op g)) ops g"

lemmas graph_inv_ops = inv_create_source inv_update_source inv_remove_source inv_create_scene
  inv_update_scene_name inv_remove_scene inv_add_item inv_update_item inv_update_item_audio
  inv_remove_item inv_reorder_items inv_filters inv_scene_filters inv_outputs inv_transitions
  inv_active inv_tick

lemma inv_apply_op: "graph_inv g \<Longrightarrow> graph_inv (snd (apply_op strtod op g))"
  by (cases op) (simp_all add: graph_inv_ops)

lemma inv_run_ops: "graph_inv g \<Longrightarrow> graph_inv (run_ops strtod ops g)"
  unfolding run_ops_def by (induction ops arbitrary: g) (simp_all add: inv_apply_op)

end
