(* ===== verification/Scene_Props.thy ===== *)
theory Scene_Props
  imports Scene_Inv
begin

text \<open>
  What the operations of the scene graph guarantee to their clients: every sequence of requests
  keeps the graph consistent, a refused request changes nothing (with one exception, which is
  shown), the items of a scene stay in drawing order, a reorder gives exactly the requested order,
  and a removed source leaves no reference behind.
\<close>

section \<open>Drawing order\<close>

definition scene_sorted :: "scene_state \<Rightarrow> bool" where
  "scene_sorted sc \<longleftrightarrow> sorted (map item_key_of (sc_items sc))"

definition graph_sorted :: "scene_graph \<Rightarrow> bool" where
  "graph_sorted g \<longleftrightarrow> (\<forall>(k, sc) \<in> set (gr_scenes g). scene_sorted sc)"

lemma sorted_after_sort [simp]: "scene_sorted (scene_sort_items sc)"
  by (simp add: scene_sorted_def scene_sort_items_def)

lemma graph_sorted_bump [simp]: "graph_sorted (graph_bump_version g) \<longleftrightarrow> graph_sorted g"
  by (simp add: graph_sorted_def graph_bump_version_def)

lemma graph_sorted_put: "graph_sorted g \<Longrightarrow> scene_sorted sc \<Longrightarrow> graph_sorted (put_scene k sc g)"
  by (auto simp: graph_sorted_def put_scene_def dest!: ht_insert_entries)

lemma graph_sorted_source [simp]: "graph_sorted (put_source k s g) \<longleftrightarrow> graph_sorted g"
  by (simp add: graph_sorted_def put_source_def)

lemma graph_sorted_get:
  "graph_sorted g \<Longrightarrow> sbs_scene_graph_get_scene g sid = Some sc \<Longrightarrow> scene_sorted sc"
  by (auto dest!: get_scene_Some ht_lookup_in_set simp: graph_sorted_def)

lemma strip_sorted: "scene_sorted sc \<Longrightarrow> scene_sorted (strip_source k sc)"
  by (simp add: scene_sorted_def strip_source_def sorted_filter)

lemma audio_sorted:
  "scene_sorted sc \<Longrightarrow> scene_sorted (change_item k (\<lambda>it. it\<lparr>it_audio := a\<rparr>) sc)"
  by (simp add: scene_sorted_def change_item_def map_update_first item_key_of_def)

lemma fields_sorted [simp]:
  "scene_sorted (sc\<lparr>sc_name := n\<rparr>) \<longleftrightarrow> scene_sorted sc"
  "scene_sorted (sc\<lparr>sc_filters := fs\<rparr>) \<longleftrightarrow> scene_sorted sc"
  "scene_sorted \<lparr>sc_id = i, sc_name = n, sc_items = [], sc_filters = fs\<rparr>"
  by (simp_all add: scene_sorted_def)

lemma remove_sorted:
  "scene_sorted sc \<Longrightarrow> scene_sorted (sc\<lparr>sc_items := remove_first P (sc_items sc)\<rparr>)"
  by (simp add: scene_sorted_def sorted_remove_first)

lemmas scene_op_defs =
  sbs_scene_graph_create_source_def sbs_scene_graph_update_source_def sbs_scene_graph_remove_source_def
  sbs_scene_graph_create_scene_def sbs_scene_graph_update_scene_name_def sbs_scene_graph_remove_scene_def
  sbs_scene_graph_add_item_def sbs_scene_graph_update_item_def sbs_scene_graph_update_item_audio_def
  sbs_scene_graph_remove_item_def sbs_scene_graph_add_filter_def sbs_scene_graph_update_filter_def
  sbs_scene_graph_remove_filter_def sbs_scene_graph_add_scene_filter_def
  sbs_scene_graph_update_scene_filter_def sbs_scene_graph_remove_scene_filter_def
  sbs_scene_graph_create_output_def sbs_scene_graph_remove_output_def sbs_scene_graph_create_transition_def
  sbs_scene_graph_update_transition_def sbs_scene_graph_set_default_transition_def
  sbs_scene_graph_set_active_scene_def sbs_scene_graph_set_preview_scene_def
  sbs_scene_graph_transition_to_preview_def

lemma sorted_other_fields [simp]:
  "graph_sorted (g\<lparr>gr_sources := a\<rparr>) \<longleftrightarrow> graph_sorted g"
  "graph_sorted (g\<lparr>gr_outputs := b\<rparr>) \<longleftrightarrow> graph_sorted g"
  "graph_sorted (g\<lparr>gr_transitions := c\<rparr>) \<longleftrightarrow> graph_sorted g"
  "graph_sorted (g\<lparr>gr_active_scene_id := d\<rparr>) \<longleftrightarrow> graph_sorted g"
  "graph_sorted (g\<lparr>gr_preview_scene_id := d\<rparr>) \<longleftrightarrow> graph_sorted g"
  "graph_sorted (g\<lparr>gr_default_transition_id := d\<rparr>) \<longleftrightarrow> graph_sorted g"
  "graph_sorted (g\<lparr>gr_transition_runtime := e\<rparr>) \<longleftrightarrow> graph_sorted g"
  "graph_sorted (g\<lparr>gr_version := v\<rparr>) \<longleftrightarrow> graph_sorted g"
  by (simp_all add: graph_sorted_def)

lemma sorted_remove_scene [simp]: "graph_sorted g \<Longrightarrow> graph_sorted (g\<lparr>gr_scenes := ht_remove k (gr_scenes g)\<rparr>)"
  by (auto simp: graph_sorted_def ht_remove_entries)

lemma sorted_strip [simp]: "graph_sorted g \<Longrightarrow> graph_sorted (g\<lparr>gr_scenes := ht_map (strip_source k) (gr_scenes g)\<rparr>)"
  by (auto simp: graph_sorted_def ht_map_def strip_sorted)

lemma scene_of_item:
  "sbs_scene_graph_get_item g sid iid = Some it \<Longrightarrow> graph_sorted g \<Longrightarrow>
    scene_sorted (the (sbs_scene_graph_get_scene g sid))"
  by (auto dest!: get_item_scene intro: graph_sorted_get)

text \<open>The operations on scenes, one fact each.\<close>

lemma sorted_scene_ops:
  assumes "graph_sorted g"
  shows "graph_sorted (snd (sbs_scene_graph_create_scene sid n g))"
    and "graph_sorted (snd (sbs_scene_graph_update_scene_name sid n g))"
    and "graph_sorted (snd (sbs_scene_graph_remove_scene sid g))"
    and "graph_sorted (snd (sbs_scene_graph_add_item sid icp g))"
    and "graph_sorted (snd (sbs_scene_graph_update_item sid iid iup g))"
    and "graph_sorted (snd (sbs_scene_graph_update_item_audio sid iid a g))"
    and "graph_sorted (snd (sbs_scene_graph_remove_item sid iid g))"
  using assms graph_sorted_get [OF assms]
  by (auto simp: scene_op_defs Let_def graph_sorted_put audio_sorted remove_sorted scene_of_item
      split: option.split)

lemma sorted_source_ops:
  assumes "graph_sorted g"
  shows "graph_sorted (snd (sbs_scene_graph_create_source scp g))"
    and "graph_sorted (snd (sbs_scene_graph_update_source sid upd g))"
    and "graph_sorted (snd (sbs_scene_graph_remove_source sid g))"
  using assms by (auto simp: scene_op_defs Let_def split: option.split)

lemma sorted_filter_ops:
  assumes "graph_sorted g"
  shows "graph_sorted (snd (sbs_scene_graph_add_filter strtod sid fcp g))"
    and "graph_sorted (snd (sbs_scene_graph_update_filter strtod sid fid fup g))"
    and "graph_sorted (snd (sbs_scene_graph_remove_filter sid fid g))"
    and "graph_sorted (snd (sbs_scene_graph_add_scene_filter strtod sid fcp g))"
    and "graph_sorted (snd (sbs_scene_graph_update_scene_filter strtod sid fid fup g))"
    and "graph_sorted (snd (sbs_scene_graph_remove_scene_filter sid fid g))"
  using assms graph_sorted_get [OF assms]
  by (auto simp: scene_op_defs graph_sorted_put split: option.split)

lemma sorted_other_ops:
  assumes "graph_sorted g"
  shows "graph_sorted (snd (sbs_scene_graph_create_output ocp g))"
    and "graph_sorted (snd (sbs_scene_graph_remove_output oid g))"
    and "graph_sorted (snd (sbs_scene_graph_create_transition tid kind d g))"
    and "graph_sorted (snd (sbs_scene_graph_update_transition tid d g))"
    and "graph_sorted (snd (sbs_scene_graph_set_default_transition tid g))"
    and "graph_sorted (snd (sbs_scene_graph_set_active_scene now sid tid g))"
    and "graph_sorted (snd (sbs_scene_graph_set_preview_scene sid g))"
    and "graph_sorted (snd (sbs_scene_graph_transition_to_preview now tid g))"
    and "graph_sorted (sbs_scene_graph_update_transition_runtime now g)"
  using assms
  by (auto simp: scene_op_defs sbs_scene_graph_update_transition_runtime_def Let_def split: option.split)

lemma sorted_reorder:
  assumes "graph_sorted g" "fst (sbs_scene_graph_reorder_items sid ids g) \<noteq> SBS_ERR_NOT_FOUND"
  shows "graph_sorted (snd (sbs_scene_graph_reorder_items sid ids g))"
  using assms
  by (auto simp: sbs_scene_graph_reorder_items_def case_prod_unfold Let_def graph_sorted_put
      split: option.splits if_splits)

text \<open>A reorder that names an unknown item.\<close>

fun failed_reorder :: "graph_op \<Rightarrow> sbs_result \<Rightarrow> bool" where
  "failed_reorder (Reorder_items sid ids) r \<longleftrightarrow> r = SBS_ERR_NOT_FOUND"
| "failed_reorder _ r \<longleftrightarrow> False"

lemma sorted_apply_op:
  assumes "graph_sorted g" "\<not> failed_reorder op (fst (apply_op strtod op g))"
  shows "graph_sorted (snd (apply_op strtod op g))"
  using assms
  by (cases op) (simp_all add: sorted_scene_ops sorted_source_ops sorted_filter_ops sorted_other_ops sorted_reorder)

section \<open>Requests that are refused\<close>

lemma put_version [simp]:
  "gr_version (put_scene k sc g) = gr_version g" "gr_version (put_source k s g) = gr_version g"
  "gr_version (graph_bump_version g) = gr_version g + 1"
  by (simp_all add: put_scene_def put_source_def graph_bump_version_def)

definition atomic_result :: "scene_graph \<Rightarrow> sbs_result \<times> scene_graph \<Rightarrow> bool" where
  "atomic_result g r \<longleftrightarrow> (if fst r = SBS_OK then gr_version (snd r) = gr_version g + 1 else snd r = g)"

lemma atomic_scene_ops:
  "atomic_result g (sbs_scene_graph_create_scene sid n g)"
  "atomic_result g (sbs_scene_graph_update_scene_name sid n g)"
  "atomic_result g (sbs_scene_graph_remove_scene sid g)"
  "atomic_result g (sbs_scene_graph_add_item sid icp g)"
  "atomic_result g (sbs_scene_graph_update_item sid iid iup g)"
  "atomic_result g (sbs_scene_graph_update_item_audio sid iid a g)"
  "atomic_result g (sbs_scene_graph_remove_item sid iid g)"
  by (simp_all add: atomic_result_def scene_op_defs Let_def split: option.split)

lemma atomic_source_ops:
  "atomic_result g (sbs_scene_graph_create_source scp g)"
  "atomic_result g (sbs_scene_graph_update_source sid upd g)"
  "atomic_result g (sbs_scene_graph_remove_source sid g)"
  by (simp_all add: atomic_result_def scene_op_defs Let_def split: option.split)

lemma atomic_filter_ops:
  "atomic_result g (sbs_scene_graph_add_filter strtod sid fcp g)"
  "atomic_result g (sbs_scene_graph_update_filter strtod sid fid fup g)"
  "atomic_result g (sbs_scene_graph_remove_filter sid fid g)"
  "atomic_result g (sbs_scene_graph_add_scene_filter strtod sid fcp g)"
  "atomic_result g (sbs_scene_graph_update_scene_filter strtod sid fid fup g)"
  "atomic_result g (sbs_scene_graph_remove_scene_filter sid fid g)"
  by (simp_all add: atomic_result_def scene_op_defs split: option.split)

lemma atomic_other_ops:
  "atomic_result g (sbs_scene_graph_create_output ocp g)"
  "atomic_result g (sbs_scene_graph_remove_output oid g)"
  "atomic_result g (sbs_scene_graph_create_transition tid kind d g)"
  "atomic_result g (sbs_scene_graph_update_transition tid d g)"
  "atomic_result g (sbs_scene_graph_set_default_transition tid g)"
  "atomic_result g (sbs_scene_graph_set_active_scene now sid tid g)"
  "atomic_result g (sbs_scene_graph_set_preview_scene sid g)"
  "atomic_result g (sbs_scene_graph_transition_to_preview now tid g)"
  by (simp_all add: atomic_result_def scene_op_defs Let_def split: option.split)

lemma atomic_reorder:
  "fst (sbs_scene_graph_reorder_items sid ids g) \<noteq> SBS_ERR_NOT_FOUND \<Longrightarrow>
    atomic_result g (sbs_scene_graph_reorder_items sid ids g)"
  by (auto simp: atomic_result_def sbs_scene_graph_reorder_items_def case_prod_unfold Let_def split: option.split)

section \<open>Reordering\<close>

definition set_z :: "int \<Rightarrow> item_state \<Rightarrow> item_state" where
  "set_z z it = it\<lparr>it_z_order := z\<rparr>"

lemma set_z_fun: "(\<lambda>it. it\<lparr>it_z_order := z\<rparr>) = set_z z"
  by (simp add: fun_eq_iff set_z_def)

text \<open>What the loop does when every identifier is known and none repeats.\<close>

lemma reorder_loop_result:
  assumes "distinct (map it_id (sc_items sc))" "distinct ids" "set ids \<subseteq> it_id ` set (sc_items sc)"
  shows "reorder_loop i (map Some ids) sc
    = (True, sc\<lparr>sc_items := map (\<lambda>it. if it_id it \<in> set ids
         then set_z (c_int (int (i + position ids (it_id it)) * 10)) it else it) (sc_items sc)\<rparr>)"
  using assms
proof (induction ids arbitrary: i sc)
  case Nil
  then show ?case by simp
next
  case (Cons k ids)
  let ?f = "set_z (c_int (int i * 10))"
  let ?sc = "sc\<lparr>sc_items := map (\<lambda>it. if it_id it = k then ?f it else it) (sc_items sc)\<rparr>"
  obtain x where "x \<in> set (sc_items sc)" "it_id x = k"
    using Cons.prems(3) by auto
  then have found: "scene_find_item sc (Some k) \<noteq> None"
    by (auto simp: scene_find_item_def find_eq_None_iff)
  have change: "change_item k (\<lambda>it. it\<lparr>it_z_order := c_int (int i * 10)\<rparr>) sc = ?sc"
    unfolding set_z_fun change_item_def by (simp only: update_first_eq_map [OF Cons.prems(1)])
  have ids: "map it_id (sc_items ?sc) = map it_id (sc_items sc)"
    by (simp add: set_z_def)
  have "it_id ` set (sc_items ?sc) = it_id ` set (sc_items sc)"
    using arg_cong [OF ids, of set] by (simp only: list.set_map)
  then have prems: "distinct (map it_id (sc_items ?sc))" "distinct ids" "set ids \<subseteq> it_id ` set (sc_items ?sc)"
    using Cons.prems by (simp_all only: ids distinct.simps list.set insert_subset)
  have "k \<notin> set ids"
    using Cons.prems(2) by simp
  then have maps: "map (\<lambda>it. if it_id it \<in> set ids
        then set_z (c_int (int (Suc i + position ids (it_id it)) * 10)) it else it) (sc_items ?sc)
      = map (\<lambda>it. if it_id it \<in> set (k # ids)
        then set_z (c_int (int (i + position (k # ids) (it_id it)) * 10)) it else it) (sc_items sc)"
    by (auto simp: set_z_def ac_simps)
  show ?case
    using found change Cons.IH [OF prems, of "Suc i"] unfolding maps by auto
qed

lemma reorder_result:
  assumes sc: "sbs_scene_graph_get_scene g (Some s) = Some sc"
    and distinct: "distinct (map it_id (sc_items sc))"
    and perm: "mset ids = mset (map it_id (sc_items sc))"
    and small: "length ids * 10 < 2 ^ 31"
  defines "r \<equiv> sbs_scene_graph_reorder_items (Some s) (Some (map Some ids)) g"
  shows "fst r = SBS_OK \<and> (\<exists>sc'. sbs_scene_graph_get_scene (snd r) (Some s) = Some sc'
    \<and> map it_id (sc_items sc') = ids
    \<and> mset (map (set_z 0) (sc_items sc')) = mset (map (set_z 0) (sc_items sc)))"
proof -
  have dids: "distinct ids" and set: "set ids = it_id ` set (sc_items sc)"
    using perm distinct by (metis mset_eq_imp_distinct_iff, metis list.set_map set_mset_mset)
  let ?items = "map (\<lambda>it. set_z (c_int (int (position ids (it_id it)) * 10)) it) (sc_items sc)"
  have loop: "reorder_loop 0 (map Some ids) sc = (True, sc\<lparr>sc_items := ?items\<rparr>)"
    using reorder_loop_result [OF distinct dids, of 0] set by (simp cong: map_cong)
  have len: "length ids = length (sc_items sc)"
    using perm by (metis length_map size_mset)
  let ?sc' = "scene_sort_items (sc\<lparr>sc_items := ?items\<rparr>)"
  have r: "r = (SBS_OK, graph_bump_version (put_scene s ?sc' g))"
    using sc loop len by (simp add: r_def sbs_scene_graph_reorder_items_def)
  have get: "sbs_scene_graph_get_scene (snd r) (Some s) = Some ?sc'"
    by (simp add: r sbs_scene_graph_get_scene_def lookup_opt_def put_scene_def graph_bump_version_def)
  have ms: "mset (sc_items ?sc') = mset ?items"
    by (simp add: scene_sort_items_def)
  have "mset (map it_id (sc_items ?sc')) = mset (map it_id ?items)"
    unfolding mset_map ms ..
  also have "map it_id ?items = map it_id (sc_items sc)"
    by (simp add: set_z_def)
  finally have "mset (map it_id (sc_items ?sc')) = mset ids"
    by (simp only: perm)
  moreover have "sorted (map (position ids) (map it_id (sc_items ?sc')))"
  proof -
    have z: "it_z_order it = int (position ids (it_id it)) * 10" if "it \<in> set (sc_items ?sc')" for it
    proof -
      have "set (sc_items ?sc') = set ?items"
        using arg_cong [OF ms, of set_mset] by (simp only: set_mset_mset)
      then have "it \<in> set ?items"
        using that by (simp only:)
      then obtain x where x: "x \<in> set (sc_items sc)" "it = set_z (c_int (int (position ids (it_id x)) * 10)) x"
        by auto
      have "position ids (it_id x) < length ids"
        using x(1) set by (intro position_less) auto
      then have "c_int (int (position ids (it_id x)) * 10) = int (position ids (it_id x)) * 10"
        using small by (simp add: c_int_def signed_take_bit_int_eq_self)
      then show ?thesis
        using x(2) by (simp add: set_z_def)
    qed
    have "sorted (map item_key_of (sc_items ?sc'))"
      by (simp add: scene_sort_items_def)
    then have "sorted (map it_z_order (sc_items ?sc'))"
      unfolding sorted_map by (rule sorted_wrt_mono_rel [rotated]) (auto simp: item_key_le item_key_of_def)
    then show ?thesis
      unfolding map_map sorted_map by (rule sorted_wrt_mono_rel [rotated]) (auto simp: z)
  qed
  ultimately have "map it_id (sc_items ?sc') = ids"
    by (intro permutation_by_position [OF dids])
  moreover have "mset (map (set_z 0) (sc_items ?sc')) = mset (map (set_z 0) (sc_items sc))"
  proof -
    have "mset (map (set_z 0) (sc_items ?sc')) = mset (map (set_z 0) ?items)"
      unfolding mset_map ms ..
    also have "map (set_z 0) ?items = map (set_z 0) (sc_items sc)"
      by (simp add: set_z_def)
    finally show ?thesis .
  qed
  ultimately show ?thesis
    using get by (simp add: r)
qed

section \<open>References to sources\<close>

lemma count_refs_zero:
  "sbs_scene_graph_count_source_refs g (Some k) = 0 \<longleftrightarrow>
    (\<forall>(c, sc) \<in> set (gr_scenes g). \<forall>it \<in> set (sc_items sc). it_source_id it \<noteq> k)"
proof -
  have "sbs_scene_graph_count_source_refs g (Some k) = 0 \<longleftrightarrow>
      (\<forall>e \<in> set (gr_scenes g). count_item_refs k (sc_items (snd e)) = 0)"
    by (simp add: sbs_scene_graph_count_source_refs_def case_prod_unfold)
  also have "\<dots> \<longleftrightarrow> (\<forall>(c, sc) \<in> set (gr_scenes g). \<forall>it \<in> set (sc_items sc). it_source_id it \<noteq> k)"
    by (simp add: count_item_refs_def filter_empty_conv case_prod_unfold)
  finally show ?thesis .
qed

lemma refs_exist:
  assumes "graph_inv g" "0 < sbs_scene_graph_count_source_refs g (Some k)"
  shows "ht_contains (gr_sources g) k"
proof -
  obtain c sc it where "(c, sc) \<in> set (gr_scenes g)" "it \<in> set (sc_items sc)" "it_source_id it = k"
    using assms(2) count_refs_zero [of g k] by auto
  then show ?thesis
    using assms(1) by (auto simp: graph_inv_def scene_ok_def)
qed

section \<open>A small graph for the examples\<close>

definition plain_transform :: item_transform where
  "plain_transform =
     \<lparr>tr_position_x = 0, tr_position_y = 0, tr_width = 640, tr_height = 360, tr_crop_top = 0,
      tr_crop_bottom = 0, tr_crop_left = 0, tr_crop_right = 0, tr_rotation_deg = Fin 0,
      tr_flip_horizontal = False, tr_flip_vertical = False, tr_bounds_type = None,
      tr_alignment = None, tr_opacity = Fin 1\<rparr>"

definition camera :: source_create_params where
  "camera = \<lparr>scp_id = Some ''cam'', scp_name = None, scp_kind = KIND_V4L2SRC, scp_enabled = True,
     scp_keep_alive = False, scp_config = None\<rparr>"

definition show_camera :: "string option \<Rightarrow> int \<Rightarrow> item_create_params" where
  "show_camera iid z = \<lparr>icp_id = iid, icp_source_id = Some ''cam'', icp_visible = True, icp_locked = False,
     icp_z_order = z, icp_transform = plain_transform, icp_audio = None\<rparr>"

definition stage_ops :: "graph_op list" where
  "stage_ops = [Create_source camera, Create_scene (Some ''main'') None,
     Add_item (Some ''main'') (show_camera (Some ''a'') 5), Add_item (Some ''main'') (show_camera (Some ''b'') 10)]"

definition stage :: scene_graph where
  "stage = run_ops (\<lambda>_. Fin 0) stage_ops sbs_scene_graph_new_default"

definition item_ids :: "string \<Rightarrow> scene_graph \<Rightarrow> string list" where
  "item_ids k g = (case sbs_scene_graph_get_scene g (Some k) of None \<Rightarrow> [] | Some sc \<Rightarrow> map it_id (sc_items sc))"

definition item_orders :: "string \<Rightarrow> scene_graph \<Rightarrow> int list" where
  "item_orders k g = (case sbs_scene_graph_get_scene g (Some k) of None \<Rightarrow> [] | Some sc \<Rightarrow> map it_z_order (sc_items sc))"

lemma stage_ids: "item_ids ''main'' stage = [''a'', ''b'']"
  by code_simp

lemma stage_inv: "graph_inv stage"
  unfolding stage_def by (rule inv_run_ops [OF inv_new_default])

lemma stage_scene:
  obtains sc where "sbs_scene_graph_get_scene stage (Some ''main'') = Some sc" "map it_id (sc_items sc) = [''a'', ''b'']"
  using stage_ids by (auto simp: item_ids_def split: option.splits)

section \<open>Properties\<close>


text \<open>
  C6. A request other than a clock tick either succeeds and increments the graph's version by
  exactly one, or is refused and leaves the graph as it was; only a reorder that names an unknown
  item is excepted.
\<close>

theorem refused_requests_change_nothing:
  assumes "\<And>now. op \<noteq> Tick now" and "\<not> failed_reorder op (fst (apply_op strtod op g))"
  shows "if fst (apply_op strtod op g) = SBS_OK then gr_version (snd (apply_op strtod op g)) = gr_version g + 1
    else snd (apply_op strtod op g) = g"
proof -
  have "atomic_result g (apply_op strtod op g)"
    using assms
    by (cases op)
      (auto simp: atomic_scene_ops atomic_source_ops atomic_filter_ops atomic_other_ops atomic_reorder)
  then show ?thesis
    by (simp add: atomic_result_def)
qed

theorem refused_requests_change_nothing_witness:
  "if fst (apply_op (\<lambda>_. Fin 0) (Remove_scene (Some ''main'')) stage) = SBS_OK
   then gr_version (snd (apply_op (\<lambda>_. Fin 0) (Remove_scene (Some ''main'')) stage)) = gr_version stage + 1
   else snd (apply_op (\<lambda>_. Fin 0) (Remove_scene (Some ''main'')) stage) = stage"
  by (rule refused_requests_change_nothing) simp_all

text \<open>
  C7. The items of every scene stay sorted by (z-order, identifier), the order in which the
  compositor draws them, under every request except a reorder that names an unknown item.
\<close>

theorem drawing_order_kept:
  assumes "graph_sorted g" and "\<not> failed_reorder op (fst (apply_op strtod op g))"
  shows "graph_sorted (snd (apply_op strtod op g))"
  using assms by (rule sorted_apply_op)

theorem drawing_order_kept_witness:
  "graph_sorted (snd (apply_op (\<lambda>_. Fin 0) (Create_scene (Some ''main'') None) sbs_scene_graph_new_default))"
  by (rule drawing_order_kept) (simp_all add: graph_sorted_def new_default_eq empty_graph_def)

text \<open>
  The exception is real: a reorder whose second identifier is unknown answers
  \<open>SBS_ERR_NOT_FOUND\<close>, does not increment the version, and yet leaves the scene's items out of
  drawing order.
\<close>

theorem failed_reorder_breaks_order:
  "let (r, g) = sbs_scene_graph_reorder_items (Some ''main'') (Some [Some ''b'', Some ''x'']) stage in
   graph_sorted stage \<and> r = SBS_ERR_NOT_FOUND \<and> gr_version g = gr_version stage \<and> \<not> graph_sorted g"
  by code_simp

text \<open>
  C5. A reorder with a permutation of the scene's (distinct) item identifiers succeeds and the
  scene's items are then exactly in the requested order; nothing but the z-orders changes.
\<close>

theorem reorder_gives_requested_order:
  assumes "sbs_scene_graph_get_scene g (Some s) = Some sc"
    and "distinct (map it_id (sc_items sc))"
    and "mset ids = mset (map it_id (sc_items sc))"
    and "length ids * 10 < 2 ^ 31"
  shows "fst (sbs_scene_graph_reorder_items (Some s) (Some (map Some ids)) g) = SBS_OK
    \<and> (\<exists>sc'. sbs_scene_graph_get_scene (snd (sbs_scene_graph_reorder_items (Some s) (Some (map Some ids)) g)) (Some s)
          = Some sc'
        \<and> map it_id (sc_items sc') = ids
        \<and> mset (map (set_z 0) (sc_items sc')) = mset (map (set_z 0) (sc_items sc)))"
  using assms by (rule reorder_result)

theorem reorder_gives_requested_order_witness:
  "\<exists>sc. sbs_scene_graph_get_scene stage (Some ''main'') = Some sc
    \<and> fst (sbs_scene_graph_reorder_items (Some ''main'') (Some (map Some [''b'', ''a''])) stage) = SBS_OK
    \<and> (\<exists>sc'. sbs_scene_graph_get_scene
          (snd (sbs_scene_graph_reorder_items (Some ''main'') (Some (map Some [''b'', ''a''])) stage)) (Some ''main'')
          = Some sc'
        \<and> map it_id (sc_items sc') = [''b'', ''a'']
        \<and> mset (map (set_z 0) (sc_items sc')) = mset (map (set_z 0) (sc_items sc)))"
proof -
  obtain sc where sc: "sbs_scene_graph_get_scene stage (Some ''main'') = Some sc" "map it_id (sc_items sc) = [''a'', ''b'']"
    by (rule stage_scene)
  have "mset [''b'', ''a''] = mset (map it_id (sc_items sc))" "distinct (map it_id (sc_items sc))"
    unfolding sc(2) by simp_all
  then show ?thesis
    using reorder_gives_requested_order [OF sc(1), of "[''b'', ''a'']"] sc(1) by simp
qed

text \<open>
  C8. Removing a source of a consistent graph succeeds, and then neither the table of sources nor
  any item of any scene refers to it, while the items of all other sources keep their places.
\<close>

theorem removed_source_is_gone:
  assumes "graph_inv g" and "ht_contains (gr_sources g) k"
  shows "fst (sbs_scene_graph_remove_source (Some k) g) = SBS_OK
    \<and> (let g' = snd (sbs_scene_graph_remove_source (Some k) g) in
        \<not> ht_contains (gr_sources g') k \<and> sbs_scene_graph_count_source_refs g' (Some k) = 0
        \<and> (\<forall>c. map_option sc_items (ht_lookup (gr_scenes g') c)
              = map_option (\<lambda>sc. filter (\<lambda>it. it_source_id it \<noteq> k) (sc_items sc)) (ht_lookup (gr_scenes g) c)))"
proof -
  let ?g' = "snd (sbs_scene_graph_remove_source (Some k) g)"
  have gone: "\<not> ht_contains (gr_sources ?g') k"
    using assms(2) by (simp add: sbs_scene_graph_remove_source_def graph_bump_version_def)
  then have "sbs_scene_graph_count_source_refs ?g' (Some k) = 0"
    using refs_exist [OF inv_remove_source [OF assms(1)], of "Some k" k] by auto
  then show ?thesis
    using assms(2) gone
    by (auto simp: sbs_scene_graph_remove_source_def graph_bump_version_def option.map_comp comp_def strip_source_def)
qed

theorem removed_source_is_gone_witness:
  "fst (sbs_scene_graph_remove_source (Some ''cam'') stage) = SBS_OK
    \<and> (let g' = snd (sbs_scene_graph_remove_source (Some ''cam'') stage) in
        \<not> ht_contains (gr_sources g') ''cam'' \<and> sbs_scene_graph_count_source_refs g' (Some ''cam'') = 0
        \<and> (\<forall>c. map_option sc_items (ht_lookup (gr_scenes g') c)
              = map_option (\<lambda>sc. filter (\<lambda>it. it_source_id it \<noteq> ''cam'') (sc_items sc)) (ht_lookup (gr_scenes stage) c)))"
  by (rule removed_source_is_gone [OF stage_inv]) code_simp

text \<open>
  \<open>sbs_scene_graph_add_item\<close> does not keep item identifiers distinct: two requests without
  an identifier both succeed and give the scene two items with the identifier \<open>item-auto\<close>, and
  removing that identifier then removes only one of them.
\<close>

theorem automatic_item_ids_collide:
  "let add = Add_item (Some ''main'') (show_camera None 20);
       r1 = apply_op (\<lambda>_. Fin 0) add stage;
       r2 = apply_op (\<lambda>_. Fin 0) add (snd r1);
       r3 = sbs_scene_graph_remove_item (Some ''main'') (Some ''item-auto'') (snd r2)
   in fst r1 = SBS_OK \<and> fst r2 = SBS_OK
     \<and> item_ids ''main'' (snd r2) = [''a'', ''b'', ''item-auto'', ''item-auto'']
     \<and> fst r3 = SBS_OK \<and> item_ids ''main'' (snd r3) = [''a'', ''b'', ''item-auto'']"
  by code_simp

end
