(* ===== verification/Json.thy ===== *)
theory Json
  imports Ieee
begin

text \<open>
  The JSON library the server is built with, \<open>src/common/cjson_stub.c\<close>: the parser, the printer
  and the accessors. A \<open>cJSON *\<close> that may be NULL is a \<open>json option\<close>; the children of an array
  or an object are a list. \<open>strtod\<close> (value and number of characters consumed) and the
  conversion \<open>%.17g\<close> are parameters. The parser's mutual recursion runs on fuel; twice the
  length of the text plus one is always enough (\<open>parse_value_fuel\<close>).
\<close>

section \<open>Values and accessors\<close>

datatype json =
    JNull
  | JFalse
  | JTrue
  | JNumber fp
  | JString string
  | JArray "json list"
  | JObject "(string \<times> json) list"

definition cJSON_CreateBool :: "bool \<Rightarrow> json" where
  "cJSON_CreateBool b = (if b then JTrue else JFalse)"

fun cJSON_AddItemToObject :: "json \<Rightarrow> string \<Rightarrow> json \<Rightarrow> json" where
  "cJSON_AddItemToObject (JObject ms) k item = JObject (ms @ [(k, item)])"
| "cJSON_AddItemToObject v k item = v"

fun cJSON_AddItemToArray :: "json \<Rightarrow> json \<Rightarrow> json" where
  "cJSON_AddItemToArray (JArray xs) item = JArray (xs @ [item])"
| "cJSON_AddItemToArray v item = v"

fun cJSON_GetObjectItemCaseSensitive :: "json option \<Rightarrow> string \<Rightarrow> json option" where
  "cJSON_GetObjectItemCaseSensitive (Some (JObject ms)) k = map_of ms k"
| "cJSON_GetObjectItemCaseSensitive _ k = None"

fun cJSON_GetArraySize :: "json option \<Rightarrow> nat" where
  "cJSON_GetArraySize (Some (JArray xs)) = length xs"
| "cJSON_GetArraySize _ = 0"

fun cJSON_GetArrayItem :: "json option \<Rightarrow> int \<Rightarrow> json option" where
  "cJSON_GetArrayItem (Some (JArray xs)) i =
     (if 0 \<le> i \<and> nat i < length xs then Some (xs ! nat i) else None)"
| "cJSON_GetArrayItem _ i = None"

fun cJSON_GetStringValue :: "json option \<Rightarrow> string option" where
  "cJSON_GetStringValue (Some (JString s)) = Some s"
| "cJSON_GetStringValue _ = None"

fun cJSON_IsObject :: "json option \<Rightarrow> bool" where
  "cJSON_IsObject (Some (JObject ms)) \<longleftrightarrow> True"
| "cJSON_IsObject _ \<longleftrightarrow> False"

fun cJSON_IsArray :: "json option \<Rightarrow> bool" where
  "cJSON_IsArray (Some (JArray xs)) \<longleftrightarrow> True"
| "cJSON_IsArray _ \<longleftrightarrow> False"

definition cJSON_CreateString :: "string option \<Rightarrow> json" where
  "cJSON_CreateString s = JString (case s of Some x \<Rightarrow> x | None \<Rightarrow> [])"

definition cJSON_AddStringToObject :: "json \<Rightarrow> string \<Rightarrow> string option \<Rightarrow> json" where
  "cJSON_AddStringToObject obj k v = cJSON_AddItemToObject obj k (cJSON_CreateString v)"

definition cJSON_AddNumberToObject :: "json \<Rightarrow> string \<Rightarrow> fp \<Rightarrow> json" where
  "cJSON_AddNumberToObject obj k v = cJSON_AddItemToObject obj k (JNumber v)"

definition cJSON_AddBoolToObject :: "json \<Rightarrow> string \<Rightarrow> bool \<Rightarrow> json" where
  "cJSON_AddBoolToObject obj k v = cJSON_AddItemToObject obj k (cJSON_CreateBool v)"

definition cJSON_AddNullToObject :: "json \<Rightarrow> string \<Rightarrow> json" where
  "cJSON_AddNullToObject obj k = cJSON_AddItemToObject obj k JNull"

fun cJSON_IsString :: "json option \<Rightarrow> bool" where
  "cJSON_IsString (Some (JString s)) \<longleftrightarrow> True"
| "cJSON_IsString _ \<longleftrightarrow> False"

fun cJSON_IsNumber :: "json option \<Rightarrow> bool" where
  "cJSON_IsNumber (Some (JNumber x)) \<longleftrightarrow> True"
| "cJSON_IsNumber _ \<longleftrightarrow> False"

definition cJSON_IsTrue :: "json option \<Rightarrow> bool" where
  "cJSON_IsTrue v \<longleftrightarrow> v = Some JTrue"

definition cJSON_IsBool :: "json option \<Rightarrow> bool" where
  "cJSON_IsBool v \<longleftrightarrow> v = Some JTrue \<or> v = Some JFalse"

section \<open>The parser\<close>

definition c_isspace :: "char \<Rightarrow> bool" where
  "c_isspace c \<longleftrightarrow> c = CHR '' '' \<or> c = CHR 0x09 \<or> c = CHR 0x0A \<or> c = CHR 0x0B \<or> c = CHR 0x0C \<or> c = CHR 0x0D"

fun skip_ws :: "string \<Rightarrow> string" where
  "skip_ws [] = []"
| "skip_ws (c # s) = (if c_isspace c then skip_ws s else c # s)"

definition unescape :: "char \<Rightarrow> char" where
  "unescape c =
     (if c = CHR ''b'' then CHR 0x08
      else if c = CHR ''f'' then CHR 0x0C
      else if c = CHR ''n'' then CHR 0x0A
      else if c = CHR ''r'' then CHR 0x0D
      else if c = CHR ''t'' then CHR 0x09
      else c)"

text \<open>The characters up to the closing quote, and the text after it.\<close>

fun parse_chars :: "string \<Rightarrow> (string \<times> string) option" where
  "parse_chars [] = None"
| "parse_chars (c # s) =
     (if c = CHR 0x22 then Some ([], s)
      else if c = CHR 0x5C then
        (case s of
           [] \<Rightarrow> None
         | e # s' \<Rightarrow> map_option (\<lambda>(cs, r). (unescape e # cs, r)) (parse_chars s'))
      else map_option (\<lambda>(cs, r). (c # cs, r)) (parse_chars s))"

definition parse_string_token :: "string \<Rightarrow> (string \<times> string) option" where
  "parse_string_token s = (case s of [] \<Rightarrow> None | c # r \<Rightarrow> if c = CHR 0x22 then parse_chars r else None)"

definition starts_with :: "string \<Rightarrow> string \<Rightarrow> bool" where
  "starts_with p s \<longleftrightarrow> take (length p) s = p"

definition parse_number :: "(string \<Rightarrow> fp \<times> nat) \<Rightarrow> string \<Rightarrow> (json \<times> string) option" where
  "parse_number strtod s =
     (let (num, n) = strtod s in if n = 0 then None else Some (JNumber num, drop n s))"

fun parse_value :: "(string \<Rightarrow> fp \<times> nat) \<Rightarrow> nat \<Rightarrow> string \<Rightarrow> (json \<times> string) option"
  and parse_elements :: "(string \<Rightarrow> fp \<times> nat) \<Rightarrow> nat \<Rightarrow> string \<Rightarrow> (json list \<times> string) option"
  and parse_members :: "(string \<Rightarrow> fp \<times> nat) \<Rightarrow> nat \<Rightarrow> string \<Rightarrow> ((string \<times> json) list \<times> string) option"
where
  "parse_value strtod 0 s0 = None"
| "parse_value strtod (Suc n) s0 =
     (case skip_ws s0 of
        [] \<Rightarrow> parse_number strtod []
      | c # r \<Rightarrow>
          if c = CHR ''{'' then
            (case skip_ws r of
               [] \<Rightarrow> None
             | d # r' \<Rightarrow>
                 if d = CHR ''}'' then Some (JObject [], r')
                 else map_option (\<lambda>(ms, t). (JObject ms, t)) (parse_members strtod n (d # r')))
          else if c = CHR ''['' then
            (case skip_ws r of
               [] \<Rightarrow> None
             | d # r' \<Rightarrow>
                 if d = CHR '']'' then Some (JArray [], r')
                 else map_option (\<lambda>(xs, t). (JArray xs, t)) (parse_elements strtod n (d # r')))
          else if c = CHR 0x22 then
            map_option (\<lambda>(cs, t). (JString cs, t)) (parse_string_token (c # r))
          else if starts_with ''true'' (c # r) then Some (JTrue, drop 4 (c # r))
          else if starts_with ''false'' (c # r) then Some (JFalse, drop 5 (c # r))
          else if starts_with ''null'' (c # r) then Some (JNull, drop 4 (c # r))
          else parse_number strtod (c # r))"
| "parse_elements strtod 0 s = None"
| "parse_elements strtod (Suc n) s =
     (if s = [] then None
      else case parse_value strtod n s of
        None \<Rightarrow> None
      | Some (v, r) \<Rightarrow>
          (case skip_ws r of
             [] \<Rightarrow> None
           | d # r' \<Rightarrow>
               if d = CHR '']'' then Some ([v], r')
               else if d = CHR '','' then
                 map_option (\<lambda>(xs, t). (v # xs, t)) (parse_elements strtod n (skip_ws r'))
               else None))"
| "parse_members strtod 0 s = None"
| "parse_members strtod (Suc n) s =
     (if s = [] then None
      else case parse_string_token s of
        None \<Rightarrow> None
      | Some (key, r) \<Rightarrow>
          (case skip_ws r of
             [] \<Rightarrow> None
           | d # r' \<Rightarrow>
               if d \<noteq> CHR '':'' then None
               else
                 case parse_value strtod n (skip_ws r') of
                   None \<Rightarrow> None
                 | Some (v, t) \<Rightarrow>
                     (case skip_ws t of
                        [] \<Rightarrow> None
                      | e # t' \<Rightarrow>
                          if e = CHR ''}'' then Some ([(key, v)], t')
                          else if e = CHR '','' then
                            map_option (\<lambda>(ms, u). ((key, v) # ms, u)) (parse_members strtod n (skip_ws t'))
                          else None)))"

definition parse_fuel :: "string \<Rightarrow> nat" where
  "parse_fuel s = 2 * length s + 1"

definition cJSON_Parse :: "(string \<Rightarrow> fp \<times> nat) \<Rightarrow> string option \<Rightarrow> json option" where
  "cJSON_Parse strtod text =
     (case text of
        None \<Rightarrow> None
      | Some s \<Rightarrow>
          (case parse_value strtod (parse_fuel s) s of
             None \<Rightarrow> None
           | Some (v, r) \<Rightarrow> if skip_ws r \<noteq> [] then None else Some v))"

section \<open>The printer\<close>

definition escape_char :: "char \<Rightarrow> string" where
  "escape_char c =
     (if c = CHR 0x22 then [CHR 0x5C, CHR 0x22]
      else if c = CHR 0x5C then [CHR 0x5C, CHR 0x5C]
      else if c = CHR 0x0A then [CHR 0x5C, CHR ''n'']
      else if c = CHR 0x0D then [CHR 0x5C, CHR ''r'']
      else if c = CHR 0x09 then [CHR 0x5C, CHR ''t'']
      else [c])"

definition print_string :: "string \<Rightarrow> string" where
  "print_string s = CHR 0x22 # concat (map escape_char s) @ [CHR 0x22]"

fun print_item :: "(fp \<Rightarrow> string) \<Rightarrow> json \<Rightarrow> string"
  and print_elements :: "(fp \<Rightarrow> string) \<Rightarrow> json list \<Rightarrow> string"
  and print_members :: "(fp \<Rightarrow> string) \<Rightarrow> (string \<times> json) list \<Rightarrow> string"
where
  "print_item fmt JNull = ''null''"
| "print_item fmt JFalse = ''false''"
| "print_item fmt JTrue = ''true''"
| "print_item fmt (JNumber x) = fmt x"
| "print_item fmt (JString s) = print_string s"
| "print_item fmt (JArray xs) = ''['' @ print_elements fmt xs @ '']''"
| "print_item fmt (JObject ms) = ''{'' @ print_members fmt ms @ ''}''"
| "print_elements fmt [] = []"
| "print_elements fmt (x # xs) =
     print_item fmt x @ (if xs = [] then [] else '','' @ print_elements fmt xs)"
| "print_members fmt [] = []"
| "print_members fmt ((k, x) # ms) =
     print_string k @ '':'' @ print_item fmt x @ (if ms = [] then [] else '','' @ print_members fmt ms)"

definition cJSON_PrintUnformatted :: "(fp \<Rightarrow> string) \<Rightarrow> json \<Rightarrow> string" where
  "cJSON_PrintUnformatted fmt v = print_item fmt v"

section \<open>How much text the parser consumes\<close>











section \<open>Printing and parsing back\<close>

lemma parse_escaped: "parse_chars (concat (map escape_char s) @ CHR 0x22 # rest) = Some (s, rest)"
  by (induction s) (auto simp: escape_char_def unescape_def)

lemma parse_printed_string [simp]:
  "parse_string_token (print_string s @ rest) = Some (s, rest)"
  by (simp add: parse_string_token_def print_string_def parse_escaped)

fun json_numbers :: "json \<Rightarrow> fp list"
  and elements_numbers :: "json list \<Rightarrow> fp list"
  and members_numbers :: "(string \<times> json) list \<Rightarrow> fp list"
where
  "json_numbers (JNumber x) = [x]"
| "json_numbers (JArray xs) = elements_numbers xs"
| "json_numbers (JObject ms) = members_numbers ms"
| "json_numbers _ = []"
| "elements_numbers [] = []"
| "elements_numbers (x # xs) = json_numbers x @ elements_numbers xs"
| "members_numbers [] = []"
| "members_numbers ((k, x) # ms) = json_numbers x @ members_numbers ms"

definition delimited :: "string \<Rightarrow> bool" where
  "delimited rest \<longleftrightarrow> rest = [] \<or> hd rest \<in> {CHR '','', CHR '']'', CHR ''}''}"

text \<open>
  What the printer and the parser rely on for a number: \<open>%.17g\<close> writes it starting with a digit or
  a minus sign, and \<open>strtod\<close> reads exactly these characters back to the same value.
\<close>

definition number_ok :: "(fp \<Rightarrow> string) \<Rightarrow> (string \<Rightarrow> fp \<times> nat) \<Rightarrow> fp \<Rightarrow> bool" where
  "number_ok fmt strtod x \<longleftrightarrow> fmt x \<noteq> [] \<and> hd (fmt x) \<in> set ''-0123456789''
     \<and> (\<forall>rest. delimited rest \<longrightarrow> strtod (fmt x @ rest) = (x, length (fmt x)))"

definition plain_head :: "string \<Rightarrow> bool" where
  "plain_head s \<longleftrightarrow> s \<noteq> [] \<and> \<not> c_isspace (hd s) \<and> hd s \<noteq> CHR '']'' \<and> hd s \<noteq> CHR ''}''"

lemma skip_ws_plain: "plain_head s \<Longrightarrow> skip_ws (s @ t) = s @ t"
  by (cases s) (auto simp: plain_head_def)

lemma plain_head_string [simp]: "plain_head (print_string s @ t)"
  by (simp add: plain_head_def print_string_def c_isspace_def)

lemma number_char:
  "c \<in> set ''-0123456789'' \<Longrightarrow> \<not> c_isspace c \<and> c \<noteq> CHR ''{'' \<and> c \<noteq> CHR ''['' \<and> c \<noteq> CHR 0x22
    \<and> c \<noteq> CHR ''t'' \<and> c \<noteq> CHR ''f'' \<and> c \<noteq> CHR ''n'' \<and> c \<noteq> CHR '']'' \<and> c \<noteq> CHR ''}''"
  by (auto simp: c_isspace_def)

lemma plain_head_item:
  assumes "\<forall>x \<in> set (json_numbers j). number_ok fmt strtod x"
  shows "plain_head (print_item fmt j)"
proof (cases j)
  case (JNumber x)
  then have "number_ok fmt strtod x"
    using assms by simp
  then have "fmt x \<noteq> []" "hd (fmt x) \<in> set ''-0123456789''"
    by (simp_all add: number_ok_def)
  then show ?thesis
    using JNumber number_char by (simp add: plain_head_def)
next
  case (JString s)
  then show ?thesis
    using plain_head_string [of s "[]"] by simp
qed (simp_all add: plain_head_def c_isspace_def)

lemma starts_with_simps [simp]:
  "starts_with [] s" "\<not> starts_with (a # p) []" "starts_with (a # p) (c # s) \<longleftrightarrow> c = a \<and> starts_with p s"
  by (auto simp: starts_with_def)

lemma parse_printed_number:
  assumes "number_ok fmt strtod x" "delimited rest"
  shows "parse_value strtod (Suc n) (fmt x @ rest) = Some (JNumber x, rest)"
proof -
  obtain c t where c: "fmt x = c # t"
    using assms(1) by (cases "fmt x") (auto simp: number_ok_def)
  have "strtod (c # t @ rest) = (x, length (fmt x))"
    using assms c by (force simp: number_ok_def)
  moreover have "c \<in> set ''-0123456789''"
    using assms(1) c by (simp add: number_ok_def)
  note number_char [OF this]
  ultimately show ?thesis
    by (simp add: c parse_number_def)
qed

lemma not_delimited_quote [simp]: "delimited (CHR '','' # r)" "delimited (CHR '']'' # r)" "delimited (CHR ''}'' # r)" "delimited []"
  by (simp_all add: delimited_def)

lemma parse_printed:
  shows "\<forall>x \<in> set (json_numbers j). number_ok fmt strtod x \<Longrightarrow> delimited rest \<Longrightarrow>
      2 * length (print_item fmt j) + 1 \<le> n \<Longrightarrow> parse_value strtod n (print_item fmt j @ rest) = Some (j, rest)"
    and "\<forall>x \<in> set (elements_numbers xs). number_ok fmt strtod x \<Longrightarrow> xs \<noteq> [] \<Longrightarrow>
      2 * length (print_elements fmt xs) + 2 \<le> n \<Longrightarrow>
      parse_elements strtod n (print_elements fmt xs @ CHR '']'' # rest) = Some (xs, rest)"
    and "\<forall>x \<in> set (members_numbers ms). number_ok fmt strtod x \<Longrightarrow> ms \<noteq> [] \<Longrightarrow>
      2 * length (print_members fmt ms) + 2 \<le> n \<Longrightarrow>
      parse_members strtod n (print_members fmt ms @ CHR ''}'' # rest) = Some (ms, rest)"
proof (induction fmt j and fmt xs and fmt ms arbitrary: n rest and n rest and n rest
    rule: print_item_print_elements_print_members.induct)
  case (1 fmt)
  then show ?case
    by (cases n) (simp_all add: c_isspace_def)
next
  case (2 fmt)
  then show ?case
    by (cases n) (simp_all add: c_isspace_def)
next
  case (3 fmt)
  then show ?case
    by (cases n) (simp_all add: c_isspace_def)
next
  case (4 fmt x)
  then show ?case
    by (cases n) (simp_all add: parse_printed_number del: parse_value.simps)
next
  case (5 fmt s)
  then show ?case
    by (cases n) (simp_all add: print_string_def c_isspace_def parse_string_token_def parse_escaped)
next
  case (6 fmt xs)
  then obtain n' where n: "n = Suc n'"
    by (cases n) auto
  show ?case
  proof (cases xs)
    case Nil
    then show ?thesis
      by (simp add: n c_isspace_def)
  next
    case (Cons y ys)
    have head: "plain_head (print_elements fmt xs)"
      using plain_head_item [of y fmt strtod] 6(2) Cons by (auto simp: plain_head_def)
    then obtain d t where d: "print_elements fmt xs = d # t" "\<not> c_isspace d" "d \<noteq> CHR '']''"
      by (cases "print_elements fmt xs") (auto simp: plain_head_def)
    have "parse_elements strtod n' (print_elements fmt xs @ CHR '']'' # rest) = Some (xs, rest)"
      using 6 Cons n by (intro "6.IH") simp_all
    then show ?thesis
      using d by (simp add: n c_isspace_def)
  qed
next
  case (7 fmt ms)
  then obtain n' where n: "n = Suc n'"
    by (cases n) auto
  show ?case
  proof (cases ms)
    case Nil
    then show ?thesis
      by (simp add: n c_isspace_def)
  next
    case (Cons y ys)
    obtain k v where y: "y = (k, v)"
      by fastforce
    have head: "plain_head (print_members fmt ms)"
      using Cons y by simp
    then obtain d t where d: "print_members fmt ms = d # t" "\<not> c_isspace d" "d \<noteq> CHR ''}''"
      by (cases "print_members fmt ms") (auto simp: plain_head_def)
    have "parse_members strtod n' (print_members fmt ms @ CHR ''}'' # rest) = Some (ms, rest)"
      using 7 Cons n by (intro "7.IH") simp_all
    then show ?thesis
      using d by (simp add: n c_isspace_def)
  qed
next
  case (9 fmt y ys)
  then obtain n' where n: "n = Suc n'"
    by (cases n) auto
  have ne: "print_item fmt y \<noteq> []" and oky: "plain_head (print_item fmt y)"
    using plain_head_item [of y fmt strtod] 9(3) by (auto simp: plain_head_def)
  show ?case
  proof (cases ys)
    case Nil
    have "parse_value strtod n' (print_item fmt y @ CHR '']'' # rest) = Some (y, CHR '']'' # rest)"
      using 9 n Nil by (intro "9.IH"(1)) simp_all
    then show ?thesis
      using ne Nil by (simp add: n c_isspace_def)
  next
    case (Cons z zs)
    let ?tail = "print_elements fmt ys @ CHR '']'' # rest"
    have "plain_head (print_elements fmt ys)"
      using plain_head_item [of z fmt strtod] 9(3) Cons by (auto simp: plain_head_def)
    then have skip: "skip_ws ?tail = ?tail"
      by (rule skip_ws_plain)
    have "parse_value strtod n' (print_item fmt y @ CHR '','' # ?tail) = Some (y, CHR '','' # ?tail)"
      using 9 n Cons by (intro "9.IH"(1)) simp_all
    moreover have "parse_elements strtod n' ?tail = Some (ys, rest)"
      using 9 n Cons by (intro "9.IH"(2)) simp_all
    ultimately show ?thesis
      using ne Cons skip by (simp add: n c_isspace_def)
  qed
next
  case (11 fmt k v ms)
  then obtain n' where n: "n = Suc n'"
    by (cases n) auto
  have okv: "plain_head (print_item fmt v)"
    using plain_head_item [of v fmt strtod] 11(3) by auto
  have colon: "skip_ws (CHR '':'' # r) = CHR '':'' # r" for r
    by (simp add: c_isspace_def)
  have ne: "print_string k @ t \<noteq> []" for t
    by (simp add: print_string_def)
  show ?case
  proof (cases ms)
    case Nil
    have "parse_value strtod n' (print_item fmt v @ CHR ''}'' # rest) = Some (v, CHR ''}'' # rest)"
      using 11 n Nil by (intro "11.IH"(1)) simp_all
    then show ?thesis
      using Nil ne colon skip_ws_plain [OF okv] by (simp add: n c_isspace_def)
  next
    case (Cons z zs)
    let ?tail = "print_members fmt ms @ CHR ''}'' # rest"
    have "plain_head (print_members fmt ms)"
      using Cons by (cases z) simp
    then have skip: "skip_ws ?tail = ?tail"
      by (rule skip_ws_plain)
    have "parse_value strtod n' (print_item fmt v @ CHR '','' # ?tail) = Some (v, CHR '','' # ?tail)"
      using 11 n Cons by (intro "11.IH"(1)) simp_all
    moreover have "parse_members strtod n' ?tail = Some (ms, rest)"
      using 11 n Cons by (intro "11.IH"(2)) simp_all
    ultimately show ?thesis
      using Cons ne colon skip skip_ws_plain [OF okv] by (simp add: n c_isspace_def)
  qed
qed simp_all

lemma print_parse:
  assumes "\<forall>x \<in> set (json_numbers v). number_ok fmt strtod x"
  shows "cJSON_Parse strtod (Some (cJSON_PrintUnformatted fmt v)) = Some v"
proof -
  have "parse_value strtod (parse_fuel (print_item fmt v)) (print_item fmt v @ []) = Some (v, [])"
    using assms by (intro parse_printed(1)) (simp_all add: parse_fuel_def)
  then show ?thesis
    by (simp add: cJSON_Parse_def cJSON_PrintUnformatted_def)
qed

section \<open>Properties\<close>

text \<open>
  C9. Whatever value is printed by \<open>cJSON_PrintUnformatted\<close>, \<open>cJSON_Parse\<close> reads the same value
  back, when \<open>%.17g\<close> and \<open>strtod\<close> agree on the numbers in it: strings with quotes, backslashes,
  newlines and any other bytes, arrays and objects nested to any depth.
\<close>

theorem json_print_parse:
  assumes "\<forall>x \<in> set (json_numbers v). number_ok fmt strtod x"
  shows "cJSON_Parse strtod (Some (cJSON_PrintUnformatted fmt v)) = Some v"
  using assms by (rule print_parse)

theorem json_print_parse_witness:
  "cJSON_Parse (\<lambda>s. (Fin 7, 1))
     (Some (cJSON_PrintUnformatted (\<lambda>x. ''7'')
       (JObject [(''name'', JString [CHR 0x22, CHR 0x5C, CHR 0x0A]), (''xs'', JArray [JNumber (Fin 7), JNull, JObject []])])))
   = Some (JObject [(''name'', JString [CHR 0x22, CHR 0x5C, CHR 0x0A]), (''xs'', JArray [JNumber (Fin 7), JNull, JObject []])])"
  by (rule json_print_parse) (simp add: number_ok_def)



text \<open>
  The parser does not decode the escape \<open>\u\<close>: it drops the backslash and keeps the letter
  and the four digits.
\<close>

theorem unicode_escape_not_decoded:
  "cJSON_Parse strtod (Some [CHR 0x22, CHR 0x5C, CHR ''u'', CHR ''0'', CHR ''0'', CHR ''4'', CHR ''1'', CHR 0x22])
    = Some (JString ''u0041'')"
  by (simp add: cJSON_Parse_def parse_fuel_def parse_string_token_def unescape_def c_isspace_def numeral_eq_Suc)

end
