(* ===== verification/Auth_Manager.thy ===== *)
theory Auth_Manager
  imports Json
begin

text \<open>
  Passwords, API keys and sessions, \<open>src/server/api/auth_manager.c\<close>. What comes from outside is
  the record \<open>auth_env\<close>: the random bytes, base64, SHA-256, the clock and the number conversions
  of the JSON library. The state holds the configuration in memory, the sessions, the contents of
  \<open>auth.json\<close> (\<open>None\<close>: no such file) and the number of random tokens drawn so far. Whether a
  write of the file succeeds is a parameter of the operations that write it. A result \<open>None\<close> of
  an operation is a crash: \<open>hash_secret\<close> called with a NULL salt.
\<close>

section \<open>State\<close>

record auth_env =
  ae_urandom :: "nat \<Rightarrow> nat \<Rightarrow> u8 list"
  ae_nonzero :: "nat \<Rightarrow> nat \<Rightarrow> u8"
  ae_base64 :: "u8 list \<Rightarrow> string"
  ae_sha256 :: "string \<Rightarrow> string"
  ae_now :: "nat \<Rightarrow> string"
  ae_fmt :: "fp \<Rightarrow> string"
  ae_strtod :: "string \<Rightarrow> fp \<times> nat"

record api_key_record =
  ak_id :: string
  ak_name :: string
  ak_salt :: string
  ak_hash :: string
  ak_created_at :: string

record auth_manager =
  au_mode :: "string option"
  au_username :: "string option"
  au_password_salt :: "string option"
  au_password_hash :: "string option"
  au_api_keys :: "api_key_record list"
  au_sessions :: "string list"
  au_file :: "string option"
  au_draws :: nat

section \<open>Secrets\<close>

definition token_char :: "char \<Rightarrow> char" where
  "token_char c =
     (if c = CHR ''+'' then CHR ''-'' else if c = CHR ''/'' then CHR ''_''
      else if c = CHR ''='' then CHR ''0'' else c)"

definition random_token :: "auth_env \<Rightarrow> nat \<Rightarrow> nat \<Rightarrow> string" where
  "random_token e i bytes =
     (let buf = ae_urandom e i bytes;
          buf = map (\<lambda>(j, b). if b = 0 then ae_nonzero e i j else b) (enumerate 0 buf)
      in map token_char (ae_base64 e buf))"

definition draw_token :: "auth_env \<Rightarrow> nat \<Rightarrow> auth_manager \<Rightarrow> string \<times> auth_manager" where
  "draw_token e bytes a = (random_token e (au_draws a) bytes, a\<lparr>au_draws := au_draws a + 1\<rparr>)"

definition hash_secret :: "auth_env \<Rightarrow> string option \<Rightarrow> string \<Rightarrow> string option" where
  "hash_secret e salt secret = map_option (\<lambda>s. ae_sha256 e (s @ '':'' @ secret)) salt"

definition byte_at :: "string \<Rightarrow> nat \<Rightarrow> u8" where
  "byte_at s i = (if i < length s then of_nat (of_char (s ! i)) else 0)"

definition secure_equals :: "string option \<Rightarrow> string option \<Rightarrow> bool" where
  "secure_equals a b =
     (case (a, b) of
        (Some a, Some b) \<Rightarrow>
          (let diff = fold (\<lambda>i d. d OR (byte_at a i XOR byte_at b i)) [0..<max (length a) (length b)] (0 :: u8)
           in diff = 0 \<and> length a = length b)
      | _ \<Rightarrow> False)"

section \<open>The configuration file\<close>

definition clear_config :: "auth_manager \<Rightarrow> auth_manager" where
  "clear_config a = a\<lparr>au_mode := None, au_username := None, au_password_salt := None,
     au_password_hash := None, au_api_keys := []\<rparr>"

definition clear_login_config :: "auth_manager \<Rightarrow> auth_manager" where
  "clear_login_config a = a\<lparr>au_mode := None, au_username := None, au_password_salt := None,
     au_password_hash := None\<rparr>"

definition opt_member :: "string \<Rightarrow> string option \<Rightarrow> (string \<times> json) list" where
  "opt_member k v = (case v of None \<Rightarrow> [] | Some s \<Rightarrow> [(k, JString s)])"

definition api_key_json :: "api_key_record \<Rightarrow> json" where
  "api_key_json k = JObject [(''id'', JString (ak_id k)), (''name'', JString (ak_name k)),
     (''salt'', JString (ak_salt k)), (''hash'', JString (ak_hash k)),
     (''created_at'', JString (ak_created_at k))]"

definition config_json :: "auth_manager \<Rightarrow> json" where
  "config_json a = JObject
     ([(''schema_version'', JNumber (Fin 1)),
       (''mode'', JString (case au_mode a of Some m \<Rightarrow> m | None \<Rightarrow> ''password''))]
      @ opt_member ''username'' (au_username a)
      @ opt_member ''password_salt'' (au_password_salt a)
      @ opt_member ''password_hash'' (au_password_hash a)
      @ [(''api_keys'', JArray (map api_key_json (au_api_keys a)))])"

definition save_config :: "auth_env \<Rightarrow> bool \<Rightarrow> auth_manager \<Rightarrow> sbs_result \<times> auth_manager" where
  "save_config e wok a =
     (if wok then (SBS_OK, a\<lparr>au_file := Some (cJSON_PrintUnformatted (ae_fmt e) (config_json a))\<rparr>)
      else (SBS_ERR_IO, a))"

definition string_member :: "json \<Rightarrow> string \<Rightarrow> string option" where
  "string_member obj k = cJSON_GetStringValue (cJSON_GetObjectItemCaseSensitive (Some obj) k)"

definition load_api_key :: "json \<Rightarrow> api_key_record option" where
  "load_api_key item =
     (case (string_member item ''id'', string_member item ''salt'', string_member item ''hash'') of
        (Some i, Some s, Some h) \<Rightarrow>
          Some \<lparr>ak_id = i, ak_name = (case string_member item ''name'' of Some n \<Rightarrow> n | None \<Rightarrow> ''API Key''),
                ak_salt = s, ak_hash = h,
                ak_created_at = (case string_member item ''created_at'' of Some c \<Rightarrow> c | None \<Rightarrow> [])\<rparr>
      | _ \<Rightarrow> None)"

fun json_items :: "json option \<Rightarrow> json list" where
  "json_items (Some (JArray xs)) = xs"
| "json_items _ = []"

definition load_config :: "auth_env \<Rightarrow> auth_manager \<Rightarrow> auth_manager" where
  "load_config e a =
     (let a = clear_config a in
      case au_file a of
        None \<Rightarrow> a
      | Some contents \<Rightarrow>
          (case cJSON_Parse (ae_strtod e) (Some contents) of
             Some (JObject ms) \<Rightarrow>
               (let root = JObject ms in
                a\<lparr>au_mode := Some (case string_member root ''mode'' of Some m \<Rightarrow> m | None \<Rightarrow> ''password''),
                  au_username := string_member root ''username'',
                  au_password_salt := string_member root ''password_salt'',
                  au_password_hash := string_member root ''password_hash'',
                  au_api_keys := List.map_filter load_api_key
                    (json_items (cJSON_GetObjectItemCaseSensitive (Some root) ''api_keys''))\<rparr>)
           | _ \<Rightarrow> a))"

definition sbs_auth_manager_new :: "auth_env \<Rightarrow> string option \<Rightarrow> nat \<Rightarrow> auth_manager" where
  "sbs_auth_manager_new e file draws =
     load_config e \<lparr>au_mode = None, au_username = None, au_password_salt = None, au_password_hash = None,
       au_api_keys = [], au_sessions = [], au_file = file, au_draws = draws\<rparr>"

section \<open>Operations\<close>

definition sbs_auth_manager_passwordless :: "auth_manager \<Rightarrow> bool" where
  "sbs_auth_manager_passwordless a \<longleftrightarrow> au_mode a = Some ''passwordless''"

definition sbs_auth_manager_setup_required :: "auth_manager \<Rightarrow> bool" where
  "sbs_auth_manager_setup_required a \<longleftrightarrow>
     (if sbs_auth_manager_passwordless a then False
      else au_username a = None \<or> au_password_hash a = None \<or> au_file a = None)"

definition sbs_auth_manager_status_json :: "auth_manager \<Rightarrow> json" where
  "sbs_auth_manager_status_json a = JObject
     ([(''passwordless'', cJSON_CreateBool (sbs_auth_manager_passwordless a)),
       (''setup_required'', cJSON_CreateBool (sbs_auth_manager_setup_required a)),
       (''auth_required'', cJSON_CreateBool (\<not> sbs_auth_manager_passwordless a))]
      @ opt_member ''username'' (au_username a))"

type_synonym auth_reply = "sbs_result \<times> string option"

definition open_session :: "auth_env \<Rightarrow> auth_manager \<Rightarrow> auth_reply \<times> auth_manager" where
  "open_session e a =
     (let (token, a) = draw_token e 32 a
      in ((SBS_OK, Some token), a\<lparr>au_sessions := List.insert token (au_sessions a)\<rparr>))"

definition sbs_auth_manager_login_password ::
  "auth_env \<Rightarrow> string option \<Rightarrow> string option \<Rightarrow> auth_manager \<Rightarrow> (auth_reply \<times> auth_manager) option" where
  "sbs_auth_manager_login_password e username password a =
     (if sbs_auth_manager_setup_required a \<or> username = None \<or> password = None \<or> username \<noteq> au_username a
      then Some ((SBS_ERR_INVAL, None), a)
      else case hash_secret e (au_password_salt a) (the password) of
        None \<Rightarrow> None
      | Some h \<Rightarrow>
          if \<not> secure_equals (Some h) (au_password_hash a) then Some ((SBS_ERR_INVAL, None), a)
          else Some (open_session e a))"

definition set_password :: "auth_env \<Rightarrow> string \<Rightarrow> string \<Rightarrow> auth_manager \<Rightarrow> auth_manager" where
  "set_password e username password a =
     (let (salt, a) = draw_token e 18 a
      in a\<lparr>au_mode := Some ''password'', au_username := Some username, au_password_salt := Some salt,
           au_password_hash := hash_secret e (Some salt) password\<rparr>)"

definition sbs_auth_manager_setup ::
  "auth_env \<Rightarrow> bool \<Rightarrow> string option \<Rightarrow> string option \<Rightarrow> auth_manager \<Rightarrow> (auth_reply \<times> auth_manager) option" where
  "sbs_auth_manager_setup e wok username password a =
     (if username = None \<or> username = Some [] \<or> password = None \<or> password = Some []
      then Some ((SBS_ERR_INVAL, None), a)
      else if \<not> sbs_auth_manager_setup_required a then Some ((SBS_ERR_INVAL, None), a)
      else
        let a = set_password e (the username) (the password) (clear_config a);
            (rc, a) = save_config e wok a
        in if rc \<noteq> SBS_OK then Some ((SBS_ERR_IO, None), a)
           else sbs_auth_manager_login_password e username password a)"

definition sbs_auth_manager_validate_session :: "string option \<Rightarrow> auth_manager \<Rightarrow> bool" where
  "sbs_auth_manager_validate_session token a \<longleftrightarrow>
     (if sbs_auth_manager_passwordless a then True
      else case token of None \<Rightarrow> False | Some t \<Rightarrow> t \<in> set (au_sessions a))"

definition sbs_auth_manager_validate_api_key :: "auth_env \<Rightarrow> string option \<Rightarrow> auth_manager \<Rightarrow> bool" where
  "sbs_auth_manager_validate_api_key e api_key a \<longleftrightarrow>
     (if api_key = None \<or> sbs_auth_manager_setup_required a then False
      else list_ex (\<lambda>k. secure_equals (hash_secret e (Some (ak_salt k)) (the api_key)) (Some (ak_hash k)))
             (au_api_keys a))"

definition sbs_auth_manager_login_api_key ::
  "auth_env \<Rightarrow> string option \<Rightarrow> auth_manager \<Rightarrow> auth_reply \<times> auth_manager" where
  "sbs_auth_manager_login_api_key e api_key a =
     (if \<not> sbs_auth_manager_validate_api_key e api_key a then ((SBS_ERR_INVAL, None), a)
      else open_session e a)"

text \<open>The reply carries the new key; the metadata is the identifier, the name and the time.\<close>

definition new_api_key :: "auth_env \<Rightarrow> string option \<Rightarrow> auth_manager \<Rightarrow> string \<times> api_key_record \<times> auth_manager" where
  "new_api_key e name a =
     (let (secret, a) = draw_token e 32 a;
          api_key = ''sbs_'' @ secret;
          (kid, a) = draw_token e 12 a;
          (salt, a) = draw_token e 18 a
      in (api_key,
          \<lparr>ak_id = kid, ak_name = (if name = None \<or> name = Some [] then ''API Key'' else the name),
           ak_salt = salt, ak_hash = the (hash_secret e (Some salt) api_key),
           ak_created_at = ae_now e (au_draws a)\<rparr>, a))"

definition sbs_auth_manager_create_api_key ::
  "auth_env \<Rightarrow> bool \<Rightarrow> string option \<Rightarrow> auth_manager \<Rightarrow> (auth_reply \<times> json option) \<times> auth_manager" where
  "sbs_auth_manager_create_api_key e wok name a =
     (if sbs_auth_manager_setup_required a then (((SBS_ERR_INVAL, None), None), a)
      else
        let (api_key, rec, a) = new_api_key e name a;
            (rc, a) = save_config e wok (a\<lparr>au_api_keys := au_api_keys a @ [rec]\<rparr>)
        in if rc \<noteq> SBS_OK then (((SBS_ERR_IO, None), None), a)
           else (((SBS_OK, Some api_key),
                  Some (JObject [(''id'', JString (ak_id rec)), (''name'', JString (ak_name rec)),
                    (''created_at'', JString (ak_created_at rec))])), a))"

definition sbs_auth_manager_list_api_keys :: "auth_manager \<Rightarrow> json" where
  "sbs_auth_manager_list_api_keys a = JArray
     (map (\<lambda>k. JObject [(''id'', JString (ak_id k)), (''name'', JString (ak_name k)),
        (''created_at'', JString (ak_created_at k))]) (au_api_keys a))"

definition sbs_auth_manager_delete_api_key ::
  "auth_env \<Rightarrow> bool \<Rightarrow> string option \<Rightarrow> auth_manager \<Rightarrow> sbs_result \<times> auth_manager" where
  "sbs_auth_manager_delete_api_key e wok kid a =
     (if kid = None \<or> kid = Some [] then (SBS_ERR_INVAL, a)
      else if find (\<lambda>k. ak_id k = the kid) (au_api_keys a) = None then (SBS_ERR_NOT_FOUND, a)
      else save_config e wok (a\<lparr>au_api_keys := remove_first (\<lambda>k. ak_id k = the kid) (au_api_keys a)\<rparr>))"

definition sbs_auth_manager_update_credentials ::
  "auth_env \<Rightarrow> bool \<Rightarrow> string option \<Rightarrow> string option \<Rightarrow> auth_manager \<Rightarrow> (auth_reply \<times> auth_manager) option" where
  "sbs_auth_manager_update_credentials e wok username password a =
     (if username = None \<or> username = Some [] \<or> password = None \<or> password = Some []
      then Some ((SBS_ERR_INVAL, None), a)
      else
        let a = set_password e (the username) (the password) (clear_login_config a);
            (rc, a) = save_config e wok (a\<lparr>au_sessions := []\<rparr>)
        in if rc \<noteq> SBS_OK then Some ((SBS_ERR_IO, None), a)
           else sbs_auth_manager_login_password e username password a)"

definition sbs_auth_manager_set_passwordless ::
  "auth_env \<Rightarrow> bool \<Rightarrow> bool \<Rightarrow> auth_manager \<Rightarrow> sbs_result \<times> auth_manager" where
  "sbs_auth_manager_set_passwordless e wok passwordless a =
     (if passwordless then
        save_config e wok ((clear_login_config a)\<lparr>au_mode := Some ''passwordless'', au_sessions := []\<rparr>)
      else if au_username a = None \<or> au_password_hash a = None then (SBS_ERR_INVAL, a)
      else save_config e wok (a\<lparr>au_mode := Some ''password''\<rparr>))"

section \<open>Comparing secrets\<close>

lemma fold_or_zero:
  "fold (\<lambda>i d. d OR f i) xs d = (0 :: u8) \<longleftrightarrow> d = 0 \<and> (\<forall>i \<in> set xs. f i = 0)"
  by (induction xs arbitrary: d) (auto simp: or_eq_0_iff)

lemma of_nat_char_inj: "(of_nat (of_char a) :: u8) = of_nat (of_char b) \<Longrightarrow> a = b"
proof -
  assume eq: "(of_nat (of_char a) :: u8) = of_nat (of_char b)"
  have small: "(of_char c :: nat) < 2 ^ 8" for c
    using of_char_mod_256 [of c, where 'a = nat] mod_less_divisor [of 256 "of_char c :: nat"] by simp
  have "unat (of_nat (of_char c) :: u8) = of_char c" for c
    using small [of c] by (subst unsigned_of_nat) (simp add: take_bit_nat_eq_self)
  then have "(of_char a :: nat) = of_char b"
    using eq by metis
  then show "a = b"
    by simp
qed

lemma xor_zero_iff: "a XOR b = 0 \<longleftrightarrow> a = b" for a b :: u8
  by (auto simp: bit_eq_iff bit_xor_iff)

text \<open>\<open>secure_equals\<close> compares every byte and answers whether the strings are equal.\<close>

lemma secure_equals_iff: "secure_equals (Some a) (Some b) \<longleftrightarrow> a = b"
proof
  assume eq: "secure_equals (Some a) (Some b)"
  then have len: "length a = length b"
    and bytes: "\<forall>i < length a. byte_at a i XOR byte_at b i = 0"
    by (auto simp: secure_equals_def Let_def fold_or_zero)
  have "a ! i = b ! i" if "i < length a" for i
  proof -
    have "byte_at a i = byte_at b i"
      using bytes that by (simp only: xor_zero_iff)
    then show ?thesis
      using that len by (auto simp: byte_at_def dest: of_nat_char_inj)
  qed
  then show "a = b"
    using len by (intro nth_equalityI) auto
next
  assume "a = b"
  then show "secure_equals (Some a) (Some b)"
    unfolding secure_equals_def Let_def prod.case option.case fold_or_zero by simp
qed

lemma secure_equals_None [simp]: "\<not> secure_equals a None"
  by (cases a) (simp_all add: secure_equals_def)

section \<open>Saving and loading\<close>

lemma members_numbers_append: "members_numbers (ms @ ns) = members_numbers ms @ members_numbers ns"
  by (induction ms) auto

lemma config_numbers: "json_numbers (config_json a) = [Fin 1]"
proof -
  have "elements_numbers (map api_key_json ks) = []" for ks
    by (induction ks) (simp_all add: api_key_json_def)
  moreover have "members_numbers (opt_member k v) = []" for k v
    by (cases v) (simp_all add: opt_member_def)
  ultimately show ?thesis
    by (simp add: config_json_def members_numbers_append)
qed

lemma load_saved_keys: "List.map_filter load_api_key (map api_key_json ks) = ks"
proof -
  have "load_api_key (api_key_json k) = Some k" for k
    by (simp add: load_api_key_def api_key_json_def string_member_def)
  then show ?thesis
    by (induction ks) simp_all
qed

lemma load_saved:
  assumes "number_ok (ae_fmt e) (ae_strtod e) (Fin 1)"
    and "au_file a' = Some (cJSON_PrintUnformatted (ae_fmt e) (config_json a))"
  shows "load_config e a' = a'\<lparr>au_mode := Some (case au_mode a of Some m \<Rightarrow> m | None \<Rightarrow> ''password''),
    au_username := au_username a, au_password_salt := au_password_salt a,
    au_password_hash := au_password_hash a, au_api_keys := au_api_keys a\<rparr>"
proof -
  have "cJSON_Parse (ae_strtod e) (Some (cJSON_PrintUnformatted (ae_fmt e) (config_json a))) = Some (config_json a)"
    by (rule print_parse) (use assms(1) in \<open>simp add: config_numbers\<close>)
  then show ?thesis
    using assms(2) load_saved_keys
    by (cases "au_username a"; cases "au_password_salt a"; cases "au_password_hash a")
      (simp_all add: load_config_def Let_def clear_config_def config_json_def string_member_def opt_member_def)
qed

section \<open>Salts and sessions\<close>

text \<open>A user name comes with a salt, so that no login calls \<open>hash_secret\<close> with NULL.\<close>

definition salt_ok :: "auth_manager \<Rightarrow> bool" where
  "salt_ok a \<longleftrightarrow> (au_username a \<noteq> None \<longrightarrow> au_password_salt a \<noteq> None)"

datatype auth_op =
    Setup bool "string option" "string option"
  | Login "string option" "string option"
  | Login_key "string option"
  | Create_key bool "string option"
  | Delete_key bool "string option"
  | Update_credentials bool "string option" "string option"
  | Set_passwordless bool bool

text \<open>The session token a call hands out, if any, and the state it leaves.\<close>

fun apply_auth :: "auth_env \<Rightarrow> auth_op \<Rightarrow> auth_manager \<Rightarrow> (string option \<times> auth_manager) option" where
  "apply_auth e (Setup wok u p) a = map_option (\<lambda>((_, t), a). (t, a)) (sbs_auth_manager_setup e wok u p a)"
| "apply_auth e (Login u p) a = map_option (\<lambda>((_, t), a). (t, a)) (sbs_auth_manager_login_password e u p a)"
| "apply_auth e (Login_key k) a = Some (let ((_, t), a) = sbs_auth_manager_login_api_key e k a in (t, a))"
| "apply_auth e (Create_key wok n) a = Some (None, snd (sbs_auth_manager_create_api_key e wok n a))"
| "apply_auth e (Delete_key wok i) a = Some (None, snd (sbs_auth_manager_delete_api_key e wok i a))"
| "apply_auth e (Update_credentials wok u p) a =
     map_option (\<lambda>((_, t), a). (t, a)) (sbs_auth_manager_update_credentials e wok u p a)"
| "apply_auth e (Set_passwordless wok b) a = Some (None, snd (sbs_auth_manager_set_passwordless e wok b a))"

text \<open>The calls that end every open session.\<close>

fun revokes :: "auth_op \<Rightarrow> bool" where
  "revokes (Update_credentials wok u p) \<longleftrightarrow> u \<noteq> None \<and> u \<noteq> Some [] \<and> p \<noteq> None \<and> p \<noteq> Some []"
| "revokes (Set_passwordless wok b) \<longleftrightarrow> b"
| "revokes _ \<longleftrightarrow> False"

text \<open>The tokens handed out since the last call that revoked them.\<close>

fun auth_run :: "auth_env \<Rightarrow> auth_op list \<Rightarrow> string list \<times> auth_manager \<Rightarrow> (string list \<times> auth_manager) option" where
  "auth_run e [] (issued, a) = Some (issued, a)"
| "auth_run e (op # ops) (issued, a) =
     (case apply_auth e op a of
        None \<Rightarrow> None
      | Some (t, a') \<Rightarrow>
          auth_run e ops ((if revokes op then [] else issued) @ (case t of None \<Rightarrow> [] | Some x \<Rightarrow> [x]), a'))"

definition auth_step_ok :: "auth_op \<Rightarrow> auth_manager \<Rightarrow> (string option \<times> auth_manager) option \<Rightarrow> bool" where
  "auth_step_ok op a r \<longleftrightarrow> (case r of None \<Rightarrow> False | Some (t, a') \<Rightarrow> salt_ok a'
     \<and> set (au_sessions a') = (if revokes op then {} else set (au_sessions a)) \<union> set_option t)"

lemma save_config_simps [simp]:
  "au_sessions (snd (save_config e wok a)) = au_sessions a" "salt_ok (snd (save_config e wok a)) \<longleftrightarrow> salt_ok a"
  "au_api_keys (snd (save_config e wok a)) = au_api_keys a"
  by (simp_all add: save_config_def salt_ok_def)

lemma set_password_simps [simp]:
  "salt_ok (set_password e u p a)" "au_sessions (set_password e u p a) = au_sessions a"
  "au_username (set_password e u p a) = Some u" "au_mode (set_password e u p a) = Some ''password''"
  by (simp_all add: set_password_def draw_token_def salt_ok_def)

lemma open_session_step:
  "\<exists>t a'. open_session e a = ((SBS_OK, Some t), a') \<and> salt_ok a' = salt_ok a
    \<and> set (au_sessions a') = set (au_sessions a) \<union> {t}"
  by (simp add: open_session_def draw_token_def salt_ok_def)

text \<open>A login with the right salt present answers, and says yes exactly when the hashes agree.\<close>

lemma login_cases:
  assumes "salt_ok a"
  shows "sbs_auth_manager_login_password e u p a =
    (if \<not> sbs_auth_manager_setup_required a \<and> u \<noteq> None \<and> p \<noteq> None \<and> u = au_username a
        \<and> hash_secret e (au_password_salt a) (the p) = au_password_hash a \<and> au_password_hash a \<noteq> None
     then Some (open_session e a) else Some ((SBS_ERR_INVAL, None), a))"
proof (cases "u = au_username a \<and> u \<noteq> None \<and> p \<noteq> None \<and> \<not> sbs_auth_manager_setup_required a")
  case True
  then obtain s where s: "au_password_salt a = Some s"
    using assms by (auto simp: salt_ok_def)
  show ?thesis
    using True s by (cases "au_password_hash a")
      (auto simp: sbs_auth_manager_login_password_def hash_secret_def secure_equals_iff)
next
  case False
  then show ?thesis
    by (auto simp: sbs_auth_manager_login_password_def)
qed

lemma login_step:
  assumes "salt_ok a"
  shows "\<exists>rc t a'. sbs_auth_manager_login_password e u p a = Some ((rc, t), a') \<and> salt_ok a'
    \<and> set (au_sessions a') = set (au_sessions a) \<union> set_option t"
  using open_session_step [of e a] assms unfolding login_cases [OF assms] by auto

lemma set_password_login:
  "\<exists>rc t a'. sbs_auth_manager_login_password e u p (snd (save_config e w a)) = Some ((rc, t), a') \<and> salt_ok a'
    \<and> set (au_sessions a') = set (au_sessions a) \<union> set_option t" if "salt_ok a"
  using login_step [of "snd (save_config e w a)" e u p] that by simp

lemma setup_step:
  assumes "salt_ok a"
  shows "auth_step_ok (Setup w u p) a (apply_auth e (Setup w u p) a)"
proof -
  let ?a = "set_password e (the u) (the p) (clear_config a)"
  obtain rc t a' where l: "sbs_auth_manager_login_password e u p (snd (save_config e w ?a)) = Some ((rc, t), a')"
    "salt_ok a'" "set (au_sessions a') = set (au_sessions ?a) \<union> set_option t"
    using set_password_login [of ?a e u p w] by auto
  have sess: "au_sessions ?a = au_sessions a"
    by (simp add: clear_config_def)
  show ?thesis
    using assms l sess
    by (simp add: auth_step_ok_def sbs_auth_manager_setup_def Let_def case_prod_unfold)
qed

lemma update_step:
  assumes "salt_ok a"
  shows "auth_step_ok (Update_credentials w u p) a (apply_auth e (Update_credentials w u p) a)"
proof -
  let ?a = "(set_password e (the u) (the p) (clear_login_config a))\<lparr>au_sessions := []\<rparr>"
  have ok: "salt_ok ?a"
    using set_password_simps(1) [of e "the u" "the p" "clear_login_config a"] by (simp add: salt_ok_def)
  obtain rc t a' where l: "sbs_auth_manager_login_password e u p (snd (save_config e w ?a)) = Some ((rc, t), a')"
    "salt_ok a'" "set (au_sessions a') = set (au_sessions ?a) \<union> set_option t"
    using set_password_login [OF ok, of e u p w] by auto
  show ?thesis
    using assms l ok
    by (simp add: auth_step_ok_def sbs_auth_manager_update_credentials_def Let_def case_prod_unfold)
qed

lemma key_steps:
  assumes "salt_ok a"
  shows "auth_step_ok (Login_key k) a (apply_auth e (Login_key k) a)"
    and "auth_step_ok (Create_key w n) a (apply_auth e (Create_key w n) a)"
    and "auth_step_ok (Delete_key w i) a (apply_auth e (Delete_key w i) a)"
proof -
  show "auth_step_ok (Login_key k) a (apply_auth e (Login_key k) a)"
    using open_session_step [of e a] assms
    by (auto simp: auth_step_ok_def sbs_auth_manager_login_api_key_def case_prod_unfold Let_def)
  show "auth_step_ok (Create_key w n) a (apply_auth e (Create_key w n) a)"
    using assms
    by (simp add: auth_step_ok_def sbs_auth_manager_create_api_key_def new_api_key_def draw_token_def
        case_prod_unfold Let_def) (simp add: salt_ok_def)
  show "auth_step_ok (Delete_key w i) a (apply_auth e (Delete_key w i) a)"
    using assms by (simp add: auth_step_ok_def sbs_auth_manager_delete_api_key_def) (simp add: salt_ok_def)
qed

lemma passwordless_step:
  assumes "salt_ok a"
  shows "auth_step_ok (Set_passwordless w b) a (apply_auth e (Set_passwordless w b) a)"
  using assms
  by (simp add: auth_step_ok_def sbs_auth_manager_set_passwordless_def) (simp add: salt_ok_def clear_login_config_def)

lemma login_password_step:
  assumes "salt_ok a"
  shows "auth_step_ok (Login u p) a (apply_auth e (Login u p) a)"
proof -
  obtain rc t a' where "sbs_auth_manager_login_password e u p a = Some ((rc, t), a')" "salt_ok a'"
    "set (au_sessions a') = set (au_sessions a) \<union> set_option t"
    using login_step [OF assms] by blast
  then show ?thesis
    by (simp add: auth_step_ok_def)
qed

lemma apply_auth_ok: "salt_ok a \<Longrightarrow> auth_step_ok op a (apply_auth e op a)"
  by (cases op) (simp_all only: setup_step update_step key_steps passwordless_step login_password_step)

lemma auth_run_ok:
  assumes "salt_ok a" "set issued = set (au_sessions a)"
  shows "\<exists>issued' a'. auth_run e ops (issued, a) = Some (issued', a') \<and> salt_ok a'
    \<and> set issued' = set (au_sessions a')"
  using assms
proof (induction ops arbitrary: issued a)
  case Nil
  then show ?case by simp
next
  case (Cons op ops)
  obtain t a' where r: "apply_auth e op a = Some (t, a')" "salt_ok a'"
    "set (au_sessions a') = (if revokes op then {} else set (au_sessions a)) \<union> set_option t"
    using apply_auth_ok [OF Cons.prems(1), of op e] by (auto simp: auth_step_ok_def split: option.splits)
  have "set ((if revokes op then [] else issued) @ (case t of None \<Rightarrow> [] | Some x \<Rightarrow> [x])) = set (au_sessions a')"
    using r(3) Cons.prems(2) by (auto split: option.splits)
  then show ?case
    using Cons.IH [OF r(2)] r(1) by simp
qed

section \<open>Properties\<close>

lemma new_empty: "sbs_auth_manager_new e None d
  = \<lparr>au_mode = None, au_username = None, au_password_salt = None, au_password_hash = None,
      au_api_keys = [], au_sessions = [], au_file = None, au_draws = d\<rparr>"
  by (simp add: sbs_auth_manager_new_def load_config_def clear_config_def)

text \<open>
  C11. From a first start on, no sequence of calls crashes, and a session token is accepted
  exactly when the server is passwordless or the token was handed out by a successful login since
  the last change of the credentials or switch to passwordless mode.
\<close>

theorem sessions_are_issued_tokens:
  "\<exists>issued a. auth_run e ops ([], sbs_auth_manager_new e None draws) = Some (issued, a)
    \<and> (\<forall>t. sbs_auth_manager_validate_session (Some t) a \<longleftrightarrow>
          sbs_auth_manager_passwordless a \<or> t \<in> set issued)"
proof -
  have "salt_ok (sbs_auth_manager_new e None draws)" "set [] = set (au_sessions (sbs_auth_manager_new e None draws))"
    by (simp_all add: new_empty salt_ok_def)
  from auth_run_ok [OF this, of e ops] show ?thesis
    by (auto simp: sbs_auth_manager_validate_session_def)
qed

lemma update_credentials_result:
  assumes "sbs_auth_manager_update_credentials e w (Some u) (Some p) a = Some ((SBS_OK, tok), a')"
  shows "\<exists>salt t. au_username a' = Some u \<and> au_password_salt a' = Some salt
    \<and> au_password_hash a' = Some (ae_sha256 e (salt @ '':'' @ p)) \<and> au_mode a' = Some ''password''
    \<and> au_file a' \<noteq> None \<and> tok = Some t \<and> au_sessions a' = [t]"
proof -
  let ?salt = "random_token e (au_draws a) 18"
  have ne: "u \<noteq> []" "p \<noteq> []" "w"
    using assms by (auto simp: sbs_auth_manager_update_credentials_def Let_def case_prod_unfold save_config_def
        split: if_splits)
  let ?a = "(set_password e u p (clear_login_config a))\<lparr>au_sessions := []\<rparr>"
  have "salt_ok (snd (save_config e True ?a))"
    by (simp add: salt_ok_def set_password_def draw_token_def save_config_def)
  note login = login_cases [OF this, of e "Some u" "Some p"]
  have "sbs_auth_manager_login_password e (Some u) (Some p) (snd (save_config e True ?a)) = Some ((SBS_OK, tok), a')"
    using assms ne by (simp add: sbs_auth_manager_update_credentials_def Let_def case_prod_unfold save_config_def)
  then have a': "open_session e (snd (save_config e True ?a)) = ((SBS_OK, tok), a')"
    using login by (simp split: if_splits)
  show ?thesis
    using a' by (auto simp: open_session_def draw_token_def save_config_def set_password_def hash_secret_def
        clear_login_config_def)
qed

text \<open>
  C12. After the credentials were changed to \<open>(u, p)\<close>, a password login succeeds with exactly
  this user name and password (when no other password has the same salted SHA-256), and the only
  open session is the one the change answered with.
\<close>

theorem changed_credentials_admit_only_their_owner:
  assumes "sbs_auth_manager_update_credentials e w (Some u) (Some p) a = Some ((SBS_OK, tok), a')"
    and "\<And>salt x. ae_sha256 e (salt @ '':'' @ x) = ae_sha256 e (salt @ '':'' @ p) \<Longrightarrow> x = p"
  shows "((\<exists>t b. sbs_auth_manager_login_password e u' p' a' = Some ((SBS_OK, t), b)) \<longleftrightarrow> u' = Some u \<and> p' = Some p)
    \<and> (sbs_auth_manager_validate_session t a' \<longleftrightarrow> t \<noteq> None \<and> t = tok)"
proof -
  obtain salt s' where r: "au_username a' = Some u" "au_password_salt a' = Some salt"
    "au_password_hash a' = Some (ae_sha256 e (salt @ '':'' @ p))" "au_mode a' = Some ''password''"
    "au_file a' \<noteq> None" "tok = Some s'" "au_sessions a' = [s']"
    using update_credentials_result [OF assms(1)] by blast
  have ok: "salt_ok a'" and su: "\<not> sbs_auth_manager_setup_required a'" and pl: "\<not> sbs_auth_manager_passwordless a'"
    using r by (simp_all add: salt_ok_def sbs_auth_manager_setup_required_def sbs_auth_manager_passwordless_def)
  have hash: "hash_secret e (Some salt) x = Some (ae_sha256 e (salt @ '':'' @ p)) \<longleftrightarrow> x = p" for x
    using assms(2) [of salt x] by (auto simp: hash_secret_def)
  obtain s b where opn: "open_session e a' = ((SBS_OK, Some s), b)"
    using open_session_step [of e a'] by blast
  have "(\<exists>t b. sbs_auth_manager_login_password e u' p' a' = Some ((SBS_OK, t), b)) \<longleftrightarrow> u' = Some u \<and> p' = Some p"
    using su r(1,2,3) by (cases p') (auto simp: login_cases [OF ok] hash [simplified] opn)
  moreover have "sbs_auth_manager_validate_session t a' \<longleftrightarrow> t \<noteq> None \<and> t = tok"
    using pl r by (auto simp: sbs_auth_manager_validate_session_def split: option.splits)
  ultimately show ?thesis by blast
qed

definition sample_env :: auth_env where
  "sample_env = \<lparr>ae_urandom = (\<lambda>i n. replicate n (of_nat i)), ae_nonzero = (\<lambda>i j. 1),
     ae_base64 = map (\<lambda>b. char_of (97 + unat b mod 26)), ae_sha256 = (\<lambda>s. s), ae_now = (\<lambda>_. ''now''),
     ae_fmt = (\<lambda>_. ''1''), ae_strtod = (\<lambda>_. (Fin 1, 1))\<rparr>"

lemma changed_credentials_admit_only_their_owner_witness:
  "\<exists>tok a'. sbs_auth_manager_update_credentials sample_env True (Some ''admin'') (Some ''pw'')
      (sbs_auth_manager_new sample_env None 0) = Some ((SBS_OK, tok), a')
    \<and> \<not> (\<exists>t b. sbs_auth_manager_login_password sample_env (Some ''admin'') (Some ''qw'') a' = Some ((SBS_OK, t), b))"
proof -
  obtain tok a' where r: "sbs_auth_manager_update_credentials sample_env True (Some ''admin'') (Some ''pw'')
      (sbs_auth_manager_new sample_env None 0) = Some ((SBS_OK, tok), a')"
    by (simp add: sbs_auth_manager_update_credentials_def set_password_def draw_token_def save_config_def Let_def
        sbs_auth_manager_login_password_def sbs_auth_manager_setup_required_def sbs_auth_manager_passwordless_def
        secure_equals_iff hash_secret_def open_session_def)
  have inj: "x = ''pw''" if "ae_sha256 sample_env (salt @ '':'' @ x) = ae_sha256 sample_env (salt @ '':'' @ ''pw'')" for salt x
    using that by (simp add: sample_env_def)
  show ?thesis
    using r changed_credentials_admit_only_their_owner [OF r inj, where u' = "Some ''admin''" and p' = "Some ''qw''"] by auto
qed

text \<open>
  A created API key is accepted, and deleting it (its identifier being fresh) leaves exactly
  the API keys there were before, so that the key is accepted only if an older key already was it.
\<close>

theorem api_key_lifecycle:
  assumes "sbs_auth_manager_create_api_key e w name a = (((SBS_OK, Some key), meta), a')"
    and "ak_id (last (au_api_keys a')) \<notin> ak_id ` set (au_api_keys a)"
    and "ak_id (last (au_api_keys a')) \<noteq> []"
  shows "sbs_auth_manager_validate_api_key e (Some key) a'
    \<and> fst (sbs_auth_manager_delete_api_key e True (Some (ak_id (last (au_api_keys a')))) a') = SBS_OK
    \<and> au_api_keys (snd (sbs_auth_manager_delete_api_key e True (Some (ak_id (last (au_api_keys a')))) a'))
      = au_api_keys a"
proof -
  obtain key' rec b where new': "new_api_key e name a = (key', rec, b)"
    by (cases "new_api_key e name a") auto
  have new: "new_api_key e name a = (key, rec, b)" and w: "w"
    and a': "a' = b\<lparr>au_api_keys := au_api_keys b @ [rec],
        au_file := Some (cJSON_PrintUnformatted (ae_fmt e) (config_json (b\<lparr>au_api_keys := au_api_keys b @ [rec]\<rparr>)))\<rparr>"
    and req: "\<not> sbs_auth_manager_setup_required a"
    using assms(1) new' by (simp_all add: sbs_auth_manager_create_api_key_def save_config_def split: if_splits)
  have b: "au_api_keys b = au_api_keys a" "au_username b = au_username a" "au_password_hash b = au_password_hash a"
    "au_mode b = au_mode a" "hash_secret e (Some (ak_salt rec)) key = Some (ak_hash rec)"
    using new by (auto simp: new_api_key_def draw_token_def case_prod_unfold Let_def hash_secret_def)
  have valid: "sbs_auth_manager_validate_api_key e (Some key) a'"
    using req b by (auto simp: a' sbs_auth_manager_validate_api_key_def sbs_auth_manager_setup_required_def
        sbs_auth_manager_passwordless_def secure_equals_iff)
  have last: "last (au_api_keys a') = rec" "au_api_keys a' = au_api_keys a @ [rec]"
    using b by (simp_all add: a')
  have "remove_first (\<lambda>k. ak_id k = ak_id rec) (ks @ [rec]) = ks" "find (\<lambda>k. ak_id k = ak_id rec) (ks @ [rec]) = Some rec"
    if "ak_id rec \<notin> ak_id ` set ks" for ks
    using that by (induction ks) auto
  then show ?thesis
    using valid last assms(2,3) by (simp add: sbs_auth_manager_delete_api_key_def save_config_def)
qed

lemma api_key_lifecycle_witness:
  "\<exists>key a'. sbs_auth_manager_create_api_key sample_env True (Some ''obs'')
      ((sbs_auth_manager_new sample_env None 0)\<lparr>au_mode := Some ''passwordless''\<rparr>)
        = (((SBS_OK, Some key), Some (JObject [(''id'', JString ''bbbbbbbbbbbb''), (''name'', JString ''obs''),
            (''created_at'', JString ''now'')])), a')
    \<and> sbs_auth_manager_validate_api_key sample_env (Some key) a'"
proof -
  have tok: "random_token sample_env (Suc 0) 12 = ''bbbbbbbbbbbb''" "ae_now sample_env n = ''now''" for n
    by code_simp (simp add: sample_env_def)
  obtain key a' where r: "sbs_auth_manager_create_api_key sample_env True (Some ''obs'')
      ((sbs_auth_manager_new sample_env None 0)\<lparr>au_mode := Some ''passwordless''\<rparr>)
        = (((SBS_OK, Some key), Some (JObject [(''id'', JString ''bbbbbbbbbbbb''), (''name'', JString ''obs''),
            (''created_at'', JString ''now'')])), a')"
    and l: "ak_id (last (au_api_keys a')) = ''bbbbbbbbbbbb''"
    by (simp add: sbs_auth_manager_create_api_key_def new_api_key_def draw_token_def save_config_def new_empty
        sbs_auth_manager_setup_required_def sbs_auth_manager_passwordless_def Let_def tok)
  have "sbs_auth_manager_validate_api_key sample_env (Some key) a'"
    using api_key_lifecycle [OF r] l by (simp add: new_empty)
  then show ?thesis
    using r by blast
qed

text \<open>
  C13. A restart forgets the sessions and nothing else: the configuration loaded from the file the
  server wrote has the same user, password hash, mode and API keys.
\<close>

theorem restart_restores_configuration:
  assumes "number_ok (ae_fmt e) (ae_strtod e) (Fin 1)"
  shows "sbs_auth_manager_new e (au_file (snd (save_config e True a))) draws
    = a\<lparr>au_mode := Some (case au_mode a of Some m \<Rightarrow> m | None \<Rightarrow> ''password''), au_sessions := [],
        au_file := au_file (snd (save_config e True a)), au_draws := draws\<rparr>"
  unfolding sbs_auth_manager_new_def
  by (subst load_saved [OF assms, of _ a]) (simp_all add: save_config_def)

lemma restart_restores_configuration_witness:
  "sbs_auth_manager_new sample_env (au_file (snd (save_config sample_env True
      ((sbs_auth_manager_new sample_env None 0)\<lparr>au_username := Some ''admin''\<rparr>)))) 0
    = (sbs_auth_manager_new sample_env None 0)\<lparr>au_mode := Some ''password'', au_username := Some ''admin'',
        au_file := au_file (snd (save_config sample_env True
          ((sbs_auth_manager_new sample_env None 0)\<lparr>au_username := Some ''admin''\<rparr>)))\<rparr>"
  by (subst restart_restores_configuration) (simp_all add: sample_env_def number_ok_def new_empty)

text \<open>
  A configuration file that names a user but has no password salt makes the next login
  attempt with that name crash: the hash is computed with a NULL salt.
\<close>

theorem missing_salt_crashes_login:
  "let file = cJSON_PrintUnformatted (ae_fmt e) (JObject [(''username'', JString ''admin''), (''password_hash'', JString ''00'')])
   in sbs_auth_manager_login_password e (Some ''admin'') (Some p) (sbs_auth_manager_new e (Some file) draws) = None"
proof -
  let ?v = "JObject [(''username'', JString ''admin''), (''password_hash'', JString ''00'')]"
  have "cJSON_Parse (ae_strtod e) (Some (cJSON_PrintUnformatted (ae_fmt e) ?v)) = Some ?v"
    by (rule print_parse) simp
  then show ?thesis
    by (simp add: sbs_auth_manager_new_def load_config_def clear_config_def string_member_def
        sbs_auth_manager_login_password_def sbs_auth_manager_setup_required_def sbs_auth_manager_passwordless_def
        hash_secret_def)
qed

end
