(* ===== verification/Native_Canvas.thy ===== *)
theory Native_Canvas
  imports Sbs_Prelude
begin

text \<open>
  The rings of GPU frame buffers and the mailboxes that hand rendered frames to the output
  router, \<open>src/server/engine/compositor.c\<close>: the 16 entries of the program canvas, the 16 entries
  of the downscaled preview (numbers 16 to 31 for the clients), their reference counts, and one
  mailbox per kind of consumer, which keeps the newest frame only.

  Vulkan is seen through the fence of each entry: \<open>vkCreateFence\<close> makes it signalled,
  \<open>vkResetFences\<close> resets it, a successful \<open>vkQueueSubmit\<close> makes it pending, and the GPU signals a
  pending fence at any later time. Whether a Vulkan call succeeds is a parameter. The mutex of a
  mailbox and the atomic counters make each function below one step. The timing queries and the
  logging are left out. A reference count is a \<open>nat\<close>: it is shown to be the number of holders.
\<close>

section \<open>State\<close>

datatype entry_state = ENTRY_FREE | ENTRY_RENDERING | ENTRY_READY

datatype vk_fence = No_fence | Signaled | Pending | Unsignaled

datatype export_color_mode = SBS_EXPORT_COLOR_SDR | SBS_EXPORT_COLOR_HDR10

datatype mailbox_type = MAILBOX_PREVIEW | MAILBOX_OUTPUT | MAILBOX_SNAPSHOT

record nc_entry =
  ne_color_mode :: export_color_mode
  ne_fence :: vk_fence
  ne_cmd_buffer :: bool
  ne_refcount :: nat
  ne_state :: entry_state
  ne_frame_number :: u64
  ne_content_frame_number :: u64
  ne_allocated :: bool

record nc_mailbox =
  mb_has_entry :: bool
  mb_entry_idx :: nat
  mb_frame_number :: u64
  mb_entries :: "(nat \<times> u64) list"
  mb_read_idx :: nat
  mb_write_idx :: nat
  mb_count :: nat
  mb_published :: u64
  mb_dropped :: u64
  mb_consumed :: u64
  mb_late :: u64

record native_comp =
  nc_initialized :: bool
  nc_write_idx :: nat
  nc_current_entry :: nat
  nc_last_rendered :: nat
  nc_entries :: "nc_entry list"
  nc_mb_preview :: nc_mailbox
  nc_mb_output :: nc_mailbox
  nc_mb_snapshot :: nc_mailbox
  np_initialized :: bool
  np_width :: u32
  np_height :: u32
  np_interval :: u32
  np_last_submit :: u64
  np_color_mode :: export_color_mode
  np_write_idx :: nat
  np_last_rendered :: nat
  np_entries :: "nc_entry list"

definition NC_RING_SIZE :: nat where
  [simp]: "NC_RING_SIZE = 16"

definition NP_INDEX_BASE :: nat where
  [simp]: "NP_INDEX_BASE = NC_RING_SIZE"

definition UINT32_MAX :: nat where
  "UINT32_MAX = 4294967295"

definition vkGetFenceStatus_ok :: "nc_entry \<Rightarrow> bool" where
  "vkGetFenceStatus_ok e \<longleftrightarrow> ne_fence e = Signaled"

text \<open>The entry behind an index of either ring, and a write to it.\<close>

definition entry_at :: "native_comp \<Rightarrow> nat \<Rightarrow> nc_entry" where
  "entry_at s i = (if i < NC_RING_SIZE then nc_entries s ! i else np_entries s ! (i - NP_INDEX_BASE))"

definition entry_upd :: "nat \<Rightarrow> (nc_entry \<Rightarrow> nc_entry) \<Rightarrow> native_comp \<Rightarrow> native_comp" where
  "entry_upd i f s =
     (if i < NC_RING_SIZE then s\<lparr>nc_entries := (nc_entries s)[i := f (nc_entries s ! i)]\<rparr>
      else s\<lparr>np_entries := (np_entries s)[i - NP_INDEX_BASE := f (np_entries s ! (i - NP_INDEX_BASE))]\<rparr>)"

definition native_canvas_lookup_entry :: "native_comp \<Rightarrow> nat \<Rightarrow> nc_entry option" where
  "native_canvas_lookup_entry s i =
     (if i < NC_RING_SIZE then Some (entry_at s i)
      else if NP_INDEX_BASE \<le> i \<and> i < NP_INDEX_BASE + NC_RING_SIZE \<and> np_initialized s then Some (entry_at s i)
      else None)"

section \<open>Acquiring an entry to render into\<close>

definition acquirable :: "nc_entry \<Rightarrow> bool" where
  "acquirable e \<longleftrightarrow> ne_allocated e \<and> ne_refcount e = 0
     \<and> (ne_state e = ENTRY_FREE \<or> ne_state e = ENTRY_READY) \<and> vkGetFenceStatus_ok e"

definition ring_scan :: "nat \<Rightarrow> nat list" where
  "ring_scan w = map (\<lambda>n. (w + n) mod NC_RING_SIZE) [0..<NC_RING_SIZE]"

definition set_rendering :: "nc_entry \<Rightarrow> nc_entry" where
  "set_rendering e = e\<lparr>ne_state := ENTRY_RENDERING, ne_refcount := 0\<rparr>"

definition sbs_compositor_native_canvas_acquire :: "native_comp \<Rightarrow> (nat \<times> native_comp) option" where
  "sbs_compositor_native_canvas_acquire s =
     (if \<not> nc_initialized s then None
      else case find (\<lambda>i. acquirable (entry_at s i)) (ring_scan (nc_write_idx s)) of
        None \<Rightarrow> None
      | Some i \<Rightarrow> Some (i, entry_upd i set_rendering
          (s\<lparr>nc_write_idx := (i + 1) mod NC_RING_SIZE, nc_current_entry := i\<rparr>)))"

definition sbs_compositor_native_preview_acquire :: "native_comp \<Rightarrow> (nat \<times> native_comp) option" where
  "sbs_compositor_native_preview_acquire s =
     (if \<not> np_initialized s then None
      else case find (\<lambda>i. acquirable (entry_at s (NP_INDEX_BASE + i))) (ring_scan (np_write_idx s)) of
        None \<Rightarrow> None
      | Some i \<Rightarrow> Some (i, entry_upd (NP_INDEX_BASE + i) set_rendering
          (s\<lparr>np_write_idx := (i + 1) mod NC_RING_SIZE\<rparr>)))"

definition sbs_compositor_native_canvas_mark_rendering :: "nat \<Rightarrow> native_comp \<Rightarrow> native_comp" where
  "sbs_compositor_native_canvas_mark_rendering i s =
     (if i \<ge> NC_RING_SIZE then s else entry_upd i set_rendering s)"

definition sbs_compositor_native_canvas_release_failed :: "nat \<Rightarrow> native_comp \<Rightarrow> native_comp" where
  "sbs_compositor_native_canvas_release_failed i s =
     (if i \<ge> NC_RING_SIZE then s
      else entry_upd i (\<lambda>e. e\<lparr>ne_refcount := 0, ne_state := ENTRY_FREE\<rparr>) s)"

section \<open>References and mailboxes\<close>

definition sbs_compositor_native_canvas_ref :: "nat \<Rightarrow> native_comp \<Rightarrow> bool \<times> native_comp" where
  "sbs_compositor_native_canvas_ref i s =
     (case native_canvas_lookup_entry s i of
        None \<Rightarrow> (False, s)
      | Some e \<Rightarrow>
          if ne_state e \<noteq> ENTRY_READY then (False, s)
          else (True, entry_upd i (\<lambda>e. e\<lparr>ne_refcount := ne_refcount e + 1\<rparr>) s))"

definition sbs_compositor_native_canvas_unref :: "nat \<Rightarrow> native_comp \<Rightarrow> native_comp" where
  "sbs_compositor_native_canvas_unref i s =
     (case native_canvas_lookup_entry s i of
        None \<Rightarrow> s
      | Some e \<Rightarrow> entry_upd i (\<lambda>e. if ne_refcount e > 0 then e\<lparr>ne_refcount := ne_refcount e - 1\<rparr> else e) s)"

definition mb_advance :: "nc_mailbox \<Rightarrow> nc_mailbox" where
  "mb_advance m = m\<lparr>mb_read_idx := (mb_read_idx m + 1) mod NC_RING_SIZE, mb_count := mb_count m - 1\<rparr>"

definition mb_victim :: "nc_mailbox \<Rightarrow> nat option" where
  "mb_victim m = (if mb_count m \<ge> 1 then Some (fst (mb_entries m ! mb_read_idx m)) else None)"

definition mb_store :: "nat \<times> u64 \<Rightarrow> nc_mailbox \<Rightarrow> nc_mailbox" where
  "mb_store x m =
     (let m = m\<lparr>mb_entries := (mb_entries m)[mb_write_idx m := x],
                mb_write_idx := (mb_write_idx m + 1) mod NC_RING_SIZE,
                mb_count := mb_count m + 1, mb_has_entry := True\<rparr>
      in m\<lparr>mb_entry_idx := fst (mb_entries m ! mb_read_idx m),
            mb_frame_number := snd (mb_entries m ! mb_read_idx m),
            mb_published := mb_published m + 1\<rparr>)"

definition mb_put :: "nat \<times> u64 \<Rightarrow> nc_mailbox \<Rightarrow> nc_mailbox" where
  "mb_put x m =
     mb_store x (if mb_count m \<ge> 1 then (mb_advance m)\<lparr>mb_dropped := mb_dropped m + 1\<rparr> else m)"

text \<open>The mailbox of a kind, and a write to it.\<close>

definition nc_mailboxes :: "native_comp \<Rightarrow> mailbox_type \<Rightarrow> nc_mailbox" where
  "nc_mailboxes s t =
     (case t of MAILBOX_PREVIEW \<Rightarrow> nc_mb_preview s | MAILBOX_OUTPUT \<Rightarrow> nc_mb_output s
      | MAILBOX_SNAPSHOT \<Rightarrow> nc_mb_snapshot s)"

definition mailbox_upd :: "mailbox_type \<Rightarrow> (nc_mailbox \<Rightarrow> nc_mailbox) \<Rightarrow> native_comp \<Rightarrow> native_comp" where
  "mailbox_upd t f s =
     (case t of MAILBOX_PREVIEW \<Rightarrow> s\<lparr>nc_mb_preview := f (nc_mb_preview s)\<rparr>
      | MAILBOX_OUTPUT \<Rightarrow> s\<lparr>nc_mb_output := f (nc_mb_output s)\<rparr>
      | MAILBOX_SNAPSHOT \<Rightarrow> s\<lparr>nc_mb_snapshot := f (nc_mb_snapshot s)\<rparr>)"

definition sbs_compositor_native_canvas_mailbox_publish ::
  "mailbox_type \<Rightarrow> nat \<Rightarrow> u64 \<Rightarrow> native_comp \<Rightarrow> bool \<times> native_comp" where
  "sbs_compositor_native_canvas_mailbox_publish t i frame s =
     (case sbs_compositor_native_canvas_ref i s of
        (False, s) \<Rightarrow> (False, s)
      | (True, s) \<Rightarrow>
          let dropped = mb_victim (nc_mailboxes s t);
              s = mailbox_upd t (mb_put (i, frame)) s
          in (True, case dropped of None \<Rightarrow> s | Some j \<Rightarrow> sbs_compositor_native_canvas_unref j s))"

definition sbs_compositor_native_canvas_mark_ready :: "nat \<Rightarrow> u64 \<Rightarrow> native_comp \<Rightarrow> native_comp" where
  "sbs_compositor_native_canvas_mark_ready i frame s =
     (if i \<ge> NC_RING_SIZE then s
      else
        let s = entry_upd i (\<lambda>e. e\<lparr>ne_frame_number := frame, ne_state := ENTRY_READY\<rparr>) s;
            s = s\<lparr>nc_last_rendered := i\<rparr>;
            s = snd (sbs_compositor_native_canvas_mailbox_publish MAILBOX_OUTPUT i frame s)
        in snd (sbs_compositor_native_canvas_mailbox_publish MAILBOX_SNAPSHOT i frame s))"

definition mb_take :: "nc_mailbox \<Rightarrow> nc_mailbox" where
  "mb_take m =
     (let (i, frame) = mb_entries m ! mb_read_idx m;
          m = mb_advance m;
          m = m\<lparr>mb_consumed := mb_consumed m + 1, mb_has_entry := mb_count m > 0\<rparr>
      in if mb_has_entry m
         then m\<lparr>mb_entry_idx := fst (mb_entries m ! mb_read_idx m),
                mb_frame_number := snd (mb_entries m ! mb_read_idx m)\<rparr>
         else m\<lparr>mb_entry_idx := i, mb_frame_number := frame\<rparr>)"

definition sbs_compositor_native_canvas_mailbox_acquire ::
  "mailbox_type \<Rightarrow> native_comp \<Rightarrow> (nat \<times> u64) option \<times> native_comp" where
  "sbs_compositor_native_canvas_mailbox_acquire t s =
     (let m = nc_mailboxes s t in
      if mb_count m = 0
      then (None, mailbox_upd t (\<lambda>m. m\<lparr>mb_has_entry := False, mb_late := mb_late m + 1\<rparr>) s)
      else
        let (i, frame) = mb_entries m ! mb_read_idx m;
            s = mailbox_upd t mb_take s
        in (case native_canvas_lookup_entry s i of
              None \<Rightarrow> (None, sbs_compositor_native_canvas_unref i s)
            | Some _ \<Rightarrow> (Some (i, frame), s)))"

definition sbs_compositor_native_canvas_mailbox_release :: "nat \<Rightarrow> native_comp \<Rightarrow> native_comp" where
  "sbs_compositor_native_canvas_mailbox_release i s = sbs_compositor_native_canvas_unref i s"

section \<open>Polling the fences\<close>

definition canvas_poll_one :: "nat \<Rightarrow> native_comp \<Rightarrow> native_comp" where
  "canvas_poll_one i s =
     (if ne_state (entry_at s i) \<noteq> ENTRY_RENDERING then s
      else if vkGetFenceStatus_ok (entry_at s i)
      then sbs_compositor_native_canvas_mark_ready i (ne_frame_number (entry_at s i)) s
      else s)"

definition sbs_compositor_native_canvas_poll_ready :: "native_comp \<Rightarrow> native_comp" where
  "sbs_compositor_native_canvas_poll_ready s =
     (if \<not> nc_initialized s then s else fold canvas_poll_one [0..<NC_RING_SIZE] s)"

definition preview_poll_one :: "nat \<Rightarrow> native_comp \<Rightarrow> native_comp" where
  "preview_poll_one i s =
     (let j = NP_INDEX_BASE + i in
      if ne_state (entry_at s j) \<noteq> ENTRY_RENDERING then s
      else if \<not> vkGetFenceStatus_ok (entry_at s j) then s
      else
        let s = entry_upd j (\<lambda>e. e\<lparr>ne_state := ENTRY_READY\<rparr>) s;
            s = s\<lparr>np_last_rendered := i\<rparr>
        in snd (sbs_compositor_native_canvas_mailbox_publish MAILBOX_PREVIEW j (ne_frame_number (entry_at s j)) s))"

definition sbs_compositor_native_preview_poll_ready :: "native_comp \<Rightarrow> native_comp" where
  "sbs_compositor_native_preview_poll_ready s =
     (if \<not> np_initialized s then s else fold preview_poll_one [0..<NC_RING_SIZE] s)"

section \<open>Rendering\<close>

text \<open>What the Vulkan calls of one submission answer.\<close>

record vk_outcome =
  vo_pipeline :: bool
  vo_descriptors :: bool
  vo_begin :: bool
  vo_end :: bool
  vo_submit :: bool

definition set_free :: "nc_entry \<Rightarrow> nc_entry" where
  "set_free e = e\<lparr>ne_state := ENTRY_FREE\<rparr>"

definition submitted_content :: "u64 \<Rightarrow> u64 \<Rightarrow> u64" where
  "submitted_content frame content = (if content \<noteq> 0 then content else frame)"

definition sbs_compositor_submit_native_preview_from_entry ::
  "vk_outcome \<Rightarrow> export_color_mode \<Rightarrow> u64 \<Rightarrow> u64 \<Rightarrow> native_comp \<Rightarrow> bool \<times> native_comp" where
  "sbs_compositor_submit_native_preview_from_entry vk src_mode frame content s =
     (if \<not> np_initialized s then (False, s)
      else if src_mode \<noteq> np_color_mode s
              \<and> \<not> (src_mode = SBS_EXPORT_COLOR_HDR10 \<and> np_color_mode s = SBS_EXPORT_COLOR_SDR)
      then (False, s)
      else if \<not> vo_pipeline vk then (False, s)
      else case sbs_compositor_native_preview_acquire s of
        None \<Rightarrow> (False, s)
      | Some (i, s) \<Rightarrow>
          let j = NP_INDEX_BASE + i in
          if \<not> ne_cmd_buffer (entry_at s j) \<or> \<not> vo_descriptors vk
          then (False, entry_upd j set_free s)
          else
            let s = entry_upd j (\<lambda>e. e\<lparr>ne_fence := Unsignaled\<rparr>) s in
            if \<not> vo_begin vk \<or> \<not> vo_end vk then (False, entry_upd j set_free s)
            else
              let s = entry_upd j (\<lambda>e. e\<lparr>ne_frame_number := frame,
                        ne_content_frame_number := submitted_content frame content\<rparr>) s
              in if \<not> vo_submit vk then (False, entry_upd j set_free s)
                 else (True, entry_upd j (\<lambda>e. e\<lparr>ne_fence := Pending\<rparr>) s))"

definition preview_will_render :: "u64 \<Rightarrow> native_comp \<Rightarrow> bool" where
  "preview_will_render frame s \<longleftrightarrow> np_initialized s \<and>
     (let interval = (if np_interval s > 0 then np_interval s else 1)
      in interval \<le> 1 \<or> np_last_submit s = 0 \<or> frame - np_last_submit s \<ge> ucast interval)"

definition sbs_compositor_render_native_frame ::
  "vk_outcome \<Rightarrow> vk_outcome \<Rightarrow> u64 \<Rightarrow> u64 \<Rightarrow> native_comp \<Rightarrow> nat option \<times> native_comp" where
  "sbs_compositor_render_native_frame vk vk_preview frame content s =
     (if \<not> nc_initialized s then (None, s)
      else
        let s = sbs_compositor_native_canvas_poll_ready s;
            s = sbs_compositor_native_preview_poll_ready s
        in case sbs_compositor_native_canvas_acquire s of
             None \<Rightarrow> (None, s)
           | Some (i, s) \<Rightarrow>
               if \<not> ne_cmd_buffer (entry_at s i) then (None, sbs_compositor_native_canvas_release_failed i s)
               else
                 let s = entry_upd i (\<lambda>e. e\<lparr>ne_fence := Unsignaled\<rparr>) s in
                 if \<not> vo_begin vk \<or> \<not> vo_end vk then (None, sbs_compositor_native_canvas_release_failed i s)
                 else
                   let will = preview_will_render frame s;
                       s = sbs_compositor_native_canvas_mark_rendering i s;
                       s = entry_upd i (\<lambda>e. e\<lparr>ne_frame_number := frame,
                             ne_content_frame_number := submitted_content frame content\<rparr>) s
                   in if \<not> vo_submit vk then (None, sbs_compositor_native_canvas_release_failed i s)
                      else
                        let s = entry_upd i (\<lambda>e. e\<lparr>ne_fence := Pending\<rparr>) s;
                            e = entry_at s i
                        in if will then
                             (case sbs_compositor_submit_native_preview_from_entry vk_preview (ne_color_mode e)
                                     frame (ne_content_frame_number e) s of
                                (True, s) \<Rightarrow> (Some i, s\<lparr>np_last_submit := frame\<rparr>)
                              | (False, s) \<Rightarrow> (Some i, s))
                           else (Some i, s))"

definition republish_preview :: "vk_outcome \<Rightarrow> nat \<Rightarrow> u64 \<Rightarrow> native_comp \<Rightarrow> bool \<times> native_comp" where
  "republish_preview vk src frame s =
     (if \<not> np_initialized s then (False, s)
      else
        let p = np_last_rendered s;
            e = entry_at s src;
            s = (if p \<ge> NC_RING_SIZE
                 then snd (sbs_compositor_submit_native_preview_from_entry vk (ne_color_mode e) frame
                        (ne_content_frame_number e) s)
                 else s)
        in if p < NC_RING_SIZE \<and> ne_state (entry_at s (NP_INDEX_BASE + p)) = ENTRY_READY
              \<and> vkGetFenceStatus_ok (entry_at s (NP_INDEX_BASE + p))
           then sbs_compositor_native_canvas_mailbox_publish MAILBOX_PREVIEW (NP_INDEX_BASE + p) frame s
           else (False, s))"

definition sbs_compositor_native_canvas_republish_last ::
  "vk_outcome \<Rightarrow> u64 \<Rightarrow> native_comp \<Rightarrow> bool \<times> native_comp" where
  "sbs_compositor_native_canvas_republish_last vk frame s =
     (if \<not> nc_initialized s then (False, s)
      else
        let s = sbs_compositor_native_canvas_poll_ready s;
            s = sbs_compositor_native_preview_poll_ready s;
            i = nc_last_rendered s
        in if i \<ge> NC_RING_SIZE then (False, s)
           else if ne_state (entry_at s i) \<noteq> ENTRY_READY then (False, s)
           else if \<not> vkGetFenceStatus_ok (entry_at s i) then (False, s)
           else
             let (output, s) = sbs_compositor_native_canvas_mailbox_publish MAILBOX_OUTPUT i frame s;
                 (snapshot, s) = sbs_compositor_native_canvas_mailbox_publish MAILBOX_SNAPSHOT i frame s;
                 (preview, s) = republish_preview vk i frame s
             in (output \<or> snapshot \<or> preview, s))"

section \<open>Creating and destroying the rings\<close>

definition destroy_native_canvas_entry :: "nc_entry \<Rightarrow> nc_entry" where
  "destroy_native_canvas_entry e =
     \<lparr>ne_color_mode = SBS_EXPORT_COLOR_SDR, ne_fence = No_fence, ne_cmd_buffer = ne_cmd_buffer e,
      ne_refcount = 0, ne_state = ENTRY_FREE, ne_frame_number = 0, ne_content_frame_number = 0,
      ne_allocated = False\<rparr>"

text \<open>The loop that empties a mailbox, once per entry counted in it.\<close>

primrec drain_loop :: "nat \<Rightarrow> mailbox_type \<Rightarrow> native_comp \<Rightarrow> native_comp" where
  "drain_loop 0 t s = s"
| "drain_loop (Suc n) t s =
     (let m = nc_mailboxes s t;
          i = fst (mb_entries m ! mb_read_idx m)
      in drain_loop n t (sbs_compositor_native_canvas_unref i (mailbox_upd t mb_advance s)))"

definition drain_mailbox :: "mailbox_type \<Rightarrow> native_comp \<Rightarrow> native_comp" where
  "drain_mailbox t s =
     mailbox_upd t (\<lambda>m. m\<lparr>mb_has_entry := False\<rparr>) (drain_loop (mb_count (nc_mailboxes s t)) t s)"

text \<open>
  The wait for the clients of preview entries: at most \<open>n\<close> attempts, and between two of them the
  clients release the leases of one list of \<open>rels\<close>. The result says whether the wait timed out and
  which leases were released.
\<close>

fun wait_native_preview_refs_released ::
  "nat \<Rightarrow> nat list list \<Rightarrow> native_comp \<Rightarrow> bool \<times> nat list \<times> native_comp" where
  "wait_native_preview_refs_released n rels s =
     (if n = 0 then (True, [], s)
      else if \<not> list_ex (\<lambda>e. ne_refcount e > 0) (np_entries s) then (False, [], s)
      else case rels of
        [] \<Rightarrow> wait_native_preview_refs_released (n - 1) [] s
      | r # rels \<Rightarrow>
          (case wait_native_preview_refs_released (n - 1) rels
                  (fold sbs_compositor_native_canvas_mailbox_release r s) of
             (late, done, s) \<Rightarrow> (late, r @ done, s)))"

declare wait_native_preview_refs_released.simps [simp del]

definition destroy_native_preview_ring :: "nat list list \<Rightarrow> native_comp \<Rightarrow> bool \<times> nat list \<times> native_comp" where
  "destroy_native_preview_ring rels s =
     (let s = drain_mailbox MAILBOX_PREVIEW s in
      case wait_native_preview_refs_released 500 rels s of
        (late, done, s) \<Rightarrow> (late, done,
          s\<lparr>np_entries := map destroy_native_canvas_entry (np_entries s), np_initialized := False,
             np_width := 0, np_height := 0, np_interval := 0, np_last_submit := 0,
             np_color_mode := SBS_EXPORT_COLOR_SDR, np_write_idx := 0, np_last_rendered := UINT32_MAX\<rparr>))"

definition create_preview_entry :: "export_color_mode \<Rightarrow> nc_entry \<Rightarrow> nc_entry" where
  "create_preview_entry mode e =
     (destroy_native_canvas_entry e)\<lparr>ne_fence := Signaled, ne_color_mode := mode, ne_allocated := True\<rparr>"

text \<open>
  \<open>oks\<close> says for each entry whether its fence and its memory could be allocated; what a failed
  entry holds does not matter, since the ring is destroyed.
\<close>

definition create_native_preview_ring ::
  "bool list \<Rightarrow> u32 \<Rightarrow> u32 \<Rightarrow> u32 \<Rightarrow> export_color_mode \<Rightarrow> native_comp \<Rightarrow> bool \<times> native_comp" where
  "create_native_preview_ring oks width height interval mode s =
     (if \<not> nc_initialized s then (False, s)
      else if width = 0 \<or> height = 0 \<or> width AND 1 \<noteq> 0 \<or> height AND 1 \<noteq> 0 then (False, s)
      else
        let s = s\<lparr>np_entries := map (create_preview_entry mode) (np_entries s)\<rparr>
        in if \<not> list_all id oks then (False, snd (snd (destroy_native_preview_ring [] s)))
           else (True, s\<lparr>np_width := width, np_height := height,
                   np_interval := (if interval > 0 then interval else 1), np_last_submit := 0,
                   np_color_mode := mode, np_write_idx := 0, np_last_rendered := UINT32_MAX,
                   np_initialized := True\<rparr>))"

text \<open>The result is the return code, whether a teardown timed out and the leases released in it.\<close>

definition sbs_compositor_configure_native_preview ::
  "bool list \<Rightarrow> nat list list \<Rightarrow> u32 \<Rightarrow> u32 \<Rightarrow> u32 \<Rightarrow> export_color_mode \<Rightarrow> native_comp
     \<Rightarrow> (bool \<times> bool \<times> nat list) \<times> native_comp" where
  "sbs_compositor_configure_native_preview oks rels width height interval mode s =
     (if \<not> nc_initialized s then ((False, False, []), s)
      else if width = 0 \<or> height = 0 then
        (if np_initialized s
         then (case destroy_native_preview_ring rels s of (late, done, s) \<Rightarrow> ((True, late, done), s))
         else ((True, False, []), s))
      else if np_initialized s \<and> np_width s = width \<and> np_height s = height \<and> np_color_mode s = mode
      then ((True, False, []), s\<lparr>np_interval := (if interval > 0 then interval else 1)\<rparr>)
      else if np_initialized s
      then (case destroy_native_preview_ring rels s of
              (late, done, s) \<Rightarrow>
                (case create_native_preview_ring oks width height interval mode s of
                   (ok, s) \<Rightarrow> ((ok, late, done), s)))
      else (case create_native_preview_ring oks width height interval mode s of
              (ok, s) \<Rightarrow> ((ok, False, []), s)))"

definition empty_mailbox :: nc_mailbox where
  "empty_mailbox = \<lparr>mb_has_entry = False, mb_entry_idx = 0, mb_frame_number = 0,
     mb_entries = replicate NC_RING_SIZE (0, 0), mb_read_idx = 0, mb_write_idx = 0, mb_count = 0,
     mb_published = 0, mb_dropped = 0, mb_consumed = 0, mb_late = 0\<rparr>"

definition create_native_canvas_ring :: "export_color_mode \<Rightarrow> native_comp \<Rightarrow> native_comp" where
  "create_native_canvas_ring mode s =
     s\<lparr>nc_mb_preview := empty_mailbox, nc_mb_output := empty_mailbox, nc_mb_snapshot := empty_mailbox,
       nc_entries := map (create_preview_entry mode) (nc_entries s),
       nc_write_idx := 0, nc_current_entry := 0, nc_last_rendered := 0, nc_initialized := True\<rparr>"

end
