(* ===== verification/Native_Canvas_Inv.thy ===== *)
theory Native_Canvas_Inv
  imports Native_Canvas
begin

text \<open>
  The invariant of the canvas rings: the reference count of an entry is the number of places that
  hold it (mailbox slots and the leases of the clients), and an entry that is held is ready, so
  that it is not acquired for rendering. One lemma per operation, with the leases as a multiset;
  inside an operation a reference that is not stored yet counts as a lease.
\<close>

section \<open>Mailboxes as queues of one element\<close>

definition mb_wf :: "nc_mailbox \<Rightarrow> bool" where
  "mb_wf m \<longleftrightarrow> length (mb_entries m) = NC_RING_SIZE \<and> mb_read_idx m < NC_RING_SIZE \<and> mb_count m \<le> 1
     \<and> mb_write_idx m = (mb_read_idx m + mb_count m) mod NC_RING_SIZE"

definition mb_view :: "nc_mailbox \<Rightarrow> (nat \<times> u64) list" where
  "mb_view m = ring_list (mb_entries m) (mb_read_idx m) (mb_count m)"

definition mb_ids :: "nc_mailbox \<Rightarrow> nat multiset" where
  "mb_ids m = image_mset fst (mset (mb_view m))"

lemma mb_view_cases:
  assumes "mb_wf m"
  shows "mb_count m = 0 \<and> mb_view m = [] \<or> mb_count m = 1 \<and> mb_view m = [mb_entries m ! mb_read_idx m]"
proof -
  have "mb_count m = 0 \<or> mb_count m = 1"
    using assms by (auto simp: mb_wf_def)
  then show ?thesis
    using assms by (auto simp: mb_view_def mb_wf_def ring_list_def)
qed

lemma mb_advance_wf: "mb_wf m \<Longrightarrow> mb_count m = 1 \<Longrightarrow> mb_wf (mb_advance m) \<and> mb_view (mb_advance m) = []"
  by (auto simp: mb_wf_def mb_advance_def mb_view_def)

lemma mb_store_wf:
  assumes "mb_wf m" "mb_count m = 0"
  shows "mb_wf (mb_store x m) \<and> mb_view (mb_store x m) = [x]"
proof -
  have "mb_write_idx m = mb_read_idx m"
    using assms by (simp add: mb_wf_def)
  then show ?thesis
    using assms by (auto simp: mb_wf_def mb_store_def mb_view_def ring_list_def Let_def)
qed

lemma mb_put_wf:
  assumes "mb_wf m"
  shows "mb_wf (mb_put x m) \<and> mb_view (mb_put x m) = [x]"
proof (cases "mb_count m = 0")
  case True
  then show ?thesis
    using mb_store_wf [OF assms True, of x] by (simp add: mb_put_def)
next
  case False
  then have one: "mb_count m = 1"
    using assms by (auto simp: mb_wf_def)
  have "mb_wf ((mb_advance m)\<lparr>mb_dropped := mb_dropped m + 1\<rparr>)"
    using mb_advance_wf [OF assms one] by (simp add: mb_wf_def)
  moreover have "mb_count ((mb_advance m)\<lparr>mb_dropped := mb_dropped m + 1\<rparr>) = 0"
    using one by (simp add: mb_advance_def)
  ultimately show ?thesis
    using mb_store_wf one by (simp add: mb_put_def)
qed

lemma mb_victim_eq:
  "mb_wf m \<Longrightarrow> mb_victim m = (if length (mb_view m) = 1 then Some (fst (hd (mb_view m))) else None)"
  using mb_view_cases [of m] by (auto simp: mb_victim_def)

lemma mb_take_wf:
  assumes "mb_wf m" "mb_count m = 1"
  shows "mb_wf (mb_take m) \<and> mb_view (mb_take m) = []"
proof -
  have "mb_count (mb_advance m) = 0"
    using assms(2) by (simp add: mb_advance_def)
  moreover have "mb_wf (mb_advance m)" "mb_view (mb_advance m) = []"
    using mb_advance_wf [OF assms] by simp_all
  ultimately show ?thesis
    by (simp add: mb_take_def Let_def case_prod_unfold mb_wf_def mb_view_def)
qed

interpretation mailbox: drop_oldest_queue mb_wf mb_view 1 mb_put
    "\<lambda>m. if mb_count m \<ge> 1 then Some (mb_entries m ! mb_read_idx m) else None"
proof unfold_locales
  fix s :: nc_mailbox and x :: "nat \<times> u64"
  assume wf: "mb_wf s"
  show "length (mb_view s) \<le> 1"
    using mb_view_cases [OF wf] by auto
  show "mb_wf (mb_put x s)"
    using mb_put_wf [OF wf] by simp
  show "mb_view (mb_put x s) = (if length (mb_view s) = 1 then tl (mb_view s) else mb_view s) @ [x]"
    using mb_put_wf [OF wf, of x] mb_view_cases [OF wf] by auto
  show "(if mb_count s \<ge> 1 then Some (mb_entries s ! mb_read_idx s) else None)
      = (if length (mb_view s) = 1 then Some (hd (mb_view s)) else None)"
    using mb_view_cases [OF wf] by auto
qed simp

section \<open>The invariant\<close>

definition mailbox_ids :: "native_comp \<Rightarrow> nat multiset" where
  "mailbox_ids s = mb_ids (nc_mailboxes s MAILBOX_PREVIEW) + mb_ids (nc_mailboxes s MAILBOX_OUTPUT)
     + mb_ids (nc_mailboxes s MAILBOX_SNAPSHOT)"

definition nc_inv :: "nat multiset \<Rightarrow> native_comp \<Rightarrow> bool" where
  "nc_inv L s \<longleftrightarrow> length (nc_entries s) = NC_RING_SIZE \<and> length (np_entries s) = NC_RING_SIZE
     \<and> (\<forall>t. mb_wf (nc_mailboxes s t))
     \<and> (\<forall>i. i \<in># L + mailbox_ids s \<longrightarrow> i < 32 \<and> (16 \<le> i \<longrightarrow> np_initialized s))
     \<and> (\<forall>i < 32. ne_refcount (entry_at s i) = count (L + mailbox_ids s) i
          \<and> (i \<in># L + mailbox_ids s \<longrightarrow> ne_state (entry_at s i) = ENTRY_READY))"

text \<open>What a client sees of an entry.\<close>

definition same_content :: "nc_entry \<Rightarrow> nc_entry \<Rightarrow> bool" where
  "same_content a b \<longleftrightarrow> ne_state a = ne_state b \<and> ne_frame_number a = ne_frame_number b
     \<and> ne_content_frame_number a = ne_content_frame_number b \<and> ne_color_mode a = ne_color_mode b
     \<and> ne_fence a = ne_fence b \<and> ne_allocated a = ne_allocated b"

text \<open>
  A free canvas entry whose fence was reset and never submitted: no acquire takes it, and the GPU
  will not signal it.
\<close>

definition dead_entry :: "nc_entry \<Rightarrow> bool" where
  "dead_entry e \<longleftrightarrow> ne_state e = ENTRY_FREE \<and> ne_fence e = Unsignaled"

text \<open>What no step changes: the entries clients hold and the dead entries of the canvas.\<close>

definition fixed_entry :: "nat multiset \<Rightarrow> native_comp \<Rightarrow> nat \<Rightarrow> bool" where
  "fixed_entry L s i \<longleftrightarrow> i \<in># L \<or> i < 16 \<and> dead_entry (entry_at s i)"

definition keeps :: "nat multiset \<Rightarrow> native_comp \<Rightarrow> native_comp \<Rightarrow> bool" where
  "keeps L s s' \<longleftrightarrow> (\<forall>i. fixed_entry L s i \<longrightarrow> same_content (entry_at s i) (entry_at s' i))"

lemma keeps_refl [simp]: "keeps L s s"
  by (simp add: keeps_def same_content_def)

lemma keeps_trans:
  assumes "keeps L s t" "keeps L t u"
  shows "keeps L s u"
proof -
  have "fixed_entry L t i" if "fixed_entry L s i" for i
    using that assms(1) by (auto simp: keeps_def fixed_entry_def dead_entry_def same_content_def)
  then show ?thesis
    using assms by (simp add: keeps_def same_content_def)
qed

lemma keeps_mono: "keeps L s t \<Longrightarrow> K \<subseteq># L \<Longrightarrow> keeps K s t"
  by (auto simp: keeps_def fixed_entry_def dest: mset_subset_eqD)

definition preserves :: "(native_comp \<Rightarrow> native_comp) \<Rightarrow> bool" where
  "preserves f \<longleftrightarrow> (\<forall>L s. nc_inv L s \<longrightarrow> nc_inv L (f s) \<and> keeps L s (f s))"

lemma preservesI: "(\<And>L s. nc_inv L s \<Longrightarrow> nc_inv L (f s) \<and> keeps L s (f s)) \<Longrightarrow> preserves f"
  by (simp add: preserves_def)

lemma preservesD: "preserves f \<Longrightarrow> nc_inv L s \<Longrightarrow> nc_inv L (f s) \<and> keeps L s (f s)"
  by (simp add: preserves_def)

lemma preserves_fold: "(\<And>i. i \<in> set is \<Longrightarrow> preserves (f i)) \<Longrightarrow> preserves (fold f is)"
proof (induction "is")
  case Nil
  then show ?case by (simp add: preserves_def)
next
  case (Cons i "is")
  have f: "preserves (f i)" and fs: "preserves (fold f is)"
    using Cons by simp_all
  show ?case
  proof (rule preservesI)
    fix L s assume inv: "nc_inv L s"
    have one: "nc_inv L (f i s)" "keeps L s (f i s)"
      using preservesD [OF f inv] by simp_all
    then have "nc_inv L (fold f is (f i s))" "keeps L (f i s) (fold f is (f i s))"
      using preservesD [OF fs one(1)] by simp_all
    then show "nc_inv L (fold f (i # is) s) \<and> keeps L s (fold f (i # is) s)"
      using keeps_trans [OF one(2)] by simp
  qed
qed

text \<open>Fields the invariant does not read.\<close>

lemma nc_mailboxes_simps [simp]:
  "nc_mailboxes (s\<lparr>nc_write_idx := x\<rparr>) = nc_mailboxes s" "nc_mailboxes (s\<lparr>nc_current_entry := x\<rparr>) = nc_mailboxes s"
  "nc_mailboxes (s\<lparr>nc_last_rendered := x\<rparr>) = nc_mailboxes s" "nc_mailboxes (s\<lparr>np_write_idx := x\<rparr>) = nc_mailboxes s"
  "nc_mailboxes (s\<lparr>np_last_rendered := x\<rparr>) = nc_mailboxes s" "nc_mailboxes (s\<lparr>np_last_submit := y\<rparr>) = nc_mailboxes s"
  "nc_mailboxes (s\<lparr>np_interval := z\<rparr>) = nc_mailboxes s" "nc_mailboxes (s\<lparr>nc_entries := es\<rparr>) = nc_mailboxes s"
  "nc_mailboxes (s\<lparr>np_entries := es\<rparr>) = nc_mailboxes s" "nc_mailboxes (s\<lparr>np_initialized := b\<rparr>) = nc_mailboxes s"
  "nc_mailboxes (s\<lparr>np_width := z\<rparr>) = nc_mailboxes s" "nc_mailboxes (s\<lparr>np_height := z\<rparr>) = nc_mailboxes s"
  "nc_mailboxes (s\<lparr>np_color_mode := m\<rparr>) = nc_mailboxes s"
  by (simp_all add: nc_mailboxes_def fun_eq_iff split: mailbox_type.split)

lemma entry_at_simps [simp]:
  "entry_at (s\<lparr>nc_write_idx := x\<rparr>) = entry_at s" "entry_at (s\<lparr>nc_current_entry := x\<rparr>) = entry_at s"
  "entry_at (s\<lparr>nc_last_rendered := x\<rparr>) = entry_at s" "entry_at (s\<lparr>np_write_idx := x\<rparr>) = entry_at s"
  "entry_at (s\<lparr>np_last_rendered := x\<rparr>) = entry_at s" "entry_at (s\<lparr>np_last_submit := y\<rparr>) = entry_at s"
  "entry_at (s\<lparr>np_interval := z\<rparr>) = entry_at s" "entry_at (mailbox_upd t f s) = entry_at s"
  by (simp_all add: entry_at_def fun_eq_iff mailbox_upd_def split: mailbox_type.split)

lemma mailbox_ids_simps [simp]:
  "mailbox_ids (s\<lparr>nc_write_idx := x\<rparr>) = mailbox_ids s" "mailbox_ids (s\<lparr>nc_current_entry := x\<rparr>) = mailbox_ids s"
  "mailbox_ids (s\<lparr>nc_last_rendered := x\<rparr>) = mailbox_ids s" "mailbox_ids (s\<lparr>np_write_idx := x\<rparr>) = mailbox_ids s"
  "mailbox_ids (s\<lparr>np_last_rendered := x\<rparr>) = mailbox_ids s" "mailbox_ids (s\<lparr>np_last_submit := y\<rparr>) = mailbox_ids s"
  "mailbox_ids (s\<lparr>np_interval := z\<rparr>) = mailbox_ids s" "mailbox_ids (entry_upd i f s) = mailbox_ids s"
  by (simp_all add: mailbox_ids_def entry_upd_def)

lemma nc_inv_simps [simp]:
  "nc_inv L (s\<lparr>nc_write_idx := x\<rparr>) = nc_inv L s" "nc_inv L (s\<lparr>nc_current_entry := x\<rparr>) = nc_inv L s"
  "nc_inv L (s\<lparr>nc_last_rendered := x\<rparr>) = nc_inv L s" "nc_inv L (s\<lparr>np_write_idx := x\<rparr>) = nc_inv L s"
  "nc_inv L (s\<lparr>np_last_rendered := x\<rparr>) = nc_inv L s" "nc_inv L (s\<lparr>np_last_submit := y\<rparr>) = nc_inv L s"
  "nc_inv L (s\<lparr>np_interval := z\<rparr>) = nc_inv L s"
  by (simp_all add: nc_inv_def)

lemma keeps_simps [simp]:
  "keeps L s (t\<lparr>nc_write_idx := x\<rparr>) = keeps L s t" "keeps L s (t\<lparr>nc_current_entry := x\<rparr>) = keeps L s t"
  "keeps L s (t\<lparr>nc_last_rendered := x\<rparr>) = keeps L s t" "keeps L s (t\<lparr>np_write_idx := x\<rparr>) = keeps L s t"
  "keeps L s (t\<lparr>np_last_rendered := x\<rparr>) = keeps L s t" "keeps L s (t\<lparr>np_last_submit := y\<rparr>) = keeps L s t"
  "keeps L s (t\<lparr>np_interval := z\<rparr>) = keeps L s t" "keeps L s (mailbox_upd ty f t) = keeps L s t"
  "keeps L (mailbox_upd ty f s) t = keeps L s t"
  by (simp_all add: keeps_def fixed_entry_def)

lemma entry_at_upd:
  assumes "length (nc_entries s) = NC_RING_SIZE" "length (np_entries s) = NC_RING_SIZE" "i < 32" "j < 32"
  shows "entry_at (entry_upd i f s) j = (if j = i then f (entry_at s i) else entry_at s j)"
  using assms by (auto simp: entry_at_def entry_upd_def nth_list_update)

lemma entry_upd_fields [simp]:
  "nc_mailboxes (entry_upd i f s) = nc_mailboxes s" "np_initialized (entry_upd i f s) = np_initialized s"
  "nc_initialized (entry_upd i f s) = nc_initialized s"
  "length (nc_entries (entry_upd i f s)) = length (nc_entries s)"
  "length (np_entries (entry_upd i f s)) = length (np_entries s)"
  by (simp_all add: entry_upd_def)

section \<open>The primitive steps\<close>

lemma inv_entry:
  assumes "nc_inv L s" "i < 32" "ne_refcount (f (entry_at s i)) = ne_refcount (entry_at s i)"
    and "ne_refcount (entry_at s i) > 0 \<or> i < 16 \<and> dead_entry (entry_at s i)
      \<Longrightarrow> same_content (entry_at s i) (f (entry_at s i))"
  shows "nc_inv L (entry_upd i f s) \<and> keeps L s (entry_upd i f s)"
proof -
  have held: "ne_refcount (entry_at s i) > 0" if "i \<in># L + mailbox_ids s"
    using assms(1,2) that by (auto simp: nc_inv_def)
  have at: "entry_at (entry_upd i f s) j = (if j = i then f (entry_at s i) else entry_at s j)" if "j < 32" for j
    using assms(1,2) that by (intro entry_at_upd) (simp_all add: nc_inv_def)
  have "nc_inv L (entry_upd i f s)"
    using assms held at unfolding nc_inv_def by (auto simp: same_content_def)
  moreover have "keeps L s (entry_upd i f s)"
    unfolding keeps_def
  proof (intro allI impI)
    fix j assume j: "fixed_entry L s j"
    then have "j < 32"
      using assms(1) by (auto simp: nc_inv_def fixed_entry_def)
    then show "same_content (entry_at s j) (entry_at (entry_upd i f s) j)"
      using at held assms(4) j by (auto simp: same_content_def fixed_entry_def)
  qed
  ultimately show ?thesis by blast
qed

lemma lookup_valid: "native_canvas_lookup_entry s i = Some e \<Longrightarrow> i < 32 \<and> e = entry_at s i \<and> (16 \<le> i \<longrightarrow> np_initialized s)"
  by (auto simp: native_canvas_lookup_entry_def split: if_splits)

lemma lookup_held:
  "nc_inv L s \<Longrightarrow> i \<in># L \<Longrightarrow> native_canvas_lookup_entry s i = Some (entry_at s i) \<and> i < 32"
  by (auto simp: nc_inv_def native_canvas_lookup_entry_def)

text \<open>Changing the count of one entry together with the multiset of holders.\<close>

lemma inv_recount:
  assumes "nc_inv L s" "i < 32" "16 \<le> i \<longrightarrow> np_initialized s"
    and "same_content (entry_at s i) (f (entry_at s i))" "ne_state (entry_at s i) = ENTRY_READY"
    and "ne_refcount (f (entry_at s i)) = count (L' + mailbox_ids s) i"
    and "\<And>j. j \<noteq> i \<Longrightarrow> count L' j = count L j"
  shows "nc_inv L' (entry_upd i f s) \<and> keeps L s (entry_upd i f s)"
proof -
  have at: "entry_at (entry_upd i f s) j = (if j = i then f (entry_at s i) else entry_at s j)" if "j < 32" for j
    using assms(1,2) that by (intro entry_at_upd) (simp_all add: nc_inv_def)
  have mem: "j \<in># L' \<longleftrightarrow> j \<in># L" if "j \<noteq> i" for j
    using assms(7) [OF that] by (metis count_greater_zero_iff)
  have inv: "\<forall>j < 32. ne_refcount (entry_at (entry_upd i f s) j) = count (L' + mailbox_ids s) j
      \<and> (j \<in># L' + mailbox_ids s \<longrightarrow> ne_state (entry_at (entry_upd i f s) j) = ENTRY_READY)"
    using assms at mem unfolding nc_inv_def by (auto simp: same_content_def)
  have "\<forall>j. j \<in># L' + mailbox_ids s \<longrightarrow> j < 32 \<and> (16 \<le> j \<longrightarrow> np_initialized s)"
  proof (intro allI impI)
    fix j assume "j \<in># L' + mailbox_ids s"
    then have "j = i \<or> j \<in># L + mailbox_ids s"
      using mem by auto
    then show "j < 32 \<and> (16 \<le> j \<longrightarrow> np_initialized s)"
      using assms(1,2,3) by (auto simp: nc_inv_def)
  qed
  then have "nc_inv L' (entry_upd i f s)"
    using inv assms(1) by (simp add: nc_inv_def)
  moreover have "keeps L s (entry_upd i f s)"
    unfolding keeps_def
  proof (intro allI impI)
    fix j assume "fixed_entry L s j"
    then have "j < 32"
      using assms(1) by (auto simp: nc_inv_def fixed_entry_def)
    then show "same_content (entry_at s j) (entry_at (entry_upd i f s) j)"
      using at assms(4) by (auto simp: same_content_def)
  qed
  ultimately show ?thesis by blast
qed

lemma ref_inv:
  assumes "nc_inv L s" "sbs_compositor_native_canvas_ref i s = (True, s')"
  shows "nc_inv (add_mset i L) s' \<and> keeps L s s' \<and> nc_mailboxes s' = nc_mailboxes s"
proof -
  obtain e where e: "native_canvas_lookup_entry s i = Some e" "ne_state e = ENTRY_READY"
    and s': "s' = entry_upd i (\<lambda>e. e\<lparr>ne_refcount := ne_refcount e + 1\<rparr>) s"
    using assms(2) by (auto simp: sbs_compositor_native_canvas_ref_def split: option.splits if_splits)
  show ?thesis
    using inv_recount [OF assms(1), of i "\<lambda>e. e\<lparr>ne_refcount := ne_refcount e + 1\<rparr>" "add_mset i L"]
      lookup_valid [OF e(1)] e(2) assms(1) s'
    by (auto simp: same_content_def nc_inv_def)
qed

lemma ref_refused: "sbs_compositor_native_canvas_ref i s = (False, s') \<Longrightarrow> s' = s"
  by (auto simp: sbs_compositor_native_canvas_ref_def split: option.splits if_splits)

lemma unref_inv:
  assumes "nc_inv (add_mset i L) s"
  shows "nc_inv L (sbs_compositor_native_canvas_unref i s)
    \<and> keeps L s (sbs_compositor_native_canvas_unref i s)"
proof -
  let ?f = "\<lambda>e. if ne_refcount e > 0 then e\<lparr>ne_refcount := ne_refcount e - 1\<rparr> else e"
  have i: "native_canvas_lookup_entry s i = Some (entry_at s i)" "i < 32" "16 \<le> i \<longrightarrow> np_initialized s"
    "ne_state (entry_at s i) = ENTRY_READY" "ne_refcount (entry_at s i) = Suc (count (L + mailbox_ids s) i)"
    using lookup_held [OF assms, of i] assms by (auto simp: nc_inv_def)
  have "nc_inv L (entry_upd i ?f s) \<and> keeps (add_mset i L) s (entry_upd i ?f s)"
    using i by (intro inv_recount [OF assms]) (auto simp: same_content_def)
  then show ?thesis
    using i(1) keeps_mono [of "add_mset i L" s _ L]
    by (simp add: sbs_compositor_native_canvas_unref_def)
qed

lemma unref_mailboxes [simp]: "nc_mailboxes (sbs_compositor_native_canvas_unref i s) = nc_mailboxes s"
  by (auto simp: sbs_compositor_native_canvas_unref_def split: option.split)

text \<open>Moving an entry between a mailbox and the leases.\<close>

lemma mailbox_upd_fields:
  "nc_entries (mailbox_upd t f s) = nc_entries s" "np_entries (mailbox_upd t f s) = np_entries s"
  "np_initialized (mailbox_upd t f s) = np_initialized s"
  "nc_mailboxes (mailbox_upd t f s) t' = (if t' = t then f (nc_mailboxes s t) else nc_mailboxes s t')"
  by (auto simp: mailbox_upd_def nc_mailboxes_def split: mailbox_type.splits)

lemma mailbox_ids_upd:
  fixes L L' :: "nat multiset"
  assumes "L' + mb_ids (f (nc_mailboxes s t)) = L + mb_ids (nc_mailboxes s t)"
  shows "L' + mailbox_ids (mailbox_upd t f s) = L + mailbox_ids s"
proof -
  have move: "L' + (a' + b + c) = L + (a + b + c)" "L' + (b + a' + c) = L + (b + a + c)" "L' + (b + c + a') = L + (b + c + a)"
    if "L' + a' = L + a" for a a' b c :: "nat multiset"
    using that by (simp_all add: multiset_eq_iff)
  show ?thesis
    unfolding mailbox_ids_def using move [OF assms] by (cases t) (simp_all add: mailbox_upd_fields)
qed

lemma inv_move:
  assumes "nc_inv L s" "mb_wf (f (nc_mailboxes s t))"
    and "L' + mb_ids (f (nc_mailboxes s t)) = L + mb_ids (nc_mailboxes s t)"
  shows "nc_inv L' (mailbox_upd t f s)"
proof -
  have "L' + mailbox_ids (mailbox_upd t f s) = L + mailbox_ids s"
    using assms(3) by (rule mailbox_ids_upd)
  then show ?thesis
    using assms(1,2) unfolding nc_inv_def by (simp only: entry_at_simps mailbox_upd_fields) (simp split: if_splits)
qed

section \<open>The operations\<close>

lemma mb_ids_view: "mb_wf m \<Longrightarrow> mb_ids m = (case mb_victim m of None \<Rightarrow> {#} | Some j \<Rightarrow> {#j#})"
  using mb_view_cases [of m] by (auto simp: mb_ids_def mb_victim_def)

lemma publish_preserves: "preserves (\<lambda>s. snd (sbs_compositor_native_canvas_mailbox_publish t i frame s))"
proof (rule preservesI)
  fix L s assume inv: "nc_inv L s"
  obtain ok s1 where r: "sbs_compositor_native_canvas_ref i s = (ok, s1)"
    by fastforce
  show "nc_inv L (snd (sbs_compositor_native_canvas_mailbox_publish t i frame s))
    \<and> keeps L s (snd (sbs_compositor_native_canvas_mailbox_publish t i frame s))"
  proof (cases ok)
    case False
    then show ?thesis
      using r ref_refused [of i s s1] inv by (simp add: sbs_compositor_native_canvas_mailbox_publish_def)
  next
    case True
    let ?old = "nc_mailboxes s1 t"
    let ?s2 = "mailbox_upd t (mb_put (i, frame)) s1"
    have s1: "nc_inv (add_mset i L) s1" "keeps L s s1"
      using ref_inv [OF inv, of i s1] r True keeps_mono by simp_all
    have wf: "mb_wf ?old"
      using s1 by (simp add: nc_inv_def)
    have new: "mb_wf (mb_put (i, frame) ?old)" "mb_ids (mb_put (i, frame) ?old) = {#i#}"
      using mb_put_wf [OF wf, of "(i, frame)"] by (simp_all add: mb_ids_def)
    have s2: "nc_inv (L + mb_ids ?old) ?s2" "keeps L s ?s2"
      using inv_move [OF s1(1), of "mb_put (i, frame)" t "L + mb_ids ?old"] new s1(2) by simp_all
    show ?thesis
    proof (cases "mb_victim ?old")
      case None
      then show ?thesis
        using s2 mb_ids_view [OF wf] r True
        by (simp add: sbs_compositor_native_canvas_mailbox_publish_def Let_def)
    next
      case (Some j)
      then have "nc_inv (add_mset j L) ?s2"
        using s2 mb_ids_view [OF wf] by simp
      from unref_inv [OF this] show ?thesis
        using s2(2) Some r True
        by (auto simp: sbs_compositor_native_canvas_mailbox_publish_def Let_def intro: keeps_trans)
    qed
  qed
qed

lemmas publish_inv = preservesD [OF publish_preserves]

lemma busy_unheld:
  "nc_inv L s \<Longrightarrow> i < 32 \<Longrightarrow> ne_state (entry_at s i) \<noteq> ENTRY_READY \<Longrightarrow> ne_refcount (entry_at s i) = 0"
  by (auto simp: nc_inv_def not_in_iff [symmetric])

text \<open>A chain of writes to an entry nobody holds.\<close>

definition unheld_chain :: "nat multiset \<Rightarrow> native_comp \<Rightarrow> nat \<Rightarrow> native_comp \<Rightarrow> bool" where
  "unheld_chain L s0 i s \<longleftrightarrow> i < 32 \<and> nc_inv L s \<and> keeps L s0 s \<and> ne_refcount (entry_at s i) = 0
     \<and> \<not> (i < 16 \<and> dead_entry (entry_at s0 i))"

lemma unheld_chain_upd:
  assumes "unheld_chain L s0 i s" "ne_refcount (f (entry_at s i)) = 0"
  shows "unheld_chain L s0 i (entry_upd i f s)"
proof -
  have inv: "nc_inv L s" and i: "i < 32" and zero: "ne_refcount (entry_at s i) = 0"
    using assms(1) by (simp_all add: unheld_chain_def)
  have at: "entry_at (entry_upd i f s) j = (if j = i then f (entry_at s i) else entry_at s j)" if "j < 32" for j
    using inv i that by (intro entry_at_upd) (simp_all add: nc_inv_def)
  have free: "i \<notin># L + mailbox_ids s"
    using inv i zero by (auto simp: nc_inv_def count_eq_zero_iff)
  have "nc_inv L (entry_upd i f s)"
    using inv assms(2) zero at free unfolding nc_inv_def by auto
  moreover have "keeps L s0 (entry_upd i f s)"
    unfolding keeps_def
  proof (intro allI impI)
    fix j assume j: "fixed_entry L s0 j"
    then have "j < 32" "j \<noteq> i"
      using assms(1) inv free by (auto simp: nc_inv_def fixed_entry_def unheld_chain_def)
    then show "same_content (entry_at s0 j) (entry_at (entry_upd i f s) j)"
      using at j assms(1) by (simp add: unheld_chain_def keeps_def)
  qed
  ultimately show ?thesis
    using assms at [OF i] by (simp add: unheld_chain_def)
qed

lemma unheld_chain_inv: "unheld_chain L s0 i s \<Longrightarrow> nc_inv L s \<and> keeps L s0 s"
  by (simp add: unheld_chain_def)

lemma canvas_poll_one_preserves:
  assumes "i < 16"
  shows "preserves (canvas_poll_one i)"
proof (rule preservesI)
  fix L s assume inv: "nc_inv L s"
  show "nc_inv L (canvas_poll_one i s) \<and> keeps L s (canvas_poll_one i s)"
  proof (cases "ne_state (entry_at s i) = ENTRY_RENDERING \<and> vkGetFenceStatus_ok (entry_at s i)")
    case True
    let ?frame = "ne_frame_number (entry_at s i)"
    let ?s1 = "(entry_upd i (\<lambda>e. e\<lparr>ne_frame_number := ?frame, ne_state := ENTRY_READY\<rparr>) s)\<lparr>nc_last_rendered := i\<rparr>"
    let ?s2 = "snd (sbs_compositor_native_canvas_mailbox_publish MAILBOX_OUTPUT i ?frame ?s1)"
    let ?s3 = "snd (sbs_compositor_native_canvas_mailbox_publish MAILBOX_SNAPSHOT i ?frame ?s2)"
    have "unheld_chain L s i s"
      using inv busy_unheld [OF inv, of i] True assms by (simp add: unheld_chain_def dead_entry_def)
    from unheld_chain_inv [OF unheld_chain_upd [OF this]] have s1: "nc_inv L ?s1 \<and> keeps L s ?s1"
      by (simp add: unheld_chain_def \<open>unheld_chain L s i s\<close> [unfolded unheld_chain_def])
    then have s2: "nc_inv L ?s2 \<and> keeps L s ?s2"
      using publish_inv keeps_trans by blast
    then have "nc_inv L ?s3 \<and> keeps L s ?s3"
      using publish_inv keeps_trans by blast
    then show ?thesis
      using True assms by (simp add: canvas_poll_one_def sbs_compositor_native_canvas_mark_ready_def Let_def)
  next
    case False
    then show ?thesis
      using inv by (auto simp: canvas_poll_one_def)
  qed
qed

lemma preview_poll_one_preserves:
  assumes "i < 16"
  shows "preserves (preview_poll_one i)"
proof (rule preservesI)
  fix L s assume inv: "nc_inv L s"
  let ?j = "NP_INDEX_BASE + i"
  show "nc_inv L (preview_poll_one i s) \<and> keeps L s (preview_poll_one i s)"
  proof (cases "ne_state (entry_at s ?j) = ENTRY_RENDERING \<and> vkGetFenceStatus_ok (entry_at s ?j)")
    case True
    let ?s1 = "(entry_upd ?j (\<lambda>e. e\<lparr>ne_state := ENTRY_READY\<rparr>) s)\<lparr>np_last_rendered := i\<rparr>"
    have c: "unheld_chain L s ?j s"
      using inv busy_unheld [OF inv, of ?j] True assms by (simp add: unheld_chain_def)
    have s1: "nc_inv L ?s1 \<and> keeps L s ?s1"
      using unheld_chain_inv [OF unheld_chain_upd [OF c, of "\<lambda>e. e\<lparr>ne_state := ENTRY_READY\<rparr>"]] c
      by (simp add: unheld_chain_def)
    have "nc_inv L (snd (sbs_compositor_native_canvas_mailbox_publish t ?j fr ?s1))
      \<and> keeps L s (snd (sbs_compositor_native_canvas_mailbox_publish t ?j fr ?s1))" for t fr
      using s1 publish_inv keeps_trans by blast
    then show ?thesis
      using True by (simp add: preview_poll_one_def Let_def)
  next
    case False
    then show ?thesis
      using inv by (auto simp: preview_poll_one_def Let_def)
  qed
qed

lemma poll_ready_preserves:
  "preserves sbs_compositor_native_canvas_poll_ready" "preserves sbs_compositor_native_preview_poll_ready"
proof -
  have "preserves (fold canvas_poll_one [0..<16])" "preserves (fold preview_poll_one [0..<16])"
    by (intro preserves_fold, simp add: canvas_poll_one_preserves preview_poll_one_preserves)+
  then show "preserves sbs_compositor_native_canvas_poll_ready" "preserves sbs_compositor_native_preview_poll_ready"
    by (simp_all add: preserves_def sbs_compositor_native_canvas_poll_ready_def
        sbs_compositor_native_preview_poll_ready_def)
qed

lemmas canvas_poll_inv = preservesD [OF poll_ready_preserves(1)]
lemmas preview_poll_inv = preservesD [OF poll_ready_preserves(2)]

lemma scan_member: "find P (ring_scan w) = Some i \<Longrightarrow> P i \<and> i < 16"
  using find_SomeD [of P "ring_scan w" i] by (auto simp: ring_scan_def)

lemma canvas_acquire_inv:
  assumes "nc_inv L s" "sbs_compositor_native_canvas_acquire s = Some (i, s')"
  shows "unheld_chain L s i s' \<and> i < 16"
proof -
  let ?s = "s\<lparr>nc_write_idx := (i + 1) mod NC_RING_SIZE, nc_current_entry := i\<rparr>"
  have "acquirable (entry_at s i)" "i < 16" "s' = entry_upd i set_rendering ?s"
    using assms(2) scan_member [of "\<lambda>i. acquirable (entry_at s i)" "nc_write_idx s" i]
    by (auto simp: sbs_compositor_native_canvas_acquire_def split: if_splits option.splits)
  moreover have "unheld_chain L s i ?s"
    using assms(1) calculation by (simp add: unheld_chain_def acquirable_def dead_entry_def vkGetFenceStatus_ok_def)
  ultimately show ?thesis
    by (simp add: unheld_chain_upd set_rendering_def)
qed

lemma preview_acquire_inv:
  assumes "nc_inv L s" "sbs_compositor_native_preview_acquire s = Some (i, s')"
  shows "unheld_chain L s (16 + i) s' \<and> i < 16"
proof -
  let ?s = "s\<lparr>np_write_idx := (i + 1) mod NC_RING_SIZE\<rparr>"
  have "acquirable (entry_at s (16 + i))" "i < 16" "s' = entry_upd (16 + i) set_rendering ?s"
    using assms(2) scan_member [of "\<lambda>i. acquirable (entry_at s (NP_INDEX_BASE + i))" "np_write_idx s" i]
    by (auto simp: sbs_compositor_native_preview_acquire_def split: if_splits option.splits)
  moreover have "unheld_chain L s (16 + i) ?s"
    using assms(1) calculation by (simp add: unheld_chain_def acquirable_def dead_entry_def vkGetFenceStatus_ok_def)
  ultimately show ?thesis
    by (simp add: unheld_chain_upd set_rendering_def)
qed

lemma unheld_chain_upd':
  "unheld_chain L s0 i s \<Longrightarrow> (\<And>e. ne_refcount e = 0 \<Longrightarrow> ne_refcount (f e) = 0) \<Longrightarrow> unheld_chain L s0 i (entry_upd i f s)"
  by (rule unheld_chain_upd) (simp_all add: unheld_chain_def)

lemma submit_preview_preserves:
  "preserves (\<lambda>s. snd (sbs_compositor_submit_native_preview_from_entry vk m frame content s))"
proof (rule preservesI)
  fix L s assume inv: "nc_inv L s"
  let ?r = "\<lambda>s. snd (sbs_compositor_submit_native_preview_from_entry vk m frame content s)"
  show "nc_inv L (?r s) \<and> keeps L s (?r s)"
  proof (cases "sbs_compositor_native_preview_acquire s")
    case None
    then show ?thesis
      using inv by (simp add: sbs_compositor_submit_native_preview_from_entry_def)
  next
    case (Some x)
    obtain i s1 where x: "x = (i, s1)"
      by fastforce
    have c: "unheld_chain L s (16 + i) s1"
      using preview_acquire_inv [OF inv, of i s1] Some x by simp
    have "?r s = s \<or> unheld_chain L s (16 + i) (?r s)"
      using Some x c
      by (auto simp: sbs_compositor_submit_native_preview_from_entry_def Let_def set_free_def
          intro!: unheld_chain_upd')
    then show ?thesis
      using inv unheld_chain_inv by (metis keeps_refl)
  qed
qed

lemmas submit_preview_inv = preservesD [OF submit_preview_preserves]

lemma render_preserves: "preserves (\<lambda>s. snd (sbs_compositor_render_native_frame vk vkp frame content s))"
proof (rule preservesI)
  fix L s assume inv: "nc_inv L s"
  let ?r = "\<lambda>s. snd (sbs_compositor_render_native_frame vk vkp frame content s)"
  let ?s = "sbs_compositor_native_preview_poll_ready (sbs_compositor_native_canvas_poll_ready s)"
  have poll: "nc_inv L ?s" "keeps L s ?s"
    using canvas_poll_inv [OF inv] preview_poll_inv keeps_trans by blast+
  show "nc_inv L (?r s) \<and> keeps L s (?r s)"
  proof (cases "nc_initialized s \<and> sbs_compositor_native_canvas_acquire ?s \<noteq> None")
    case False
    then consider "\<not> nc_initialized s" | "nc_initialized s" "sbs_compositor_native_canvas_acquire ?s = None"
      by blast
    then show ?thesis
      using inv poll by cases (simp_all add: sbs_compositor_render_native_frame_def Let_def)
  next
    case True
    then obtain i s1 where a: "sbs_compositor_native_canvas_acquire ?s = Some (i, s1)"
      by auto
    have c: "unheld_chain L ?s i s1" and i: "i < 16"
      using canvas_acquire_inv [OF poll(1) a] by simp_all
    let ?begun = "entry_upd i (\<lambda>e. e\<lparr>ne_fence := Unsignaled\<rparr>) s1"
    let ?sub = "entry_upd i (\<lambda>e. e\<lparr>ne_fence := Pending\<rparr>) (entry_upd i (\<lambda>e. e\<lparr>ne_frame_number := frame,
        ne_content_frame_number := submitted_content frame content\<rparr>) (entry_upd i set_rendering ?begun))"
    have sub: "unheld_chain L ?s i ?sub"
      using c by (auto intro!: unheld_chain_upd' simp: set_rendering_def)
    have fin: "nc_inv L t \<and> keeps L s t" if "unheld_chain L ?s i t" for t
      using unheld_chain_inv [OF that] keeps_trans [OF poll(2)] by blast
    have prev: "nc_inv L (snd (sbs_compositor_submit_native_preview_from_entry vkp m frame k ?sub))
        \<and> keeps L s (snd (sbs_compositor_submit_native_preview_from_entry vkp m frame k ?sub))" for m k
      using submit_preview_inv [OF fin [OF sub, THEN conjunct1]] keeps_trans fin [OF sub] by blast
    have failed: "unheld_chain L ?s i (sbs_compositor_native_canvas_release_failed i t)" if "unheld_chain L ?s i t" for t
      using that i by (simp add: sbs_compositor_native_canvas_release_failed_def unheld_chain_upd')
    have shape: "unheld_chain L ?s i (?r s)"
      if "\<not> (ne_cmd_buffer (entry_at s1 i) \<and> vo_begin vk \<and> vo_end vk \<and> vo_submit vk)"
      using that True a c i
      by (auto simp: sbs_compositor_render_native_frame_def Let_def set_rendering_def
          sbs_compositor_native_canvas_mark_rendering_def intro!: failed unheld_chain_upd')
    show ?thesis
    proof (cases "ne_cmd_buffer (entry_at s1 i) \<and> vo_begin vk \<and> vo_end vk \<and> vo_submit vk")
      case False
      then show ?thesis
        using shape fin by blast
    next
      case ok: True
      then have "?r s = ?sub \<or> (\<exists>m k. ?r s = snd (sbs_compositor_submit_native_preview_from_entry vkp m frame k ?sub)
          \<or> ?r s = (snd (sbs_compositor_submit_native_preview_from_entry vkp m frame k ?sub))\<lparr>np_last_submit := frame\<rparr>)"
        using True a i
        by (auto simp: sbs_compositor_render_native_frame_def Let_def case_prod_unfold
            sbs_compositor_native_canvas_mark_rendering_def split: bool.splits)
      then show ?thesis
        using fin [OF sub] prev by (metis (no_types, lifting) nc_inv_simps(6) keeps_simps(6))
    qed
  qed
qed

lemma republish_preserves: "preserves (\<lambda>s. snd (sbs_compositor_native_canvas_republish_last vk frame s))"
proof (rule preservesI)
  fix L s assume inv: "nc_inv L s"
  let ?s = "sbs_compositor_native_preview_poll_ready (sbs_compositor_native_canvas_poll_ready s)"
  let ?p = "\<lambda>t i s. snd (sbs_compositor_native_canvas_mailbox_publish t i frame s)"
  have poll: "nc_inv L ?s" "keeps L s ?s"
    using canvas_poll_inv [OF inv] preview_poll_inv keeps_trans by blast+
  have pub: "nc_inv L (?p t i u) \<and> keeps L s (?p t i u)" if "nc_inv L u \<and> keeps L s u" for t i u
    using that publish_inv keeps_trans by blast
  have prev: "nc_inv L (snd (republish_preview vk i frame u)) \<and> keeps L s (snd (republish_preview vk i frame u))"
    if "nc_inv L u \<and> keeps L s u" for i u
  proof -
    let ?sub = "snd (sbs_compositor_submit_native_preview_from_entry vk (ne_color_mode (entry_at u i)) frame
        (ne_content_frame_number (entry_at u i)) u)"
    have "nc_inv L ?sub \<and> keeps L s ?sub"
      using that submit_preview_inv keeps_trans by blast
    then show ?thesis
      using that pub by (auto simp: republish_preview_def Let_def)
  qed
  show "nc_inv L (snd (sbs_compositor_native_canvas_republish_last vk frame s))
    \<and> keeps L s (snd (sbs_compositor_native_canvas_republish_last vk frame s))"
    using inv poll prev [OF pub [OF pub]]
    by (auto simp: sbs_compositor_native_canvas_republish_last_def Let_def case_prod_unfold)
qed

text \<open>A client takes the entry of a mailbox: its reference becomes a lease.\<close>

lemma mailbox_acquire_inv:
  assumes "nc_inv L s"
  shows "case sbs_compositor_native_canvas_mailbox_acquire t s of
      (None, s') \<Rightarrow> nc_inv L s' \<and> keeps L s s'
    | (Some (i, frame), s') \<Rightarrow> nc_inv (add_mset i L) s' \<and> keeps L s s'
        \<and> mb_view (nc_mailboxes s t) = [(i, frame)]"
proof (cases "mb_count (nc_mailboxes s t) = 0")
  case True
  have "nc_inv L (mailbox_upd t (\<lambda>m. m\<lparr>mb_has_entry := False, mb_late := mb_late m + 1\<rparr>) s)"
    using assms by (intro inv_move) (auto simp: nc_inv_def mb_wf_def mb_ids_def mb_view_def)
  then show ?thesis
    using True by (simp add: sbs_compositor_native_canvas_mailbox_acquire_def)
next
  case False
  let ?m = "nc_mailboxes s t"
  have wf: "mb_wf ?m"
    using assms by (simp add: nc_inv_def)
  have one: "mb_count ?m = 1"
    using mb_view_cases [OF wf] False by auto
  obtain i frame where x: "mb_entries ?m ! mb_read_idx ?m = (i, frame)"
    by fastforce
  have view: "mb_view ?m = [(i, frame)]"
    using mb_view_cases [OF wf] one x by simp
  have inv: "nc_inv (add_mset i L) (mailbox_upd t mb_take s)"
    using mb_take_wf [OF wf one] view by (intro inv_move [OF assms]) (simp_all add: mb_ids_def)
  then have "native_canvas_lookup_entry (mailbox_upd t mb_take s) i \<noteq> None"
    using lookup_held [OF inv, of i] by simp
  then show ?thesis
    using inv view x False by (auto simp: sbs_compositor_native_canvas_mailbox_acquire_def Let_def split: option.split)
qed

end
