(* ===== verification/Native_Canvas_Props.thy ===== *)
theory Native_Canvas_Props
  imports Native_Canvas_Inv
begin

text \<open>
  The teardown of the preview ring, the step relation of the compositor and its clients over the
  canvas rings, and the properties of the reachable states.
\<close>

section \<open>Tearing the preview ring down\<close>

lemma drain_inv:
  assumes "nc_inv L s"
  shows "nc_inv L (drain_mailbox t s) \<and> keeps L s (drain_mailbox t s)
    \<and> mb_view (nc_mailboxes (drain_mailbox t s) t) = []
    \<and> (\<forall>t'. t' \<noteq> t \<longrightarrow> nc_mailboxes (drain_mailbox t s) t' = nc_mailboxes s t')"
proof -
  let ?m = "nc_mailboxes s t"
  have wf: "mb_wf ?m"
    using assms by (simp add: nc_inv_def)
  let ?i = "fst (mb_entries ?m ! mb_read_idx ?m)"
  let ?u = "drain_loop (mb_count ?m) t s"
  have u: "nc_inv L ?u \<and> keeps L s ?u \<and> mb_view (nc_mailboxes ?u t) = []
      \<and> (\<forall>t'. t' \<noteq> t \<longrightarrow> nc_mailboxes ?u t' = nc_mailboxes s t')"
  proof (cases "mb_count ?m = 0")
    case True
    then show ?thesis
      using assms mb_view_cases [OF wf] by simp
  next
    case False
    then have one: "mb_count ?m = 1" and view: "mb_view ?m = [mb_entries ?m ! mb_read_idx ?m]"
      using mb_view_cases [OF wf] by auto
    have "nc_inv (add_mset ?i L) (mailbox_upd t mb_advance s)"
      using mb_advance_wf [OF wf one] view by (intro inv_move [OF assms]) (simp_all add: mb_ids_def)
    from unref_inv [OF this] show ?thesis
      using mb_advance_wf [OF wf one] by (simp add: one mailbox_upd_fields Let_def)
  qed
  have "nc_inv L (mailbox_upd t (\<lambda>m. m\<lparr>mb_has_entry := False\<rparr>) ?u)"
    using u by (intro inv_move) (auto simp: nc_inv_def mb_wf_def mb_ids_def mb_view_def)
  then show ?thesis
    using u by (simp add: drain_mailbox_def mailbox_upd_fields mb_view_def)
qed

lemma releases_inv:
  "nc_inv (mset r + L) s \<Longrightarrow> nc_inv L (fold sbs_compositor_native_canvas_mailbox_release r s)
    \<and> keeps L s (fold sbs_compositor_native_canvas_mailbox_release r s)
    \<and> nc_mailboxes (fold sbs_compositor_native_canvas_mailbox_release r s) = nc_mailboxes s"
proof (induction r arbitrary: s)
  case Nil
  then show ?case by simp
next
  case (Cons i r)
  let ?s = "sbs_compositor_native_canvas_unref i s"
  have "nc_inv (mset r + L) ?s" "keeps (mset r + L) s ?s"
    using unref_inv [of i "mset r + L" s] Cons.prems by simp_all
  then show ?case
    using Cons.IH [of ?s] keeps_mono [of "mset r + L" s ?s L] keeps_trans [of L s ?s]
    by (simp add: sbs_compositor_native_canvas_mailbox_release_def)
qed

lemma wait_inv:
  assumes "wait_native_preview_refs_released n rels s = (late, done, s')" "nc_inv (mset done + L) s"
  shows "nc_inv L s' \<and> keeps L s s' \<and> nc_mailboxes s' = nc_mailboxes s
    \<and> (\<not> late \<longrightarrow> list_all (\<lambda>e. ne_refcount e = 0) (np_entries s'))"
  using assms
proof (induction n rels s arbitrary: "done" L rule: wait_native_preview_refs_released.induct)
  case (1 n rels s)
  consider "n = 0" | "n \<noteq> 0" "\<not> list_ex (\<lambda>e. ne_refcount e > 0) (np_entries s)"
    | "n \<noteq> 0" "list_ex (\<lambda>e. ne_refcount e > 0) (np_entries s)"
    by blast
  then show ?case
  proof cases
    case 1
    then show ?thesis
      using "1.prems" by (simp add: wait_native_preview_refs_released.simps [of 0])
  next
    case 2
    then show ?thesis
      using "1.prems" by (simp add: wait_native_preview_refs_released.simps [of n] list_ex_iff list_all_iff)
  next
    case busy: 3
    show ?thesis
    proof (cases rels)
      case Nil
      then show ?thesis
        using "1.IH"(1) [of "done" L] busy "1.prems" by (simp add: wait_native_preview_refs_released.simps [of n])
    next
      case (Cons r rels')
      let ?s = "fold sbs_compositor_native_canvas_mailbox_release r s"
      obtain done' where w: "wait_native_preview_refs_released (n - 1) rels' ?s = (late, done', s')"
        and d: "done = r @ done'"
        using "1.prems"(1) busy Cons
        by (auto simp: wait_native_preview_refs_released.simps [of n] split: prod.splits)
      have r: "nc_inv (mset done' + L) ?s" "keeps (mset done' + L) s ?s" "nc_mailboxes ?s = nc_mailboxes s"
        using releases_inv [of r "mset done' + L" s] "1.prems"(2) d by (simp_all add: ac_simps)
      show ?thesis
        using "1.IH"(2) [of r rels' done' L] busy Cons w r keeps_mono [OF r(2), of L] keeps_trans [of L s ?s s']
        by simp
    qed
  qed
qed

lemma inv_new_preview:
  assumes "nc_inv L s" "\<And>i. i \<in># L + mailbox_ids s \<Longrightarrow> i < 16"
    and "nc_mailboxes s' = nc_mailboxes s" "nc_entries s' = nc_entries s"
    and "length (np_entries s') = 16" "list_all (\<lambda>e. ne_refcount e = 0) (np_entries s')"
  shows "nc_inv L s' \<and> keeps L s s' \<and> (\<forall>i. i \<in># L + mailbox_ids s' \<longrightarrow> i < 16)"
proof -
  have ids: "mailbox_ids s' = mailbox_ids s"
    using assms(3) by (simp add: mailbox_ids_def)
  have low: "entry_at s' i = entry_at s i" if "i < 16" for i
    using that assms(4) by (simp add: entry_at_def)
  have high: "ne_refcount (entry_at s' i) = 0 \<and> count (L + mailbox_ids s) i = 0" if "\<not> i < 16" "i < 32" for i
  proof -
    have "np_entries s' ! (i - 16) \<in> set (np_entries s')"
      using that assms(5) by simp
    moreover have "i \<notin># L + mailbox_ids s"
      using assms(2) that by blast
    ultimately show ?thesis
      using assms(6) that by (auto simp: entry_at_def list_all_iff not_in_iff)
  qed
  have "\<forall>i < 32. ne_refcount (entry_at s' i) = count (L + mailbox_ids s) i
      \<and> (i \<in># L + mailbox_ids s \<longrightarrow> ne_state (entry_at s' i) = ENTRY_READY)"
  proof (intro allI impI)
    fix i :: nat assume i: "i < 32"
    show "ne_refcount (entry_at s' i) = count (L + mailbox_ids s) i
      \<and> (i \<in># L + mailbox_ids s \<longrightarrow> ne_state (entry_at s' i) = ENTRY_READY)"
      using assms(1) low high [of i] i by (cases "i < 16") (auto simp: nc_inv_def count_eq_zero_iff)
  qed
  moreover have "\<forall>i. i \<in># L + mailbox_ids s \<longrightarrow> i < 32 \<and> (16 \<le> i \<longrightarrow> np_initialized s')"
    using assms(2) by fastforce
  ultimately have "nc_inv L s'"
    using assms(1,3,4,5) unfolding nc_inv_def ids by simp
  moreover have "keeps L s s'"
    using assms(2) low by (auto simp: keeps_def same_content_def fixed_entry_def)
  ultimately show ?thesis
    using assms(2) ids by simp
qed

lemma destroy_inv:
  assumes "destroy_native_preview_ring rels s = (False, done, s')" "nc_inv (mset done + L) s"
  shows "nc_inv L s' \<and> keeps L s s' \<and> \<not> np_initialized s' \<and> (\<forall>i. i \<in># L + mailbox_ids s' \<longrightarrow> i < 16)"
proof -
  let ?d = "drain_mailbox MAILBOX_PREVIEW s"
  have d: "nc_inv (mset done + L) ?d" "keeps (mset done + L) s ?d"
    using drain_inv [OF assms(2), of MAILBOX_PREVIEW] by simp_all
  obtain u where w: "wait_native_preview_refs_released 500 rels ?d = (False, done, u)"
    and s': "s' = u\<lparr>np_entries := map destroy_native_canvas_entry (np_entries u), np_initialized := False,
             np_width := 0, np_height := 0, np_interval := 0, np_last_submit := 0,
             np_color_mode := SBS_EXPORT_COLOR_SDR, np_write_idx := 0, np_last_rendered := UINT32_MAX\<rparr>"
    using assms(1) by (auto simp: destroy_native_preview_ring_def split: prod.splits)
  have u: "nc_inv L u" "keeps L ?d u" "list_all (\<lambda>e. ne_refcount e = 0) (np_entries u)"
    using wait_inv [OF w d(1)] by simp_all
  have low: "i < 16" if i: "i \<in># L + mailbox_ids u" for i
  proof (rule ccontr)
    assume "\<not> i < 16"
    moreover have "i < 32" "ne_refcount (entry_at u i) \<noteq> 0" "length (np_entries u) = 16"
      using u(1) i by (auto simp: nc_inv_def)
    ultimately have "ne_refcount (np_entries u ! (i - 16)) \<noteq> 0" "np_entries u ! (i - 16) \<in> set (np_entries u)"
      by (simp_all add: entry_at_def)
    then show False
      using u(3) by (auto simp: list_all_iff)
  qed
  have "list_all (\<lambda>e. ne_refcount e = 0) (np_entries s')" "length (np_entries s') = 16"
    using u(1) by (auto simp: s' list_all_iff destroy_native_canvas_entry_def nc_inv_def)
  then have "nc_inv L s' \<and> keeps L u s' \<and> (\<forall>i. i \<in># L + mailbox_ids s' \<longrightarrow> i < 16)"
    using low by (intro inv_new_preview [OF u(1)]) (simp_all add: s')
  then show ?thesis
    using s' keeps_trans [OF keeps_trans [OF keeps_mono [OF d(2), of L] u(2)], of s'] by simp
qed

lemma wait_no_release:
  "wait_native_preview_refs_released n [] s
    = (n = 0 \<or> list_ex (\<lambda>e. ne_refcount e > 0) (np_entries s), [], s)"
  by (induction n) (auto simp: wait_native_preview_refs_released.simps [of 0]
      wait_native_preview_refs_released.simps [of "Suc _"])

lemma wait_code [code]:
  "wait_native_preview_refs_released n rels s =
     (case rels of
        [] \<Rightarrow> (n = 0 \<or> list_ex (\<lambda>e. ne_refcount e > 0) (np_entries s), [], s)
      | r # rels \<Rightarrow>
          (if n = 0 then (True, [], s)
           else if \<not> list_ex (\<lambda>e. ne_refcount e > 0) (np_entries s) then (False, [], s)
           else case wait_native_preview_refs_released (n - 1) rels
                  (fold sbs_compositor_native_canvas_mailbox_release r s) of
             (late, done, s) \<Rightarrow> (late, r @ done, s)))"
  by (cases rels) (simp_all add: wait_no_release wait_native_preview_refs_released.simps [of n]
      wait_native_preview_refs_released.simps [of 0])

lemma drain_preview_low:
  assumes "nc_inv L s" "\<And>i. i \<in># L + mailbox_ids s \<Longrightarrow> i < 16" "i \<in># L + mailbox_ids (drain_mailbox MAILBOX_PREVIEW s)"
  shows "i < 16"
  using assms(2) [of i] assms(3) drain_inv [OF assms(1), of MAILBOX_PREVIEW]
  by (auto simp: mailbox_ids_def mb_ids_def)

lemma destroy_unused_inv:
  assumes "nc_inv L s" "\<And>i. i \<in># L + mailbox_ids s \<Longrightarrow> i < 16"
  shows "nc_inv L (snd (snd (destroy_native_preview_ring [] s)))
    \<and> keeps L s (snd (snd (destroy_native_preview_ring [] s)))"
proof -
  let ?d = "drain_mailbox MAILBOX_PREVIEW s"
  have d: "nc_inv L ?d" "keeps L s ?d" and low: "\<And>i. i \<in># L + mailbox_ids ?d \<Longrightarrow> i < 16"
    using drain_inv [OF assms(1)] drain_preview_low [OF assms] by simp_all
  obtain late where w: "wait_native_preview_refs_released 500 [] ?d = (late, [], ?d)"
    using wait_no_release [of 500 ?d] by simp
  let ?s' = "snd (snd (destroy_native_preview_ring [] s))"
  have s': "?s' = ?d\<lparr>np_entries := map destroy_native_canvas_entry (np_entries ?d), np_initialized := False,
             np_width := 0, np_height := 0, np_interval := 0, np_last_submit := 0,
             np_color_mode := SBS_EXPORT_COLOR_SDR, np_write_idx := 0, np_last_rendered := UINT32_MAX\<rparr>"
    using w by (simp add: destroy_native_preview_ring_def)
  have "length (np_entries ?d) = 16"
    using d(1) by (simp add: nc_inv_def)
  then have "nc_inv L ?s' \<and> keeps L ?d ?s'"
    using inv_new_preview [OF d(1) low, of ?s'] unfolding s'
    by (simp add: list_all_iff destroy_native_canvas_entry_def)
  then show ?thesis
    using keeps_trans [OF d(2)] by blast
qed

lemma create_preview_inv:
  assumes "nc_inv L s" "\<And>i. i \<in># L + mailbox_ids s \<Longrightarrow> i < 16"
  shows "nc_inv L (snd (create_native_preview_ring oks w h iv mode s))
    \<and> keeps L s (snd (create_native_preview_ring oks w h iv mode s))"
proof -
  let ?f = "s\<lparr>np_entries := map (create_preview_entry mode) (np_entries s)\<rparr>"
  have len: "length (np_entries s) = 16"
    using assms(1) by (simp add: nc_inv_def)
  have f: "nc_inv L ?f \<and> keeps L s ?f \<and> (\<forall>i. i \<in># L + mailbox_ids ?f \<longrightarrow> i < 16)"
    using len by (intro inv_new_preview [OF assms])
      (simp_all add: list_all_iff create_preview_entry_def destroy_native_canvas_entry_def)
  let ?g = "?f\<lparr>np_width := w, np_height := h,
                   np_interval := (if iv > 0 then iv else 1), np_last_submit := 0,
                   np_color_mode := mode, np_write_idx := 0, np_last_rendered := UINT32_MAX,
                   np_initialized := True\<rparr>"
  have "nc_inv L ?g \<and> keeps L s ?g \<and> (\<forall>i. i \<in># L + mailbox_ids ?g \<longrightarrow> i < 16)"
    using len by (intro inv_new_preview [OF assms])
      (simp_all add: list_all_iff create_preview_entry_def destroy_native_canvas_entry_def)
  moreover have "nc_inv L (snd (snd (destroy_native_preview_ring [] ?f)))
      \<and> keeps L s (snd (snd (destroy_native_preview_ring [] ?f)))"
    using destroy_unused_inv [of L ?f] f keeps_trans by blast
  ultimately show ?thesis
    using assms(1) by (simp add: create_native_preview_ring_def Let_def)
qed

lemma no_preview_low: "nc_inv L s \<Longrightarrow> \<not> np_initialized s \<Longrightarrow> i \<in># L + mailbox_ids s \<Longrightarrow> i < 16"
  by (meson nc_inv_def not_le)

lemma configure_inv:
  assumes "sbs_compositor_configure_native_preview oks rels w h iv mode s = ((ok, False, done), s')"
    and "nc_inv (mset done + L) s"
  shows "nc_inv L s' \<and> keeps L s s'"
proof -
  note def = sbs_compositor_configure_native_preview_def [of oks rels w h iv mode s]
  obtain late rs u where d: "destroy_native_preview_ring rels s = (late, rs, u)"
    by (metis prod_cases3)
  have unchanged: ?thesis if "done = []" "s' = s \<or> s' = s\<lparr>np_interval := (if iv > 0 then iv else 1)\<rparr>"
    using that assms(2) by (elim disjE) simp_all
  show ?thesis
  proof (cases "nc_initialized s \<and> np_initialized s")
    case True
    then have "s' = s \<and> done = [] \<or> s' = s\<lparr>np_interval := (if iv > 0 then iv else 1)\<rparr> \<and> done = []
        \<or> late = False \<and> done = rs \<and> s' = u
        \<or> late = False \<and> done = rs \<and> s' = snd (create_native_preview_ring oks w h iv mode u)"
      using assms(1) unfolding def d by (simp add: case_prod_unfold split: if_splits)
    moreover have "nc_inv L u \<and> keeps L s u \<and> (\<forall>i. i \<in># L + mailbox_ids u \<longrightarrow> i < 16)" if "\<not> late" "done = rs"
      using destroy_inv [of rels s rs u L] d assms(2) that by simp
    ultimately show ?thesis
      using unchanged create_preview_inv [of L u oks w h iv mode] keeps_trans by blast
  next
    case False
    then have "s' = s \<and> done = []
        \<or> nc_initialized s \<and> done = [] \<and> s' = snd (create_native_preview_ring oks w h iv mode s)"
      using assms(1) unfolding def by (simp add: case_prod_unfold split: if_splits)
    then show ?thesis
      using create_preview_inv [of L s oks w h iv mode] no_preview_low [of L s] assms(2) unchanged False by auto
  qed
qed

section \<open>The compositor and its clients\<close>

text \<open>
  One step of the compositor thread, of a client or of the GPU; the multiset holds the leases the
  clients have. A client only releases leases it has. The step for \<open>configure\<close> is the one in which
  the wait for the preview leases does not time out.
\<close>

definition gpu_finish :: "nat \<Rightarrow> native_comp \<Rightarrow> native_comp" where
  "gpu_finish i s = (if ne_fence (entry_at s i) = Pending then entry_upd i (\<lambda>e. e\<lparr>ne_fence := Signaled\<rparr>) s else s)"

inductive nc_step :: "nat multiset \<times> native_comp \<Rightarrow> nat multiset \<times> native_comp \<Rightarrow> bool" where
  Render: "nc_step (L, s) (L, snd (sbs_compositor_render_native_frame vk vkp frame content s))"
| Republish: "nc_step (L, s) (L, snd (sbs_compositor_native_canvas_republish_last vk frame s))"
| Mailbox_empty: "sbs_compositor_native_canvas_mailbox_acquire t s = (None, s') \<Longrightarrow> nc_step (L, s) (L, s')"
| Mailbox_taken: "sbs_compositor_native_canvas_mailbox_acquire t s = (Some (i, frame), s')
    \<Longrightarrow> nc_step (L, s) (add_mset i L, s')"
| Release: "nc_step (add_mset i L, s) (L, sbs_compositor_native_canvas_mailbox_release i s)"
| Hold: "sbs_compositor_native_canvas_ref i s = (True, s') \<Longrightarrow> nc_step (L, s) (add_mset i L, s')"
| Configure: "sbs_compositor_configure_native_preview oks rels w h iv mode s = ((ok, False, done), s')
    \<Longrightarrow> nc_step (mset done + L, s) (L, s')"
| Poll: "nc_step (L, s) (L, sbs_compositor_native_canvas_poll_ready s)"
| Gpu: "i < 32 \<Longrightarrow> ne_state (entry_at s i) = ENTRY_RENDERING \<Longrightarrow> nc_step (L, s) (L, gpu_finish i s)"

inductive nc_reach :: "native_comp \<Rightarrow> nat multiset \<times> native_comp \<Rightarrow> bool" for s0 where
  Start: "nc_reach s0 ({#}, s0)"
| Step: "nc_reach s0 x \<Longrightarrow> nc_step x y \<Longrightarrow> nc_reach s0 y"

lemma step_inv:
  assumes "nc_step (L, s) (L', s')" "nc_inv L s"
  shows "nc_inv L' s' \<and> keeps (L \<inter># L') s s'"
proof -
  have sub: "L \<inter># L' \<subseteq># L" "L \<inter># L' \<subseteq># L'"
    by simp_all
  show ?thesis
    using assms(1)
  proof (cases rule: nc_step.cases)
    case (Render vk vkp frame content)
    then show ?thesis
      using preservesD [OF render_preserves assms(2)] by simp
  next
    case (Republish vk frame)
    then show ?thesis
      using preservesD [OF republish_preserves assms(2)] by simp
  next
    case (Mailbox_empty t)
    then show ?thesis
      using mailbox_acquire_inv [OF assms(2), of t] by simp
  next
    case (Mailbox_taken t i frame)
    then show ?thesis
      using mailbox_acquire_inv [OF assms(2), of t] keeps_mono [OF _ sub(1)] by simp
  next
    case (Release i)
    then show ?thesis
      using unref_inv [of i L' s] assms(2) keeps_mono [OF _ sub(2)]
      by (simp add: sbs_compositor_native_canvas_mailbox_release_def)
  next
    case (Hold i)
    then show ?thesis
      using ref_inv [OF assms(2), of i s'] keeps_mono [OF _ sub(1)] by simp
  next
    case (Configure oks rels w h iv mode ok "done")
    then show ?thesis
      using configure_inv [of oks rels w h iv mode s ok "done" s' L'] assms(2) keeps_mono [OF _ sub(2)] by simp
  next
    case Poll
    then show ?thesis
      using canvas_poll_inv [OF assms(2)] by simp
  next
    case (Gpu i)
    then have "ne_refcount (entry_at s i) = 0"
      using busy_unheld [OF assms(2)] by simp
    then show ?thesis
      using Gpu inv_entry [OF assms(2), of i "\<lambda>e. e\<lparr>ne_fence := Signaled\<rparr>"] assms(2)
      by (simp add: gpu_finish_def dead_entry_def)
  qed
qed

lemma reach_inv: "nc_reach s0 x \<Longrightarrow> nc_inv {#} s0 \<Longrightarrow> nc_inv (fst x) (snd x)"
proof (induction rule: nc_reach.induct)
  case Start
  then show ?case by simp
next
  case (Step x y)
  then show ?case
    using step_inv [of "fst x" "snd x" "fst y" "snd y"] by simp
qed

section \<open>The start\<close>

definition unused_entry :: nc_entry where
  "unused_entry = \<lparr>ne_color_mode = SBS_EXPORT_COLOR_SDR, ne_fence = No_fence, ne_cmd_buffer = True,
     ne_refcount = 0, ne_state = ENTRY_FREE, ne_frame_number = 0, ne_content_frame_number = 0,
     ne_allocated = False\<rparr>"

definition blank_comp :: native_comp where
  "blank_comp = \<lparr>nc_initialized = False, nc_write_idx = 0, nc_current_entry = 0, nc_last_rendered = 0,
     nc_entries = replicate 16 unused_entry, nc_mb_preview = empty_mailbox,
     nc_mb_output = empty_mailbox, nc_mb_snapshot = empty_mailbox,
     np_initialized = False, np_width = 0, np_height = 0, np_interval = 0, np_last_submit = 0,
     np_color_mode = SBS_EXPORT_COLOR_SDR, np_write_idx = 0, np_last_rendered = 0,
     np_entries = replicate 16 unused_entry\<rparr>"

definition started :: "export_color_mode \<Rightarrow> native_comp" where
  "started mode = create_native_canvas_ring mode blank_comp"

lemma started_inv: "nc_inv {#} (started mode)"
proof -
  have "ne_refcount (entry_at (started mode) i) = 0" if "i < 32" for i
    using that by (simp add: entry_at_def started_def create_native_canvas_ring_def blank_comp_def
        create_preview_entry_def destroy_native_canvas_entry_def unused_entry_def)
  then show ?thesis
    by (simp add: nc_inv_def started_def create_native_canvas_ring_def blank_comp_def mailbox_ids_def
        mb_ids_def mb_view_def mb_wf_def empty_mailbox_def nc_mailboxes_def split: mailbox_type.split)
qed

lemma reachable_inv: "nc_reach (started mode) (L, s) \<Longrightarrow> nc_inv L s"
  using reach_inv [of "started mode" "(L, s)"] started_inv by simp

section \<open>Properties\<close>


definition all_ok :: vk_outcome where
  "all_ok = \<lparr>vo_pipeline = True, vo_descriptors = True, vo_begin = True, vo_end = True, vo_submit = True\<rparr>"

abbreviation render_ok :: "u64 \<Rightarrow> native_comp \<Rightarrow> native_comp" where
  "render_ok frame s \<equiv> snd (sbs_compositor_render_native_frame all_ok all_ok frame frame s)"


text \<open>
  A consumer gets the newest frame and gets it once: in every reachable state, when the
  compositor has published a frame in a mailbox, the next acquire answers with it and the one after
  that answers that there is none.
\<close>

theorem mailbox_delivers_newest_once:
  assumes "nc_reach (started mode) (L, s)"
    and "sbs_compositor_native_canvas_mailbox_publish t i frame s = (True, s')"
  shows "fst (sbs_compositor_native_canvas_mailbox_acquire t s') = Some (i, frame)
    \<and> fst (sbs_compositor_native_canvas_mailbox_acquire t
         (snd (sbs_compositor_native_canvas_mailbox_acquire t s'))) = None"
proof -
  have inv: "nc_inv L s"
    using reachable_inv [OF assms(1)] .
  have inv': "nc_inv L s'"
    using publish_inv [OF inv, of t i frame] assms(2) by simp
  obtain s1 where r: "sbs_compositor_native_canvas_ref i s = (True, s1)"
    using assms(2) by (auto simp: sbs_compositor_native_canvas_mailbox_publish_def split: bool.splits prod.splits)
  have m: "nc_mailboxes s' t = mb_put (i, frame) (nc_mailboxes s t)"
    using assms(2) r ref_inv [OF inv r]
    by (auto simp: sbs_compositor_native_canvas_mailbox_publish_def Let_def mailbox_upd_fields split: option.splits)
  have "mb_wf (nc_mailboxes s t)"
    using inv by (simp add: nc_inv_def)
  then have view: "mb_view (nc_mailboxes s' t) = [(i, frame)]"
    using mb_put_wf m by metis
  have wf: "mb_wf (nc_mailboxes s' t)" and one: "mb_count (nc_mailboxes s' t) = 1"
    using mb_view_cases [of "nc_mailboxes s' t"] inv' view by (auto simp: nc_inv_def)
  have x: "mb_entries (nc_mailboxes s' t) ! mb_read_idx (nc_mailboxes s' t) = (i, frame)"
    using mb_view_cases [OF wf] one view by simp
  have "i \<in># mailbox_ids s'"
    using view by (cases t) (auto simp: mailbox_ids_def mb_ids_def)
  then have look: "native_canvas_lookup_entry (mailbox_upd t mb_take s') i \<noteq> None"
    using inv' by (auto simp: nc_inv_def native_canvas_lookup_entry_def mailbox_upd_fields)
  then have a: "sbs_compositor_native_canvas_mailbox_acquire t s' = (Some (i, frame), mailbox_upd t mb_take s')"
    using x one by (auto simp: sbs_compositor_native_canvas_mailbox_acquire_def split: option.splits)
  have "mb_count (mb_take (nc_mailboxes s' t)) = 0"
    using mb_take_wf [OF wf one] mb_view_cases [of "mb_take (nc_mailboxes s' t)"] by auto
  then show ?thesis
    using a by (simp add: sbs_compositor_native_canvas_mailbox_acquire_def mailbox_upd_fields)
qed

definition ready_start :: native_comp where
  "ready_start = sbs_compositor_native_canvas_poll_ready (gpu_finish 0 (render_ok 7 (started SBS_EXPORT_COLOR_SDR)))"

lemma mailbox_delivers_newest_once_witness:
  "\<exists>s'. sbs_compositor_native_canvas_mailbox_publish MAILBOX_OUTPUT 0 9 ready_start = (True, s')
    \<and> fst (sbs_compositor_native_canvas_mailbox_acquire MAILBOX_OUTPUT s') = Some (0, 9)"
proof -
  let ?r = "render_ok 7 (started SBS_EXPORT_COLOR_SDR)"
  have rendering: "ne_state (entry_at ?r 0) = ENTRY_RENDERING" and ready: "ne_state (entry_at ready_start 0) = ENTRY_READY"
    by code_simp+
  have "nc_reach (started SBS_EXPORT_COLOR_SDR) ({#}, ?r)"
    by (rule nc_reach.Step [OF nc_reach.Start nc_step.Render])
  then have g: "nc_reach (started SBS_EXPORT_COLOR_SDR) ({#}, gpu_finish 0 ?r)"
    by (rule nc_reach.Step) (rule nc_step.Gpu, simp, rule rendering)
  have reach: "nc_reach (started SBS_EXPORT_COLOR_SDR) ({#}, ready_start)"
    unfolding ready_start_def by (rule nc_reach.Step [OF g]) (rule nc_step.Poll)
  obtain s' where p: "sbs_compositor_native_canvas_mailbox_publish MAILBOX_OUTPUT 0 9 ready_start = (True, s')"
    using ready by (simp add: sbs_compositor_native_canvas_mailbox_publish_def sbs_compositor_native_canvas_ref_def
        native_canvas_lookup_entry_def Let_def)
  show ?thesis
    using mailbox_delivers_newest_once [OF reach p] p by simp
qed

text \<open>
  The compositor can render whenever it may: an acquire fails only when every canvas entry is
  unallocated, referenced, rendering or has an unsignalled fence.
\<close>

theorem canvas_acquire_is_complete:
  "sbs_compositor_native_canvas_acquire s \<noteq> None \<longleftrightarrow>
     nc_initialized s \<and> (\<exists>i < NC_RING_SIZE. acquirable (entry_at s i))"
proof -
  have "set (ring_scan w) = {0..<16}" for w
  proof
    show "{0..<16} \<subseteq> set (ring_scan w)"
      using ring_index_surj [of "w mod 16" 16] by (fastforce simp: ring_scan_def mod_add_left_eq)
  qed (auto simp: ring_scan_def)
  then have "find (\<lambda>i. acquirable (entry_at s i)) (ring_scan w) = None
      \<longleftrightarrow> \<not> (\<exists>i < 16. acquirable (entry_at s i))" for w
    by (auto simp: find_eq_None_iff)
  from this [of "nc_write_idx s"] show ?thesis
    by (cases "find (\<lambda>i. acquirable (entry_at s i)) (ring_scan (nc_write_idx s))")
      (auto simp: sbs_compositor_native_canvas_acquire_def)
qed

lemma dead_forever:
  assumes "nc_step\<^sup>*\<^sup>* (L, s) (L', s')" "nc_inv L s" "i < 16" "dead_entry (entry_at s i)"
  shows "nc_inv L' s' \<and> same_content (entry_at s i) (entry_at s' i)"
proof -
  have "nc_inv (fst y) (snd y) \<and> same_content (entry_at s i) (entry_at (snd y) i)"
    if "nc_step\<^sup>*\<^sup>* (L, s) y" for y
    using that
  proof (induction rule: rtranclp_induct)
    case base
    then show ?case
      using assms(2) by (simp add: same_content_def)
  next
    case (step x y)
    have "fixed_entry (fst x \<inter># fst y) (snd x) i"
      using step.IH assms(3,4) by (simp add: fixed_entry_def dead_entry_def same_content_def)
    then have "same_content (entry_at (snd x) i) (entry_at (snd y) i)"
      using step_inv [of "fst x" "snd x" "fst y" "snd y"] step by (simp add: keeps_def)
    then show ?case
      using step_inv [of "fst x" "snd x" "fst y" "snd y"] step by (simp add: same_content_def)
  qed
  from this [OF assms(1)] show ?thesis
    by simp
qed

text \<open>
  A failed submission loses its canvas entry: when a Vulkan call after \<open>vkResetFences\<close> fails,
  the entry is marked free with a reset fence that nothing signals any more, and no later sequence
  of steps ever renders into it again.
\<close>

theorem failed_submission_loses_entry:
  assumes "nc_reach (started mode) (L, s)" "sbs_compositor_native_canvas_acquire s = Some (i, t)"
    and "nc_step\<^sup>*\<^sup>* (L, sbs_compositor_native_canvas_release_failed i
          (entry_upd i (\<lambda>e. e\<lparr>ne_fence := Unsignaled\<rparr>) t)) (L', s')"
  shows "\<not> acquirable (entry_at s' i) \<and> ne_state (entry_at s' i) = ENTRY_FREE"
proof -
  have inv: "nc_inv L s"
    using reachable_inv [OF assms(1)] .
  let ?b = "entry_upd i (\<lambda>e. e\<lparr>ne_fence := Unsignaled\<rparr>) t"
  let ?f = "sbs_compositor_native_canvas_release_failed i ?b"
  have c: "unheld_chain L s i t" and i: "i < 16"
    using canvas_acquire_inv [OF inv assms(2)] by simp_all
  have f: "unheld_chain L s i ?f"
    using c i by (auto simp: sbs_compositor_native_canvas_release_failed_def intro!: unheld_chain_upd')
  have len: "length (nc_entries t) = 16" "length (np_entries t) = 16"
    using c by (simp_all add: unheld_chain_def nc_inv_def)
  have "dead_entry (entry_at ?f i)"
    using i len by (simp add: sbs_compositor_native_canvas_release_failed_def entry_at_upd dead_entry_def)
  then have "dead_entry (entry_at s' i)"
    using dead_forever [OF assms(3) _ i] f by (auto simp: unheld_chain_def dead_entry_def same_content_def)
  then show ?thesis
    by (simp add: dead_entry_def acquirable_def vkGetFenceStatus_ok_def)
qed

lemma failed_submission_loses_entry_witness:
  "\<exists>t. sbs_compositor_native_canvas_acquire (started SBS_EXPORT_COLOR_SDR) = Some (0, t)
    \<and> \<not> acquirable (entry_at (sbs_compositor_native_canvas_release_failed 0
          (entry_upd 0 (\<lambda>e. e\<lparr>ne_fence := Unsignaled\<rparr>) t)) 0)"
proof -
  have "map_option fst (sbs_compositor_native_canvas_acquire (started SBS_EXPORT_COLOR_SDR)) = Some 0"
    by code_simp
  then obtain t where t: "sbs_compositor_native_canvas_acquire (started SBS_EXPORT_COLOR_SDR) = Some (0, t)"
    by auto
  show ?thesis
    using failed_submission_loses_entry [OF nc_reach.Start t rtranclp.rtrancl_refl] t by blast
qed

definition two_late_frames :: native_comp where
  "two_late_frames = gpu_finish 0 (gpu_finish 15
     (render_ok 11 (render_ok 10 ((started SBS_EXPORT_COLOR_SDR)\<lparr>nc_write_idx := 15\<rparr>))))"

text \<open>
  Two frames that finish between two polls are published in the order of their ring entries,
  not of their numbers: here frame 11 (entry 0) is published first and then dropped for the older
  frame 10 (entry 15), which the output gets.
\<close>

theorem poll_publishes_older_frame_last:
  "fst (sbs_compositor_native_canvas_mailbox_acquire MAILBOX_OUTPUT
       (sbs_compositor_native_canvas_poll_ready two_late_frames)) = Some (15, 10)
    \<and> mb_dropped (nc_mailboxes (sbs_compositor_native_canvas_poll_ready two_late_frames) MAILBOX_OUTPUT) = 1"
  by code_simp

text \<open>
  When the clients keep a preview entry for longer than the teardown waits, the entry is
  destroyed and set up anew under them: its reference is forgotten, and the compositor may render
  into it at once.
\<close>

theorem timed_out_teardown_forgets_leases:
  assumes "sbs_compositor_configure_native_preview oks rels w h iv mode s = ((True, True, done), s')"
    and "w \<noteq> 0" "h \<noteq> 0" "16 \<le> i" "i < 32" "length (np_entries s') = 16"
  shows "ne_refcount (entry_at s' i) = 0 \<and> acquirable (entry_at s' i)"
proof -
  obtain u where "create_native_preview_ring oks w h iv mode u = (True, s')"
    using assms(1-3)
    by (auto simp: sbs_compositor_configure_native_preview_def split: if_splits prod.splits)
  then have "np_entries s' = map (create_preview_entry mode) (np_entries u)"
    by (auto simp: create_native_preview_ring_def Let_def split: if_splits)
  then have "\<exists>e. entry_at s' i = create_preview_entry mode e"
    using assms(4-6) by (auto simp: entry_at_def)
  then show ?thesis
    by (auto simp: create_preview_entry_def destroy_native_canvas_entry_def acquirable_def vkGetFenceStatus_ok_def)
qed

lemma timed_out_teardown_forgets_leases_witness:
  "\<exists>s'. sbs_compositor_configure_native_preview [] [] 320 180 1 SBS_EXPORT_COLOR_SDR
      ((started SBS_EXPORT_COLOR_SDR)\<lparr>np_initialized := True, np_width := 640, np_height := 360,
         np_entries := replicate 16 (unused_entry\<lparr>ne_refcount := 1, ne_state := ENTRY_READY\<rparr>)\<rparr>)
    = ((True, True, []), s') \<and> acquirable (entry_at s' 16)"
proof -
  let ?s = "(started SBS_EXPORT_COLOR_SDR)\<lparr>np_initialized := True, np_width := 640, np_height := 360,
         np_entries := replicate 16 (unused_entry\<lparr>ne_refcount := 1, ne_state := ENTRY_READY\<rparr>)\<rparr>"
  have d: "drain_mailbox MAILBOX_PREVIEW ?s = mailbox_upd MAILBOX_PREVIEW (\<lambda>m. m\<lparr>mb_has_entry := False\<rparr>) ?s"
    by (simp add: drain_mailbox_def nc_mailboxes_def started_def create_native_canvas_ring_def empty_mailbox_def)
  have fields: "np_entries ?s = replicate 16 (unused_entry\<lparr>ne_refcount := 1, ne_state := ENTRY_READY\<rparr>)"
    "nc_initialized ?s" "np_initialized ?s" "np_width ?s = 640"
    by (simp_all add: started_def create_native_canvas_ring_def)
  obtain u where u: "destroy_native_preview_ring [] ?s = (True, [], u)" "nc_initialized u" "length (np_entries u) = 16"
    using fields by (simp add: destroy_native_preview_ring_def d wait_no_release mailbox_upd_def list_ex_iff
        Let_def del: One_nat_def)
  have "\<exists>s'. create_native_preview_ring [] 320 180 1 SBS_EXPORT_COLOR_SDR u = (True, s') \<and> length (np_entries s') = 16"
    using u by (simp add: create_native_preview_ring_def Let_def)
  then obtain s' where c: "sbs_compositor_configure_native_preview [] [] 320 180 1 SBS_EXPORT_COLOR_SDR ?s
      = ((True, True, []), s')" and len: "length (np_entries s') = 16"
    using fields u(1) by (auto simp: sbs_compositor_configure_native_preview_def)
  have "acquirable (entry_at s' 16)"
    using timed_out_teardown_forgets_leases [OF c] len by simp
  then show ?thesis
    using c by blast
qed

end
