(* ===== verification/Export_Ring.thy ===== *)
theory Export_Ring
  imports Native_Canvas
begin

text \<open>
  The ring of export slots of a destination, \<open>src/server/engine/export_dest.c\<close>, and the calls of
  \<open>compositor.c\<close> and \<open>compositor_thread.c\<close> that fill and retire its slots. A slot is shared by the
  consumer that reads it and by the render target whose conversion writes it (\<open>retire_slot\<close>); it is
  free again when both are done with it. A slot is named by its destination and its index; fences
  are seen as in \<open>Native_Canvas\<close>. Times and the statistics of the log are left out.
\<close>

section \<open>State\<close>

datatype export_slot_state = SLOT_FREE | SLOT_SUBMITTED | SLOT_READY | SLOT_IN_USE

datatype export_dest_type = DEST_PREVIEW | DEST_OUTPUT

record export_slot =
  es_fence :: vk_fence
  es_mapped :: "nat option"
  es_size :: u64
  es_mapped_own :: "nat option"
  es_size_own :: u64
  es_alias :: bool
  es_state :: export_slot_state
  es_frame_number :: u64
  es_target_idx :: nat
  es_retire_refs :: nat
  es_pending_free :: bool

record export_dest =
  ed_width :: u32
  ed_height :: u32
  ed_color_mode :: export_color_mode
  ed_slots :: "export_slot list"
  ed_submit_idx :: nat
  ed_initialized :: bool
  ed_active :: bool
  ed_frames_exported :: u64
  ed_frames_dropped :: u64
  ed_frames_consumed :: u64
  ed_backlog :: nat

type_synonym slot_ref = "export_dest_type \<times> nat"

record export_comp =
  ec_preview :: export_dest
  ec_output :: export_dest
  ec_targets :: "slot_ref option list"

definition EXPORT_SLOT_COUNT :: nat where
  [simp]: "EXPORT_SLOT_COUNT = 8"

section \<open>The slots of one destination\<close>

definition slot_upd :: "nat \<Rightarrow> (export_slot \<Rightarrow> export_slot) \<Rightarrow> export_dest \<Rightarrow> export_dest" where
  "slot_upd i f d = d\<lparr>ed_slots := (ed_slots d)[i := f (ed_slots d ! i)]\<rparr>"

definition init_slot :: "u32 \<Rightarrow> u32 \<Rightarrow> export_color_mode \<Rightarrow> nat \<Rightarrow> export_slot" where
  "init_slot w h mode mapping =
     \<lparr>es_fence = Signaled, es_mapped = Some mapping,
      es_size = (if mode = SBS_EXPORT_COLOR_HDR10 then ucast w * ucast h * 4 else ucast w * ucast h * 3 div 2),
      es_mapped_own = None, es_size_own = 0, es_alias = False, es_state = SLOT_FREE,
      es_frame_number = 0, es_target_idx = 0, es_retire_refs = 0, es_pending_free = False\<rparr>"



definition sbs_export_slot_poll_ready :: "export_slot \<Rightarrow> bool \<times> export_slot" where
  "sbs_export_slot_poll_ready x =
     (if es_state x \<noteq> SLOT_SUBMITTED then (es_state x = SLOT_READY, x)
      else if es_fence x = Signaled then (True, x\<lparr>es_state := SLOT_READY\<rparr>)
      else (False, x))"

definition poll_slots :: "export_slot list \<Rightarrow> export_slot list" where
  "poll_slots xs = map (\<lambda>x. if es_state x = SLOT_SUBMITTED then snd (sbs_export_slot_poll_ready x) else x) xs"

text \<open>The loop that keeps the ready slot with the lowest frame number, the first of equal ones.\<close>

definition better_slot :: "export_slot list \<Rightarrow> nat \<Rightarrow> nat option \<Rightarrow> nat option" where
  "better_slot xs i best =
     (if es_state (xs ! i) = SLOT_READY
      then case best of
        None \<Rightarrow> Some i
      | Some b \<Rightarrow> if es_frame_number (xs ! i) < es_frame_number (xs ! b) then Some i else Some b
      else best)"

definition oldest_ready :: "export_slot list \<Rightarrow> nat option" where
  "oldest_ready xs = fold (better_slot xs) [0..<length xs] None"

definition sbs_export_dest_acquire_ready :: "export_dest \<Rightarrow> nat option \<times> export_dest" where
  "sbs_export_dest_acquire_ready d =
     (let d = d\<lparr>ed_slots := poll_slots (ed_slots d)\<rparr>;
          d = d\<lparr>ed_backlog := length (filter (\<lambda>x. es_state x = SLOT_SUBMITTED) (ed_slots d))\<rparr>
      in case oldest_ready (ed_slots d) of
           None \<Rightarrow> (None, d)
         | Some i \<Rightarrow> (Some i, (slot_upd i (\<lambda>x. x\<lparr>es_state := SLOT_IN_USE\<rparr>) d)
                        \<lparr>ed_frames_consumed := ed_frames_consumed d + 1\<rparr>))"

definition restore_alias :: "export_slot \<Rightarrow> export_slot" where
  "restore_alias x =
     (if es_alias x then
        let x = x\<lparr>es_mapped := es_mapped_own x, es_mapped_own := None\<rparr>;
            x = (if es_size_own x \<noteq> 0 then x\<lparr>es_size := es_size_own x, es_size_own := 0\<rparr> else x)
        in x\<lparr>es_alias := False\<rparr>
      else x)"

text \<open>The release by the consumer: a read of the reference count, then a write that depends on it.\<close>

definition release_store :: "bool \<Rightarrow> export_slot \<Rightarrow> export_slot" where
  "release_store unreferenced x =
     (if unreferenced then x\<lparr>es_state := SLOT_FREE\<rparr>
      else x\<lparr>es_pending_free := True, es_state := SLOT_IN_USE\<rparr>)"

definition sbs_export_slot_release :: "export_slot \<Rightarrow> export_slot" where
  "sbs_export_slot_release x =
     (let x = restore_alias x in release_store (es_retire_refs x = 0) x)"

text \<open>The release by the render target.\<close>

definition retire_slot :: "export_slot \<Rightarrow> export_slot" where
  "retire_slot x =
     (let x = (if es_retire_refs x > 0 then x\<lparr>es_retire_refs := es_retire_refs x - 1\<rparr> else x)
      in if es_retire_refs x = 0 \<and> es_pending_free x then x\<lparr>es_state := SLOT_FREE\<rparr> else x)"

section \<open>The calls of the compositor\<close>

definition dest_of :: "export_comp \<Rightarrow> export_dest_type \<Rightarrow> export_dest" where
  "dest_of c t = (case t of DEST_PREVIEW \<Rightarrow> ec_preview c | DEST_OUTPUT \<Rightarrow> ec_output c)"

definition dest_upd :: "export_dest_type \<Rightarrow> (export_dest \<Rightarrow> export_dest) \<Rightarrow> export_comp \<Rightarrow> export_comp" where
  "dest_upd t f c = (case t of DEST_PREVIEW \<Rightarrow> c\<lparr>ec_preview := f (ec_preview c)\<rparr>
                               | DEST_OUTPUT \<Rightarrow> c\<lparr>ec_output := f (ec_output c)\<rparr>)"

definition slot_at :: "export_comp \<Rightarrow> slot_ref \<Rightarrow> export_slot" where
  "slot_at c r = ed_slots (dest_of c (fst r)) ! snd r"

definition comp_slot_upd :: "slot_ref \<Rightarrow> (export_slot \<Rightarrow> export_slot) \<Rightarrow> export_comp \<Rightarrow> export_comp" where
  "comp_slot_upd r f c = dest_upd (fst r) (slot_upd (snd r) f) c"

definition release_retire_slot_if_done :: "nat \<Rightarrow> export_comp \<Rightarrow> export_comp" where
  "release_retire_slot_if_done k c =
     (case ec_targets c ! k of
        None \<Rightarrow> c
      | Some r \<Rightarrow> (comp_slot_upd r retire_slot c)\<lparr>ec_targets := (ec_targets c)[k := None]\<rparr>)"






section \<open>The oldest ready slot\<close>

definition best_below :: "export_slot list \<Rightarrow> nat \<Rightarrow> nat option" where
  "best_below xs n = fold (better_slot xs) [0..<n] None"

lemma best_below_simps: "best_below xs 0 = None" "best_below xs (Suc n) = better_slot xs n (best_below xs n)"
  by (simp_all add: best_below_def)

definition is_oldest :: "export_slot list \<Rightarrow> nat \<Rightarrow> nat option \<Rightarrow> bool" where
  "is_oldest xs n r \<longleftrightarrow> (case r of
      None \<Rightarrow> \<forall>i < n. es_state (xs ! i) \<noteq> SLOT_READY
    | Some b \<Rightarrow> b < n \<and> es_state (xs ! b) = SLOT_READY
        \<and> (\<forall>i < n. es_state (xs ! i) = SLOT_READY \<longrightarrow> es_frame_number (xs ! b) \<le> es_frame_number (xs ! i)))"

lemma best_below_oldest: "is_oldest xs n (best_below xs n)"
proof (induction n)
  case 0
  then show ?case by (simp add: best_below_simps is_oldest_def)
next
  case (Suc n)
  show ?case
  proof (cases "best_below xs n")
    case None
    then show ?thesis
      using Suc by (auto simp: best_below_simps is_oldest_def better_slot_def less_Suc_eq)
  next
    case (Some c)
    then show ?thesis
      using Suc by (auto simp: best_below_simps is_oldest_def better_slot_def less_Suc_eq)
  qed
qed

lemma oldest_ready_spec: "is_oldest xs (length xs) (oldest_ready xs)"
  using best_below_oldest by (simp add: oldest_ready_def best_below_def)

section \<open>The invariant of sharing\<close>






lemma targets_upd_fields [simp]:
  "dest_of (c\<lparr>ec_targets := ts\<rparr>) t = dest_of c t" "slot_at (c\<lparr>ec_targets := ts\<rparr>) r = slot_at c r"
proof -
  show "dest_of (c\<lparr>ec_targets := ts\<rparr>) t = dest_of c t" for t
    by (cases t) (simp_all add: dest_of_def)
  then show "slot_at (c\<lparr>ec_targets := ts\<rparr>) r = slot_at c r"
    by (simp add: slot_at_def)
qed

lemma length_slots_upd [simp]:
  "length (ed_slots (dest_of (comp_slot_upd r f c) t)) = length (ed_slots (dest_of c t))"
  by (cases t; cases "fst r") (simp_all add: comp_slot_upd_def dest_upd_def dest_of_def slot_upd_def)

lemma comp_slot_upd_fields [simp]:
  "ec_targets (comp_slot_upd r f c) = ec_targets c"
  "length (ed_slots (ec_preview (comp_slot_upd r f c))) = length (ed_slots (ec_preview c))"
  "length (ed_slots (ec_output (comp_slot_upd r f c))) = length (ed_slots (ec_output c))"
  by (auto simp: comp_slot_upd_def dest_upd_def slot_upd_def split: export_dest_type.split)








section \<open>The operations preserve it\<close>




lemma retire_fields [simp]:
  "length (ec_targets (release_retire_slot_if_done k c)) = length (ec_targets c)"
  by (simp add: release_retire_slot_if_done_def split: option.split)




lemma dest_upd_fields [simp]:
  "ec_targets (dest_upd t f c) = ec_targets c"
  "dest_of (dest_upd t f c) t' = (if t' = t then f (dest_of c t) else dest_of c t')"
  by (cases t; cases t'; simp add: dest_upd_def dest_of_def)+





section \<open>The reachable states\<close>




definition ring_start :: "u32 \<Rightarrow> u32 \<Rightarrow> export_color_mode \<Rightarrow> export_dest" where
  "ring_start w h mode = \<lparr>ed_width = w, ed_height = h, ed_color_mode = mode,
     ed_slots = map (init_slot w h mode) [0..<EXPORT_SLOT_COUNT], ed_submit_idx = 0,
     ed_initialized = True, ed_active = True, ed_frames_exported = 0, ed_frames_dropped = 0,
     ed_frames_consumed = 0, ed_backlog = 0\<rparr>"




section \<open>Properties\<close>



text \<open>
  A consumer gets the oldest finished frame: an acquire answers with a slot whose GPU work is
  done, whose frame number is the lowest of all such slots, and answers with none only when there
  is no such slot.
\<close>

theorem acquire_takes_oldest_ready:
  "case fst (sbs_export_dest_acquire_ready d) of
     None \<Rightarrow> \<forall>i < length (ed_slots d). \<not> fst (sbs_export_slot_poll_ready (ed_slots d ! i))
   | Some b \<Rightarrow> b < length (ed_slots d) \<and> fst (sbs_export_slot_poll_ready (ed_slots d ! b))
       \<and> (\<forall>i < length (ed_slots d). fst (sbs_export_slot_poll_ready (ed_slots d ! i)) \<longrightarrow>
            es_frame_number (ed_slots d ! b) \<le> es_frame_number (ed_slots d ! i))"
proof -
  let ?xs = "poll_slots (ed_slots d)"
  have poll: "es_state (?xs ! i) = SLOT_READY \<longleftrightarrow> fst (sbs_export_slot_poll_ready (ed_slots d ! i))"
    "es_frame_number (?xs ! i) = es_frame_number (ed_slots d ! i)" if "i < length (ed_slots d)" for i
    using that by (auto simp: poll_slots_def sbs_export_slot_poll_ready_def)
  have len: "length ?xs = length (ed_slots d)"
    by (simp add: poll_slots_def)
  have fst: "fst (sbs_export_dest_acquire_ready d) = oldest_ready ?xs"
    by (simp add: sbs_export_dest_acquire_ready_def Let_def split: option.split)
  show ?thesis
    using oldest_ready_spec [of ?xs] unfolding fst is_oldest_def len
    by (cases "oldest_ready ?xs") (auto simp: poll)
qed

lemma acquire_takes_oldest_ready_witness:
  "fst (sbs_export_dest_acquire_ready (ring_start 2 2 SBS_EXPORT_COLOR_SDR)) = None"
  using acquire_takes_oldest_ready [of "ring_start 2 2 SBS_EXPORT_COLOR_SDR"]
  by (auto simp: ring_start_def init_slot_def sbs_export_slot_poll_ready_def split: option.splits)

text \<open>
  The consumer and the compositor thread can lose a slot for ever: in either order the two
  releases free it, but when the render target retires the slot between the consumer's read of the
  reference count and its store, the slot stays in use with no reference left to free it.
\<close>

theorem overlapping_releases_lose_slot:
  assumes "es_state x = SLOT_IN_USE" "es_retire_refs x = 1" "\<not> es_pending_free x" "\<not> es_alias x"
  shows "es_state (retire_slot (sbs_export_slot_release x)) = SLOT_FREE
    \<and> es_state (sbs_export_slot_release (retire_slot x)) = SLOT_FREE
    \<and> es_state (release_store (es_retire_refs x = 0) (retire_slot x)) = SLOT_IN_USE
    \<and> es_retire_refs (release_store (es_retire_refs x = 0) (retire_slot x)) = 0"
  using assms by (simp add: retire_slot_def sbs_export_slot_release_def restore_alias_def release_store_def)

lemma overlapping_releases_lose_slot_witness:
  "es_state (release_store False (retire_slot
      ((init_slot 2 2 SBS_EXPORT_COLOR_SDR 0)\<lparr>es_state := SLOT_IN_USE, es_retire_refs := 1\<rparr>))) = SLOT_IN_USE"
  using overlapping_releases_lose_slot
    [of "(init_slot 2 2 SBS_EXPORT_COLOR_SDR 0)\<lparr>es_state := SLOT_IN_USE, es_retire_refs := 1\<rparr>"]
  by (simp add: init_slot_def)

end
