(* ===== verification/Ipc.thy ===== *)
theory Ipc
  imports Sbs_Prelude
begin

text \<open>
  The messages between the server and its workers: the wire structures of
  \<open>src/include/sbs/ipc.h\<close>, the header check of \<open>src/common/ipc_proto.c\<close> and the transport of
  \<open>src/common/ipc_transport.c\<close>. A packed structure is the list of its fields with their widths and
  is read back from raw bytes by offset, least significant byte first, as on the machines the
  program runs on. The kernel's \<open>sendmsg\<close> and \<open>recvmsg\<close> on a sequential-packet socket are parameters:
  what they answer, and that one receive takes one message, cut to the size of the buffer.
  The transport never loses a received descriptor; a status message, longer than the 128 bytes the
  server reads, arrives cut.
\<close>

section \<open>Packed fields\<close>

fun le_bytes :: "nat \<Rightarrow> nat \<Rightarrow> u8 list" where
  "le_bytes 0 x = []"
| "le_bytes (Suc n) x = of_nat x # le_bytes n (x div 256)"

fun le_nat :: "u8 list \<Rightarrow> nat" where
  "le_nat [] = 0"
| "le_nat (b # bs) = unat b + 256 * le_nat bs"

definition encode_fields :: "(nat \<times> nat) list \<Rightarrow> u8 list" where
  "encode_fields fs = concat (map (\<lambda>(n, x). le_bytes n x) fs)"

definition field_at :: "nat \<Rightarrow> nat \<Rightarrow> u8 list \<Rightarrow> nat" where
  "field_at off n bs = le_nat (take n (drop off bs))"

text \<open>A character array read as a C string: the bytes up to the first zero.\<close>

definition c_string_at :: "nat \<Rightarrow> nat \<Rightarrow> u8 list \<Rightarrow> string" where
  "c_string_at off n bs = map (\<lambda>b. char_of (unat b)) (takeWhile (\<lambda>b. b \<noteq> 0) (take n (drop off bs)))"

definition string_bytes :: "nat \<Rightarrow> string \<Rightarrow> u8 list" where
  "string_bytes n s = take n (map (\<lambda>c. of_nat (of_char c)) s @ replicate n 0)"

lemma length_le_bytes [simp]: "length (le_bytes n x) = n"
  by (induction n arbitrary: x) auto

lemma le_nat_le_bytes: "le_nat (le_bytes n x) = x mod 256 ^ n"
proof (induction n arbitrary: x)
  case (Suc n)
  have "unat (of_nat x :: u8) = x mod 256"
    by (simp add: unat_of_nat)
  then show ?case
    using Suc by (simp add: mod_mult2_eq)
qed simp

lemma encode_fields_simps [simp]:
  "encode_fields [] = []" "encode_fields ((n, x) # fs) = le_bytes n x @ encode_fields fs"
  by (simp_all add: encode_fields_def)

lemma length_encode_fields: "length (encode_fields fs) = sum_list (map fst fs)"
  by (induction fs) auto

lemma field_at_encode:
  "field_at (sum_list (map fst fs)) n (encode_fields fs @ le_bytes n x @ r) = x mod 256 ^ n"
  by (simp add: field_at_def length_encode_fields le_nat_le_bytes)

text \<open>Reading past a field one by one: the simplifier walks to the field at the offset.\<close>

lemma field_at_skip:
  "n \<le> off \<Longrightarrow> field_at off m (le_bytes n x @ r) = field_at (off - n) m r"
  by (simp add: field_at_def)

lemma field_at_here: "field_at 0 n (le_bytes n x @ r) = x mod 256 ^ n"
  by (simp add: field_at_def le_nat_le_bytes)

lemma field_at_last: "field_at 0 n (le_bytes n x) = x mod 256 ^ n"
  using field_at_here [of n x "[]"] by simp

lemmas field_reads = field_at_skip field_at_here field_at_last

lemma unat_mod_width [simp]:
  fixes w :: u32 and v :: u64
  shows "unat w mod 4294967296 = unat w" "unat v mod 18446744073709551616 = unat v"
proof -
  have "unat w < 2 ^ LENGTH(32)" "unat v < 2 ^ LENGTH(64)"
    by (rule unsigned_less)+
  then show "unat w mod 4294967296 = unat w" "unat v mod 18446744073709551616 = unat v"
    by simp_all
qed

lemma string_bytes_short:
  "length s \<le> n \<Longrightarrow> string_bytes n s = map (\<lambda>c. of_nat (of_char c)) s @ replicate (n - length s) 0"
  by (simp add: string_bytes_def)

lemma c_string_at_bytes:
  assumes "length s \<le> n" "\<forall>c \<in> set s. of_char c \<noteq> (0 :: nat)"
  shows "c_string_at (length p) n (p @ string_bytes n s @ r) = s"
proof -
  let ?b = "\<lambda>c. of_nat (of_char c) :: u8"
  have nz: "?b c \<noteq> 0" if "c \<in> set s" for c
  proof -
    have "unat (?b c) = of_char c"
      by (simp add: unat_of_nat of_char_def)
    then show ?thesis
      using assms(2) that by (metis unat_0)
  qed
  have char_back: "char_of (unat (?b c)) = c" for c
  proof -
    have "unat (?b c) = of_char c"
      by (simp add: unat_of_nat of_char_def)
    then show ?thesis by simp
  qed
  have len: "length (string_bytes n s) = n"
    by (simp add: string_bytes_def)
  have "string_bytes n s = map ?b s @ replicate (n - length s) 0"
    using assms(1) by (simp add: string_bytes_def take_map)
  moreover have "takeWhile (\<lambda>b. b \<noteq> 0) (map ?b s @ replicate m 0) = map ?b s" for m
    using nz by (subst takeWhile_append2) (auto intro: takeWhile_eq_Nil_iff [THEN iffD2] simp: hd_replicate)
  ultimately show ?thesis
    using len by (simp add: c_string_at_def comp_def char_back)
qed

section \<open>Messages\<close>

record video_frame_msg =
  vf_msg_type :: u32
  vf_payload_size :: u32
  vf_pts_ns :: u64
  vf_dts_ns :: u64
  vf_duration_ns :: u64
  vf_sequence :: u64
  vf_width :: u32
  vf_height :: u32
  vf_drm_format :: u32
  vf_drm_modifier :: u64
  vf_n_planes :: u32
  vf_plane_offset :: "u32 list"
  vf_plane_stride :: "u32 list"
  vf_buffer_type :: u32
  vf_flags :: u32
  vf_dmabuf_fd2 :: u32
  vf_reserved :: "u32 list"

definition SBS_IPC_MSG_VIDEO_FRAME :: u32 where "SBS_IPC_MSG_VIDEO_FRAME = 0x0001"
definition SBS_IPC_MSG_COMPOSED_FRAME :: u32 where "SBS_IPC_MSG_COMPOSED_FRAME = 0x0002"
definition SBS_IPC_MSG_AUDIO_BUFFER :: u32 where "SBS_IPC_MSG_AUDIO_BUFFER = 0x0003"
definition SBS_IPC_MSG_STATUS :: u32 where "SBS_IPC_MSG_STATUS = 0x0010"
definition SBS_IPC_MSG_CONFIG_UPDATE :: u32 where "SBS_IPC_MSG_CONFIG_UPDATE = 0x0011"
definition SBS_IPC_MSG_SHUTDOWN :: u32 where "SBS_IPC_MSG_SHUTDOWN = 0x0012"
definition SBS_IPC_MSG_SIGNAL_CHANGE :: u32 where "SBS_IPC_MSG_SIGNAL_CHANGE = 0x0013"
definition SBS_IPC_MSG_FRAME_RELEASE :: u32 where "SBS_IPC_MSG_FRAME_RELEASE = 0x0014"
definition SBS_IPC_MSG_ACK :: u32 where "SBS_IPC_MSG_ACK = 0x0020"
definition SBS_IPC_MSG_ERROR :: u32 where "SBS_IPC_MSG_ERROR = 0x00FF"

definition SBS_FRAME_FLAG_HDR :: u32 where "SBS_FRAME_FLAG_HDR = 1"
definition SBS_FRAME_FLAG_NEEDS_RELEASE :: u32 where "SBS_FRAME_FLAG_NEEDS_RELEASE = 64"

lemmas msg_type_defs = SBS_IPC_MSG_VIDEO_FRAME_def SBS_IPC_MSG_COMPOSED_FRAME_def
  SBS_IPC_MSG_AUDIO_BUFFER_def SBS_IPC_MSG_STATUS_def SBS_IPC_MSG_CONFIG_UPDATE_def
  SBS_IPC_MSG_SHUTDOWN_def SBS_IPC_MSG_SIGNAL_CHANGE_def SBS_IPC_MSG_FRAME_RELEASE_def
  SBS_IPC_MSG_ACK_def SBS_IPC_MSG_ERROR_def

definition sbs_ipc_header_valid :: "u32 \<Rightarrow> bool" where
  "sbs_ipc_header_valid t \<longleftrightarrow>
     (SBS_IPC_MSG_VIDEO_FRAME \<le> t \<and> t \<le> SBS_IPC_MSG_AUDIO_BUFFER)
     \<or> (SBS_IPC_MSG_STATUS \<le> t \<and> t \<le> SBS_IPC_MSG_SIGNAL_CHANGE)
     \<or> t = SBS_IPC_MSG_FRAME_RELEASE
     \<or> t = SBS_IPC_MSG_ACK \<or> t = SBS_IPC_MSG_ERROR"

definition sbs_video_frame_msg_init :: "u32 \<Rightarrow> video_frame_msg" where
  "sbs_video_frame_msg_init ty =
     \<lparr>vf_msg_type = ty, vf_payload_size = 120, vf_pts_ns = 0, vf_dts_ns = 0, vf_duration_ns = 0,
      vf_sequence = 0, vf_width = 0, vf_height = 0, vf_drm_format = 0, vf_drm_modifier = 0,
      vf_n_planes = 0, vf_plane_offset = replicate 4 0, vf_plane_stride = replicate 4 0,
      vf_buffer_type = 0, vf_flags = 0, vf_dmabuf_fd2 = -1, vf_reserved = replicate 5 0\<rparr>"

abbreviation f32 :: "u32 \<Rightarrow> nat \<times> nat" where "f32 w \<equiv> (4, unat w)"
abbreviation f64 :: "u64 \<Rightarrow> nat \<times> nat" where "f64 w \<equiv> (8, unat w)"

definition video_frame_fields :: "video_frame_msg \<Rightarrow> (nat \<times> nat) list" where
  "video_frame_fields m =
     [f32 (vf_msg_type m), f32 (vf_payload_size m), f64 (vf_pts_ns m), f64 (vf_dts_ns m),
      f64 (vf_duration_ns m), f64 (vf_sequence m), f32 (vf_width m), f32 (vf_height m),
      f32 (vf_drm_format m), f64 (vf_drm_modifier m), f32 (vf_n_planes m),
      f32 (vf_plane_offset m ! 0), f32 (vf_plane_offset m ! 1), f32 (vf_plane_offset m ! 2),
      f32 (vf_plane_offset m ! 3), f32 (vf_plane_stride m ! 0), f32 (vf_plane_stride m ! 1),
      f32 (vf_plane_stride m ! 2), f32 (vf_plane_stride m ! 3), f32 (vf_buffer_type m),
      f32 (vf_flags m), f32 (vf_dmabuf_fd2 m), f32 (vf_reserved m ! 0), f32 (vf_reserved m ! 1),
      f32 (vf_reserved m ! 2), f32 (vf_reserved m ! 3), f32 (vf_reserved m ! 4)]"

definition video_frame_bytes :: "video_frame_msg \<Rightarrow> u8 list" where
  "video_frame_bytes m = encode_fields (video_frame_fields m)"

abbreviation r32 :: "u8 list \<Rightarrow> nat \<Rightarrow> u32" where "r32 bs off \<equiv> of_nat (field_at off 4 bs)"
abbreviation r64 :: "u8 list \<Rightarrow> nat \<Rightarrow> u64" where "r64 bs off \<equiv> of_nat (field_at off 8 bs)"

definition read_video_frame :: "u8 list \<Rightarrow> video_frame_msg" where
  "read_video_frame bs =
     \<lparr>vf_msg_type = r32 bs 0, vf_payload_size = r32 bs 4, vf_pts_ns = r64 bs 8, vf_dts_ns = r64 bs 16,
      vf_duration_ns = r64 bs 24, vf_sequence = r64 bs 32, vf_width = r32 bs 40, vf_height = r32 bs 44,
      vf_drm_format = r32 bs 48, vf_drm_modifier = r64 bs 52, vf_n_planes = r32 bs 60,
      vf_plane_offset = [r32 bs 64, r32 bs 68, r32 bs 72, r32 bs 76],
      vf_plane_stride = [r32 bs 80, r32 bs 84, r32 bs 88, r32 bs 92],
      vf_buffer_type = r32 bs 96, vf_flags = r32 bs 100, vf_dmabuf_fd2 = r32 bs 104,
      vf_reserved = [r32 bs 108, r32 bs 112, r32 bs 116, r32 bs 120, r32 bs 124]\<rparr>"

text \<open>The arrays of a C structure have their declared lengths.\<close>

definition video_frame_wf :: "video_frame_msg \<Rightarrow> bool" where
  "video_frame_wf m \<longleftrightarrow> length (vf_plane_offset m) = 4 \<and> length (vf_plane_stride m) = 4
     \<and> length (vf_reserved m) = 5"

lemma length_video_frame_bytes [simp]: "length (video_frame_bytes m) = 128"
  by (simp add: video_frame_bytes_def video_frame_fields_def)

lemma video_frame_header [simp]:
  "field_at 0 4 (video_frame_bytes m @ r) = unat (vf_msg_type m)"
  by (simp add: video_frame_bytes_def video_frame_fields_def field_reads)

lemma read_video_frame_bytes:
  assumes "video_frame_wf m"
  shows "read_video_frame (video_frame_bytes m @ r) = m"
proof -
  have "xs = [xs ! 0, xs ! 1, xs ! 2, xs ! 3]" if "length xs = 4" for xs :: "u32 list"
    using that by (auto simp: numeral_eq_Suc length_Suc_conv)
  moreover have "xs = [xs ! 0, xs ! 1, xs ! 2, xs ! 3, xs ! 4]" if "length xs = 5" for xs :: "u32 list"
    using that by (auto simp: numeral_eq_Suc length_Suc_conv)
  ultimately show ?thesis
    using assms
    by (simp add: read_video_frame_def video_frame_bytes_def video_frame_fields_def field_reads
        video_frame_wf_def)
qed


record status_msg =
  sm_state :: u32
  sm_frame_width :: u32
  sm_frame_height :: u32
  sm_frame_rate_num :: u32
  sm_frame_rate_den :: u32
  sm_frames_produced :: u64
  sm_frames_dropped :: u64
  sm_frames_consumed :: u64
  sm_frames_encoded :: u64
  sm_bytes_written :: u64
  sm_encoder_bitrate :: u32
  sm_encoder_qp :: u32
  sm_error_message :: string

definition status_bytes :: "status_msg \<Rightarrow> u8 list" where
  "status_bytes m = encode_fields
     [f32 SBS_IPC_MSG_STATUS, (4, 324), f32 (sm_state m), f32 (sm_frame_width m),
      f32 (sm_frame_height m), f32 (sm_frame_rate_num m), f32 (sm_frame_rate_den m),
      f64 (sm_frames_produced m), f64 (sm_frames_dropped m), f64 (sm_frames_consumed m),
      f64 (sm_frames_encoded m), f64 (sm_bytes_written m), f32 (sm_encoder_bitrate m),
      f32 (sm_encoder_qp m)] @ string_bytes 256 (sm_error_message m)"

text \<open>The view of a received union as a status message.\<close>

definition read_status :: "u8 list \<Rightarrow> status_msg" where
  "read_status bs =
     \<lparr>sm_state = r32 bs 8, sm_frame_width = r32 bs 12, sm_frame_height = r32 bs 16,
      sm_frame_rate_num = r32 bs 20, sm_frame_rate_den = r32 bs 24, sm_frames_produced = r64 bs 28,
      sm_frames_dropped = r64 bs 36, sm_frames_consumed = r64 bs 44, sm_frames_encoded = r64 bs 52,
      sm_bytes_written = r64 bs 60, sm_encoder_bitrate = r32 bs 68, sm_encoder_qp = r32 bs 72,
      sm_error_message = c_string_at 76 256 bs\<rparr>"

record signal_change_msg =
  gc_reason :: string
  gc_width :: u32
  gc_height :: u32
  gc_frame_rate_raw :: u32
  gc_color_space :: string
  gc_color_depth :: u32
  gc_hdr_eotf :: string

definition read_signal_change :: "u8 list \<Rightarrow> signal_change_msg" where
  "read_signal_change bs =
     \<lparr>gc_reason = c_string_at 8 64 bs, gc_width = r32 bs 72, gc_height = r32 bs 76,
      gc_frame_rate_raw = r32 bs 80, gc_color_space = c_string_at 84 32 bs,
      gc_color_depth = r32 bs 116, gc_hdr_eotf = c_string_at 120 32 bs\<rparr>"

definition frame_release_bytes :: "u64 \<Rightarrow> u8 list" where
  "frame_release_bytes sequence = encode_fields
     [f32 SBS_IPC_MSG_FRAME_RELEASE, (4, 16), f64 sequence, (4, 0), (4, 0)]"

definition shutdown_bytes :: "u32 \<Rightarrow> u32 \<Rightarrow> u8 list" where
  "shutdown_bytes grace_ms reason = encode_fields
     [f32 SBS_IPC_MSG_SHUTDOWN, (4, 8), f32 grace_ms, f32 reason]"

section \<open>Transport\<close>

datatype sys_errno = EAGAIN | EPIPE | ECONNRESET | E_OTHER

text \<open>A message in the socket: its bytes and the descriptors attached to it.\<close>

type_synonym datagram = "u8 list \<times> int list"

definition send_errno :: "sys_errno \<Rightarrow> sbs_result" where
  "send_errno e = (case e of EAGAIN \<Rightarrow> SBS_ERR_WOULD_BLOCK | EPIPE \<Rightarrow> SBS_ERR_PIPE
     | ECONNRESET \<Rightarrow> SBS_ERR_PIPE | E_OTHER \<Rightarrow> SBS_ERR_IO)"

definition recv_errno :: "sys_errno \<Rightarrow> sbs_result" where
  "recv_errno e = (case e of EAGAIN \<Rightarrow> SBS_ERR_WOULD_BLOCK | ECONNRESET \<Rightarrow> SBS_ERR_PIPE
     | _ \<Rightarrow> SBS_ERR_IO)"

definition attached_fds :: "int \<Rightarrow> int \<Rightarrow> int list" where
  "attached_fds dmabuf_fd dmabuf_fd2 =
     (if dmabuf_fd \<ge> 0 then (if dmabuf_fd2 \<ge> 0 then [dmabuf_fd, dmabuf_fd2] else [dmabuf_fd]) else [])"

text \<open>\<open>sent\<close> is the answer of \<open>sendmsg\<close>: an error or the number of bytes taken.\<close>

definition sbs_ipc_send_frame2 ::
  "sys_errno + nat \<Rightarrow> int \<Rightarrow> video_frame_msg \<Rightarrow> int \<Rightarrow> int \<Rightarrow> sbs_result \<times> datagram list" where
  "sbs_ipc_send_frame2 sent sock_fd msg dmabuf_fd dmabuf_fd2 =
     (if sock_fd < 0 then (SBS_ERR_INVAL, [])
      else case sent of
        Inl e \<Rightarrow> (send_errno e, [])
      | Inr n \<Rightarrow> (if n \<noteq> 128 then SBS_ERR_IO else SBS_OK,
                  [(take n (video_frame_bytes msg), attached_fds dmabuf_fd dmabuf_fd2)]))"

definition sbs_ipc_send_frame :: "sys_errno + nat \<Rightarrow> int \<Rightarrow> video_frame_msg \<Rightarrow> int \<Rightarrow> sbs_result \<times> datagram list" where
  "sbs_ipc_send_frame sent sock_fd msg dmabuf_fd = sbs_ipc_send_frame2 sent sock_fd msg dmabuf_fd (-1)"

definition sbs_ipc_send_msg :: "sys_errno + nat \<Rightarrow> int \<Rightarrow> u8 list \<Rightarrow> sbs_result \<times> datagram list" where
  "sbs_ipc_send_msg sent sock_fd data =
     (if sock_fd < 0 \<or> data = [] then (SBS_ERR_INVAL, [])
      else case sent of
        Inl e \<Rightarrow> (send_errno e, [])
      | Inr n \<Rightarrow> (if n \<noteq> length data then SBS_ERR_IO else SBS_OK, [(take n data, [])]))"

text \<open>
  The kernel cuts a message to the buffer and to the two descriptors the control buffer has room for
  (it closes the others itself); the empty message is the end of the stream.
\<close>

definition cut_datagram :: "nat \<Rightarrow> datagram \<Rightarrow> datagram" where
  "cut_datagram len d = (take len (fst d), take 2 (snd d))"

record recv_result =
  rr_code :: sbs_result
  rr_bytes :: "u8 list"
  rr_fd :: int
  rr_fd2 :: int
  rr_closed :: "int list"

text \<open>\<open>two\<close> says whether the caller passed a place for the second descriptor.\<close>

definition recv_frame_fds :: "bool \<Rightarrow> sys_errno + datagram \<Rightarrow> int \<Rightarrow> recv_result" where
  "recv_frame_fds two received sock_fd =
     (let none = \<lparr>rr_code = SBS_ERR_INVAL, rr_bytes = [], rr_fd = -1, rr_fd2 = -1, rr_closed = []\<rparr> in
      if sock_fd < 0 then none
      else case received of
        Inl e \<Rightarrow> none\<lparr>rr_code := recv_errno e\<rparr>
      | Inr d \<Rightarrow>
          (let (bytes, fds) = cut_datagram 128 d in
           if bytes = [] then none\<lparr>rr_code := SBS_ERR_EOF\<rparr>
           else if length bytes \<noteq> 128
           then none\<lparr>rr_code := SBS_ERR_IO, rr_bytes := bytes, rr_closed := filter (\<lambda>fd. fd \<ge> 0) fds\<rparr>
           else none\<lparr>rr_code := SBS_OK, rr_bytes := bytes,
                     rr_fd := (case fds of fd # _ \<Rightarrow> fd | [] \<Rightarrow> -1),
                     rr_fd2 := (case fds of _ # fd2 # _ \<Rightarrow> if two then fd2 else -1 | _ \<Rightarrow> -1)\<rparr>))"

definition sbs_ipc_recv_frame2 :: "sys_errno + datagram \<Rightarrow> int \<Rightarrow> recv_result" where
  "sbs_ipc_recv_frame2 = recv_frame_fds True"

definition sbs_ipc_recv_frame :: "sys_errno + datagram \<Rightarrow> int \<Rightarrow> recv_result" where
  "sbs_ipc_recv_frame = recv_frame_fds False"

text \<open>Without a control buffer the kernel closes every attached descriptor.\<close>

definition sbs_ipc_recv_msg :: "sys_errno + datagram \<Rightarrow> int \<Rightarrow> nat \<Rightarrow> sbs_result \<times> u8 list" where
  "sbs_ipc_recv_msg received sock_fd max_len =
     (if sock_fd < 0 \<or> max_len = 0 then (SBS_ERR_INVAL, [])
      else case received of
        Inl e \<Rightarrow> (recv_errno e, [])
      | Inr d \<Rightarrow> let bytes = take max_len (fst d) in
                 if bytes = [] then (SBS_ERR_EOF, []) else (SBS_OK, bytes))"

section \<open>Properties\<close>

lemma recv_frame2_ok:
  assumes "0 \<le> sock" "length (fst d) \<ge> 128"
  shows "rr_code (sbs_ipc_recv_frame2 (Inr d) sock) = SBS_OK"
    and "rr_bytes (sbs_ipc_recv_frame2 (Inr d) sock) = take 128 (fst d)"
    and "rr_closed (sbs_ipc_recv_frame2 (Inr d) sock) = []"
proof -
  have "take 128 (fst d) \<noteq> []" "length (take 128 (fst d)) = 128"
    using assms(2) by (auto simp: min_def)
  then show "rr_code (sbs_ipc_recv_frame2 (Inr d) sock) = SBS_OK"
    "rr_bytes (sbs_ipc_recv_frame2 (Inr d) sock) = take 128 (fst d)"
    "rr_closed (sbs_ipc_recv_frame2 (Inr d) sock) = []"
    using assms(1) by (simp_all add: sbs_ipc_recv_frame2_def recv_frame_fds_def cut_datagram_def)
qed

lemma recv_fds_kept:
  assumes "\<forall>fd \<in> set (snd d). 0 \<le> fd" "length (snd d) \<le> 2" "0 \<le> sock" "fst d \<noteq> []"
  shows "filter (\<lambda>fd. 0 \<le> fd) [rr_fd (sbs_ipc_recv_frame2 (Inr d) sock), rr_fd2 (sbs_ipc_recv_frame2 (Inr d) sock)]
           @ rr_closed (sbs_ipc_recv_frame2 (Inr d) sock) = snd d"
proof -
  obtain bytes fds where d: "d = (bytes, fds)" by (cases d)
  have "take 2 fds = fds" "filter (\<lambda>fd. fd \<ge> 0) fds = fds"
    using assms(1,2) d by (auto simp: filter_id_conv)
  moreover have "fds = [] \<or> (\<exists>a. fds = [a]) \<or> (\<exists>a b. fds = [a, b])"
    using assms(2) d by (cases fds; cases "tl fds") (auto simp: Suc_le_eq)
  ultimately show ?thesis
    using assms d
    by (auto simp: sbs_ipc_recv_frame2_def recv_frame_fds_def cut_datagram_def Let_def)
qed

text \<open>C16. A frame sent with one or two descriptors is received as the same message with the same
  descriptors, in the same order.\<close>

theorem sent_frame_is_received:
  assumes "video_frame_wf m" "0 \<le> sock" "0 \<le> peer" "0 \<le> fd"
    and "sbs_ipc_send_frame2 (Inr 128) sock m fd fd2 = (rc, [d])"
  shows "rc = SBS_OK
    \<and> rr_code (sbs_ipc_recv_frame2 (Inr d) peer) = SBS_OK
    \<and> read_video_frame (rr_bytes (sbs_ipc_recv_frame2 (Inr d) peer)) = m
    \<and> rr_fd (sbs_ipc_recv_frame2 (Inr d) peer) = fd
    \<and> rr_fd2 (sbs_ipc_recv_frame2 (Inr d) peer) = (if 0 \<le> fd2 then fd2 else -1)"
proof -
  have d: "rc = SBS_OK" "d = (video_frame_bytes m, attached_fds fd fd2)"
    using assms(2,5) by (auto simp: sbs_ipc_send_frame2_def)
  moreover have "read_video_frame (video_frame_bytes m) = m"
    using read_video_frame_bytes [OF assms(1), of "[]"] by simp
  moreover have "rr_code (sbs_ipc_recv_frame2 (Inr d) peer) = SBS_OK"
    "rr_bytes (sbs_ipc_recv_frame2 (Inr d) peer) = video_frame_bytes m"
    using recv_frame2_ok [of peer d] assms(3) d(2) by simp_all
  moreover have "video_frame_bytes m \<noteq> []"
    using length_video_frame_bytes [of m] by force
  ultimately show ?thesis
    using assms(3,4)
    by (auto simp: sbs_ipc_recv_frame2_def recv_frame_fds_def cut_datagram_def attached_fds_def)
qed

definition sample_frame :: video_frame_msg where
  "sample_frame = (sbs_video_frame_msg_init SBS_IPC_MSG_VIDEO_FRAME)
     \<lparr>vf_sequence := 77, vf_width := 1920, vf_height := 1080, vf_flags := SBS_FRAME_FLAG_NEEDS_RELEASE\<rparr>"

theorem sent_frame_is_received_witness:
  "read_video_frame (rr_bytes (sbs_ipc_recv_frame2 (Inr (video_frame_bytes sample_frame, [11, 12])) 5)) = sample_frame
   \<and> rr_fd (sbs_ipc_recv_frame2 (Inr (video_frame_bytes sample_frame, [11, 12])) 5) = 11
   \<and> rr_fd2 (sbs_ipc_recv_frame2 (Inr (video_frame_bytes sample_frame, [11, 12])) 5) = 12"
  using sent_frame_is_received [of sample_frame 4 5 11 12 SBS_OK "(video_frame_bytes sample_frame, [11, 12])"]
  by (simp add: video_frame_wf_def sample_frame_def sbs_video_frame_msg_init_def
      sbs_ipc_send_frame2_def attached_fds_def)

text \<open>No receive loses a descriptor the kernel attached: each is handed to the caller or closed,
  whatever the length of the message. The variant with one place for a descriptor loses the second.\<close>

theorem received_descriptors_accounted:
  assumes "\<forall>fd \<in> set (snd d). 0 \<le> fd" "length (snd d) \<le> 2" "0 \<le> sock" "fst d \<noteq> []"
  shows "filter (\<lambda>fd. 0 \<le> fd) [rr_fd (sbs_ipc_recv_frame2 (Inr d) sock), rr_fd2 (sbs_ipc_recv_frame2 (Inr d) sock)]
           @ rr_closed (sbs_ipc_recv_frame2 (Inr d) sock) = snd d
    \<and> (length (fst d) \<ge> 128 \<and> length (snd d) = 2 \<longrightarrow>
         filter (\<lambda>fd. 0 \<le> fd) [rr_fd (sbs_ipc_recv_frame (Inr d) sock), rr_fd2 (sbs_ipc_recv_frame (Inr d) sock)]
           @ rr_closed (sbs_ipc_recv_frame (Inr d) sock) = [hd (snd d)])"
proof (rule conjI [OF recv_fds_kept [OF assms]], rule impI)
  assume long: "length (fst d) \<ge> 128 \<and> length (snd d) = 2"
  then obtain bytes a b where d: "d = (bytes, [a, b])"
    by (cases d) (auto simp: length_Suc_conv numeral_2_eq_2)
  moreover have "take 128 bytes \<noteq> []" "min (length bytes) 128 = 128"
    using long d by auto
  ultimately show "filter (\<lambda>fd. 0 \<le> fd) [rr_fd (sbs_ipc_recv_frame (Inr d) sock), rr_fd2 (sbs_ipc_recv_frame (Inr d) sock)]
           @ rr_closed (sbs_ipc_recv_frame (Inr d) sock) = [hd (snd d)]"
    using assms(1,3) by (simp add: sbs_ipc_recv_frame_def recv_frame_fds_def cut_datagram_def)
qed

theorem received_descriptors_accounted_witness:
  "rr_closed (sbs_ipc_recv_frame2 (Inr ([1, 2, 3], [8, 9])) 5) = [8, 9]"
  using received_descriptors_accounted [of "([1, 2, 3], [8, 9])" 5]
  by (simp add: sbs_ipc_recv_frame2_def recv_frame_fds_def cut_datagram_def)

text \<open>A worker's status message keeps its counters through the server's 128-byte receive, but the
  text of its error is cut to 52 characters.\<close>

theorem status_error_text_is_cut:
  assumes "0 \<le> peer" "length (sm_error_message m) \<le> 256" "\<forall>c \<in> set (sm_error_message m). of_char c \<noteq> (0 :: nat)"
  shows "rr_code (sbs_ipc_recv_frame2 (Inr (status_bytes m, [])) peer) = SBS_OK
    \<and> read_status (rr_bytes (sbs_ipc_recv_frame2 (Inr (status_bytes m, [])) peer) @ replicate 384 0)
        = m\<lparr>sm_error_message := take 52 (sm_error_message m)\<rparr>"
proof -
  let ?s = "sm_error_message m"
  define p where "p = encode_fields
     [f32 SBS_IPC_MSG_STATUS, (4, 324), f32 (sm_state m), f32 (sm_frame_width m),
      f32 (sm_frame_height m), f32 (sm_frame_rate_num m), f32 (sm_frame_rate_den m),
      f64 (sm_frames_produced m), f64 (sm_frames_dropped m), f64 (sm_frames_consumed m),
      f64 (sm_frames_encoded m), f64 (sm_bytes_written m), f32 (sm_encoder_bitrate m),
      f32 (sm_encoder_qp m)]"
  have len: "length p = 76"
    by (simp add: p_def length_encode_fields)
  have bytes: "status_bytes m = p @ string_bytes 256 ?s"
    by (simp add: status_bytes_def p_def)
  have cut: "take 128 (status_bytes m) @ replicate 384 0 = p @ string_bytes 256 (take 52 ?s) @ replicate 180 0"
    using assms(2) len
    by (cases "length ?s \<le> 52")
      (simp_all add: bytes string_bytes_short take_map flip: replicate_add)
  have "\<forall>c \<in> set (take 52 ?s). of_char c \<noteq> (0 :: nat)"
    using assms(3) in_set_takeD by metis
  then have "c_string_at 76 256 (p @ string_bytes 256 (take 52 ?s) @ replicate 180 0) = take 52 ?s"
    using c_string_at_bytes [of "take 52 ?s" 256 p] len by simp
  then have "read_status (take 128 (status_bytes m) @ replicate 384 0) = m\<lparr>sm_error_message := take 52 ?s\<rparr>"
    unfolding cut by (simp add: read_status_def p_def field_reads)
  then show ?thesis
    using recv_frame2_ok [of peer "(status_bytes m, [])"] assms(1) len
    by (simp add: bytes string_bytes_def)
qed

theorem status_error_text_is_cut_witness:
  "sm_error_message (read_status (rr_bytes (sbs_ipc_recv_frame2
       (Inr (status_bytes ((read_status [])\<lparr>sm_error_message := replicate 60 CHR ''x''\<rparr>), [])) 5)
     @ replicate 384 0)) = replicate 52 CHR ''x''"
  using status_error_text_is_cut [of 5 "(read_status [])\<lparr>sm_error_message := replicate 60 CHR ''x''\<rparr>"]
  by (simp add: take_replicate)

end
