(* ===== verification/Source_Receive.thy ===== *)
theory Source_Receive
  imports Ipc Scene_Graph
begin

text \<open>
  The reception of a source worker's messages, the loop of \<open>on_frame_available\<close> in
  \<open>src/server/supervisor/source_supervisor.c\<close>, with the release of a frame's descriptors from
  \<open>src/server/engine/frame_slot.c\<close>. Each message is received through the transport of theory Ipc,
  read from the 512-byte union, and handled: a frame is published into the source's frame slot or
  refused, and the source of the scene graph follows its format; status and signal messages update
  the source. What is sent back to the worker, which descriptors are closed and what is published to
  the clients are logs in the state. The graph's source is \<open>None\<close> when no graph is installed or it has
  no source with the entry's identifier; \<open>g_strdup\<close> copies. Every descriptor received, apart from
  those sent along with a status or signal message, is in a published frame or closed.
\<close>

section \<open>State\<close>

record receiver =
  rv_slot :: "frame_fds frame_slot"
  rv_source :: "source_state option"
  rv_sent :: "u8 list list"
  rv_closed :: "int list"
  rv_last_frame :: int
  rv_refreshes :: nat
  rv_status_events :: "source_state list"

definition DRM_FORMAT_P010 :: u32 where "DRM_FORMAT_P010 = 0x3031504e"

definition SBS_WORKER_STATE_RUNNING :: u32 where "SBS_WORKER_STATE_RUNNING = 2"
definition SBS_WORKER_STATE_ERROR :: u32 where "SBS_WORKER_STATE_ERROR = 4"

definition close_received :: "int list \<Rightarrow> receiver \<Rightarrow> receiver" where
  "close_received fds r = r\<lparr>rv_closed := rv_closed r @ filter (\<lambda>fd. fd \<ge> 0) fds\<rparr>"

definition needs_release :: "video_frame_msg \<Rightarrow> bool" where
  "needs_release m \<longleftrightarrow> vf_flags m AND SBS_FRAME_FLAG_NEEDS_RELEASE \<noteq> 0"

definition send_source_frame_release :: "int \<Rightarrow> video_frame_msg \<Rightarrow> receiver \<Rightarrow> receiver" where
  "send_source_frame_release sock_fd m r =
     (if sock_fd < 0 \<or> \<not> needs_release m then r
      else r\<lparr>rv_sent := rv_sent r @ [frame_release_bytes (vf_sequence m)]\<rparr>)"

text \<open>What releasing a frame does: the messages sent to its worker, and the descriptors closed.\<close>

definition sbs_frame_fds_release :: "frame_fds \<Rightarrow> u8 list list \<times> int list" where
  "sbs_frame_fds_release f =
     (let acks = fd_needs_release_ack f \<and> fd_release_sock f \<ge> 0
      in (if acks then [frame_release_bytes (fd_release_sequence f)] else [],
          (if acks then [fd_release_sock f] else [])
          @ (if fd_dmabuf f \<ge> 0 then [fd_dmabuf f] else [])
          @ (if fd_dmabuf2 f \<ge> 0 \<and> fd_dmabuf2 f \<noteq> fd_dmabuf f then [fd_dmabuf2 f] else [])))"

section \<open>Updates of the graph's source\<close>

definition color_names :: "bool \<Rightarrow> string \<times> string" where
  "color_names hdr = (if hdr then (''BT.2020'', ''PQ'') else (''BT.709'', ''SDR''))"

text \<open>The result's boolean says whether the scene has to be refreshed.\<close>

definition follow_frame_format :: "video_frame_msg \<Rightarrow> source_state \<Rightarrow> bool \<times> source_state" where
  "follow_frame_format m src =
     (let dims = so_frame_width src \<noteq> vf_width m \<or> so_frame_height src \<noteq> vf_height m;
          src = (if dims then src\<lparr>so_frame_width := vf_width m, so_frame_height := vf_height m,
                                 so_slot_initialized := True\<rparr> else src);
          format = vf_drm_format m \<noteq> 0 \<and> so_drm_format src \<noteq> vf_drm_format m;
          src = (if format then src\<lparr>so_drm_format := vf_drm_format m\<rparr> else src);
          modifier = so_drm_modifier src \<noteq> vf_drm_modifier m;
          src = (if modifier then src\<lparr>so_drm_modifier := vf_drm_modifier m\<rparr> else src);
          stride = so_plane_stride src ! 0 \<noteq> vf_plane_stride m ! 0
                   \<or> so_plane_stride src ! 1 \<noteq> vf_plane_stride m ! 1;
          next_depth = (if vf_drm_format m = DRM_FORMAT_P010 then 10 else 8);
          next_hdr = (vf_flags m AND SBS_FRAME_FLAG_HDR \<noteq> 0);
          depth = so_color_depth src \<noteq> next_depth \<or> so_hdr src \<noteq> next_hdr;
          src = (if depth then src\<lparr>so_color_depth := next_depth, so_hdr := next_hdr,
                    so_color_space := fst (color_names next_hdr), so_hdr_eotf := snd (color_names next_hdr)\<rparr>
                 else src);
          src = src\<lparr>so_plane_offset := (so_plane_offset src)[0 := vf_plane_offset m ! 0, 1 := vf_plane_offset m ! 1],
                    so_plane_stride := (so_plane_stride src)[0 := vf_plane_stride m ! 0, 1 := vf_plane_stride m ! 1]\<rparr>
      in (dims \<or> format \<or> modifier \<or> stride \<or> depth, src))"

definition refresh_if :: "bool \<Rightarrow> bool \<Rightarrow> receiver \<Rightarrow> receiver" where
  "refresh_if api changed r = (if changed \<and> api then r\<lparr>rv_refreshes := rv_refreshes r + 1\<rparr> else r)"

definition handle_status :: "bool \<Rightarrow> status_msg \<Rightarrow> receiver \<Rightarrow> receiver" where
  "handle_status api m r =
     (case rv_source r of
        None \<Rightarrow> r
      | Some src \<Rightarrow>
          if sm_state m = SBS_WORKER_STATE_RUNNING \<and> so_runtime_state src \<noteq> Some ''running''
          then
            let src = src\<lparr>so_runtime_state := Some ''running''\<rparr>
            in r\<lparr>rv_source := Some src,
                 rv_status_events := rv_status_events r @ (if api then [src] else [])\<rparr>
          else if sm_state m = SBS_WORKER_STATE_ERROR
          then
            let src = src\<lparr>so_error_message := Some (sm_error_message m), so_runtime_state := Some ''error''\<rparr>
            in r\<lparr>rv_source := Some src,
                 rv_status_events := rv_status_events r @ (if api then [src] else [])\<rparr>
          else r)"

definition strlcpy :: "nat \<Rightarrow> string \<Rightarrow> string" where
  "strlcpy n s = take (n - 1) s"

definition handle_signal_change :: "bool \<Rightarrow> signal_change_msg \<Rightarrow> receiver \<Rightarrow> receiver" where
  "handle_signal_change api m r =
     (case rv_source r of
        None \<Rightarrow> r
      | Some src \<Rightarrow>
          let src = (if gc_width m > 0 then src\<lparr>so_frame_width := gc_width m\<rparr> else src);
              src = (if gc_height m > 0 then src\<lparr>so_frame_height := gc_height m\<rparr> else src);
              src = src\<lparr>so_color_depth := (if gc_color_depth m > 0 then gc_color_depth m else 8),
                        so_hdr := (gc_hdr_eotf m \<noteq> ''SDR''),
                        so_color_space := strlcpy 32 (gc_color_space m),
                        so_hdr_eotf := strlcpy 32 (gc_hdr_eotf m),
                        so_slot_initialized := True\<rparr>
          in refresh_if api True (r\<lparr>rv_source := Some src\<rparr>))"

section \<open>Frames\<close>

text \<open>What the reception of one message depends on: the socket's answer, the clock and \<open>dup\<close>.\<close>

record rx_event =
  rx_received :: "sys_errno + datagram"
  rx_now :: int
  rx_dup :: "int option"

definition release_fds :: "frame_fds \<Rightarrow> receiver \<Rightarrow> receiver" where
  "release_fds f r =
     (let (msgs, fds) = sbs_frame_fds_release f
      in r\<lparr>rv_sent := rv_sent r @ msgs, rv_closed := rv_closed r @ fds\<rparr>)"

definition publish_frame :: "frame_fds \<Rightarrow> receiver \<Rightarrow> receiver" where
  "publish_frame f r =
     r\<lparr>rv_slot := sbs_frame_slot_publish (Some f) (of_int (rv_last_frame r)) (rv_slot r)\<rparr>"

definition update_graph_source :: "bool \<Rightarrow> video_frame_msg \<Rightarrow> receiver \<Rightarrow> receiver" where
  "update_graph_source api m r =
     (case rv_source r of
        None \<Rightarrow> r
      | Some src \<Rightarrow>
          let (changed, src) = follow_frame_format m src
          in refresh_if api changed (r\<lparr>rv_source := Some src\<rparr>))"

definition handle_video_frame ::
  "bool \<Rightarrow> bool \<Rightarrow> int \<Rightarrow> rx_event \<Rightarrow> video_frame_msg \<Rightarrow> int \<Rightarrow> int \<Rightarrow> receiver \<Rightarrow> receiver" where
  "handle_video_frame api muted conn ev m fd fd2 r =
     (let r = r\<lparr>rv_last_frame := rx_now ev\<rparr> in
      if muted then close_received [fd, fd2] (send_source_frame_release conn m r)
      else
        let r = update_graph_source api m r;
            f = \<lparr>fd_dmabuf = fd, fd_dmabuf2 = fd2, fd_release_sock = -1, fd_release_sequence = 0,
                 fd_needs_release_ack = False\<rparr>
        in if needs_release m
           then
             (case rx_dup ev of
                None \<Rightarrow> release_fds f (send_source_frame_release conn m r)
              | Some d \<Rightarrow> publish_frame (f\<lparr>fd_release_sock := d, fd_release_sequence := vf_sequence m,
                                          fd_needs_release_ack := True\<rparr>) r)
           else publish_frame f r)"

definition handle_message ::
  "bool \<Rightarrow> bool \<Rightarrow> int \<Rightarrow> rx_event \<Rightarrow> u8 list \<Rightarrow> int \<Rightarrow> int \<Rightarrow> receiver \<Rightarrow> receiver" where
  "handle_message api muted conn ev buf fd fd2 r =
     (let msg_type = vf_msg_type (read_video_frame buf) in
      if msg_type = SBS_IPC_MSG_VIDEO_FRAME
      then handle_video_frame api muted conn ev (read_video_frame buf) fd fd2 r
      else if msg_type = SBS_IPC_MSG_STATUS then handle_status api (read_status buf) r
      else if msg_type = SBS_IPC_MSG_SIGNAL_CHANGE then handle_signal_change api (read_signal_change buf) r
      else close_received (if fd2 \<noteq> fd then [fd, fd2] else [fd]) r)"

text \<open>
  The loop: the boolean of the result says whether it ended with an end of file. The union is cleared
  before each receive. A list of events that runs out is a socket with nothing more to read.
\<close>

fun receive_loop :: "bool \<Rightarrow> bool \<Rightarrow> int \<Rightarrow> rx_event list \<Rightarrow> receiver \<Rightarrow> bool \<times> receiver" where
  "receive_loop api muted conn [] r = (False, r)"
| "receive_loop api muted conn (ev # evs) r =
     (let res = sbs_ipc_recv_frame2 (rx_received ev) conn in
      if rr_code res = SBS_ERR_WOULD_BLOCK then (False, r)
      else if rr_code res = SBS_ERR_EOF then (True, r)
      else if rr_code res \<noteq> SBS_OK then (False, r\<lparr>rv_closed := rv_closed r @ rr_closed res\<rparr>)
      else receive_loop api muted conn evs
             (handle_message api muted conn ev (rr_bytes res @ replicate 384 0) (rr_fd res) (rr_fd2 res) r))"

section \<open>Where the descriptors go\<close>

definition frame_descs :: "frame_fds \<Rightarrow> int multiset" where
  "frame_descs f = mset (filter (\<lambda>fd. 0 \<le> fd) [fd_dmabuf f, fd_dmabuf2 f])"

text \<open>The buffer descriptors of the frames a slot holds or has released.\<close>

definition slot_descs :: "frame_fds frame_slot \<Rightarrow> int multiset" where
  "slot_descs s = \<Sum>\<^sub># (image_mset frame_descs (mset (held s) + mset (fs_released s)))"

definition descriptors :: "receiver \<Rightarrow> int multiset" where
  "descriptors r = slot_descs (rv_slot r) + mset (rv_closed r)"

lemma slot_descs_publish:
  assumes "slot_ready s"
  shows "slot_ready (sbs_frame_slot_publish (Some f) ts s)"
    and "slot_descs (sbs_frame_slot_publish (Some f) ts s) = frame_descs f + slot_descs s"
proof -
  have step: "slot_ready (sbs_frame_slot_publish (Some f) ts s)"
    "mset (held s) + {#f#} + mset (fs_released s)
      = mset (held (sbs_frame_slot_publish (Some f) ts s)) + mset (fs_released (sbs_frame_slot_publish (Some f) ts s))"
    using do_slot_call_step [OF assms, of "Publish f ts"] by simp_all
  show "slot_ready (sbs_frame_slot_publish (Some f) ts s)"
    by (rule step)
  show "slot_descs (sbs_frame_slot_publish (Some f) ts s) = frame_descs f + slot_descs s"
    unfolding slot_descs_def step(2) [symmetric] by simp
qed

lemma receiver_updates [simp]:
  "rv_slot (close_received fds r) = rv_slot r"
  "rv_closed (close_received fds r) = rv_closed r @ filter (\<lambda>fd. 0 \<le> fd) fds"
  "rv_slot (send_source_frame_release c m r) = rv_slot r"
  "rv_closed (send_source_frame_release c m r) = rv_closed r"
  "rv_slot (refresh_if api ch r) = rv_slot r" "rv_closed (refresh_if api ch r) = rv_closed r"
  "rv_slot (update_graph_source api m r) = rv_slot r"
  "rv_closed (update_graph_source api m r) = rv_closed r"
  "rv_slot (handle_status api sm r) = rv_slot r" "rv_closed (handle_status api sm r) = rv_closed r"
  "rv_slot (handle_signal_change api gm r) = rv_slot r"
  "rv_closed (handle_signal_change api gm r) = rv_closed r"
  "rv_slot (release_fds f r) = rv_slot r"
  "rv_closed (release_fds f r) = rv_closed r @ snd (sbs_frame_fds_release f)"
  "rv_closed (publish_frame f r) = rv_closed r"
  by (simp_all add: close_received_def send_source_frame_release_def refresh_if_def
      update_graph_source_def handle_status_def handle_signal_change_def release_fds_def
      publish_frame_def Let_def split: option.splits prod.splits)

definition handled_ok :: "int multiset \<Rightarrow> receiver \<Rightarrow> receiver \<Rightarrow> bool" where
  "handled_ok ds r r' \<longleftrightarrow> slot_ready (rv_slot r') \<and> descriptors r' = descriptors r + ds"

lemma publish_frame_ok:
  assumes "slot_ready (rv_slot r)"
  shows "handled_ok (frame_descs f) r (publish_frame f r)"
  using slot_descs_publish [OF assms]
  by (simp add: handled_ok_def descriptors_def publish_frame_def)

lemma unchanged_slot_ok:
  assumes "slot_ready (rv_slot r)" "rv_slot r' = rv_slot r" "rv_closed r' = rv_closed r @ fds" "ds = mset fds"
  shows "handled_ok ds r r'"
  using assms by (simp add: handled_ok_def descriptors_def)

lemma handled_ok_cong:
  "rv_slot r1 = rv_slot r2 \<Longrightarrow> rv_closed r1 = rv_closed r2 \<Longrightarrow> handled_ok ds r1 r' = handled_ok ds r2 r'"
  by (simp add: handled_ok_def descriptors_def)

lemma video_frame_ok:
  assumes "slot_ready (rv_slot r)" "fd2 = fd \<longrightarrow> fd < 0"
  shows "handled_ok (mset (filter (\<lambda>fd. 0 \<le> fd) [fd, fd2])) r (handle_video_frame api muted conn ev m fd fd2 r)"
proof -
  define r1 where "r1 = r\<lparr>rv_last_frame := rx_now ev\<rparr>"
  define r2 where "r2 = update_graph_source api m r1"
  define f where "f = \<lparr>fd_dmabuf = fd, fd_dmabuf2 = fd2, fd_release_sock = -1, fd_release_sequence = 0,
    fd_needs_release_ack = False\<rparr>"
  have r2: "rv_slot r2 = rv_slot r" "rv_closed r2 = rv_closed r"
    by (simp_all add: r2_def r1_def)
  have pub: "handled_ok (frame_descs g) r (publish_frame g r2)" for g
    using publish_frame_ok [of r2 g] assms(1) r2 handled_ok_cong [OF r2] by simp
  have descs: "frame_descs f = mset (filter (\<lambda>fd. 0 \<le> fd) [fd, fd2])"
    "frame_descs (f\<lparr>fd_release_sock := d, fd_release_sequence := q, fd_needs_release_ack := a\<rparr>)
      = mset (filter (\<lambda>fd. 0 \<le> fd) [fd, fd2])" for d q a
    by (simp_all add: frame_descs_def f_def)
  have freed: "snd (sbs_frame_fds_release f) = filter (\<lambda>fd. 0 \<le> fd) [fd, fd2]"
    using assms(2) by (auto simp: sbs_frame_fds_release_def f_def)
  show ?thesis
  proof (cases muted)
    case True
    then show ?thesis
      by (intro unchanged_slot_ok [OF assms(1)]) (auto simp: handle_video_frame_def)
  next
    case unmuted: False
    then have body: "handle_video_frame api muted conn ev m fd fd2 r =
      (if needs_release m then (case rx_dup ev of
           None \<Rightarrow> release_fds f (send_source_frame_release conn m r2)
         | Some d \<Rightarrow> publish_frame (f\<lparr>fd_release_sock := d, fd_release_sequence := vf_sequence m,
                                     fd_needs_release_ack := True\<rparr>) r2)
       else publish_frame f r2)"
      unfolding handle_video_frame_def Let_def r2_def r1_def f_def by simp
    have "handled_ok (mset (filter (\<lambda>fd. 0 \<le> fd) [fd, fd2])) r (release_fds f (send_source_frame_release conn m r2))"
      by (rule unchanged_slot_ok [OF assms(1)]) (simp_all add: r2 freed)
    moreover have "handled_ok (mset (filter (\<lambda>fd. 0 \<le> fd) [fd, fd2])) r (publish_frame f r2)"
      using pub [of f] unfolding descs(1) .
    moreover have "handled_ok (mset (filter (\<lambda>fd. 0 \<le> fd) [fd, fd2])) r
        (publish_frame (f\<lparr>fd_release_sock := d, fd_release_sequence := q, fd_needs_release_ack := a\<rparr>) r2)"
      for d q a
      using pub [of "f\<lparr>fd_release_sock := d, fd_release_sequence := q, fd_needs_release_ack := a\<rparr>"]
      unfolding descs(2) .
    ultimately show ?thesis
      unfolding body by (simp only: split: if_split option.split) blast
  qed
qed

definition describes_frame :: "u8 list \<Rightarrow> bool" where
  "describes_frame buf \<longleftrightarrow> vf_msg_type (read_video_frame buf) \<noteq> SBS_IPC_MSG_STATUS
     \<and> vf_msg_type (read_video_frame buf) \<noteq> SBS_IPC_MSG_SIGNAL_CHANGE"

lemma handle_message_ok:
  assumes "slot_ready (rv_slot r)" "fd2 = fd \<longrightarrow> fd < 0" "describes_frame buf \<or> (fd < 0 \<and> fd2 < 0)"
  shows "handled_ok (mset (filter (\<lambda>fd. 0 \<le> fd) [fd, fd2])) r (handle_message api muted conn ev buf fd fd2 r)"
proof -
  let ?t = "vf_msg_type (read_video_frame buf)"
  consider "?t = SBS_IPC_MSG_VIDEO_FRAME" | "?t = SBS_IPC_MSG_STATUS" | "?t = SBS_IPC_MSG_SIGNAL_CHANGE"
    | "?t \<noteq> SBS_IPC_MSG_VIDEO_FRAME" "?t \<noteq> SBS_IPC_MSG_STATUS" "?t \<noteq> SBS_IPC_MSG_SIGNAL_CHANGE" by blast
  then show ?thesis
  proof cases
    case 1
    then show ?thesis
      using video_frame_ok [OF assms(1,2)] by (simp add: handle_message_def)
  next
    case 4
    have "filter (\<lambda>fd. 0 \<le> fd) (if fd2 \<noteq> fd then [fd, fd2] else [fd]) = filter (\<lambda>fd. 0 \<le> fd) [fd, fd2]"
      using assms(2) by auto
    then have "handled_ok (mset (filter (\<lambda>fd. 0 \<le> fd) [fd, fd2])) r
        (close_received (if fd2 \<noteq> fd then [fd, fd2] else [fd]) r)"
      by (intro unchanged_slot_ok [OF assms(1) _ _ refl]) (simp_all only: receiver_updates)
    then show ?thesis
      using 4 by (simp add: handle_message_def)
  qed (rule unchanged_slot_ok [OF assms(1), where fds = "[]"],
      use assms(3) in \<open>auto simp: handle_message_def describes_frame_def msg_type_defs\<close>)+
qed

text \<open>The descriptors attached to the messages the loop takes from the socket.\<close>

fun rx_taken :: "rx_event list \<Rightarrow> int list" where
  "rx_taken [] = []"
| "rx_taken (ev # evs) =
     (case rx_received ev of
        Inl _ \<Rightarrow> []
      | Inr d \<Rightarrow> if fst d = [] then [] else if length (fst d) < 128 then snd d else snd d @ rx_taken evs)"

text \<open>What the workers send: at most two valid distinct descriptors, none with a status or signal message.\<close>

definition worker_message :: "rx_event \<Rightarrow> bool" where
  "worker_message ev \<longleftrightarrow> (case rx_received ev of Inl _ \<Rightarrow> True | Inr d \<Rightarrow>
     (\<forall>fd \<in> set (snd d). 0 \<le> fd) \<and> distinct (snd d) \<and> length (snd d) \<le> 2
     \<and> (describes_frame (take 128 (fst d) @ replicate 384 0) \<or> snd d = []))"

lemma received_fds:
  assumes "worker_message ev" "rx_received ev = Inr d" "fst d \<noteq> []" "0 \<le> conn"
  defines "res \<equiv> sbs_ipc_recv_frame2 (Inr d) conn"
  shows "filter (\<lambda>fd. 0 \<le> fd) [rr_fd res, rr_fd2 res] @ rr_closed res = snd d"
    and "rr_fd2 res = rr_fd res \<longrightarrow> rr_fd res < 0"
    and "snd d = [] \<Longrightarrow> rr_fd res < 0 \<and> rr_fd2 res < 0"
proof -
  have kept: "filter (\<lambda>fd. 0 \<le> fd) [rr_fd res, rr_fd2 res] @ rr_closed res = snd d"
    unfolding res_def by (rule recv_fds_kept) (use assms in \<open>auto simp: worker_message_def\<close>)
  then show "filter (\<lambda>fd. 0 \<le> fd) [rr_fd res, rr_fd2 res] @ rr_closed res = snd d" .
  have "distinct (snd d)"
    using assms(1,2) by (simp add: worker_message_def)
  then show "rr_fd2 res = rr_fd res \<longrightarrow> rr_fd res < 0"
    unfolding kept [symmetric] by (auto split: if_splits)
  show "rr_fd res < 0 \<and> rr_fd2 res < 0" if "snd d = []"
    using kept that by (auto split: if_splits)
qed

lemma receive_loop_ok:
  assumes "slot_ready (rv_slot r)" "0 \<le> conn" "\<forall>ev \<in> set evs. worker_message ev"
  shows "handled_ok (mset (rx_taken evs)) r (snd (receive_loop api muted conn evs r))"
  using assms
proof (induction evs arbitrary: r)
  case Nil
  then show ?case
    by (simp add: handled_ok_def)
next
  case (Cons ev evs)
  show ?case
  proof (cases "rx_received ev")
    case (Inl e)
    then show ?thesis
      using Cons.prems
      by (cases e) (simp_all add: sbs_ipc_recv_frame2_def recv_frame_fds_def recv_errno_def handled_ok_def
          descriptors_def)
  next
    case (Inr d)
    define res where "res = sbs_ipc_recv_frame2 (Inr d) conn"
    consider "fst d = []" | "fst d \<noteq> []" "length (fst d) < 128" | "fst d \<noteq> []" "length (fst d) \<ge> 128"
      by linarith
    then show ?thesis
    proof cases
      case 1
      then show ?thesis
        using Cons.prems Inr
        by (simp add: sbs_ipc_recv_frame2_def recv_frame_fds_def cut_datagram_def handled_ok_def)
    next
      case 2
      have wm: "worker_message ev"
        using Cons.prems by simp
      have res: "rr_code res = SBS_ERR_IO" "rr_fd res = -1" "rr_fd2 res = -1"
        using 2 Cons.prems(2) by (auto simp: res_def sbs_ipc_recv_frame2_def recv_frame_fds_def cut_datagram_def Let_def)
      then have "rr_closed res = snd d"
        using received_fds(1) [OF wm Inr 2(1) Cons.prems(2)] by (simp add: res_def)
      then show ?thesis
        using res Cons.prems(1) Inr 2 by (simp add: handled_ok_def descriptors_def flip: res_def)
    next
      case 3
      have wm: "worker_message ev"
        using Cons.prems by simp
      note res = recv_frame2_ok [OF Cons.prems(2) 3(2), folded res_def]
      note fds = received_fds [OF wm Inr 3(1) Cons.prems(2), folded res_def]
      define r' where "r' = handle_message api muted conn ev (take 128 (fst d) @ replicate 384 0) (rr_fd res) (rr_fd2 res) r"
      have "describes_frame (take 128 (fst d) @ replicate 384 0) \<or> (rr_fd res < 0 \<and> rr_fd2 res < 0)"
        using wm Inr fds(3) by (auto simp: worker_message_def)
      then have "handled_ok (mset (filter (\<lambda>fd. 0 \<le> fd) [rr_fd res, rr_fd2 res])) r r'"
        unfolding r'_def by (intro handle_message_ok [OF Cons.prems(1) fds(2)])
      then have step: "slot_ready (rv_slot r')" "descriptors r' = descriptors r + mset (snd d)"
        using fds(1) res(3) by (simp_all add: handled_ok_def)
      have "receive_loop api muted conn (ev # evs) r = receive_loop api muted conn evs r'"
        using res Inr by (simp add: r'_def flip: res_def)
      then show ?thesis
        using Cons.IH [OF step(1) Cons.prems(2)] Cons.prems(3) step(2) Inr 3
        by (simp add: handled_ok_def ac_simps)
    qed
  qed
qed

section \<open>Properties\<close>

text \<open>C17. Every descriptor taken from the worker's socket is in a frame the slot holds or has released,
  or is closed: none is lost and none is closed twice, whatever mix of frames, unknown messages,
  short messages and failing \<open>dup\<close> calls the loop meets.\<close>

theorem received_frames_keep_descriptors:
  assumes "slot_ready (rv_slot r)" "0 \<le> conn" "\<forall>ev \<in> set evs. worker_message ev"
  shows "descriptors (snd (receive_loop api muted conn evs r)) = descriptors r + mset (rx_taken evs)"
  using receive_loop_ok [OF assms] by (simp add: handled_ok_def)

definition sample_receiver :: receiver where
  "sample_receiver = \<lparr>rv_slot = source_slot, rv_source = None, rv_sent = [], rv_closed = [],
     rv_last_frame = 0, rv_refreshes = 0, rv_status_events = []\<rparr>"

definition frame_event :: "video_frame_msg \<Rightarrow> int list \<Rightarrow> int option \<Rightarrow> rx_event" where
  "frame_event m fds d = \<lparr>rx_received = Inr (video_frame_bytes m, fds), rx_now = 1, rx_dup = d\<rparr>"

lemma frame_event_received:
  assumes "video_frame_wf m"
  shows "read_video_frame (take 128 (video_frame_bytes m) @ r) = m"
  using read_video_frame_bytes [OF assms, of r] by simp

lemma sample_frame_facts:
  "video_frame_wf sample_frame" "vf_msg_type sample_frame = SBS_IPC_MSG_VIDEO_FRAME"
  "needs_release sample_frame"
  by (simp_all add: video_frame_wf_def sample_frame_def sbs_video_frame_msg_init_def needs_release_def
      SBS_FRAME_FLAG_NEEDS_RELEASE_def)

theorem received_frames_keep_descriptors_witness:
  "descriptors (snd (receive_loop True False 5
       [frame_event sample_frame [11, 12] (Some 13), frame_event sample_frame [14] None] sample_receiver))
   = {#11, 12, 14#}"
proof -
  have "worker_message (frame_event sample_frame fds d)" if "\<forall>fd \<in> set fds. 0 \<le> fd" "distinct fds" "length fds \<le> 2" for fds d
    using that sample_frame_facts frame_event_received [of sample_frame]
    by (simp add: worker_message_def frame_event_def describes_frame_def msg_type_defs)
  then have "descriptors (snd (receive_loop True False 5
       [frame_event sample_frame [11, 12] (Some 13), frame_event sample_frame [14] None] sample_receiver))
   = descriptors sample_receiver + mset (rx_taken [frame_event sample_frame [11, 12] (Some 13), frame_event sample_frame [14] None])"
    by (intro received_frames_keep_descriptors) (simp_all add: sample_receiver_def source_slot_ready)
  moreover have "descriptors sample_receiver = {#}"
    by (simp add: descriptors_def sample_receiver_def slot_descs_def source_slot_def held_def fs_view_def
        fs_window_def sbs_frame_slot_set_release_func_def sbs_frame_slot_init_def)
  moreover have "video_frame_bytes sample_frame \<noteq> []"
    using length_video_frame_bytes [of sample_frame] by force
  ultimately show ?thesis
    by (simp add: frame_event_def)
qed

lemma video_frame_received:
  assumes "video_frame_wf m" "vf_msg_type m = SBS_IPC_MSG_VIDEO_FRAME" "0 \<le> conn"
  shows "receive_loop api muted conn (frame_event m fds d # evs) r =
    receive_loop api muted conn evs (handle_video_frame api muted conn (frame_event m fds d) m
      (rr_fd (sbs_ipc_recv_frame2 (Inr (video_frame_bytes m, fds)) conn))
      (rr_fd2 (sbs_ipc_recv_frame2 (Inr (video_frame_bytes m, fds)) conn)) r)"
  using recv_frame2_ok [of conn "(video_frame_bytes m, fds)"] assms(3)
    read_video_frame_bytes [OF assms(1)] assms(2)
  by (simp add: frame_event_def handle_message_def Let_def)

text \<open>While a source is muted its slot keeps what it holds, the scene is left alone, and the worker
  gets back the lease of every frame it asked to have returned, in order.\<close>

theorem muted_source_returns_leases:
  fixes r :: receiver and api :: bool
  assumes "0 \<le> conn" "\<forall>(m, fds, d) \<in> set ms. video_frame_wf m \<and> vf_msg_type m = SBS_IPC_MSG_VIDEO_FRAME"
  defines "r' \<equiv> snd (receive_loop api True conn (map (\<lambda>(m, fds, d). frame_event m fds d) ms) r)"
  shows "rv_slot r' = rv_slot r \<and> rv_source r' = rv_source r \<and> rv_refreshes r' = rv_refreshes r
    \<and> rv_sent r' = rv_sent r @ map (\<lambda>(m, _). frame_release_bytes (vf_sequence m))
                                   (filter (\<lambda>(m, _). needs_release m) ms)"
  using assms(2) unfolding r'_def
proof (induction ms arbitrary: r)
  case (Cons x ms)
  obtain m fds d where x: "x = (m, fds, d)" by (cases x)
  have ok: "video_frame_wf m" "vf_msg_type m = SBS_IPC_MSG_VIDEO_FRAME"
    using Cons.prems x by simp_all
  show ?case
    using Cons.IH Cons.prems assms(1)
    by (simp add: x video_frame_received [OF ok assms(1)] handle_video_frame_def close_received_def
        send_source_frame_release_def del: receive_loop.simps)
qed simp

theorem muted_source_returns_leases_witness:
  "rv_sent (snd (receive_loop True True 5 [frame_event sample_frame [11] (Some 13)] sample_receiver))
   = [frame_release_bytes 77]"
  using muted_source_returns_leases [of 5 "[(sample_frame, [11], Some 13)]" True sample_receiver] sample_frame_facts
  by (simp add: sample_receiver_def) (simp add: sample_frame_def)

text \<open>The format codes of the kernel's \<open>drm_fourcc.h\<close>: four characters, the first in the low byte.\<close>

definition fourcc_code :: "char \<Rightarrow> char \<Rightarrow> char \<Rightarrow> char \<Rightarrow> u32" where
  "fourcc_code a b c d = of_char a OR push_bit 8 (of_char b) OR push_bit 16 (of_char c) OR push_bit 24 (of_char d)"

text \<open>The server's own \<open>DRM_FORMAT_P010\<close> is not the kernel's code for P010, which the worker sends:
  the source of a 10-bit frame is recorded with a colour depth of 8.\<close>

theorem p010_frame_recorded_as_8_bit:
  "DRM_FORMAT_P010 = fourcc_code CHR ''N'' CHR ''P'' CHR ''1'' CHR ''0''
   \<and> so_color_depth (snd (follow_frame_format
        (m\<lparr>vf_drm_format := fourcc_code CHR ''P'' CHR ''0'' CHR ''1'' CHR ''0''\<rparr>) src)) = 8
   \<and> so_color_depth (snd (follow_frame_format (m\<lparr>vf_drm_format := DRM_FORMAT_P010\<rparr>) src)) = 10"
proof -
  have "DRM_FORMAT_P010 = fourcc_code CHR ''N'' CHR ''P'' CHR ''1'' CHR ''0''"
    by (simp add: DRM_FORMAT_P010_def fourcc_code_def)
  moreover have "fourcc_code CHR ''P'' CHR ''0'' CHR ''1'' CHR ''0'' \<noteq> DRM_FORMAT_P010"
    by (simp add: DRM_FORMAT_P010_def fourcc_code_def)
  ultimately show ?thesis
    by (simp add: follow_frame_format_def Let_def)
qed

end
