(* ===== verification/Source_Supervisor.thy ===== *)
theory Source_Supervisor
  imports Source_Receive
begin

text \<open>
  The supervision of the source workers, \<open>src/server/supervisor/source_supervisor.c\<close>: one entry
  per source with its process, sockets, GLib watches and restart counter; start, stop and shutdown
  by the server, and the callbacks of the main loop.

  An entry is an object in memory named by a handle; the table maps source identifiers to handles.
  A callback that finds its entry freed has no result (\<open>None\<close>): a use after free. The main loop's
  watches, the open descriptors, the running processes and the signals sent are part of the state.
  What the kernel answers (descriptors, process identifiers, whether a call succeeds, which workers
  exit in time, the random jitter) is a parameter. Memory never runs out. The frame slots are at
  addresses of their own, as the entries borrow them; a received message goes through theory
  Source_Receive. The contents of the worker's configuration are not modelled. \<open>su_fds\<close> are the
  supervisor's own sockets; the descriptors of the frames are followed in Source_Receive.
\<close>

section \<open>State\<close>

datatype watch_kind =
    is_Watch_io: Watch_io int
  | is_Watch_child: Watch_child nat
  | is_Watch_accept: Watch_accept
  | is_Watch_stable: Watch_stable
  | is_Watch_restart: Watch_restart nat

record watch =
  w_id :: nat
  w_kind :: watch_kind
  w_entry :: nat

record source_entry =
  se_source_id :: string
  se_source_type :: string
  se_pid :: nat
  se_listen_fd :: int
  se_conn_fd :: int
  se_frame_slot :: nat
  se_io_watch :: nat
  se_child_watch :: nat
  se_accept_timer :: nat
  se_stable_timer :: nat
  se_restart_attempts :: nat
  se_last_start :: int
  se_last_frame :: int
  se_shutting_down :: bool
  se_muted :: bool

datatype unix_signal = SIGTERM | SIGKILL

record source_sup =
  su_table :: "(string \<times> nat) list"
  su_mem :: "nat \<rightharpoonup> source_entry"
  su_next_handle :: nat
  su_watches :: "watch list"
  su_next_id :: nat
  su_fds :: "int set"
  su_procs :: "nat set"
  su_signals :: "(nat \<times> unix_signal) list"
  su_sent :: "(int \<times> u8 list) list"
  su_closed :: "int list"
  su_slots :: "nat \<Rightarrow> frame_fds frame_slot"
  su_graph :: "scene_graph option"
  su_api :: bool
  su_refreshes :: nat
  su_status_events :: "source_state list"

definition BACKOFF_BASE_MS :: nat where "BACKOFF_BASE_MS = 1000"
definition BACKOFF_MAX_MS :: nat where "BACKOFF_MAX_MS = 30000"
definition MAX_RESTART_ATTEMPTS :: nat where "MAX_RESTART_ATTEMPTS = 10"
definition SHUTDOWN_GRACE_MS :: u32 where "SHUTDOWN_GRACE_MS = 2000"
definition SOURCE_STALE_USEC :: int where "SOURCE_STALE_USEC = 5000000"

section \<open>GLib, the kernel and the memory\<close>

definition g_source_remove :: "nat \<Rightarrow> source_sup \<Rightarrow> source_sup" where
  "g_source_remove i s = s\<lparr>su_watches := filter (\<lambda>w. w_id w \<noteq> i) (su_watches s)\<rparr>"

text \<open>A new watch; its identifier is the counter's value.\<close>

definition g_watch_add :: "watch_kind \<Rightarrow> nat \<Rightarrow> source_sup \<Rightarrow> source_sup" where
  "g_watch_add k h s = s\<lparr>su_watches := su_watches s @ [\<lparr>w_id = su_next_id s, w_kind = k, w_entry = h\<rparr>],
     su_next_id := su_next_id s + 1\<rparr>"

definition close_fd :: "int \<Rightarrow> source_sup \<Rightarrow> source_sup" where
  "close_fd fd s = (if fd \<ge> 0 then s\<lparr>su_fds := su_fds s - {fd}\<rparr> else s)"

definition send_signal :: "unix_signal \<Rightarrow> nat \<Rightarrow> source_sup \<Rightarrow> source_sup" where
  "send_signal sig pid s = s\<lparr>su_signals := su_signals s @ [(pid, sig)]\<rparr>"

definition reap :: "nat \<Rightarrow> source_sup \<Rightarrow> source_sup" where
  "reap pid s = s\<lparr>su_procs := su_procs s - {pid}\<rparr>"

definition send_shutdown :: "source_entry \<Rightarrow> source_sup \<Rightarrow> source_sup" where
  "send_shutdown e s =
     (if se_conn_fd e \<ge> 0
      then s\<lparr>su_sent := su_sent s @ [(se_conn_fd e, shutdown_bytes SHUTDOWN_GRACE_MS 0)]\<rparr> else s)"

definition set_entry :: "nat \<Rightarrow> source_entry \<Rightarrow> source_sup \<Rightarrow> source_sup" where
  "set_entry h e s = s\<lparr>su_mem := (su_mem s)(h \<mapsto> e)\<rparr>"

definition remove_if :: "nat \<Rightarrow> source_sup \<Rightarrow> source_sup" where
  "remove_if i s = (if i \<noteq> 0 then g_source_remove i s else s)"

section \<open>Entries and workers\<close>

definition kill_worker :: "source_entry \<Rightarrow> source_sup \<Rightarrow> source_sup" where
  "kill_worker e s =
     (if se_pid e > 0 then reap (se_pid e) (send_signal SIGKILL (se_pid e) s) else s)"

definition source_entry_free :: "nat \<Rightarrow> source_sup \<Rightarrow> source_sup" where
  "source_entry_free h s =
     (case su_mem s h of
        None \<Rightarrow> s
      | Some e \<Rightarrow>
          let s = remove_if (se_io_watch e) s;
              s = remove_if (se_child_watch e) s;
              s = remove_if (se_accept_timer e) s;
              s = remove_if (se_stable_timer e) s;
              s = close_fd (se_conn_fd e) s;
              s = close_fd (se_listen_fd e) s;
              s = kill_worker e s
          in s\<lparr>su_mem := (su_mem s)(h := None)\<rparr>)"

record launch_env =
  le_listen :: "int option"
  le_config :: bool
  le_pipe :: bool
  le_fork :: "nat option"
  le_accept :: "int option"
  le_now :: int

definition connect_entry :: "nat \<Rightarrow> int \<Rightarrow> source_entry \<Rightarrow> source_sup \<Rightarrow> source_sup" where
  "connect_entry h fd e s =
     (let e = e\<lparr>se_conn_fd := fd\<rparr>;
          s = s\<lparr>su_fds := insert fd (su_fds s)\<rparr>;
          s = remove_if (se_accept_timer e) s;
          e = e\<lparr>se_accept_timer := 0\<rparr>;
          e = e\<lparr>se_io_watch := su_next_id s\<rparr>;
          s = g_watch_add (Watch_io fd) h s;
          e = e\<lparr>se_stable_timer := su_next_id s\<rparr>;
          s = g_watch_add Watch_stable h s
      in set_entry h e s)"

definition source_entry_launch :: "launch_env \<Rightarrow> nat \<Rightarrow> source_entry \<Rightarrow> source_sup \<Rightarrow> sbs_result \<times> source_sup" where
  "source_entry_launch v h e s =
     (case le_listen v of
        None \<Rightarrow> (SBS_ERR_IO, set_entry h (e\<lparr>se_listen_fd := -1\<rparr>) s)
      | Some lfd \<Rightarrow>
          if \<not> le_config v then (SBS_ERR_NOMEM, set_entry h (e\<lparr>se_listen_fd := -1\<rparr>) s)
          else if \<not> le_pipe v then (SBS_ERR_IO, set_entry h (e\<lparr>se_listen_fd := -1\<rparr>) s)
          else case le_fork v of
            None \<Rightarrow> (SBS_ERR_IO, set_entry h (e\<lparr>se_listen_fd := -1\<rparr>) s)
          | Some pid \<Rightarrow>
              let s = s\<lparr>su_fds := insert lfd (su_fds s), su_procs := insert pid (su_procs s)\<rparr>;
                  e = e\<lparr>se_listen_fd := lfd, se_pid := pid, se_last_start := le_now v\<rparr>;
                  e = e\<lparr>se_child_watch := su_next_id s\<rparr>;
                  s = g_watch_add (Watch_child pid) h s;
                  e = e\<lparr>se_accept_timer := su_next_id s\<rparr>;
                  s = g_watch_add Watch_accept h s
              in (SBS_OK,
                  case le_accept v of
                    Some fd \<Rightarrow> connect_entry h fd e s
                  | None \<Rightarrow>
                      let e = e\<lparr>se_io_watch := su_next_id s\<rparr>;
                          s = g_watch_add (Watch_io lfd) h s
                      in set_entry h e s))"

definition source_entry_cleanup_worker :: "nat \<Rightarrow> source_entry \<Rightarrow> source_sup \<Rightarrow> source_entry \<times> source_sup" where
  "source_entry_cleanup_worker h e s =
     (let s = remove_if (se_io_watch e) s;
          s = remove_if (se_child_watch e) s;
          s = remove_if (se_accept_timer e) s;
          s = remove_if (se_stable_timer e) s;
          s = close_fd (se_conn_fd e) s;
          s = close_fd (se_listen_fd e) s;
          e = e\<lparr>se_io_watch := 0, se_child_watch := 0, se_accept_timer := 0, se_stable_timer := 0,
                se_conn_fd := -1, se_listen_fd := -1, se_pid := 0\<rparr>
      in (e, set_entry h e s))"

section \<open>Requests of the server\<close>

definition sbs_source_supervisor_start_source ::
  "launch_env \<Rightarrow> string option \<Rightarrow> string option \<Rightarrow> nat \<Rightarrow> source_sup \<Rightarrow> sbs_result \<times> source_sup" where
  "sbs_source_supervisor_start_source v source_id source_type slot s =
     (case source_id of
        None \<Rightarrow> (SBS_ERR_INVAL, s)
      | Some sid \<Rightarrow>
          if ht_contains (su_table s) sid then (SBS_ERR_INVAL, s)
          else
            let h = su_next_handle s;
                e = \<lparr>se_source_id = sid,
                     se_source_type = (case source_type of Some t \<Rightarrow> t | None \<Rightarrow> ''videotestsrc''),
                     se_pid = 0, se_listen_fd = -1, se_conn_fd = -1, se_frame_slot = slot,
                     se_io_watch = 0, se_child_watch = 0, se_accept_timer = 0, se_stable_timer = 0, se_restart_attempts = 0, se_last_start = 0,
                     se_last_frame = 0, se_shutting_down = False, se_muted = False\<rparr>;
                s = s\<lparr>su_table := ht_insert sid h (su_table s), su_next_handle := h + 1\<rparr>;
                (rc, s) = source_entry_launch v h e s
            in if rc \<noteq> SBS_OK
               then (rc, source_entry_free h (s\<lparr>su_table := ht_remove sid (su_table s)\<rparr>))
               else (SBS_OK, s))"

definition sbs_source_supervisor_stop_source :: "string option \<Rightarrow> source_sup \<Rightarrow> sbs_result \<times> source_sup" where
  "sbs_source_supervisor_stop_source source_id s =
     (case source_id of
        None \<Rightarrow> (SBS_ERR_INVAL, s)
      | Some sid \<Rightarrow>
          (case ht_lookup (su_table s) sid of
             None \<Rightarrow> (SBS_ERR_NOT_FOUND, s)
           | Some h \<Rightarrow>
               let e = (the (su_mem s h))\<lparr>se_shutting_down := True\<rparr>;
                   s = send_shutdown e (set_entry h e s);
                   s = (if se_pid e > 0 then send_signal SIGTERM (se_pid e) s else s);
                   s = s\<lparr>su_table := ht_remove sid (su_table s)\<rparr>
               in (SBS_OK, source_entry_free h s)))"

definition set_muted :: "bool \<Rightarrow> string option \<Rightarrow> source_sup \<Rightarrow> sbs_result \<times> source_sup" where
  "set_muted b source_id s =
     (case source_id of
        None \<Rightarrow> (SBS_ERR_INVAL, s)
      | Some sid \<Rightarrow>
          (case ht_lookup (su_table s) sid of
             None \<Rightarrow> (SBS_ERR_NOT_FOUND, s)
           | Some h \<Rightarrow> (SBS_OK, set_entry h ((the (su_mem s h))\<lparr>se_muted := b\<rparr>) s)))"

definition sbs_source_supervisor_mute_source :: "string option \<Rightarrow> source_sup \<Rightarrow> sbs_result \<times> source_sup" where
  "sbs_source_supervisor_mute_source = set_muted True"

definition sbs_source_supervisor_unmute_source :: "string option \<Rightarrow> source_sup \<Rightarrow> sbs_result \<times> source_sup" where
  "sbs_source_supervisor_unmute_source = set_muted False"

section \<open>Shutting all down\<close>

text \<open>
  \<open>exits1\<close> and \<open>exits2\<close> are the processes that exit during the grace period and after \<open>SIGTERM\<close>; a
  poll reaps an exited process and clears the entry's process.
\<close>

definition poll_exit :: "nat set \<Rightarrow> nat \<Rightarrow> source_sup \<Rightarrow> source_sup" where
  "poll_exit exits h s =
     (let e = the (su_mem s h) in
      if se_pid e > 0 \<and> se_pid e \<in> exits
      then set_entry h (e\<lparr>se_pid := 0\<rparr>) (reap (se_pid e) s) else s)"

definition term_worker :: "nat \<Rightarrow> source_sup \<Rightarrow> source_sup" where
  "term_worker h s =
     (let e = the (su_mem s h) in
      if se_pid e > 0 then send_signal SIGTERM (se_pid e) s else s)"

definition kill_straggler :: "nat \<Rightarrow> source_sup \<Rightarrow> source_sup" where
  "kill_straggler h s =
     (let e = the (su_mem s h) in
      if se_pid e > 0
      then set_entry h (e\<lparr>se_pid := 0\<rparr>) (reap (se_pid e) (send_signal SIGKILL (se_pid e) s)) else s)"

definition mark_shutting_down :: "nat \<Rightarrow> source_sup \<Rightarrow> source_sup" where
  "mark_shutting_down h s =
     (let e = (the (su_mem s h))\<lparr>se_shutting_down := True\<rparr> in send_shutdown e (set_entry h e s))"

definition sbs_source_supervisor_shutdown_all :: "nat set \<Rightarrow> nat set \<Rightarrow> source_sup \<Rightarrow> source_sup" where
  "sbs_source_supervisor_shutdown_all exits1 exits2 s =
     (let hs = map snd (su_table s) in
      if hs = [] then s
      else
        let s = fold mark_shutting_down hs s;
            s = fold (poll_exit exits1) hs s;
            s = (if list_all (\<lambda>h. se_pid (the (su_mem s h)) = 0) hs then s
                 else fold kill_straggler hs (fold (poll_exit exits2) hs (fold term_worker hs s)))
        in fold source_entry_free hs (s\<lparr>su_table := []\<rparr>))"

section \<open>Restarts\<close>

fun double_backoff :: "nat \<Rightarrow> nat \<Rightarrow> nat" where
  "double_backoff 0 d = d"
| "double_backoff (Suc n) d = (if d < BACKOFF_MAX_MS then double_backoff n (d * 2) else d)"

definition backoff_delay :: "nat \<Rightarrow> nat" where
  "backoff_delay attempts = min (double_backoff (attempts - 1) BACKOFF_BASE_MS) BACKOFF_MAX_MS"

text \<open>\<open>jitter\<close> is what \<open>g_random_int_range(0, delay / 4)\<close> gives, \<open>up\<close> the random boolean.\<close>

definition jittered_delay :: "nat \<Rightarrow> bool \<Rightarrow> nat \<Rightarrow> nat" where
  "jittered_delay delay up jitter =
     (if up then delay + jitter else if delay > jitter then delay - jitter else delay)"

definition schedule_restart :: "bool \<Rightarrow> nat \<Rightarrow> nat \<Rightarrow> source_entry \<Rightarrow> source_sup \<Rightarrow> source_sup" where
  "schedule_restart up jitter h e s =
     (let e = e\<lparr>se_restart_attempts := se_restart_attempts e + 1\<rparr>;
          s = set_entry h e s
      in if se_restart_attempts e > MAX_RESTART_ATTEMPTS then s
         else g_watch_add (Watch_restart (jittered_delay (backoff_delay (se_restart_attempts e)) up jitter)) h s)"

text \<open>The callbacks. Each is called with the entry of its watch; \<open>None\<close> is a use after free.\<close>

definition on_child_exit :: "bool \<Rightarrow> nat \<Rightarrow> nat \<Rightarrow> nat \<Rightarrow> source_sup \<Rightarrow> source_sup option" where
  "on_child_exit up jitter pid h s =
     (case su_mem s h of
        None \<Rightarrow> None
      | Some e \<Rightarrow>
          let e = e\<lparr>se_child_watch := 0, se_pid := 0\<rparr>;
              s = remove_if (se_io_watch e) (reap pid s);
              s = close_fd (se_conn_fd e) s;
              s = close_fd (se_listen_fd e) s;
              e = e\<lparr>se_io_watch := 0, se_conn_fd := -1, se_listen_fd := -1\<rparr>;
              s = set_entry h e s
          in Some (if se_shutting_down e then s else schedule_restart up jitter h e s))"

definition on_accept_timeout :: "nat \<Rightarrow> source_sup \<Rightarrow> source_sup option" where
  "on_accept_timeout h s =
     (case su_mem s h of
        None \<Rightarrow> None
      | Some e \<Rightarrow>
          let s = set_entry h (e\<lparr>se_accept_timer := 0\<rparr>) s
          in Some (if se_pid e > 0 then send_signal SIGKILL (se_pid e) s else s))"

definition on_stable_timer :: "nat \<Rightarrow> source_sup \<Rightarrow> source_sup option" where
  "on_stable_timer h s =
     (case su_mem s h of
        None \<Rightarrow> None
      | Some e \<Rightarrow> Some (set_entry h (e\<lparr>se_stable_timer := 0, se_restart_attempts := 0\<rparr>) s))"

definition on_restart_timer :: "launch_env \<Rightarrow> bool \<Rightarrow> nat \<Rightarrow> nat \<Rightarrow> source_sup \<Rightarrow> source_sup option" where
  "on_restart_timer v up jitter h s =
     (case su_mem s h of
        None \<Rightarrow> None
      | Some e \<Rightarrow>
          if se_shutting_down e then Some s
          else
            let (e, s) = source_entry_cleanup_worker h e s;
                (rc, s) = source_entry_launch v h e s
            in Some (if rc \<noteq> SBS_OK then schedule_restart up jitter h (the (su_mem s h)) s else s))"

text \<open>
  The watch of a socket. \<open>accepted\<close> is what \<open>accept4\<close> gives on the listening socket, \<open>hup\<close> whether
  the condition has \<open>G_IO_HUP\<close> or \<open>G_IO_ERR\<close>, \<open>evs\<close> what the successive receives answer. The boolean
  of the result says whether the watch stays installed.
\<close>

definition entry_receiver :: "source_entry \<Rightarrow> source_sup \<Rightarrow> receiver" where
  "entry_receiver e s =
     \<lparr>rv_slot = su_slots s (se_frame_slot e),
      rv_source = (case su_graph s of None \<Rightarrow> None
                   | Some g \<Rightarrow> sbs_scene_graph_get_source g (Some (se_source_id e))),
      rv_sent = [], rv_closed = [], rv_last_frame = se_last_frame e, rv_refreshes = 0,
      rv_status_events = []\<rparr>"

definition store_source :: "string \<Rightarrow> source_state option \<Rightarrow> scene_graph option \<Rightarrow> scene_graph option" where
  "store_source sid src g =
     (case (g, src) of
        (Some g, Some src) \<Rightarrow> Some (g\<lparr>gr_sources := ht_insert sid src (gr_sources g)\<rparr>)
      | _ \<Rightarrow> g)"

definition receive_into :: "rx_event list \<Rightarrow> nat \<Rightarrow> source_entry \<Rightarrow> source_sup \<Rightarrow> bool \<times> source_entry \<times> source_sup" where
  "receive_into evs h e s =
     (let (eof, r) = receive_loop (su_api s) (se_muted e) (se_conn_fd e) evs (entry_receiver e s);
          e' = e\<lparr>se_last_frame := rv_last_frame r\<rparr>;
          s = s\<lparr>su_slots := (su_slots s)(se_frame_slot e := rv_slot r),
                su_graph := store_source (se_source_id e) (rv_source r) (su_graph s),
                su_sent := su_sent s @ map (\<lambda>m. (se_conn_fd e, m)) (rv_sent r),
                su_closed := su_closed s @ rv_closed r,
                su_refreshes := su_refreshes s + rv_refreshes r,
                su_status_events := su_status_events s @ rv_status_events r\<rparr>
      in (eof, e', set_entry h e' s))"

definition lose_connection :: "nat \<Rightarrow> source_entry \<Rightarrow> source_sup \<Rightarrow> source_sup" where
  "lose_connection h e s =
     (let s = close_fd (se_conn_fd e) s;
          s = set_entry h (e\<lparr>se_conn_fd := -1, se_io_watch := 0\<rparr>) s
      in if \<not> se_shutting_down e \<and> se_pid e > 0 then send_signal SIGKILL (se_pid e) s else s)"

definition on_frame_available ::
  "int option \<Rightarrow> bool \<Rightarrow> rx_event list \<Rightarrow> int \<Rightarrow> nat \<Rightarrow> source_sup \<Rightarrow> (bool \<times> source_sup) option" where
  "on_frame_available accepted hup evs fd h s =
     (case su_mem s h of
        None \<Rightarrow> None
      | Some e \<Rightarrow>
          if se_conn_fd e < 0 \<and> fd = se_listen_fd e then
            (case accepted of
               None \<Rightarrow> Some (True, s)
             | Some conn \<Rightarrow> Some (False, connect_entry h conn e s))
          else if hup then Some (False, lose_connection h e s)
          else
            let (eof, e, s) = receive_into evs h e s
            in if eof then Some (False, lose_connection h e s) else Some (True, s))"

section \<open>Metrics\<close>

record source_metrics =
  sm_total :: nat
  sm_connected :: nat
  sm_restarting :: nat
  sm_stale :: nat
  sm_max_attempts :: nat
  sm_degraded :: bool

definition entry_connected :: "source_entry \<Rightarrow> bool" where
  "entry_connected e \<longleftrightarrow> se_pid e > 0 \<and> se_conn_fd e \<ge> 0"

definition entry_restarting :: "source_entry \<Rightarrow> bool" where
  "entry_restarting e \<longleftrightarrow> \<not> se_shutting_down e \<and> se_restart_attempts e > 0 \<and> \<not> entry_connected e"

definition source_type_is_static :: "string \<Rightarrow> bool" where
  "source_type_is_static t \<longleftrightarrow> t = ''image''"

definition entry_stale :: "int \<Rightarrow> source_entry \<Rightarrow> bool" where
  "entry_stale now e \<longleftrightarrow> entry_connected e \<and> \<not> source_type_is_static (se_source_type e)
     \<and> se_last_frame e > 0 \<and> now - se_last_frame e > SOURCE_STALE_USEC"

definition sbs_source_supervisor_get_metrics :: "int \<Rightarrow> source_sup \<Rightarrow> source_metrics" where
  "sbs_source_supervisor_get_metrics now s =
     (let es = map (\<lambda>(_, h). the (su_mem s h)) (su_table s);
          restarting = length (filter entry_restarting es);
          stale = length (filter (entry_stale now) es)
      in \<lparr>sm_total = length es, sm_connected = length (filter entry_connected es), sm_restarting = restarting,
          sm_stale = stale, sm_max_attempts = fold max (map se_restart_attempts es) 0,
          sm_degraded = (restarting > 0 \<or> stale > 0)\<rparr>)"

end
