(* ===== verification/Source_Sup_Inv.thy ===== *)
theory Source_Sup_Inv
  imports Source_Supervisor
begin

text \<open>
  The invariant of the source supervisor: what its entries, the main loop's watches, the open
  sockets and the running processes have to do with each other. \<open>entry_ok\<close> is the condition of one
  entry and its watches; \<open>sup_core\<close> puts the entries together, with the sockets and the processes
  as resources owned by the entries; \<open>sup_core_local\<close> reduces the preservation by an operation on one
  entry to that entry.
\<close>

section \<open>The invariant\<close>

definition entry_fds :: "source_entry \<Rightarrow> int set" where
  "entry_fds e = {fd \<in> {se_conn_fd e, se_listen_fd e}. 0 \<le> fd}"

definition entry_pids :: "source_entry \<Rightarrow> nat set" where
  "entry_pids e = {p \<in> {se_pid e}. 0 < p}"

definition watch_ok :: "source_entry \<Rightarrow> watch \<Rightarrow> bool" where
  "watch_ok e w \<longleftrightarrow>
     (case w_kind w of
        Watch_io fd \<Rightarrow> w_id w = se_io_watch e \<and> 0 \<le> fd
          \<and> fd = (if 0 \<le> se_conn_fd e then se_conn_fd e else se_listen_fd e)
          \<and> (se_conn_fd e < 0 \<longrightarrow> se_stable_timer e = 0)
      | Watch_child pid \<Rightarrow> w_id w = se_child_watch e \<and> 0 < pid
          \<and> (if se_shutting_down e then se_pid e \<in> {0, pid} else se_pid e = pid)
          \<and> se_restart_attempts e \<le> MAX_RESTART_ATTEMPTS
      | Watch_accept \<Rightarrow> w_id w = se_accept_timer e
      | Watch_stable \<Rightarrow> w_id w = se_stable_timer e
      | Watch_restart d \<Rightarrow> se_pid e = 0 \<and> se_conn_fd e = -1 \<and> se_listen_fd e = -1
          \<and> se_io_watch e = 0 \<and> se_child_watch e = 0
          \<and> se_restart_attempts e \<le> MAX_RESTART_ATTEMPTS)"

definition entry_ok :: "watch list \<Rightarrow> source_entry \<Rightarrow> bool" where
  "entry_ok ws e \<longleftrightarrow>
     (\<forall>w \<in> set ws. watch_ok e w)
     \<and> (se_io_watch e \<noteq> 0 \<longrightarrow> (\<exists>w \<in> set ws. is_Watch_io (w_kind w)))
     \<and> (se_child_watch e \<noteq> 0 \<longrightarrow> (\<exists>w \<in> set ws. is_Watch_child (w_kind w)))
     \<and> (se_accept_timer e \<noteq> 0 \<longrightarrow> (\<exists>w \<in> set ws. is_Watch_accept (w_kind w)))
     \<and> (se_stable_timer e \<noteq> 0 \<longrightarrow> (\<exists>w \<in> set ws. is_Watch_stable (w_kind w)))
     \<and> length (filter (\<lambda>w. is_Watch_restart (w_kind w)) ws) \<le> 1
     \<and> (0 < se_pid e \<longrightarrow> se_child_watch e \<noteq> 0)
     \<and> -1 \<le> se_conn_fd e \<and> -1 \<le> se_listen_fd e \<and> (0 \<le> se_conn_fd e \<longrightarrow> se_conn_fd e \<noteq> se_listen_fd e)
     \<and> se_restart_attempts e \<le> MAX_RESTART_ATTEMPTS + 1"

abbreviation watches_of :: "source_sup \<Rightarrow> nat \<Rightarrow> watch list" where
  "watches_of s h \<equiv> filter (\<lambda>w. w_entry w = h) (su_watches s)"

definition watches_ok :: "source_sup \<Rightarrow> bool" where
  "watches_ok s \<longleftrightarrow> distinct (map w_id (su_watches s)) \<and> 0 < su_next_id s
     \<and> (\<forall>w \<in> set (su_watches s). 0 < w_id w \<and> w_id w < su_next_id s \<and> w_entry w < su_next_handle s
          \<and> (is_Watch_restart (w_kind w) \<or> su_mem s (w_entry w) \<noteq> None))"

definition sup_core :: "source_sup \<Rightarrow> bool" where
  "sup_core s \<longleftrightarrow> watches_ok s
     \<and> (\<forall>h e. su_mem s h = Some e \<longrightarrow> h < su_next_handle s \<and> entry_ok (watches_of s h) e)
     \<and> owns entry_fds (su_mem s) (su_fds s) \<and> owns entry_pids (su_mem s) (su_procs s)"

lemma sup_core_entry: "sup_core s \<Longrightarrow> su_mem s h = Some e \<Longrightarrow> entry_ok (watches_of s h) e \<and> h < su_next_handle s"
  by (simp add: sup_core_def)

text \<open>A watch whose identifier is one of an entry's fields is that entry's watch of that kind.\<close>

definition entry_ids :: "source_entry \<Rightarrow> nat set" where
  "entry_ids e = {se_io_watch e, se_child_watch e, se_accept_timer e, se_stable_timer e}"

lemma watch_id_inj:
  "watches_ok s \<Longrightarrow> w \<in> set (su_watches s) \<Longrightarrow> w' \<in> set (su_watches s) \<Longrightarrow> w_id w = w_id w' \<Longrightarrow> w = w'"
  unfolding watches_ok_def by (blast dest: distinct_map [THEN iffD1] inj_onD)

lemma field_watch:
  assumes "sup_core s" "su_mem s h = Some e" "w \<in> set (su_watches s)"
  shows "w_id w = se_io_watch e \<Longrightarrow> w_entry w = h \<and> is_Watch_io (w_kind w)"
    and "w_id w = se_child_watch e \<Longrightarrow> w_entry w = h \<and> is_Watch_child (w_kind w)"
    and "w_id w = se_accept_timer e \<Longrightarrow> w_entry w = h \<and> is_Watch_accept (w_kind w)"
    and "w_id w = se_stable_timer e \<Longrightarrow> w_entry w = h \<and> is_Watch_stable (w_kind w)"
proof -
  have ok: "entry_ok (watches_of s h) e" and wok: "watches_ok s"
    using assms by (auto simp: sup_core_def)
  have pos: "w_id w \<noteq> 0"
    using wok assms(3) by (auto simp: watches_ok_def)
  have same: "w_entry w = h \<and> P (w_kind w)"
    if f: "w_id w = f e" "f e \<noteq> 0 \<longrightarrow> (\<exists>w \<in> set (watches_of s h). P (w_kind w))"
      "\<And>w. P (w_kind w) \<Longrightarrow> watch_ok e w \<Longrightarrow> w_id w = f e" for f :: "source_entry \<Rightarrow> nat" and P
  proof -
    obtain w' where w': "w' \<in> set (watches_of s h)" "P (w_kind w')"
      using f(1,2) pos by auto
    then have "w_id w' = w_id w"
      using ok f(1,3) by (simp add: entry_ok_def)
    then have "w' = w"
      using watch_id_inj [OF wok _ assms(3), of w'] w'(1) by simp
    then show ?thesis
      using w' by simp
  qed
  note conds = ok [unfolded entry_ok_def]
  show "w_id w = se_io_watch e \<Longrightarrow> w_entry w = h \<and> is_Watch_io (w_kind w)"
    using conds by (intro same [of se_io_watch]) (auto simp: watch_ok_def split: watch_kind.splits)
  show "w_id w = se_child_watch e \<Longrightarrow> w_entry w = h \<and> is_Watch_child (w_kind w)"
    using conds by (intro same [of se_child_watch]) (auto simp: watch_ok_def split: watch_kind.splits)
  show "w_id w = se_accept_timer e \<Longrightarrow> w_entry w = h \<and> is_Watch_accept (w_kind w)"
    using conds by (intro same [of se_accept_timer]) (auto simp: watch_ok_def split: watch_kind.splits)
  show "w_id w = se_stable_timer e \<Longrightarrow> w_entry w = h \<and> is_Watch_stable (w_kind w)"
    using conds by (intro same [of se_stable_timer]) (auto simp: watch_ok_def split: watch_kind.splits)
qed

lemma entry_ids_watch:
  assumes "sup_core s" "su_mem s h = Some e" "w \<in> set (su_watches s)" "w_id w \<in> entry_ids e"
  shows "w_entry w = h"
  using field_watch [OF assms(1-3)] assms(4) by (auto simp: entry_ids_def)

lemma sup_core_local:
  assumes core: "sup_core s"
    and mem: "su_mem s' = (su_mem s)(h := x)"
    and wat: "su_watches s' = filter (\<lambda>w. w_id w \<notin> I) (su_watches s) @ ws"
    and ws: "\<forall>w \<in> set ws. w_entry w = h \<and> su_next_id s \<le> w_id w \<and> w_id w < su_next_id s'"
      "distinct (map w_id ws)" "su_next_id s \<le> su_next_id s'"
    and I: "\<forall>w \<in> set (su_watches s). w_id w \<in> I \<longrightarrow> w_entry w = h"
    and hh: "h < su_next_handle s'" "su_next_handle s \<le> su_next_handle s'"
    and fds: "su_fds s' = (su_fds s - owned entry_fds (su_mem s h)) \<union> owned entry_fds x"
      "owned entry_fds x \<inter> (su_fds s - owned entry_fds (su_mem s h)) = {}"
    and procs: "su_procs s' = (su_procs s - owned entry_pids (su_mem s h)) \<union> owned entry_pids x"
      "owned entry_pids x \<inter> (su_procs s - owned entry_pids (su_mem s h)) = {}"
    and ok: "\<And>e. x = Some e \<Longrightarrow> entry_ok (filter (\<lambda>w. w_id w \<notin> I) (watches_of s h) @ ws) e"
      "x = None \<Longrightarrow> (\<forall>w \<in> set (filter (\<lambda>w. w_id w \<notin> I) (watches_of s h) @ ws). is_Watch_restart (w_kind w))"
  shows "sup_core s'"
proof -
  have wok: "watches_ok s"
    using core by (simp add: sup_core_def)
  have "watches_ok s'"
    unfolding watches_ok_def
  proof (intro conjI ballI)
    have "distinct (map w_id (filter (\<lambda>w. w_id w \<notin> I) (su_watches s)))"
      using wok by (simp add: watches_ok_def distinct_map_filter)
    moreover have "w_id w \<noteq> w_id w'" if "w \<in> set (su_watches s)" "w' \<in> set ws" for w w'
      using wok that ws(1) by (fastforce simp: watches_ok_def)
    ultimately show "distinct (map w_id (su_watches s'))"
      using ws(2) by (auto simp: wat)
    show "0 < su_next_id s'"
      using wok ws(3) by (simp add: watches_ok_def)
    fix w assume w: "w \<in> set (su_watches s')"
    have new: "w \<in> set ws \<Longrightarrow> 0 < w_id w \<and> w_id w < su_next_id s' \<and> w_entry w = h"
      using ws(1) wok by (fastforce simp: watches_ok_def)
    have old: "w \<notin> set ws \<Longrightarrow> w \<in> set (su_watches s) \<and> w_id w \<notin> I"
      using w by (auto simp: wat)
    show "0 < w_id w" "w_id w < su_next_id s'" "w_entry w < su_next_handle s'"
      using new old ws(3) hh wok by (fastforce simp: watches_ok_def)+
    show "is_Watch_restart (w_kind w) \<or> su_mem s' (w_entry w) \<noteq> None"
    proof (cases "w_entry w = h")
      case True
      then have "x = None \<Longrightarrow> is_Watch_restart (w_kind w)"
        using w ok(2) by (auto simp: wat)
      then show ?thesis
        using True by (cases x) (simp_all add: mem)
    next
      case False
      then have "w \<in> set (su_watches s)"
        using w ws(1) by (auto simp: wat)
      then show ?thesis
        using False wok by (simp add: mem watches_ok_def)
    qed
  qed
  moreover have "k < su_next_handle s' \<and> entry_ok (watches_of s' k) e" if "su_mem s' k = Some e" for k e
  proof (cases "k = h")
    case True
    have "watches_of s' h = filter (\<lambda>w. w_id w \<notin> I) (watches_of s h) @ ws"
      using ws(1) by (simp add: wat conj_commute)
    then show ?thesis
      using True that hh(1) ok(1) [of e] by (simp add: mem)
  next
    case False
    have "watches_of s' k = watches_of s k"
    proof -
      have "filter (\<lambda>w. w_entry w = k) ws = []"
        using ws(1) False by (auto simp: filter_empty_conv)
      moreover have "filter (\<lambda>w. w_entry w = k \<and> w_id w \<notin> I) (su_watches s) = watches_of s k"
        using I False by (intro filter_cong) auto
      ultimately show ?thesis
        by (simp add: wat conj_commute)
    qed
    then show ?thesis
      using sup_core_entry [OF core, of k e] that False hh(2) by (simp add: mem)
  qed
  moreover have "owns entry_fds (su_mem s') (su_fds s')" "owns entry_pids (su_mem s') (su_procs s')"
    unfolding mem fds(1) procs(1) using core fds(2) procs(2) by (auto simp: sup_core_def intro!: owns_upd)
  ultimately show ?thesis
    by (simp add: sup_core_def)
qed

section \<open>Launching and cleaning up\<close>

lemmas sup_step_defs = g_source_remove_def g_watch_add_def close_fd_def send_signal_def reap_def
  set_entry_def remove_if_def kill_worker_def send_shutdown_def

definition blank :: "source_entry \<Rightarrow> bool" where
  "blank e \<longleftrightarrow> se_pid e = 0 \<and> se_conn_fd e = -1 \<and> se_listen_fd e = -1 \<and> se_io_watch e = 0
     \<and> se_child_watch e = 0 \<and> se_accept_timer e = 0 \<and> se_stable_timer e = 0
     \<and> se_restart_attempts e \<le> MAX_RESTART_ATTEMPTS"

text \<open>The kernel hands out descriptors that are not open and processes that are not running.\<close>

definition launch_ok :: "launch_env \<Rightarrow> source_sup \<Rightarrow> bool" where
  "launch_ok v s \<longleftrightarrow>
     (\<forall>fd. le_listen v = Some fd \<longrightarrow> 0 \<le> fd \<and> fd \<notin> su_fds s)
     \<and> (\<forall>pid. le_fork v = Some pid \<longrightarrow> 0 < pid \<and> pid \<notin> su_procs s)
     \<and> (\<forall>fd. le_accept v = Some fd \<longrightarrow> 0 \<le> fd \<and> fd \<notin> su_fds s \<and> le_listen v \<noteq> Some fd)"

text \<open>What the operations on one entry leave alone: the table and the other entries.\<close>

definition same_others :: "nat \<Rightarrow> source_sup \<Rightarrow> source_sup \<Rightarrow> bool" where
  "same_others h s s' \<longleftrightarrow> su_table s' = su_table s \<and> su_next_handle s' = su_next_handle s
     \<and> (\<forall>k. k \<noteq> h \<longrightarrow> su_mem s' k = su_mem s k)
     \<and> (\<forall>e. su_mem s h = Some e \<longrightarrow> (\<exists>e'. su_mem s' h = Some e' \<and> se_source_id e' = se_source_id e
          \<and> se_shutting_down e' = se_shutting_down e))"

lemma same_others_refl: "same_others h s s"
  by (simp add: same_others_def)

lemma same_others_trans: "same_others h s s' \<Longrightarrow> same_others h s' s'' \<Longrightarrow> same_others h s s''"
  unfolding same_others_def by metis

lemma launch_set_entry: "source_entry_launch v h e (set_entry h e' s) = source_entry_launch v h e s"
  by (simp add: source_entry_launch_def connect_entry_def sup_step_defs Let_def split: option.splits)

lemma launch_failure:
  assumes "fst (source_entry_launch v h e s) \<noteq> SBS_OK" "blank e"
  shows "snd (source_entry_launch v h e s) = set_entry h e s"
proof -
  have "e\<lparr>se_listen_fd := -1\<rparr> = e"
    using assms(2) by (cases e) (simp add: blank_def)
  then show ?thesis
    using assms(1) by (auto simp: source_entry_launch_def Let_def split: option.splits if_splits)
qed

lemma launch_cases:
  assumes "fst (source_entry_launch v h e s) = SBS_OK" "blank e"
  obtains (connected) lfd pid fd where "le_listen v = Some lfd" "le_fork v = Some pid" "le_accept v = Some fd"
      "snd (source_entry_launch v h e s) =
        s\<lparr>su_mem := (su_mem s)(h \<mapsto> e\<lparr>se_listen_fd := lfd, se_pid := pid, se_last_start := le_now v,
             se_child_watch := su_next_id s, se_conn_fd := fd, se_accept_timer := 0,
             se_io_watch := su_next_id s + 2, se_stable_timer := su_next_id s + 3\<rparr>),
          su_watches := filter (\<lambda>w. w_id w \<noteq> su_next_id s + 1) (su_watches s)
             @ [\<lparr>w_id = su_next_id s, w_kind = Watch_child pid, w_entry = h\<rparr>,
                \<lparr>w_id = su_next_id s + 2, w_kind = Watch_io fd, w_entry = h\<rparr>,
                \<lparr>w_id = su_next_id s + 3, w_kind = Watch_stable, w_entry = h\<rparr>],
          su_next_id := su_next_id s + 4,
          su_fds := insert fd (insert lfd (su_fds s)), su_procs := insert pid (su_procs s)\<rparr>"
    | (listening) lfd pid where "le_listen v = Some lfd" "le_fork v = Some pid"
      "snd (source_entry_launch v h e s) =
        s\<lparr>su_mem := (su_mem s)(h \<mapsto> e\<lparr>se_listen_fd := lfd, se_pid := pid, se_last_start := le_now v,
             se_child_watch := su_next_id s, se_accept_timer := su_next_id s + 1,
             se_io_watch := su_next_id s + 2\<rparr>),
          su_watches := su_watches s
             @ [\<lparr>w_id = su_next_id s, w_kind = Watch_child pid, w_entry = h\<rparr>,
                \<lparr>w_id = su_next_id s + 1, w_kind = Watch_accept, w_entry = h\<rparr>,
                \<lparr>w_id = su_next_id s + 2, w_kind = Watch_io lfd, w_entry = h\<rparr>],
          su_next_id := su_next_id s + 3,
          su_fds := insert lfd (su_fds s), su_procs := insert pid (su_procs s)\<rparr>"
proof -
  from assms(1) obtain lfd pid where ok: "le_listen v = Some lfd" "le_fork v = Some pid" "le_config v" "le_pipe v"
    by (auto simp: source_entry_launch_def split: option.splits if_splits)
  show thesis
  proof (cases "le_accept v")
    case None
    then show ?thesis
      using ok by (intro listening [of lfd pid]) (simp_all add: source_entry_launch_def sup_step_defs)
  next
    case (Some fd)
    then show ?thesis
      using ok by (intro connected [of lfd pid fd])
        (simp_all add: source_entry_launch_def connect_entry_def sup_step_defs Let_def eval_nat_numeral)
  qed
qed

lemma sup_core_launch:
  assumes core: "sup_core s" and e: "su_mem s h = Some e" "blank e" "watches_of s h = []"
    and v: "launch_ok v s"
  shows "sup_core (snd (source_entry_launch v h e s))"
    and "same_others h s (snd (source_entry_launch v h e s))"
proof -
  let ?s' = "snd (source_entry_launch v h e s)"
  have hh: "h < su_next_handle s" "0 < su_next_id s"
    using core e by (auto simp: sup_core_def watches_ok_def)
  have fresh: "\<And>w. w \<in> set (su_watches s) \<Longrightarrow> w_id w \<noteq> Suc (su_next_id s)"
    using core by (fastforce simp: sup_core_def watches_ok_def)
  have own: "owned entry_fds (su_mem s h) = {}" "owned entry_pids (su_mem s h) = {}"
    using e by (auto simp: blank_def entry_fds_def entry_pids_def)
  have "sup_core ?s' \<and> same_others h s ?s'"
  proof (cases "fst (source_entry_launch v h e s) = SBS_OK")
    case True
    then show ?thesis
      using e(2)
    proof (cases rule: launch_cases)
      case (connected lfd pid fd)
      have "sup_core ?s'"
        unfolding connected(4)
        by (rule sup_core_local [OF core, where h = h and I = "{su_next_id s + 1}"])
            (use connected(1-3) v hh own e fresh in \<open>auto simp: launch_ok_def entry_fds_def
              entry_pids_def entry_ok_def watch_ok_def blank_def\<close>)
      then show ?thesis
        unfolding connected(4) using e by (simp add: same_others_def)
    next
      case (listening lfd pid)
      have "sup_core ?s'"
        unfolding listening(3)
        by (rule sup_core_local [OF core, where h = h and I = "{}"])
            (use listening(1,2) v hh own e in \<open>auto simp: launch_ok_def entry_fds_def
              entry_pids_def entry_ok_def watch_ok_def blank_def\<close>)
      then show ?thesis
        unfolding listening(3) using e by (simp add: same_others_def)
    qed
  next
    case False
    then have "?s' = s"
      using launch_failure [OF False e(2)] e(1) by (simp add: set_entry_def fun_upd_idem)
    then show ?thesis
      using core by (simp add: same_others_refl)
  qed
  then show "sup_core ?s'" "same_others h s ?s'"
    by blast+
qed

text \<open>Removing the watches of an entry's fields.\<close>

lemma remove_if_positive:
  "\<forall>w \<in> set (su_watches s). 0 < w_id w \<Longrightarrow>
   remove_if i s = s\<lparr>su_watches := filter (\<lambda>w. w_id w \<noteq> i) (su_watches s)\<rparr>"
  by (auto simp: remove_if_def g_source_remove_def filter_id_conv)

definition without_ids :: "nat set \<Rightarrow> source_sup \<Rightarrow> source_sup" where
  "without_ids I s = s\<lparr>su_watches := filter (\<lambda>w. w_id w \<notin> I) (su_watches s)\<rparr>"

lemma remove_fields:
  assumes "watches_ok s"
  shows "remove_if (se_stable_timer e) (remove_if (se_accept_timer e) (remove_if (se_child_watch e)
           (remove_if (se_io_watch e) s))) = without_ids (entry_ids e) s"
  using assms
  by (simp add: remove_if_positive watches_ok_def without_ids_def entry_ids_def conj_ac)

lemma entry_fds_cases: "entry_fds e =
  (if 0 \<le> se_listen_fd e then {se_listen_fd e} else {}) \<union> (if 0 \<le> se_conn_fd e then {se_conn_fd e} else {})"
  by (auto simp: entry_fds_def)

lemma entry_pids_cases: "entry_pids e = (if 0 < se_pid e then {se_pid e} else {})"
  by (auto simp: entry_pids_def)

lemma close_both:
  "close_fd (se_listen_fd e) (close_fd (se_conn_fd e) s) = s\<lparr>su_fds := su_fds s - entry_fds e\<rparr>"
  by (simp add: close_fd_def entry_fds_cases flip: Diff_insert)

lemma free_result:
  assumes "watches_ok s" "su_mem s h = Some e"
  shows "source_entry_free h s = (without_ids (entry_ids e) s)\<lparr>su_fds := su_fds s - entry_fds e,
     su_procs := su_procs s - entry_pids e,
     su_signals := su_signals s @ (if 0 < se_pid e then [(se_pid e, SIGKILL)] else []),
     su_mem := (su_mem s)(h := None)\<rparr>"
proof -
  have "source_entry_free h s =
    (let s = kill_worker e (close_fd (se_listen_fd e) (close_fd (se_conn_fd e)
       (remove_if (se_stable_timer e) (remove_if (se_accept_timer e) (remove_if (se_child_watch e)
           (remove_if (se_io_watch e) s))))))
     in s\<lparr>su_mem := (su_mem s)(h := None)\<rparr>)"
    using assms(2) by (simp add: source_entry_free_def)
  then show ?thesis
    unfolding remove_fields [OF assms(1)] close_both
    by (simp add: kill_worker_def reap_def send_signal_def entry_pids_cases without_ids_def)
qed

definition cleared :: "source_entry \<Rightarrow> source_entry" where
  "cleared e = e\<lparr>se_io_watch := 0, se_child_watch := 0, se_accept_timer := 0, se_stable_timer := 0,
     se_conn_fd := -1, se_listen_fd := -1, se_pid := 0\<rparr>"

lemma cleanup_result:
  assumes "watches_ok s"
  shows "source_entry_cleanup_worker h e s =
    (cleared e, (without_ids (entry_ids e) s)\<lparr>su_fds := su_fds s - entry_fds e,
                  su_mem := (su_mem s)(h \<mapsto> cleared e)\<rparr>)"
  unfolding source_entry_cleanup_worker_def Let_def remove_fields [OF assms] close_both
  by (simp add: cleared_def set_entry_def without_ids_def)

text \<open>What is left of an entry's watches when those of its fields are gone.\<close>

lemma left_watches:
  assumes "entry_ok ws e" "w \<in> set (filter (\<lambda>w. w_id w \<notin> entry_ids e) ws)"
  shows "is_Watch_restart (w_kind w)"
proof -
  have "watch_ok e w" "w_id w \<notin> entry_ids e"
    using assms by (simp_all add: entry_ok_def)
  then show ?thesis
    by (cases "w_kind w") (simp_all add: watch_ok_def entry_ids_def)
qed

lemma sup_core_free:
  assumes "sup_core s" "su_mem s h = Some e"
  shows "sup_core (source_entry_free h s)"
proof -
  have ok: "watches_ok s" "entry_ok (watches_of s h) e" "h < su_next_handle s"
    using assms by (auto simp: sup_core_def)
  have mine: "\<forall>w \<in> set (su_watches s). w_id w \<in> entry_ids e \<longrightarrow> w_entry w = h"
    using entry_ids_watch [OF assms] by blast
  have left: "\<forall>w \<in> set (filter (\<lambda>w. w_id w \<notin> entry_ids e) (watches_of s h) @ []). is_Watch_restart (w_kind w)"
    using left_watches [OF ok(2)] by simp
  show ?thesis
    unfolding free_result [OF ok(1) assms(2)]
    by (rule sup_core_local [OF assms(1), where h = h and I = "entry_ids e" and x = None and ws = "[]"])
      (use mine left in \<open>simp_all add: without_ids_def assms(2) ok(3) del: set_filter\<close>)
qed

lemma step_updates [simp]:
  "su_mem (remove_if i s) = su_mem s" "su_table (remove_if i s) = su_table s"
  "su_next_handle (remove_if i s) = su_next_handle s"
  "su_mem (close_fd fd s) = su_mem s" "su_table (close_fd fd s) = su_table s"
  "su_next_handle (close_fd fd s) = su_next_handle s"
  "su_mem (kill_worker e s) = su_mem s" "su_table (kill_worker e s) = su_table s"
  "su_next_handle (kill_worker e s) = su_next_handle s"
  by (simp_all add: sup_step_defs)

lemma free_mem: "su_mem (source_entry_free h s) = (su_mem s)(h := None)"
  by (simp add: source_entry_free_def Let_def fun_upd_idem split: option.split)

lemma free_table [simp]: "su_table (source_entry_free h s) = su_table s"
  "su_next_handle (source_entry_free h s) = su_next_handle s"
  by (simp_all add: source_entry_free_def Let_def split: option.split)

lemma sup_core_cleanup:
  assumes "sup_core s" "su_mem s h = Some e" "se_pid e = 0" "se_restart_attempts e \<le> MAX_RESTART_ATTEMPTS"
    "\<not> (\<exists>w \<in> set (watches_of s h). is_Watch_restart (w_kind w))"
  defines "s' \<equiv> snd (source_entry_cleanup_worker h e s)"
  shows "sup_core s'" "su_mem s' h = Some (cleared e)" "watches_of s' h = []" "same_others h s s'"
    "blank (cleared e)"
proof -
  have ok: "watches_ok s" "entry_ok (watches_of s h) e" "h < su_next_handle s"
    using assms by (auto simp: sup_core_def)
  have none: "filter (\<lambda>w. w_id w \<notin> entry_ids e) (watches_of s h) = []"
    using left_watches [OF ok(2)] assms(5) by (auto simp: filter_empty_conv)
  have s': "s' = (without_ids (entry_ids e) s)\<lparr>su_fds := su_fds s - entry_fds e,
                  su_mem := (su_mem s)(h \<mapsto> cleared e)\<rparr>"
    by (simp add: s'_def cleanup_result [OF ok(1)])
  show bl: "blank (cleared e)"
    using assms(4) by (simp add: blank_def cleared_def)
  have "owned entry_fds (Some (cleared e)) = {}" "owned entry_pids (Some (cleared e)) = {}"
    "owned entry_pids (Some e) = {}"
    using assms(3) by (auto simp: cleared_def entry_fds_def entry_pids_def)
  moreover have "entry_ok [] (cleared e)"
    using bl by (simp add: entry_ok_def blank_def)
  moreover have "\<forall>w \<in> set (su_watches s). w_id w \<in> entry_ids e \<longrightarrow> w_entry w = h"
    using entry_ids_watch [OF assms(1,2)] by blast
  ultimately show "sup_core s'"
    unfolding s'
    by (intro sup_core_local [OF assms(1), where h = h and I = "entry_ids e" and x = "Some (cleared e)" and ws = "[]"])
      (simp_all add: without_ids_def assms(2) ok(3) none del: filter_filter)
  show "su_mem s' h = Some (cleared e)" "same_others h s s'"
    using assms(2) by (simp_all add: s' without_ids_def same_others_def cleared_def)
  have "watches_of s' h = filter (\<lambda>w. w_id w \<notin> entry_ids e) (watches_of s h)"
    unfolding s' without_ids_def by (simp add: conj_commute)
  then show "watches_of s' h = []"
    using none by simp
qed

section \<open>Callbacks\<close>

lemma field_installed:
  assumes "entry_ok ws e"
  shows "se_io_watch e \<noteq> 0 \<Longrightarrow> \<exists>w \<in> set ws. is_Watch_io (w_kind w) \<and> w_id w = se_io_watch e"
    and "se_child_watch e \<noteq> 0 \<Longrightarrow> \<exists>w \<in> set ws. is_Watch_child (w_kind w) \<and> w_id w = se_child_watch e"
    and "se_accept_timer e \<noteq> 0 \<Longrightarrow> \<exists>w \<in> set ws. is_Watch_accept (w_kind w) \<and> w_id w = se_accept_timer e"
    and "se_stable_timer e \<noteq> 0 \<Longrightarrow> \<exists>w \<in> set ws. is_Watch_stable (w_kind w) \<and> w_id w = se_stable_timer e"
proof -
  have wok: "watch_ok e w" if "w \<in> set ws" for w
    using assms that by (simp add: entry_ok_def)
  have "is_Watch_io (w_kind w) \<longrightarrow> w_id w = se_io_watch e"
    "is_Watch_child (w_kind w) \<longrightarrow> w_id w = se_child_watch e"
    "is_Watch_accept (w_kind w) \<longrightarrow> w_id w = se_accept_timer e"
    "is_Watch_stable (w_kind w) \<longrightarrow> w_id w = se_stable_timer e" if "w \<in> set ws" for w
    using wok [OF that] by (cases "w_kind w"; simp add: watch_ok_def)+
  then show "se_io_watch e \<noteq> 0 \<Longrightarrow> \<exists>w \<in> set ws. is_Watch_io (w_kind w) \<and> w_id w = se_io_watch e"
    and "se_child_watch e \<noteq> 0 \<Longrightarrow> \<exists>w \<in> set ws. is_Watch_child (w_kind w) \<and> w_id w = se_child_watch e"
    and "se_accept_timer e \<noteq> 0 \<Longrightarrow> \<exists>w \<in> set ws. is_Watch_accept (w_kind w) \<and> w_id w = se_accept_timer e"
    and "se_stable_timer e \<noteq> 0 \<Longrightarrow> \<exists>w \<in> set ws. is_Watch_stable (w_kind w) \<and> w_id w = se_stable_timer e"
    using assms unfolding entry_ok_def by blast+
qed

lemma fields_distinct:
  assumes "sup_core s" "su_mem s h = Some e"
  shows "se_io_watch e \<noteq> 0 \<Longrightarrow> se_io_watch e \<notin> {se_child_watch e, se_accept_timer e, se_stable_timer e}"
    and "se_child_watch e \<noteq> 0 \<Longrightarrow> se_child_watch e \<notin> {se_io_watch e, se_accept_timer e, se_stable_timer e}"
    and "se_accept_timer e \<noteq> 0 \<Longrightarrow> se_accept_timer e \<notin> {se_io_watch e, se_child_watch e, se_stable_timer e}"
    and "se_stable_timer e \<noteq> 0 \<Longrightarrow> se_stable_timer e \<notin> {se_io_watch e, se_child_watch e, se_accept_timer e}"
proof -
  have ok: "entry_ok (watches_of s h) e"
    using assms by (simp add: sup_core_def)
  note field = field_watch [OF assms] and inst = field_installed [OF ok]
  show "se_io_watch e \<notin> {se_child_watch e, se_accept_timer e, se_stable_timer e}" if nz: "se_io_watch e \<noteq> 0"
  proof -
    obtain w where "w \<in> set (su_watches s)" "w_id w = se_io_watch e" "w_kind w \<in> Collect is_Watch_io"
      using inst(1) [OF nz] by auto
    then show ?thesis
      using field [of w] by (cases "w_kind w") auto
  qed
  show "se_child_watch e \<notin> {se_io_watch e, se_accept_timer e, se_stable_timer e}" if nz: "se_child_watch e \<noteq> 0"
  proof -
    obtain w where "w \<in> set (su_watches s)" "w_id w = se_child_watch e" "w_kind w \<in> Collect is_Watch_child"
      using inst(2) [OF nz] by auto
    then show ?thesis
      using field [of w] by (cases "w_kind w") auto
  qed
  show "se_accept_timer e \<notin> {se_io_watch e, se_child_watch e, se_stable_timer e}" if nz: "se_accept_timer e \<noteq> 0"
  proof -
    obtain w where "w \<in> set (su_watches s)" "w_id w = se_accept_timer e" "w_kind w \<in> Collect is_Watch_accept"
      using inst(3) [OF nz] by auto
    then show ?thesis
      using field [of w] by (cases "w_kind w") auto
  qed
  show "se_stable_timer e \<notin> {se_io_watch e, se_child_watch e, se_accept_timer e}" if nz: "se_stable_timer e \<noteq> 0"
  proof -
    obtain w where "w \<in> set (su_watches s)" "w_id w = se_stable_timer e" "w_kind w \<in> Collect is_Watch_stable"
      using inst(4) [OF nz] by auto
    then show ?thesis
      using field [of w] by (cases "w_kind w") auto
  qed
qed

text \<open>
  Dropping the watches of some fields \<open>I\<close> and clearing those fields keeps an entry in order, whatever
  else of the entry the dropped watches spoke of.
\<close>

lemma entry_ok_drop:
  assumes ok: "entry_ok ws e"
    and fields: "se_io_watch e' = (if se_io_watch e \<in> I then 0 else se_io_watch e)"
      "se_child_watch e' = (if se_child_watch e \<in> I then 0 else se_child_watch e)"
      "se_accept_timer e' = (if se_accept_timer e \<in> I then 0 else se_accept_timer e)"
      "se_stable_timer e' = (if se_stable_timer e \<in> I then 0 else se_stable_timer e)"
    and kept: "se_io_watch e \<in> I \<or> (se_conn_fd e' = se_conn_fd e \<and> se_listen_fd e' = se_listen_fd e)"
      "\<And>w. w \<in> set ws \<Longrightarrow> is_Watch_child (w_kind w) \<Longrightarrow> w_id w \<in> I
        \<or> (se_pid e' = se_pid e \<and> se_shutting_down e' = se_shutting_down e
            \<and> se_restart_attempts e' \<le> se_restart_attempts e)"
    and restart: "\<And>w. w \<in> set ws \<Longrightarrow> is_Watch_restart (w_kind w) \<Longrightarrow>
        se_pid e' = 0 \<and> se_conn_fd e' = -1 \<and> se_listen_fd e' = -1
        \<and> se_restart_attempts e' \<le> MAX_RESTART_ATTEMPTS"
    and vals: "0 < se_pid e' \<Longrightarrow> se_child_watch e' \<noteq> 0" "-1 \<le> se_conn_fd e'" "-1 \<le> se_listen_fd e'"
      "0 \<le> se_conn_fd e' \<Longrightarrow> se_conn_fd e' \<noteq> se_listen_fd e'" "se_restart_attempts e' \<le> MAX_RESTART_ATTEMPTS + 1"
  shows "entry_ok (filter (\<lambda>w. w_id w \<notin> I) ws) e'"
proof -
  have "watch_ok e' w" if w: "w \<in> set ws" "w_id w \<notin> I" for w
  proof -
    have old: "watch_ok e w"
      using ok w by (simp add: entry_ok_def)
    show ?thesis
    proof (cases "w_kind w")
      case (Watch_io fd)
      then show ?thesis
        using old w(2) fields kept(1) by (auto simp: watch_ok_def)
    next
      case (Watch_child pid)
      then show ?thesis
        using old w(2) fields kept(2) [OF w(1)] by (auto simp: watch_ok_def)
    next
      case (Watch_restart d)
      then show ?thesis
        using old restart [OF w(1)] fields by (simp add: watch_ok_def)
    qed (use old w(2) fields in \<open>auto simp: watch_ok_def\<close>)
  qed
  moreover have "length (filter (\<lambda>w. is_Watch_restart (w_kind w)) (filter (\<lambda>w. w_id w \<notin> I) ws)) \<le> 1"
  proof -
    have "length (filter (\<lambda>w. is_Watch_restart (w_kind w)) (filter (\<lambda>w. w_id w \<notin> I) ws))
        \<le> length (filter (\<lambda>w. is_Watch_restart (w_kind w)) ws)"
      using length_filter_le [of "\<lambda>w. w_id w \<notin> I" "filter (\<lambda>w. is_Watch_restart (w_kind w)) ws"]
      by (simp add: conj_commute)
    then show ?thesis
      using ok by (simp add: entry_ok_def)
  qed
  moreover have "\<exists>w \<in> set (filter (\<lambda>w. w_id w \<notin> I) ws). is_Watch_io (w_kind w)" if "se_io_watch e' \<noteq> 0"
    using field_installed(1) [OF ok] that fields(1) by (auto split: if_splits)
  moreover have "\<exists>w \<in> set (filter (\<lambda>w. w_id w \<notin> I) ws). is_Watch_child (w_kind w)" if "se_child_watch e' \<noteq> 0"
    using field_installed(2) [OF ok] that fields(2) by (auto split: if_splits)
  moreover have "\<exists>w \<in> set (filter (\<lambda>w. w_id w \<notin> I) ws). is_Watch_accept (w_kind w)" if "se_accept_timer e' \<noteq> 0"
    using field_installed(3) [OF ok] that fields(3) by (auto split: if_splits)
  moreover have "\<exists>w \<in> set (filter (\<lambda>w. w_id w \<notin> I) ws). is_Watch_stable (w_kind w)" if "se_stable_timer e' \<noteq> 0"
    using field_installed(4) [OF ok] that fields(4) by (auto split: if_splits)
  ultimately show ?thesis
    using vals by (simp add: entry_ok_def)
qed

lemma entry_ok_restart:
  assumes "entry_ok ws e" "\<forall>w \<in> set ws. \<not> is_Watch_restart (w_kind w)" "se_pid e = 0" "se_conn_fd e = -1"
    "se_listen_fd e = -1" "se_io_watch e = 0" "se_child_watch e = 0"
    "se_restart_attempts e \<le> MAX_RESTART_ATTEMPTS"
  shows "entry_ok (ws @ [\<lparr>w_id = i, w_kind = Watch_restart d, w_entry = h\<rparr>]) e"
proof -
  have "filter (\<lambda>w. is_Watch_restart (w_kind w)) ws = []"
    using assms(2) by (simp add: filter_empty_conv)
  then show ?thesis
    using assms by (auto simp: entry_ok_def watch_ok_def)
qed

lemma restart_excludes_child:
  assumes "entry_ok ws e" "w \<in> set ws" "is_Watch_restart (w_kind w)"
  shows "se_child_watch e = 0 \<and> se_io_watch e = 0 \<and> se_pid e = 0 \<and> se_conn_fd e = -1 \<and> se_listen_fd e = -1
    \<and> se_restart_attempts e \<le> MAX_RESTART_ATTEMPTS"
proof -
  have "watch_ok e w"
    using assms by (simp add: entry_ok_def)
  then show ?thesis
    using assms(3) by (cases "w_kind w") (simp_all add: watch_ok_def)
qed

lemma no_child_watch:
  assumes "sup_core s" "su_mem s h = Some e" "se_child_watch e = 0" "w \<in> set (watches_of s h)"
  shows "\<not> is_Watch_child (w_kind w)"
proof -
  have "watch_ok e w" "w_id w \<noteq> 0"
    using assms by (auto simp: sup_core_def entry_ok_def watches_ok_def)
  then show ?thesis
    using assms(3) by (cases "w_kind w") (simp_all add: watch_ok_def)
qed

text \<open>\<open>schedule_restart\<close> for an entry without worker and without a pending restart.\<close>

lemma sup_core_schedule:
  assumes core: "sup_core s" and e: "su_mem s h = Some e" "se_pid e = 0" "se_conn_fd e = -1" "se_listen_fd e = -1"
      "se_io_watch e = 0" "se_child_watch e = 0" "se_restart_attempts e \<le> MAX_RESTART_ATTEMPTS"
    and none: "\<forall>w \<in> set (watches_of s h). \<not> is_Watch_restart (w_kind w)"
  shows "sup_core (schedule_restart up jitter h e s)" "same_others h s (schedule_restart up jitter h e s)"
proof -
  define e' where "e' = e\<lparr>se_restart_attempts := se_restart_attempts e + 1\<rparr>"
  define ws where "ws = (if se_restart_attempts e' > MAX_RESTART_ATTEMPTS then []
    else [\<lparr>w_id = su_next_id s, w_kind = Watch_restart (jittered_delay (backoff_delay (se_restart_attempts e')) up jitter),
           w_entry = h\<rparr>])"
  have ok: "entry_ok (watches_of s h) e" "h < su_next_handle s"
    using core e(1) by (auto simp: sup_core_def)
  have no_child: "\<not> is_Watch_child (w_kind w)" if "w \<in> set (watches_of s h)" for w
    using no_child_watch [OF core e(1,6) that] .
  have "entry_ok (filter (\<lambda>w. w_id w \<notin> {}) (watches_of s h)) e'"
    by (rule entry_ok_drop [OF ok(1)]) (use e none no_child in \<open>simp_all add: e'_def\<close>)
  then have "entry_ok (watches_of s h) e'"
    by simp
  moreover have "se_pid e' = 0" "se_conn_fd e' = -1" "se_listen_fd e' = -1" "se_io_watch e' = 0" "se_child_watch e' = 0"
    using e by (simp_all add: e'_def)
  ultimately have ok': "entry_ok (watches_of s h @ ws) e'"
    unfolding ws_def using none by (auto intro!: entry_ok_restart)
  have step: "schedule_restart up jitter h e s =
      s\<lparr>su_mem := (su_mem s)(h \<mapsto> e'), su_watches := su_watches s @ ws,
        su_next_id := su_next_id s + length ws\<rparr>"
    by (simp add: schedule_restart_def e'_def ws_def set_entry_def g_watch_add_def Let_def)
  show "sup_core (schedule_restart up jitter h e s)"
    unfolding step
    by (rule sup_core_local [OF core, where h = h and I = "{}" and x = "Some e'" and ws = ws])
      (use ok ok' e in \<open>auto simp: ws_def e'_def entry_fds_def entry_pids_def\<close>)
  show "same_others h s (schedule_restart up jitter h e s)"
    unfolding step using e(1) by (simp add: same_others_def e'_def)
qed

section \<open>The callbacks\<close>

definition worker_gone :: "source_entry \<Rightarrow> source_entry" where
  "worker_gone e = e\<lparr>se_child_watch := 0, se_pid := 0, se_io_watch := 0, se_conn_fd := -1, se_listen_fd := -1\<rparr>"

lemma child_exit_result:
  assumes "watches_ok s" "su_mem s h = Some e" "\<not> se_shutting_down e" "w_id w = se_child_watch e"
  shows "on_child_exit up jitter pid h (g_source_remove (w_id w) s) =
    Some (schedule_restart up jitter h (worker_gone e)
      ((without_ids {se_child_watch e, se_io_watch e} s)\<lparr>su_procs := su_procs s - {pid},
         su_fds := su_fds s - entry_fds e, su_mem := (su_mem s)(h \<mapsto> worker_gone e)\<rparr>))"
proof -
  have "entry_fds (e\<lparr>se_child_watch := 0, se_pid := 0\<rparr>) = entry_fds e"
    by (simp add: entry_fds_def)
  moreover have "remove_if (se_io_watch e) (reap pid (g_source_remove (se_child_watch e) s))
      = (without_ids {se_child_watch e, se_io_watch e} s)\<lparr>su_procs := su_procs s - {pid}\<rparr>"
    using assms(1) by (simp add: remove_if_positive reap_def g_source_remove_def watches_ok_def without_ids_def conj_commute)
  ultimately show ?thesis
    using assms(2-4) close_both [of "e\<lparr>se_child_watch := 0, se_pid := 0\<rparr>"]
    by (simp add: on_child_exit_def g_source_remove_def Let_def set_entry_def worker_gone_def)
      (simp add: without_ids_def)
qed

lemma fields_apart:
  assumes "sup_core s" "su_mem s h = Some e"
  shows "se_io_watch e = se_child_watch e \<longrightarrow> se_child_watch e = 0"
    "se_io_watch e = se_accept_timer e \<longrightarrow> se_accept_timer e = 0"
    "se_io_watch e = se_stable_timer e \<longrightarrow> se_stable_timer e = 0"
    "se_child_watch e = se_accept_timer e \<longrightarrow> se_accept_timer e = 0"
    "se_child_watch e = se_stable_timer e \<longrightarrow> se_stable_timer e = 0"
    "se_accept_timer e = se_stable_timer e \<longrightarrow> se_stable_timer e = 0"
  using fields_distinct [OF assms] by (metis insertCI)+

text \<open>An update of one entry that drops watches of its own and takes no new resource.\<close>

lemma sup_core_drop:
  assumes core: "sup_core s" and e: "su_mem s h = Some e"
    and I: "\<forall>w \<in> set (su_watches s). w_id w \<in> I \<longrightarrow> w_entry w = h"
    and ok: "entry_ok (filter (\<lambda>w. w_id w \<notin> I) (watches_of s h)) e'"
    and sub: "entry_fds e' \<subseteq> entry_fds e" "entry_pids e' \<subseteq> entry_pids e"
  shows "sup_core ((without_ids I s)\<lparr>su_procs := su_procs s - (entry_pids e - entry_pids e'),
    su_fds := su_fds s - (entry_fds e - entry_fds e'), su_mem := (su_mem s)(h \<mapsto> e')\<rparr>)"
proof -
  have hh: "h < su_next_handle s"
    using core e by (simp add: sup_core_def)
  have "entry_fds e \<subseteq> su_fds s" "entry_pids e \<subseteq> su_procs s"
    using core e by (auto simp: sup_core_def dest!: owns_subset)
  then have "su_fds s - (entry_fds e - entry_fds e') = (su_fds s - owned entry_fds (su_mem s h)) \<union> owned entry_fds (Some e')"
    "su_procs s - (entry_pids e - entry_pids e') = (su_procs s - owned entry_pids (su_mem s h)) \<union> owned entry_pids (Some e')"
    using e sub by auto
  moreover have "owned entry_fds (Some e') \<inter> (su_fds s - owned entry_fds (su_mem s h)) = {}"
    "owned entry_pids (Some e') \<inter> (su_procs s - owned entry_pids (su_mem s h)) = {}"
    using e sub by auto
  ultimately show ?thesis
    by (intro sup_core_local [OF core, where h = h and I = I and x = "Some e'" and ws = "[]"])
      (use I ok hh in \<open>simp_all add: without_ids_def del: filter_filter\<close>)
qed

lemma field_ids_mine:
  assumes "sup_core s" "su_mem s h = Some e" "I \<subseteq> insert 0 (entry_ids e)"
  shows "\<forall>w \<in> set (su_watches s). w_id w \<in> I \<longrightarrow> w_entry w = h"
proof (intro ballI impI)
  fix w assume w: "w \<in> set (su_watches s)" "w_id w \<in> I"
  then have "w_id w \<noteq> 0"
    using assms(1) by (auto simp: sup_core_def watches_ok_def)
  then show "w_entry w = h"
    using entry_ids_watch [OF assms(1,2) w(1)] w(2) assms(3) by auto
qed

lemma sup_core_child_exit:
  assumes core: "sup_core s" and w: "w \<in> set (su_watches s)" "w_kind w = Watch_child pid" "w_entry w = h"
    and e: "su_mem s h = Some e" "\<not> se_shutting_down e"
  obtains s' where "on_child_exit up jitter pid h (g_source_remove (w_id w) s) = Some s'"
    "sup_core s'" "same_others h s s'"
proof -
  have wok: "watches_ok s" and ok: "entry_ok (watches_of s h) e"
    using core e by (auto simp: sup_core_def)
  have wm: "w \<in> set (watches_of s h)"
    using w by simp
  have watch: "watch_ok e w" "w_id w \<noteq> 0"
    using ok wm wok w(1) by (simp_all add: entry_ok_def watches_ok_def)
  have child: "w_id w = se_child_watch e" "se_pid e = pid" "se_restart_attempts e \<le> MAX_RESTART_ATTEMPTS"
    "se_child_watch e \<noteq> 0"
    using watch w(2) e(2) by (auto simp: watch_ok_def)
  let ?I = "{se_child_watch e, se_io_watch e}" and ?e = "worker_gone e"
  have no_restart: "\<not> is_Watch_restart (w_kind w')" if "w' \<in> set (watches_of s h)" for w'
    using restart_excludes_child [OF ok that] child(4) by blast
  have "entry_ok (filter (\<lambda>w. w_id w \<notin> ?I) (watches_of s h)) ?e"
  proof (rule entry_ok_drop [OF ok])
    fix w' assume "w' \<in> set (watches_of s h)" "is_Watch_child (w_kind w')"
    then have "watch_ok e w'" "is_Watch_child (w_kind w')"
      using ok by (simp_all add: entry_ok_def)
    then have "w_id w' = se_child_watch e"
      by (cases "w_kind w'") (simp_all add: watch_ok_def)
    then show "w_id w' \<in> ?I \<or> (se_pid ?e = se_pid e \<and> se_shutting_down ?e = se_shutting_down e
        \<and> se_restart_attempts ?e \<le> se_restart_attempts e)"
      by simp
  qed (use fields_apart [OF core e(1)] no_restart child(3) in \<open>auto simp: worker_gone_def\<close>)
  moreover have none: "entry_fds ?e = {}" "entry_pids ?e = {}"
    by (auto simp: worker_gone_def entry_fds_def entry_pids_def)
  moreover have "entry_pids e = {pid} \<inter> {p. 0 < p}"
    using child(2) by (auto simp: entry_pids_def)
  moreover have "0 < pid"
    using watch w(2) by (simp add: watch_ok_def)
  moreover have "?I \<subseteq> insert 0 (entry_ids e)"
    by (simp add: entry_ids_def)
  ultimately have core1: "sup_core ((without_ids ?I s)\<lparr>su_procs := su_procs s - {pid},
    su_fds := su_fds s - entry_fds e, su_mem := (su_mem s)(h \<mapsto> ?e)\<rparr>)" (is "sup_core ?s1")
    using sup_core_drop [OF core e(1) field_ids_mine [OF core e(1)], of ?I ?e] by simp
  have "su_mem ?s1 h = Some ?e" "se_pid ?e = 0" "se_conn_fd ?e = -1" "se_listen_fd ?e = -1" "se_io_watch ?e = 0"
    "se_child_watch ?e = 0" "se_restart_attempts ?e \<le> MAX_RESTART_ATTEMPTS"
    using child(3) by (simp_all add: worker_gone_def)
  moreover have "\<forall>w \<in> set (watches_of ?s1 h). \<not> is_Watch_restart (w_kind w)"
    using no_restart by (simp add: without_ids_def)
  ultimately have "sup_core (schedule_restart up jitter h ?e ?s1)" "same_others h ?s1 (schedule_restart up jitter h ?e ?s1)"
    by (rule sup_core_schedule [OF core1])+
  moreover have "same_others h s ?s1"
    using e(1) by (simp add: same_others_def worker_gone_def without_ids_def)
  ultimately show thesis
    using that child_exit_result [OF wok e child(1)] same_others_trans by blast
qed

lemma sup_core_other_fields [simp]:
  "sup_core (s\<lparr>su_table := a\<rparr>) = sup_core s" "sup_core (s\<lparr>su_signals := b\<rparr>) = sup_core s"
  "sup_core (s\<lparr>su_sent := c\<rparr>) = sup_core s" "sup_core (s\<lparr>su_closed := d\<rparr>) = sup_core s"
  "sup_core (s\<lparr>su_slots := f\<rparr>) = sup_core s" "sup_core (s\<lparr>su_graph := g\<rparr>) = sup_core s"
  "sup_core (s\<lparr>su_refreshes := i\<rparr>) = sup_core s" "sup_core (s\<lparr>su_status_events := j\<rparr>) = sup_core s"
  by (simp_all add: sup_core_def watches_ok_def)

text \<open>An entry keeps its worker while a field is cleared or its data change.\<close>

lemma sup_core_update:
  assumes "sup_core s" "su_mem s h = Some e" "I \<subseteq> insert 0 (entry_ids e)"
    "entry_ok (filter (\<lambda>w. w_id w \<notin> I) (watches_of s h)) e'"
    "entry_fds e' = entry_fds e" "entry_pids e' = entry_pids e"
  shows "sup_core (set_entry h e' (without_ids I s))"
  using sup_core_drop [OF assms(1,2) field_ids_mine [OF assms(1-3)] assms(4)] assms(5,6)
  by (simp add: set_entry_def without_ids_def)

lemma child_or_same:
  "se_pid e' = se_pid e \<Longrightarrow> se_shutting_down e' = se_shutting_down e \<Longrightarrow>
   se_restart_attempts e' \<le> se_restart_attempts e \<Longrightarrow>
   w_id w \<in> I \<or> (se_pid e' = se_pid e \<and> se_shutting_down e' = se_shutting_down e
     \<and> se_restart_attempts e' \<le> se_restart_attempts e)"
  by simp

lemma entry_ok_values:
  assumes "entry_ok ws e"
  shows "0 < se_pid e \<Longrightarrow> se_child_watch e \<noteq> 0" "-1 \<le> se_conn_fd e" "-1 \<le> se_listen_fd e"
    "0 \<le> se_conn_fd e \<Longrightarrow> se_conn_fd e \<noteq> se_listen_fd e" "se_restart_attempts e \<le> MAX_RESTART_ATTEMPTS + 1"
  using assms by (simp_all add: entry_ok_def)

lemma timer_callback:
  assumes core: "sup_core s" and w: "w \<in> set (su_watches s)" "w_entry w = h" and e: "su_mem s h = Some e"
    and e': "(w_kind w = Watch_accept \<and> e' = e\<lparr>se_accept_timer := 0\<rparr>)
      \<or> (w_kind w = Watch_stable \<and> e' = e\<lparr>se_stable_timer := 0, se_restart_attempts := 0\<rparr>)"
  shows "sup_core (set_entry h e' (g_source_remove (w_id w) s))"
    "same_others h s (set_entry h e' (g_source_remove (w_id w) s))"
proof -
  have ok: "entry_ok (watches_of s h) e"
    using core e by (simp add: sup_core_def)
  have "watch_ok e w"
    using ok w by (simp add: entry_ok_def)
  then have id: "w_kind w = Watch_accept \<longrightarrow> w_id w = se_accept_timer e"
    "w_kind w = Watch_stable \<longrightarrow> w_id w = se_stable_timer e"
    by (auto simp: watch_ok_def)
  have mine: "{w_id w} \<subseteq> insert 0 (entry_ids e)"
    using id e' by (auto simp: entry_ids_def)
  have "entry_ok (filter (\<lambda>x. w_id x \<notin> {w_id w}) (watches_of s h)) e'"
    using e'
  proof (elim disjE conjE)
    assume *: "w_kind w = Watch_accept" "e' = e\<lparr>se_accept_timer := 0\<rparr>"
    show ?thesis
      by (rule entry_ok_drop [OF ok])
        (use fields_apart(2,4,6) [OF core e] entry_ok_values [OF ok] restart_excludes_child [OF ok] in
          \<open>simp_all add: * id(1) [rule_format, OF *(1)], metis fields_apart(6) [OF core e]\<close>)
  next
    assume *: "w_kind w = Watch_stable" "e' = e\<lparr>se_stable_timer := 0, se_restart_attempts := 0\<rparr>"
    show ?thesis
      by (rule entry_ok_drop [OF ok])
        (use fields_apart(3,5,6) [OF core e] entry_ok_values [OF ok] restart_excludes_child [OF ok] in
          \<open>simp_all add: * id(2) [rule_format, OF *(1)]\<close>)
  qed
  moreover have "entry_fds e' = entry_fds e" "entry_pids e' = entry_pids e"
    using e' by (auto simp: entry_fds_def entry_pids_def)
  ultimately have "sup_core (set_entry h e' (without_ids {w_id w} s))"
    by (rule sup_core_update [OF core e mine])
  then show "sup_core (set_entry h e' (g_source_remove (w_id w) s))"
    by (simp add: without_ids_def g_source_remove_def)
  show "same_others h s (set_entry h e' (g_source_remove (w_id w) s))"
    using e e' by (auto simp: same_others_def set_entry_def g_source_remove_def)
qed

lemma entry_ok_other_fields [simp]:
  "entry_ok ws (e\<lparr>se_last_frame := a\<rparr>) = entry_ok ws e" "entry_ok ws (e\<lparr>se_muted := b\<rparr>) = entry_ok ws e"
  "entry_fds (e\<lparr>se_last_frame := a\<rparr>) = entry_fds e" "entry_fds (e\<lparr>se_muted := b\<rparr>) = entry_fds e"
  "entry_pids (e\<lparr>se_last_frame := a\<rparr>) = entry_pids e" "entry_pids (e\<lparr>se_muted := b\<rparr>) = entry_pids e"
proof -
  have "watch_ok (e\<lparr>se_last_frame := a\<rparr>) = watch_ok e" "watch_ok (e\<lparr>se_muted := b\<rparr>) = watch_ok e"
    by (auto simp: watch_ok_def fun_eq_iff split: watch_kind.split)
  then show "entry_ok ws (e\<lparr>se_last_frame := a\<rparr>) = entry_ok ws e" "entry_ok ws (e\<lparr>se_muted := b\<rparr>) = entry_ok ws e"
    by (simp_all add: entry_ok_def)
qed (simp_all add: entry_fds_def entry_pids_def)

lemma sup_core_same_entry:
  assumes "sup_core s" "su_mem s h = Some e" "\<And>ws. entry_ok ws e' = entry_ok ws e"
    "entry_fds e' = entry_fds e" "entry_pids e' = entry_pids e"
  shows "sup_core (set_entry h e' s)"
proof -
  have "entry_ok (filter (\<lambda>w. w_id w \<notin> {}) (watches_of s h)) e'"
    using assms(1-3) by (simp add: sup_core_def)
  then show ?thesis
    using sup_core_update [OF assms(1,2), of "{}" e'] assms(4,5) by (simp add: without_ids_def)
qed

lemma receive_into_result:
  assumes "receive_into evs h e s = (eof, e', s')"
  shows "\<exists>t slots graph sent cl refr ev. e' = e\<lparr>se_last_frame := t\<rparr> \<and> s' = set_entry h e'
    (s\<lparr>su_slots := slots, su_graph := graph, su_sent := sent, su_closed := cl, su_refreshes := refr,
       su_status_events := ev\<rparr>)"
  using assms unfolding receive_into_def by (auto simp: Let_def split: prod.splits)
    (intro exI, rule refl)

lemma sup_core_receive:
  assumes "sup_core s" "su_mem s h = Some e" "receive_into evs h e s = (eof, e', s')"
  shows "sup_core s'" "same_others h s s'" "su_mem s' h = Some e'" "su_watches s' = su_watches s"
    "\<exists>t. e' = e\<lparr>se_last_frame := t\<rparr>"
proof -
  obtain x slots graph sent cl refr ev where e': "e' = e\<lparr>se_last_frame := x\<rparr>"
    and s': "s' = set_entry h e' (s\<lparr>su_slots := slots, su_graph := graph, su_sent := sent, su_closed := cl,
       su_refreshes := refr, su_status_events := ev\<rparr>)" (is "_ = set_entry h e' ?s1")
    using receive_into_result [OF assms(3)] by blast
  have "sup_core ?s1" "su_mem ?s1 h = Some e"
    using assms(1,2) by simp_all
  then show "sup_core s'"
    unfolding s' e' by (rule sup_core_same_entry) simp_all
  show "same_others h s s'" "su_mem s' h = Some e'" "su_watches s' = su_watches s" "\<exists>t. e' = e\<lparr>se_last_frame := t\<rparr>"
    using assms(2) by (simp_all add: s' e' same_others_def set_entry_def) blast
qed

lemma io_watch_facts:
  assumes core: "sup_core s" and w: "w \<in> set (su_watches s)" "w_kind w = Watch_io fd" "w_entry w = h"
    and e: "su_mem s h = Some e"
  shows "w_id w = se_io_watch e" "se_io_watch e \<noteq> 0" "0 \<le> fd"
    "fd = (if 0 \<le> se_conn_fd e then se_conn_fd e else se_listen_fd e)"
    "se_conn_fd e < 0 \<longrightarrow> se_stable_timer e = 0" "entry_ok (watches_of s h) e" "w_id w < su_next_id s"
    "\<forall>w \<in> set (watches_of s h). \<not> is_Watch_restart (w_kind w)"
proof -
  show ok: "entry_ok (watches_of s h) e"
    using core e by (simp add: sup_core_def)
  have wok: "watches_ok s"
    using core by (simp add: sup_core_def)
  have "watch_ok e w" "w_id w \<noteq> 0"
    using ok wok w by (simp_all add: entry_ok_def watches_ok_def)
  then show "w_id w = se_io_watch e" "se_io_watch e \<noteq> 0" "0 \<le> fd"
    "fd = (if 0 \<le> se_conn_fd e then se_conn_fd e else se_listen_fd e)"
    "se_conn_fd e < 0 \<longrightarrow> se_stable_timer e = 0"
    using w(2) by (simp_all add: watch_ok_def)
  show "w_id w < su_next_id s"
    using wok w by (simp add: watches_ok_def)
  show "\<forall>w \<in> set (watches_of s h). \<not> is_Watch_restart (w_kind w)"
  proof (intro ballI notI)
    fix w' assume "w' \<in> set (watches_of s h)" "is_Watch_restart (w_kind w')"
    from restart_excludes_child [OF ok this] show False
      using \<open>se_io_watch e \<noteq> 0\<close> by simp
  qed
qed

lemma sup_core_lose:
  assumes core: "sup_core s" and w: "w \<in> set (su_watches s)" "w_kind w = Watch_io fd" "w_entry w = h"
    and e: "su_mem s h = Some e" "0 \<le> se_conn_fd e"
  defines "s' \<equiv> g_source_remove (w_id w) (lose_connection h e s)"
  shows "sup_core s'" "same_others h s s'"
proof -
  note io = io_watch_facts [OF core w e(1)]
  define e' where "e' = e\<lparr>se_conn_fd := -1, se_io_watch := 0\<rparr>"
  have no_restart: "\<And>w. w \<in> set (watches_of s h) \<Longrightarrow> is_Watch_restart (w_kind w) \<Longrightarrow> False"
    using io(8) by blast
  have "entry_ok (filter (\<lambda>x. w_id x \<notin> {se_io_watch e}) (watches_of s h)) e'"
  proof (rule entry_ok_drop [OF io(6)])
    fix w assume "w \<in> set (watches_of s h)" "is_Watch_restart (w_kind w)"
    then show "se_pid e' = 0 \<and> se_conn_fd e' = -1 \<and> se_listen_fd e' = -1
        \<and> se_restart_attempts e' \<le> MAX_RESTART_ATTEMPTS"
      using no_restart by blast
  qed (use fields_apart(1-3) [OF core e(1)] entry_ok_values [OF io(6)] in \<open>auto simp: e'_def\<close>)
  moreover have "se_conn_fd e \<noteq> se_listen_fd e"
    using entry_ok_values(4) [OF io(6) e(2)] .
  then have "entry_fds e' = entry_fds e - {se_conn_fd e}" "entry_pids e' = entry_pids e"
    by (auto simp: e'_def entry_fds_def entry_pids_def)
  moreover have "se_conn_fd e \<in> entry_fds e"
    using e(2) by (simp add: entry_fds_def)
  moreover have "{se_io_watch e} \<subseteq> insert 0 (entry_ids e)"
    by (simp add: entry_ids_def)
  ultimately have core1: "sup_core ((without_ids {se_io_watch e} s)\<lparr>su_procs := su_procs s,
      su_fds := su_fds s - {se_conn_fd e}, su_mem := (su_mem s)(h \<mapsto> e')\<rparr>)"
    using sup_core_drop [OF core e(1) field_ids_mine [OF core e(1)], of "{se_io_watch e}" e']
    by (simp add: Diff_Diff_Int Int_absorb1)
  define sigs where "sigs = su_signals s @ (if \<not> se_shutting_down e \<and> 0 < se_pid e then [(se_pid e, SIGKILL)] else [])"
  have "s' = ((without_ids {se_io_watch e} s)\<lparr>su_procs := su_procs s,
      su_fds := su_fds s - {se_conn_fd e}, su_mem := (su_mem s)(h \<mapsto> e')\<rparr>)\<lparr>su_signals := sigs\<rparr>"
    using e(2) by (simp add: s'_def lose_connection_def close_fd_def set_entry_def send_signal_def
        g_source_remove_def without_ids_def e'_def sigs_def io(1) Let_def)
  then show "sup_core s'" "same_others h s s'"
    using core1 e(1) by (simp_all add: same_others_def e'_def without_ids_def)
qed

lemma entry_ok_connected:
  assumes ok: "entry_ok ws e" and pos: "\<forall>w \<in> set ws. w_id w \<noteq> 0"
    and e: "se_io_watch e = 0" "se_stable_timer e = 0" "0 \<le> se_conn_fd e"
  shows "entry_ok (ws @ [\<lparr>w_id = i, w_kind = Watch_io (se_conn_fd e), w_entry = h\<rparr>,
      \<lparr>w_id = j, w_kind = Watch_stable, w_entry = h\<rparr>]) (e\<lparr>se_io_watch := i, se_stable_timer := j\<rparr>)"
proof -
  let ?e = "e\<lparr>se_io_watch := i, se_stable_timer := j\<rparr>"
  have old: "watch_ok ?e w \<and> \<not> is_Watch_restart (w_kind w)" if "w \<in> set ws" for w
  proof -
    have "watch_ok e w" "w_id w \<noteq> 0"
      using ok pos that by (simp_all add: entry_ok_def)
    then show ?thesis
      using e by (cases "w_kind w") (auto simp: watch_ok_def split: if_splits)
  qed
  then have "filter (\<lambda>w. is_Watch_restart (w_kind w)) ws = []"
    by (simp add: filter_empty_conv)
  then show ?thesis
    using ok old e(3) by (auto simp: entry_ok_def) (simp_all add: watch_ok_def)
qed

lemma sup_core_connect:
  assumes core: "sup_core s" and w: "w \<in> set (su_watches s)" "w_kind w = Watch_io fd" "w_entry w = h"
    and e: "su_mem s h = Some e" "se_conn_fd e < 0" and conn: "0 \<le> conn" "conn \<notin> su_fds s"
  defines "s' \<equiv> g_source_remove (w_id w) (connect_entry h conn e s)"
  shows "sup_core s'" "same_others h s s'"
proof -
  note io = io_watch_facts [OF core w e(1)]
  have no_restart: "\<And>w. w \<in> set (watches_of s h) \<Longrightarrow> is_Watch_restart (w_kind w) \<Longrightarrow> False"
    using io(8) by blast
  have wok: "watches_ok s"
    using core by (simp add: sup_core_def)
  let ?I = "{se_accept_timer e, se_io_watch e}"
  define e0 where "e0 = e\<lparr>se_conn_fd := conn, se_accept_timer := 0, se_io_watch := 0\<rparr>"
  define e' where "e' = e0\<lparr>se_io_watch := su_next_id s, se_stable_timer := su_next_id s + 1\<rparr>"
  define ws where "ws = [\<lparr>w_id = su_next_id s, w_kind = Watch_io conn, w_entry = h\<rparr>,
      \<lparr>w_id = su_next_id s + 1, w_kind = Watch_stable, w_entry = h\<rparr>]"
  have "0 \<le> se_listen_fd e" "se_listen_fd e \<in> su_fds s"
    using io(3,4) e core by (auto simp: sup_core_def entry_fds_def dest!: owns_subset)
  then have fds: "entry_fds e = {se_listen_fd e}" "entry_fds e' = {conn, se_listen_fd e}" "se_listen_fd e \<noteq> conn"
    using e(2) conn by (auto simp: entry_fds_def e'_def e0_def)
  have kept: "(if se_child_watch e \<in> ?I then 0 else se_child_watch e) = se_child_watch e"
    "(if se_stable_timer e \<in> ?I then 0 else se_stable_timer e) = se_stable_timer e"
    using fields_apart(1,3,4,6) [OF core e(1)] by (metis empty_iff insert_iff)+
  have "entry_ok (filter (\<lambda>x. w_id x \<notin> ?I) (watches_of s h)) e0"
  proof (rule entry_ok_drop [OF io(6)])
    fix w assume "w \<in> set (watches_of s h)" "is_Watch_restart (w_kind w)"
    then show "se_pid e0 = 0 \<and> se_conn_fd e0 = -1 \<and> se_listen_fd e0 = -1
        \<and> se_restart_attempts e0 \<le> MAX_RESTART_ATTEMPTS"
      using no_restart by blast
  qed (use entry_ok_values [OF io(6)] conn fds(3) kept in \<open>simp_all add: e0_def\<close>)
  moreover have "\<forall>w \<in> set (filter (\<lambda>x. w_id x \<notin> ?I) (watches_of s h)). w_id w \<noteq> 0"
    using wok by (simp add: watches_ok_def)
  moreover have "se_io_watch e0 = 0" "se_stable_timer e0 = 0" "se_conn_fd e0 = conn"
    using io(5) e(2) by (simp_all add: e0_def)
  ultimately have ok': "entry_ok (filter (\<lambda>x. w_id x \<notin> ?I) (watches_of s h) @ ws) e'"
    using entry_ok_connected [of _ e0 "su_next_id s" h "su_next_id s + 1"] conn(1)
    unfolding ws_def e'_def by simp
  have s': "s' = (without_ids ?I s)\<lparr>su_fds := insert conn (su_fds s), su_mem := (su_mem s)(h \<mapsto> e'),
      su_watches := filter (\<lambda>x. w_id x \<notin> ?I) (su_watches s) @ ws, su_next_id := su_next_id s + 2\<rparr>"
    using io(1,7) wok
    by (simp add: s'_def connect_entry_def remove_if_positive watches_ok_def g_watch_add_def set_entry_def
        g_source_remove_def without_ids_def e'_def e0_def ws_def Let_def conj_commute)
  have mine: "\<forall>w \<in> set (su_watches s). w_id w \<in> ?I \<longrightarrow> w_entry w = h"
    by (rule field_ids_mine [OF core e(1)]) (auto simp: entry_ids_def)
  have pids: "entry_pids e' = entry_pids e"
    by (simp add: e'_def e0_def entry_pids_def)
  have sub: "entry_pids e \<subseteq> su_procs s" "entry_fds e \<subseteq> su_fds s"
    using core e(1) by (auto simp: sup_core_def dest!: owns_subset)
  show "sup_core s'"
    by (rule sup_core_local [OF core, where h = h and I = ?I and x = "Some e'" and ws = ws])
      (use mine ok' io(6) e(1) fds pids sub conn core in
        \<open>auto simp: s' without_ids_def ws_def sup_core_def simp del: filter_filter\<close>)
  show "same_others h s s'"
    using e(1) by (simp add: s' without_ids_def same_others_def e'_def e0_def)
qed

end
