(* ===== verification/Source_Sup_Props.thy ===== *)
theory Source_Sup_Props
  imports Source_Sup_Inv
begin

text \<open>
  The source supervisor as a transition system: the requests of the server and the callbacks of the
  main loop (\<open>run_watch\<close>), the invariant \<open>sup_inv\<close> of every reachable state, and the properties of
  \<open>src/server/supervisor/source_supervisor.c\<close> that follow. The kernel gives descriptors that are not
  open and processes that are not running (\<open>launch_ok\<close>, \<open>env_ok\<close>).
\<close>

section \<open>The main loop\<close>

text \<open>What one turn of the main loop depends on besides the state.\<close>

record loop_env =
  lv_accepted :: "int option"
  lv_hup :: bool
  lv_events :: "rx_event list"
  lv_launch :: launch_env
  lv_up :: bool
  lv_jitter :: nat

text \<open>
  GLib runs the callback of a watch that is ready. A child watch and a timer whose callback gives
  \<open>G_SOURCE_REMOVE\<close> are destroyed by their only run, a socket's watch when its callback says so.
\<close>

definition run_watch :: "loop_env \<Rightarrow> watch \<Rightarrow> source_sup \<Rightarrow> source_sup option" where
  "run_watch v w s =
     (case w_kind w of
        Watch_io fd \<Rightarrow>
          (case on_frame_available (lv_accepted v) (lv_hup v) (lv_events v) fd (w_entry w) s of
             None \<Rightarrow> None
           | Some (keep, s) \<Rightarrow> Some (if keep then s else g_source_remove (w_id w) s))
      | Watch_child pid \<Rightarrow> on_child_exit (lv_up v) (lv_jitter v) pid (w_entry w) (g_source_remove (w_id w) s)
      | Watch_accept \<Rightarrow> on_accept_timeout (w_entry w) (g_source_remove (w_id w) s)
      | Watch_stable \<Rightarrow> on_stable_timer (w_entry w) (g_source_remove (w_id w) s)
      | Watch_restart d \<Rightarrow>
          on_restart_timer (lv_launch v) (lv_up v) (lv_jitter v) (w_entry w) (g_source_remove (w_id w) s))"

definition env_ok :: "loop_env \<Rightarrow> source_sup \<Rightarrow> bool" where
  "env_ok v s \<longleftrightarrow> launch_ok (lv_launch v) s
     \<and> (\<forall>fd. lv_accepted v = Some fd \<longrightarrow> 0 \<le> fd \<and> fd \<notin> su_fds s)"

text \<open>The table and the entries it names; no entry in the table is being shut down.\<close>

definition table_ok :: "source_sup \<Rightarrow> bool" where
  "table_ok s \<longleftrightarrow> ht_wf (su_table s) \<and> distinct (map snd (su_table s))
     \<and> (\<forall>h. su_mem s h \<noteq> None \<longleftrightarrow> h \<in> snd ` set (su_table s))
     \<and> (\<forall>sid h. (sid, h) \<in> set (su_table s) \<longrightarrow>
          (\<exists>e. su_mem s h = Some e \<and> se_source_id e = sid \<and> \<not> se_shutting_down e))"

definition sup_inv :: "source_sup \<Rightarrow> bool" where
  "sup_inv s \<longleftrightarrow> sup_core s \<and> table_ok s"

lemma table_ok_same_others:
  assumes "table_ok s" "same_others h s s'" "su_mem s h \<noteq> None"
  shows "table_ok s'"
proof -
  have mem: "su_mem s' k = su_mem s k" if "k \<noteq> h" for k
    using assms(2) that by (simp add: same_others_def)
  have alive: "su_mem s' k \<noteq> None \<longleftrightarrow> su_mem s k \<noteq> None" for k
    using assms(2,3) by (cases "k = h") (auto simp: same_others_def)
  have "\<exists>e. su_mem s' k = Some e \<and> se_source_id e = sid \<and> \<not> se_shutting_down e"
    if entry: "(sid, k) \<in> set (su_table s)" for sid k
  proof -
    obtain e where "su_mem s k = Some e" "se_source_id e = sid" "\<not> se_shutting_down e"
      using assms(1) entry unfolding table_ok_def by blast
    then show ?thesis
      using assms(2) by (cases "k = h") (auto simp: same_others_def)
  qed
  moreover have "su_table s' = su_table s"
    using assms(2) by (simp add: same_others_def)
  ultimately show ?thesis
    using assms(1) alive unfolding table_ok_def by simp
qed

lemma live_entry_running:
  assumes "table_ok s" "su_mem s h = Some e"
  shows "\<not> se_shutting_down e"
proof -
  have "h \<in> snd ` set (su_table s)"
    using assms unfolding table_ok_def by (metis option.distinct(1))
  then obtain sid where "(sid, h) \<in> set (su_table s)"
    by auto
  then show ?thesis
    using assms unfolding table_ok_def by (metis option.inject)
qed

lemma sup_core_restart_removed:
  assumes core: "sup_core s" and w: "w \<in> set (su_watches s)" "is_Watch_restart (w_kind w)"
  defines "s0 \<equiv> g_source_remove (w_id w) s"
  shows "sup_core s0"
    and "\<And>e. su_mem s (w_entry w) = Some e \<Longrightarrow> \<not> (\<exists>x \<in> set (watches_of s0 (w_entry w)). is_Watch_restart (w_kind x))"
proof -
  let ?h = "w_entry w"
  have wok: "watches_ok s"
    using core by (simp add: sup_core_def)
  have mine: "\<forall>x \<in> set (su_watches s). w_id x \<in> {w_id w} \<longrightarrow> w_entry x = ?h"
    using watch_id_inj [OF wok _ w(1)] by auto
  have hh: "?h < su_next_handle s"
    using wok w(1) by (simp add: watches_ok_def)
  have s0: "su_mem s0 = (su_mem s)(?h := su_mem s ?h)"
    "su_watches s0 = filter (\<lambda>x. w_id x \<notin> {w_id w}) (su_watches s) @ []"
    by (simp_all add: s0_def g_source_remove_def)
  have gone: "filter (\<lambda>x. w_id x \<notin> {w_id w}) (filter (\<lambda>x. is_Watch_restart (w_kind x)) (watches_of s ?h)) = []"
    if "su_mem s ?h = Some e" for e
  proof -
    have "length (filter (\<lambda>x. is_Watch_restart (w_kind x)) (watches_of s ?h)) \<le> 1"
      using sup_core_entry [OF core that] by (simp add: entry_ok_def)
    moreover have "w \<in> set (filter (\<lambda>x. is_Watch_restart (w_kind x)) (watches_of s ?h))"
      using w by simp
    ultimately have "filter (\<lambda>x. is_Watch_restart (w_kind x)) (watches_of s ?h) = [w]"
      by (cases "filter (\<lambda>x. is_Watch_restart (w_kind x)) (watches_of s ?h)") (auto simp del: filter_filter)
    then show ?thesis
      by (simp del: filter_filter)
  qed
  have keep: "entry_ok (filter (\<lambda>x. w_id x \<notin> {w_id w}) (watches_of s ?h) @ []) e" if e: "su_mem s ?h = Some e" for e
  proof -
    have ok: "entry_ok (watches_of s ?h) e"
      using core e by (simp add: sup_core_def)
    have "w_id w \<notin> entry_ids e"
      using field_watch [OF core e w(1)] w(2) by (cases "w_kind w") (auto simp: entry_ids_def)
    then have "se_io_watch e \<noteq> w_id w" "se_child_watch e \<noteq> w_id w" "se_accept_timer e \<noteq> w_id w"
      "se_stable_timer e \<noteq> w_id w"
      by (auto simp: entry_ids_def)
    then have "entry_ok (filter (\<lambda>x. w_id x \<notin> {w_id w}) (watches_of s ?h)) e"
      by (intro entry_ok_drop [OF ok])
        (use entry_ok_values [OF ok] restart_excludes_child [OF ok] in simp_all)
    then show ?thesis by simp
  qed
  have left: "su_mem s ?h = None \<Longrightarrow>
      \<forall>x \<in> set (filter (\<lambda>x. w_id x \<notin> {w_id w}) (watches_of s ?h) @ []). is_Watch_restart (w_kind x)"
    using wok by (auto simp: watches_ok_def)
  have "owns entry_fds (su_mem s) (su_fds s)" "owns entry_pids (su_mem s) (su_procs s)"
    using core by (simp_all add: sup_core_def)
  then have sub: "owned entry_fds (su_mem s ?h) \<subseteq> su_fds s" "owned entry_pids (su_mem s ?h) \<subseteq> su_procs s"
    by (cases "su_mem s ?h"; auto dest: owns_subset)+
  show "sup_core s0"
    by (rule sup_core_local [OF core s0])
      (use mine hh keep left sub in \<open>auto simp: s0_def g_source_remove_def simp del: filter_filter\<close>)
  show "\<not> (\<exists>x \<in> set (watches_of s0 ?h). is_Watch_restart (w_kind x))" if "su_mem s ?h = Some e" for e
    using gone [OF that] by (auto simp: s0 filter_empty_conv)
qed


section \<open>Every callback keeps the invariant\<close>

lemma restart_callback:
  assumes core: "sup_core s" and w: "w \<in> set (su_watches s)" "w_kind w = Watch_restart d" "w_entry w = h"
    and e: "su_mem s h = Some e" "\<not> se_shutting_down e" and v: "launch_ok v s"
  obtains s' where "on_restart_timer v up jitter h (g_source_remove (w_id w) s) = Some s'"
    "sup_core s'" "same_others h s s'"
proof -
  define s0 where "s0 = g_source_remove (w_id w) s"
  have core0: "sup_core s0" and none: "\<not> (\<exists>x \<in> set (watches_of s0 h). is_Watch_restart (w_kind x))"
    using sup_core_restart_removed [OF core w(1)] w(2,3) e(1) by (simp_all add: s0_def)
  have s0: "su_mem s0 = su_mem s" "su_procs s0 = su_procs s" "su_fds s0 = su_fds s" "same_others h s s0"
    by (simp_all add: s0_def g_source_remove_def same_others_def)
  have e0: "su_mem s0 h = Some e"
    using e s0 by simp
  have "entry_ok (watches_of s h) e" "w \<in> set (watches_of s h)" "is_Watch_restart (w_kind w)"
    using core e w by (simp_all add: sup_core_def)
  from restart_excludes_child [OF this]
  have idle: "se_pid e = 0" "se_conn_fd e = -1" "se_listen_fd e = -1" "se_restart_attempts e \<le> MAX_RESTART_ATTEMPTS"
    by simp_all
  define s1 where "s1 = snd (source_entry_cleanup_worker h e s0)"
  have cl: "source_entry_cleanup_worker h e s0 = (cleared e, s1)"
    using core0 by (simp add: s1_def cleanup_result sup_core_def)
  note clean = sup_core_cleanup [OF core0 e0 idle(1,4) none, folded s1_def]
  have s1: "su_procs s1 = su_procs s" "su_fds s1 = su_fds s"
    using core0 s0 idle by (simp_all add: s1_def cleanup_result sup_core_def without_ids_def entry_fds_cases)
  have v1: "launch_ok v s1"
    using v s1 by (simp add: launch_ok_def)
  note launch = sup_core_launch [OF clean(1,2,5,3) v1]
  have others: "same_others h s (snd (source_entry_launch v h (cleared e) s1))"
    using same_others_trans [OF s0(4) same_others_trans [OF clean(4) launch(2)]] .
  have alive: "\<not> se_shutting_down (cleared e)"
    using e by (simp add: cleared_def)
  show thesis
  proof (cases "fst (source_entry_launch v h (cleared e) s1) = SBS_OK")
    case True
    then have "on_restart_timer v up jitter h s0 = Some (snd (source_entry_launch v h (cleared e) s1))"
      using e0 e(2) cl by (simp add: on_restart_timer_def case_prod_unfold)
    then show ?thesis
      using that launch(1) others by (simp add: s0_def)
  next
    case False
    have same: "snd (source_entry_launch v h (cleared e) s1) = s1"
      using launch_failure [OF False clean(5)] clean(2) by (simp add: set_entry_def fun_upd_idem)
    have res: "on_restart_timer v up jitter h s0 = Some (schedule_restart up jitter h (cleared e) s1)"
      using e0 e(2) cl False clean(2) by (simp add: on_restart_timer_def case_prod_unfold same)
    have "sup_core (schedule_restart up jitter h (cleared e) s1)"
      "same_others h s1 (schedule_restart up jitter h (cleared e) s1)"
      by (rule sup_core_schedule [OF clean(1,2)]; use idle(4) clean(3) in \<open>simp add: cleared_def\<close>)+
    then show ?thesis
      using that res same_others_trans [OF s0(4) same_others_trans [OF clean(4)]] by (simp add: s0_def)
  qed
qed

lemma io_callback:
  assumes core: "sup_core s" and w: "w \<in> set (su_watches s)" "w_kind w = Watch_io fd" "w_entry w = h"
    and e: "su_mem s h = Some e" and acc: "\<And>c. acc = Some c \<Longrightarrow> 0 \<le> c \<and> c \<notin> su_fds s"
  obtains keep s1 where "on_frame_available acc hup evs fd h s = Some (keep, s1)"
    "sup_core (if keep then s1 else g_source_remove (w_id w) s1)"
    "same_others h s (if keep then s1 else g_source_remove (w_id w) s1)"
proof -
  note io = io_watch_facts [OF core w e]
  consider (listen_wait) "se_conn_fd e < 0" "acc = None" | (listen_accept) c where "se_conn_fd e < 0" "acc = Some c"
    | (hup) "0 \<le> se_conn_fd e" "hup" | (read) "0 \<le> se_conn_fd e" "\<not> hup"
    by (cases acc) (use linorder_not_less in auto)
  then show thesis
  proof cases
    case listen_wait
    then show ?thesis
      using that [of True s] io(4) e core by (simp add: on_frame_available_def same_others_refl)
  next
    case listen_accept
    then have "on_frame_available acc hup evs fd h s = Some (False, connect_entry h c e s)"
      using io(4) e by (simp add: on_frame_available_def)
    moreover have "0 \<le> c" "c \<notin> su_fds s"
      using acc [OF listen_accept(2)] by simp_all
    note sup_core_connect [OF core w e listen_accept(1) this]
    ultimately show ?thesis
      using that [of False "connect_entry h c e s"] by simp
  next
    case hup
    then have "on_frame_available acc hup evs fd h s = Some (False, lose_connection h e s)"
      using e by (simp add: on_frame_available_def)
    then show ?thesis
      using that [of False "lose_connection h e s"] sup_core_lose [OF core w e hup(1)] by simp
  next
    case read
    obtain eof e' s' where rx: "receive_into evs h e s = (eof, e', s')"
      by (cases "receive_into evs h e s")
    note r = sup_core_receive [OF core e rx]
    show ?thesis
    proof (cases eof)
      case True
      then have "on_frame_available acc hup evs fd h s = Some (False, lose_connection h e' s')"
        using e read rx by (simp add: on_frame_available_def)
      moreover have "0 \<le> se_conn_fd e'"
        using r(5) read by auto
      then have "sup_core (g_source_remove (w_id w) (lose_connection h e' s'))"
        "same_others h s' (g_source_remove (w_id w) (lose_connection h e' s'))"
        using sup_core_lose [OF r(1) _ w(2,3) r(3)] w(1) r(4) by simp_all
      ultimately show ?thesis
        using that [of False "lose_connection h e' s'"] same_others_trans [OF r(2)] by simp
    next
      case False
      then have "on_frame_available acc hup evs fd h s = Some (True, s')"
        using e read rx by (simp add: on_frame_available_def)
      then show ?thesis
        using that [of True s'] r(1,2) by simp
    qed
  qed
qed

lemma run_watch_result:
  assumes inv: "sup_inv s" and w: "w \<in> set (su_watches s)" and v: "env_ok v s" and e: "su_mem s (w_entry w) = Some e"
  obtains s' where "run_watch v w s = Some s'" "sup_inv s'"
proof -
  have core: "sup_core s" and tab: "table_ok s"
    using inv by (simp_all add: sup_inv_def)
  have alive: "\<not> se_shutting_down e"
    by (rule live_entry_running [OF tab e])
  have "\<exists>s'. run_watch v w s = Some s' \<and> sup_core s' \<and> same_others (w_entry w) s s'"
  proof (cases "w_kind w")
    case (Watch_io fd)
    show ?thesis
      by (rule io_callback [OF core w Watch_io refl e, of "lv_accepted v" "lv_hup v" "lv_events v"])
        (use v Watch_io in \<open>auto simp: env_ok_def run_watch_def\<close>)
  next
    case (Watch_child pid)
    show ?thesis
      by (rule sup_core_child_exit [OF core w Watch_child refl e alive, of "lv_up v" "lv_jitter v"])
        (use Watch_child in \<open>auto simp: run_watch_def\<close>)
  next
    case Watch_accept
    note t = timer_callback [OF core w refl e disjI1 [OF conjI [OF Watch_accept refl]]]
    let ?s1 = "set_entry (w_entry w) (e\<lparr>se_accept_timer := 0\<rparr>) (g_source_remove (w_id w) s)"
    have "run_watch v w s = Some (if 0 < se_pid e then send_signal SIGKILL (se_pid e) ?s1 else ?s1)"
      using e Watch_accept by (simp add: run_watch_def on_accept_timeout_def g_source_remove_def)
    moreover have "sup_core (send_signal SIGKILL (se_pid e) ?s1)"
      "same_others (w_entry w) s (send_signal SIGKILL (se_pid e) ?s1)"
      using t by (simp_all add: send_signal_def same_others_def)
    ultimately show ?thesis
      using t by (simp split: if_split)
  next
    case Watch_stable
    note t = timer_callback [OF core w refl e disjI2 [OF conjI [OF Watch_stable refl]]]
    show ?thesis
      using t e Watch_stable
      by (simp add: run_watch_def on_stable_timer_def g_source_remove_def)
  next
    case (Watch_restart d)
    show ?thesis
      by (rule restart_callback [OF core w Watch_restart refl e alive, of "lv_launch v" "lv_up v" "lv_jitter v"])
        (use v Watch_restart in \<open>auto simp: env_ok_def run_watch_def\<close>)
  qed
  then show thesis
    using that tab table_ok_same_others [OF tab] e by (auto simp: sup_inv_def)
qed

section \<open>The requests keep the invariant\<close>

lemma ht_remove_last: "\<not> ht_contains t k \<Longrightarrow> ht_remove k (t @ [(k, v)]) = t"
  by (induction t) (auto simp: ht_remove_def AList.delete_eq ht_contains_iff)

definition new_entry :: "string \<Rightarrow> string \<Rightarrow> nat \<Rightarrow> source_entry" where
  "new_entry sid ty slot = \<lparr>se_source_id = sid, se_source_type = ty, se_pid = 0, se_listen_fd = -1,
     se_conn_fd = -1, se_frame_slot = slot, se_io_watch = 0, se_child_watch = 0, se_accept_timer = 0,
     se_stable_timer = 0, se_restart_attempts = 0, se_last_start = 0, se_last_frame = 0,
     se_shutting_down = False, se_muted = False\<rparr>"

definition with_new :: "string \<Rightarrow> source_entry \<Rightarrow> source_sup \<Rightarrow> source_sup" where
  "with_new sid e s = set_entry (su_next_handle s) e
     (s\<lparr>su_table := ht_insert sid (su_next_handle s) (su_table s), su_next_handle := su_next_handle s + 1\<rparr>)"

lemma start_unfold:
  fixes s :: source_sup and v :: launch_env and ty :: "string option" and slot :: nat
  assumes "\<not> ht_contains (su_table s) sid"
  defines "e \<equiv> new_entry sid (case ty of Some t \<Rightarrow> t | None \<Rightarrow> ''videotestsrc'') slot"
  defines "r \<equiv> source_entry_launch v (su_next_handle s) e (with_new sid e s)"
  shows "sbs_source_supervisor_start_source v (Some sid) ty slot s =
    (if fst r = SBS_OK then (SBS_OK, snd r)
     else (fst r, source_entry_free (su_next_handle s) ((snd r)\<lparr>su_table := ht_remove sid (su_table (snd r))\<rparr>)))"
  using assms(1)
  by (simp add: sbs_source_supervisor_start_source_def r_def e_def with_new_def launch_set_entry new_entry_def
      case_prod_unfold Let_def)

lemma sup_inv_new:
  assumes inv: "sup_inv s" and sid: "\<not> ht_contains (su_table s) sid" and e: "e = new_entry sid ty slot"
  defines "h \<equiv> su_next_handle s"
  shows "sup_inv (with_new sid e s)" "su_mem (with_new sid e s) h = Some e" "blank e"
    "watches_of (with_new sid e s) h = []" "su_mem s h = None"
proof -
  have core: "sup_core s" and tab: "table_ok s"
    using inv by (simp_all add: sup_inv_def)
  have wok: "watches_ok s"
    using core by (simp add: sup_core_def)
  show fresh: "su_mem s h = None"
    using core by (cases "su_mem s h") (auto simp: h_def dest: sup_core_entry)
  have none: "watches_of s h = []"
    using wok by (auto simp: watches_ok_def h_def filter_empty_conv)
  show bl: "blank e"
    by (simp add: e blank_def new_entry_def)
  have empty: "entry_fds e = {}" "entry_pids e = {}"
    by (auto simp: e new_entry_def entry_fds_def entry_pids_def)
  have ok: "entry_ok [] e"
    using bl by (simp add: entry_ok_def blank_def)
  have core': "sup_core (with_new sid e s)"
    by (rule sup_core_local [OF core, where h = h and I = "{}" and x = "Some e" and ws = "[]"])
      (use fresh none empty ok in \<open>simp_all add: with_new_def h_def set_entry_def\<close>)
  show "su_mem (with_new sid e s) h = Some e"
    by (simp add: with_new_def h_def set_entry_def)
  show "watches_of (with_new sid e s) h = []"
    using none by (simp add: with_new_def set_entry_def)
  have table: "su_table (with_new sid e s) = su_table s @ [(sid, h)]"
    using sid by (simp add: with_new_def set_entry_def h_def ht_fresh_insert)
  have mem: "su_mem (with_new sid e s) = (su_mem s)(h \<mapsto> e)"
    by (simp add: with_new_def set_entry_def h_def)
  have unused: "h \<notin> snd ` set (su_table s)"
    using tab fresh unfolding table_ok_def by blast
  have "ht_wf (su_table s @ [(sid, h)])"
    using tab sid by (simp add: table_ok_def ht_wf_def ht_contains_iff)
  moreover have "\<exists>e'. ((su_mem s)(h \<mapsto> e)) k = Some e' \<and> se_source_id e' = sid' \<and> \<not> se_shutting_down e'"
    if entry: "(sid', k) \<in> set (su_table s @ [(sid, h)])" for sid' k
  proof (cases "(sid', k) = (sid, h)")
    case True
    then show ?thesis
      by (simp add: e new_entry_def)
  next
    case False
    then have "(sid', k) \<in> set (su_table s)" "k \<noteq> h"
      using entry unused by force+
    then show ?thesis
      using tab unfolding table_ok_def by simp
  qed
  moreover have "((su_mem s)(h \<mapsto> e)) k \<noteq> None \<longleftrightarrow> k \<in> snd ` set (su_table s @ [(sid, h)])" for k
    using tab unfolding table_ok_def by auto
  moreover have "distinct (map snd (su_table s @ [(sid, h)]))"
    using tab unused by (simp add: table_ok_def)
  ultimately have "table_ok (with_new sid e s)"
    unfolding table_ok_def table mem by blast
  then show "sup_inv (with_new sid e s)"
    using core' by (simp add: sup_inv_def)
qed

lemma sup_inv_start:
  assumes inv: "sup_inv s" and v: "launch_ok v s"
  shows "sup_inv (snd (sbs_source_supervisor_start_source v source_id ty slot s))"
proof (cases "\<exists>sid. source_id = Some sid \<and> \<not> ht_contains (su_table s) sid")
  case False
  then show ?thesis
    using inv by (auto simp: sbs_source_supervisor_start_source_def split: option.split)
next
  case True
  then obtain sid where sid: "source_id = Some sid" "\<not> ht_contains (su_table s) sid" by blast
  let ?h = "su_next_handle s"
  define e where "e = new_entry sid (case ty of Some t \<Rightarrow> t | None \<Rightarrow> ''videotestsrc'') slot"
  note new = sup_inv_new [OF inv sid(2) e_def]
  define s1 where "s1 = with_new sid e s"
  define r where "r = source_entry_launch v ?h e s1"
  have core1: "sup_core s1" and tab1: "table_ok s1"
    using new(1) by (simp_all add: s1_def sup_inv_def)
  have v1: "launch_ok v s1"
    using v by (simp add: launch_ok_def s1_def with_new_def set_entry_def)
  note launch = sup_core_launch [OF core1 new(2-4) [folded s1_def] v1, folded r_def]
  note unf = start_unfold [OF sid(2), of v ty slot, folded e_def, folded s1_def, folded r_def]
  show ?thesis
  proof (cases "fst r = SBS_OK")
    case True
    have "table_ok (snd r)"
      using table_ok_same_others [OF tab1 launch(2)] new(2) by (simp add: s1_def)
    then show ?thesis
      using launch(1) True by (simp add: sid(1) unf sup_inv_def)
  next
    case False
    then have "snd r = s1"
      using launch_failure [of v ?h e s1] new(2,3) by (simp add: r_def s1_def set_entry_def fun_upd_idem)
    define s2 where "s2 = s1\<lparr>su_table := ht_remove sid (su_table s1)\<rparr>"
    have t2: "su_table s2 = su_table s"
      using sid(2) by (simp add: s2_def s1_def with_new_def set_entry_def ht_fresh_insert ht_remove_last)
    have "su_mem s2 = (su_mem s)(?h \<mapsto> e)"
      by (simp add: s2_def s1_def with_new_def set_entry_def)
    then have "su_mem (source_entry_free ?h s2) = su_mem s"
      using new(5) by (simp add: free_mem fun_upd_idem)
    then have "table_ok (source_entry_free ?h s2)"
      using inv t2 by (simp add: sup_inv_def table_ok_def)
    moreover have "sup_core (source_entry_free ?h s2)"
      using sup_core_free [of s2 ?h e] core1 new(2) by (simp add: s2_def s1_def)
    ultimately show ?thesis
      using False by (simp add: sid(1) unf sup_inv_def \<open>snd r = s1\<close> s2_def)
  qed
qed

text \<open>Marking an entry as shutting down only weakens its condition.\<close>

lemma entry_ok_shutting:
  assumes "entry_ok ws e"
  shows "entry_ok ws (e\<lparr>se_shutting_down := True\<rparr>)"
proof -
  have "watch_ok (e\<lparr>se_shutting_down := True\<rparr>) w" if "watch_ok e w" for w
    using that by (cases "w_kind w") (auto simp: watch_ok_def split: if_splits)
  then show ?thesis
    using assms unfolding entry_ok_def by simp
qed

lemma sup_core_shutting:
  assumes "sup_core s" "su_mem s h = Some e"
  shows "sup_core (set_entry h (e\<lparr>se_shutting_down := True\<rparr>) s)"
proof -
  have "entry_ok (filter (\<lambda>w. w_id w \<notin> {}) (watches_of s h)) (e\<lparr>se_shutting_down := True\<rparr>)"
    using entry_ok_shutting [of "watches_of s h" e] assms by (simp add: sup_core_def)
  then show ?thesis
    using sup_core_update [OF assms, of "{}" "e\<lparr>se_shutting_down := True\<rparr>"]
    by (simp add: without_ids_def entry_fds_def entry_pids_def)
qed

lemma table_ok_remove:
  assumes tab: "table_ok s" and sid: "ht_lookup (su_table s) sid = Some h"
    and s': "su_table s' = ht_remove sid (su_table s)" "su_mem s' = (su_mem s)(h := None)"
  shows "table_ok s'"
proof -
  have inj: "(sid', h) \<in> set (su_table s) \<longleftrightarrow> sid' = sid" for sid'
    using tab ht_lookup_in_set [OF sid] unfolding table_ok_def by (metis option.inject)
  have "k \<in> snd ` set (ht_remove sid (su_table s)) \<longleftrightarrow> k \<noteq> h \<and> k \<in> snd ` set (su_table s)" for k
  proof -
    have "(sid', k) \<in> set (ht_remove sid (su_table s)) \<longleftrightarrow> sid' \<noteq> sid \<and> (sid', k) \<in> set (su_table s)" for sid'
      by (rule ht_remove_entries)
    moreover have "(sid, k) \<in> set (su_table s) \<longleftrightarrow> k = h"
      using tab sid ht_lookup_iff [of "su_table s" sid k] by (auto simp: table_ok_def)
    moreover have "k \<in> snd ` set t \<longleftrightarrow> (\<exists>sid'. (sid', k) \<in> set t)" for t :: "nat htab"
      by force
    ultimately show ?thesis
      using inj by metis
  qed
  moreover have "distinct (map snd (ht_remove sid (su_table s)))"
    using tab by (simp add: table_ok_def ht_remove_def AList.delete_eq distinct_map_filter)
  moreover have "\<exists>e. su_mem s' k = Some e \<and> se_source_id e = sid' \<and> \<not> se_shutting_down e"
    if entry: "(sid', k) \<in> set (ht_remove sid (su_table s))" for sid' k
  proof -
    have old: "sid' \<noteq> sid" "(sid', k) \<in> set (su_table s)"
      using entry by (simp_all add: ht_remove_entries)
    then have "k \<noteq> h"
      using inj by blast
    moreover have "\<exists>e. su_mem s k = Some e \<and> se_source_id e = sid' \<and> \<not> se_shutting_down e"
      using tab old(2) unfolding table_ok_def by blast
    ultimately show ?thesis
      by (simp add: s'(2))
  qed
  ultimately show ?thesis
    using tab unfolding table_ok_def s' by simp
qed

lemma table_entry:
  assumes "table_ok s" "ht_lookup (su_table s) sid = Some h"
  obtains e where "su_mem s h = Some e" "se_source_id e = sid" "\<not> se_shutting_down e"
  using assms ht_lookup_in_set [OF assms(2)] unfolding table_ok_def by blast

lemma stop_unfold:
  assumes "ht_lookup (su_table s) sid = Some h" "su_mem s h = Some e"
  shows "sbs_source_supervisor_stop_source (Some sid) s =
    (SBS_OK, source_entry_free h ((set_entry h (e\<lparr>se_shutting_down := True\<rparr>) s)\<lparr>
        su_sent := su_sent s @ (if 0 \<le> se_conn_fd e then [(se_conn_fd e, shutdown_bytes SHUTDOWN_GRACE_MS 0)] else []),
        su_signals := su_signals s @ (if 0 < se_pid e then [(se_pid e, SIGTERM)] else []),
        su_table := ht_remove sid (su_table s)\<rparr>))"
  using assms
  by (cases "0 \<le> se_conn_fd e"; cases "0 < se_pid e")
    (simp_all add: sbs_source_supervisor_stop_source_def Let_def set_entry_def send_signal_def send_shutdown_def)

lemma sup_inv_stop:
  assumes "sup_inv s"
  shows "sup_inv (snd (sbs_source_supervisor_stop_source source_id s))"
proof (cases "\<exists>sid h. source_id = Some sid \<and> ht_lookup (su_table s) sid = Some h")
  case False
  then show ?thesis
    using assms by (auto simp: sbs_source_supervisor_stop_source_def split: option.split)
next
  case True
  then obtain sid h where sid: "source_id = Some sid" "ht_lookup (su_table s) sid = Some h" by blast
  have core: "sup_core s" and tab: "table_ok s"
    using assms by (simp_all add: sup_inv_def)
  obtain e where e: "su_mem s h = Some e"
    using table_entry [OF tab sid(2)] .
  note stop = stop_unfold [OF sid(2) e]
  show ?thesis
    unfolding sid(1) stop sup_inv_def snd_conv
  proof
    show "sup_core (source_entry_free h ((set_entry h (e\<lparr>se_shutting_down := True\<rparr>) s)\<lparr>
        su_sent := su_sent s @ (if 0 \<le> se_conn_fd e then [(se_conn_fd e, shutdown_bytes SHUTDOWN_GRACE_MS 0)] else []),
        su_signals := su_signals s @ (if 0 < se_pid e then [(se_pid e, SIGTERM)] else []),
        su_table := ht_remove sid (su_table s)\<rparr>))" (is "sup_core (source_entry_free h ?s1)")
      by (rule sup_core_free [where e = "e\<lparr>se_shutting_down := True\<rparr>"])
        (use sup_core_shutting [OF core e] in \<open>simp_all add: set_entry_def\<close>)
    show "table_ok (source_entry_free h ?s1)"
      by (rule table_ok_remove [OF tab sid(2)]) (simp_all add: free_mem set_entry_def)
  qed
qed

lemma sup_inv_mute:
  assumes "sup_inv s"
  shows "sup_inv (snd (set_muted b source_id s))"
proof (cases "\<exists>sid h. source_id = Some sid \<and> ht_lookup (su_table s) sid = Some h")
  case False
  then show ?thesis
    using assms by (auto simp: set_muted_def split: option.split)
next
  case True
  then obtain sid h where sid: "source_id = Some sid" "ht_lookup (su_table s) sid = Some h" by blast
  have core: "sup_core s" and tab: "table_ok s"
    using assms by (simp_all add: sup_inv_def)
  obtain e where e: "su_mem s h = Some e"
    using table_entry [OF tab sid(2)] .
  have "sup_core (set_entry h (e\<lparr>se_muted := b\<rparr>) s)"
    by (rule sup_core_same_entry [OF core e]) simp_all
  moreover have "table_ok (set_entry h (e\<lparr>se_muted := b\<rparr>) s)"
    by (rule table_ok_same_others [OF tab, of h]) (use e in \<open>simp_all add: same_others_def set_entry_def\<close>)
  ultimately show ?thesis
    using sid e by (simp add: set_muted_def sup_inv_def)
qed

section \<open>Shutting down\<close>

text \<open>The steps of \<open>shutdown_all\<close>: every entry stays, marked, until all are freed together.\<close>

definition marked :: "source_sup \<Rightarrow> nat set \<Rightarrow> bool" where
  "marked s M \<longleftrightarrow> (\<forall>h \<in> M. \<exists>e. su_mem s h = Some e \<and> se_shutting_down e)"

lemma sup_core_reaped:
  assumes core: "sup_core s" and e: "su_mem s h = Some e" "se_shutting_down e" "0 < se_pid e"
  shows "sup_core (set_entry h (e\<lparr>se_pid := 0\<rparr>) (reap (se_pid e) s))"
proof -
  let ?e = "e\<lparr>se_pid := 0\<rparr>"
  have ok: "entry_ok (watches_of s h) e"
    using core e by (simp add: sup_core_def)
  have "watch_ok ?e w" if "watch_ok e w" for w
    using that e(2) by (cases "w_kind w") (auto simp: watch_ok_def)
  then have "entry_ok (filter (\<lambda>w. w_id w \<notin> {}) (watches_of s h)) ?e"
    using ok unfolding entry_ok_def by simp
  moreover have "entry_fds ?e = entry_fds e" "entry_pids ?e = {}" "entry_pids e = {se_pid e}"
    using e(3) by (auto simp: entry_fds_def entry_pids_def)
  ultimately show ?thesis
    using sup_core_drop [OF core e(1), of "{}" ?e]
    by (simp add: set_entry_def reap_def without_ids_def)
qed

definition down_ok :: "nat htab \<Rightarrow> source_sup \<Rightarrow> bool" where
  "down_ok t s \<longleftrightarrow> sup_core s \<and> su_table s = t \<and> (\<forall>h. su_mem s h \<noteq> None \<longleftrightarrow> h \<in> snd ` set t)
     \<and> marked s (snd ` set t)"

lemma down_ok_entry:
  assumes "down_ok t s" "h \<in> snd ` set t"
  obtains e where "su_mem s h = Some e" "se_shutting_down e" "the (su_mem s h) = e"
  using assms by (auto simp: down_ok_def marked_def)

lemma down_ok_reaped:
  assumes "down_ok t s" "su_mem s h = Some e" "se_shutting_down e" "0 < se_pid e"
  shows "down_ok t (set_entry h (e\<lparr>se_pid := 0\<rparr>) (reap (se_pid e) s))"
  using sup_core_reaped [OF _ assms(2-4)] assms
  by (auto simp: down_ok_def marked_def set_entry_def reap_def)

lemma down_ok_signals: "down_ok t s \<Longrightarrow> down_ok t (send_signal sig pid s)"
  by (simp add: down_ok_def marked_def send_signal_def)

lemma down_steps:
  assumes "down_ok t s" "h \<in> snd ` set t"
  shows "down_ok t (poll_exit exits h s)" "down_ok t (term_worker h s)" "down_ok t (kill_straggler h s)"
proof -
  obtain e where e: "su_mem s h = Some e" "se_shutting_down e" "the (su_mem s h) = e"
    using down_ok_entry [OF assms] .
  show "down_ok t (poll_exit exits h s)"
    using down_ok_reaped [OF assms(1) e(1,2)] assms(1) e(3) by (simp add: poll_exit_def)
  show "down_ok t (term_worker h s)"
    using down_ok_signals [OF assms(1)] assms(1) e(3) by (simp add: term_worker_def)
  have "su_mem (send_signal SIGKILL (se_pid e) s) h = Some e"
    using e by (simp add: send_signal_def)
  then show "down_ok t (kill_straggler h s)"
    using down_ok_reaped [OF down_ok_signals [OF assms(1)] _ e(2)] assms(1) e(3)
    by (simp add: kill_straggler_def)
qed

lemma down_fold:
  assumes "down_ok t s" "\<And>h s. h \<in> snd ` set t \<Longrightarrow> down_ok t s \<Longrightarrow> down_ok t (f h s)"
  shows "down_ok t (fold f (map snd t) s)"
  using fold_invariant [of "map snd t" "\<lambda>h. h \<in> snd ` set t" "down_ok t" s f] assms by auto

lemma mark_all:
  assumes "sup_core s" "set hs \<subseteq> {h. su_mem s h \<noteq> None}"
  defines "s' \<equiv> fold mark_shutting_down hs s"
  shows "sup_core s' \<and> su_table s' = su_table s \<and> (\<forall>h. su_mem s' h \<noteq> None \<longleftrightarrow> su_mem s h \<noteq> None) \<and> marked s' (set hs)
    \<and> (\<forall>h. marked s {h} \<longrightarrow> marked s' {h})"
  using assms(1,2) unfolding s'_def
proof (induction hs arbitrary: s)
  case Nil
  then show ?case by (simp add: marked_def)
next
  case (Cons h hs)
  then obtain e where e: "su_mem s h = Some e" by auto
  define e' where "e' = e\<lparr>se_shutting_down := True\<rparr>"
  define s1 where "s1 = mark_shutting_down h s"
  have s1: "s1 = send_shutdown e' (set_entry h e' s)"
    using e by (simp add: s1_def mark_shutting_down_def e'_def Let_def)
  have mem: "su_mem s1 = (su_mem s)(h \<mapsto> e')" "su_table s1 = su_table s"
    by (simp_all add: s1 send_shutdown_def set_entry_def)
  have "sup_core s1"
    using sup_core_shutting [OF Cons.prems(1) e] by (simp add: s1 send_shutdown_def e'_def)
  moreover have "set hs \<subseteq> {h. su_mem s1 h \<noteq> None}"
    using Cons.prems(2) mem by auto
  ultimately have IH: "sup_core (fold mark_shutting_down hs s1)"
    "su_table (fold mark_shutting_down hs s1) = su_table s1"
    "\<And>k. su_mem (fold mark_shutting_down hs s1) k \<noteq> None \<longleftrightarrow> su_mem s1 k \<noteq> None"
    "marked (fold mark_shutting_down hs s1) (set hs)"
    "\<And>k. marked s1 {k} \<Longrightarrow> marked (fold mark_shutting_down hs s1) {k}"
    using Cons.IH by blast+
  have "marked s1 {h}" "\<And>k. marked s {k} \<Longrightarrow> marked s1 {k}"
    using mem by (auto simp: marked_def e'_def)
  then have "marked (fold mark_shutting_down hs s1) (set (h # hs))"
    "\<And>k. marked s {k} \<Longrightarrow> marked (fold mark_shutting_down hs s1) {k}"
    using IH(4,5) by (auto simp: marked_def)
  moreover have "su_mem s1 k \<noteq> None \<longleftrightarrow> su_mem s k \<noteq> None" for k
    using mem e by simp
  ultimately show ?case
    using IH mem by (simp flip: s1_def)
qed

lemma free_all:
  assumes "sup_core s" "set hs \<subseteq> {h. su_mem s h \<noteq> None}" "distinct hs"
  shows "sup_core (fold source_entry_free hs s) \<and> su_table (fold source_entry_free hs s) = su_table s
    \<and> (\<forall>h. su_mem (fold source_entry_free hs s) h = (if h \<in> set hs then None else su_mem s h))"
  using assms
proof (induction hs arbitrary: s)
  case (Cons h hs)
  then obtain e where e: "su_mem s h = Some e" by auto
  have "sup_core (source_entry_free h s)"
    by (rule sup_core_free [OF Cons.prems(1) e])
  moreover have "set hs \<subseteq> {k. su_mem (source_entry_free h s) k \<noteq> None}"
    using Cons.prems(2,3) by (auto simp: free_mem)
  ultimately show ?case
    using Cons.IH [of "source_entry_free h s"] Cons.prems(3) by (simp add: free_mem)
qed simp

lemma shutdown_result:
  fixes exits1 exits2 :: "nat set"
  assumes "sup_inv s"
  defines "s' \<equiv> sbs_source_supervisor_shutdown_all exits1 exits2 s"
  shows "sup_core s' \<and> su_table s' = [] \<and> (\<forall>h. su_mem s' h = None)"
proof (cases "su_table s = []")
  case True
  then show ?thesis
    using assms(1) unfolding s'_def
    by (simp add: sbs_source_supervisor_shutdown_all_def sup_inv_def table_ok_def)
next
  case False
  define t where "t = su_table s"
  have core: "sup_core s" and tab: "table_ok s"
    using assms(1) by (simp_all add: sup_inv_def)
  have live: "su_mem s h \<noteq> None \<longleftrightarrow> h \<in> snd ` set t" for h
    using tab unfolding table_ok_def t_def by blast
  define s1 where "s1 = fold mark_shutting_down (map snd t) s"
  define s2 where "s2 = fold (poll_exit exits1) (map snd t) s1"
  define s3 where "s3 = (if list_all (\<lambda>h. se_pid (the (su_mem s2 h)) = 0) (map snd t) then s2
    else fold kill_straggler (map snd t) (fold (poll_exit exits2) (map snd t) (fold term_worker (map snd t) s2)))"
  have s': "s' = fold source_entry_free (map snd t) (s3\<lparr>su_table := []\<rparr>)"
    using False unfolding s'_def s3_def s2_def s1_def t_def
    by (simp add: sbs_source_supervisor_shutdown_all_def Let_def)
  have "down_ok t s1"
    using mark_all [OF core, of "map snd t"] live by (auto simp: down_ok_def s1_def t_def)
  then have "down_ok t s2"
    unfolding s2_def by (rule down_fold) (rule down_steps(1))
  then have "down_ok t s3"
    unfolding s3_def by (auto intro!: down_fold down_steps)
  then have c3: "sup_core (s3\<lparr>su_table := []\<rparr>)"
    and live3: "\<And>h. su_mem (s3\<lparr>su_table := []\<rparr>) h \<noteq> None \<longleftrightarrow> h \<in> set (map snd t)"
    by (simp_all add: down_ok_def)
  have "distinct (map snd t)" "set (map snd t) \<subseteq> {h. su_mem (s3\<lparr>su_table := []\<rparr>) h \<noteq> None}"
    using tab live3 by (simp_all add: table_ok_def t_def)
  note freed = free_all [OF c3 this(2,1), folded s']
  moreover have "su_mem s' h = None" for h
    using freed live3 [of h] by (cases "su_mem s3 h") auto
  ultimately show ?thesis
    by simp
qed

section \<open>Reachable states\<close>

definition sbs_source_supervisor_new :: "(nat \<Rightarrow> frame_fds frame_slot) \<Rightarrow> source_sup" where
  "sbs_source_supervisor_new slots =
     \<lparr>su_table = [], su_mem = (\<lambda>_. None), su_next_handle = 0, su_watches = [], su_next_id = 1, su_fds = {},
      su_procs = {}, su_signals = [], su_sent = [], su_closed = [], su_slots = slots, su_graph = None,
      su_api = False, su_refreshes = 0, su_status_events = []\<rparr>"

definition sbs_source_supervisor_set_scene_graph :: "scene_graph option \<Rightarrow> source_sup \<Rightarrow> source_sup" where
  "sbs_source_supervisor_set_scene_graph g s = s\<lparr>su_graph := g\<rparr>"

definition sbs_source_supervisor_set_api_server :: "bool \<Rightarrow> source_sup \<Rightarrow> source_sup" where
  "sbs_source_supervisor_set_api_server api s = s\<lparr>su_api := api\<rparr>"

text \<open>The requests, and the callbacks that find their entry.\<close>

inductive sup_reachable :: "source_sup \<Rightarrow> bool" where
  created: "sup_reachable (sbs_source_supervisor_new slots)"
| graph: "sup_reachable s \<Longrightarrow> sup_reachable (sbs_source_supervisor_set_scene_graph g s)"
| api: "sup_reachable s \<Longrightarrow> sup_reachable (sbs_source_supervisor_set_api_server b s)"
| start: "sup_reachable s \<Longrightarrow> launch_ok v s \<Longrightarrow>
    sup_reachable (snd (sbs_source_supervisor_start_source v sid ty slot s))"
| stop: "sup_reachable s \<Longrightarrow> sup_reachable (snd (sbs_source_supervisor_stop_source sid s))"
| mute: "sup_reachable s \<Longrightarrow> sup_reachable (snd (sbs_source_supervisor_mute_source sid s))"
| unmute: "sup_reachable s \<Longrightarrow> sup_reachable (snd (sbs_source_supervisor_unmute_source sid s))"
| shutdown: "sup_reachable s \<Longrightarrow> sup_reachable (sbs_source_supervisor_shutdown_all exits1 exits2 s)"
| callback: "sup_reachable s \<Longrightarrow> w \<in> set (su_watches s) \<Longrightarrow> env_ok v s \<Longrightarrow> run_watch v w s = Some s' \<Longrightarrow>
    sup_reachable s'"

lemma run_watch_dead:
  assumes "su_mem s (w_entry w) = None"
  shows "run_watch v w s = None"
  using assms
  by (simp add: run_watch_def on_frame_available_def on_child_exit_def on_accept_timeout_def
      on_stable_timer_def on_restart_timer_def g_source_remove_def split: watch_kind.split)

lemma sup_core_api [simp]: "sup_core (s\<lparr>su_api := b\<rparr>) = sup_core s"
  by (simp add: sup_core_def watches_ok_def)

lemma sup_reachable_inv: "sup_reachable s \<Longrightarrow> sup_inv s"
proof (induction rule: sup_reachable.induct)
  case (created slots)
  then show ?case
    by (simp add: sup_inv_def sup_core_def watches_ok_def table_ok_def sbs_source_supervisor_new_def owns_empty)
next
  case (graph s g)
  then show ?case
    by (simp add: sup_inv_def table_ok_def sbs_source_supervisor_set_scene_graph_def)
next
  case (api s b)
  then show ?case
    by (simp add: sup_inv_def table_ok_def sbs_source_supervisor_set_api_server_def)
next
  case (shutdown s exits1 exits2)
  then show ?case
    using shutdown_result [of s exits1 exits2] by (simp add: sup_inv_def table_ok_def)
next
  case (callback s w v s')
  then obtain e where e: "su_mem s (w_entry w) = Some e"
    using run_watch_dead [of s w v] by (cases "su_mem s (w_entry w)") auto
  show ?case
    by (rule run_watch_result [OF callback.IH callback.hyps(2,3) e]) (use callback.hyps(4) in simp)
qed (auto simp: sbs_source_supervisor_mute_source_def sbs_source_supervisor_unmute_source_def
    intro: sup_inv_start sup_inv_stop sup_inv_mute)

lemma live_entry_facts:
  assumes core: "sup_core s" and tab: "table_ok s" and e: "su_mem s h = Some e"
  shows "se_restart_attempts e \<le> MAX_RESTART_ATTEMPTS + 1
    \<and> (0 < se_pid e \<longrightarrow> (\<exists>w \<in> set (su_watches s). w_kind w = Watch_child (se_pid e) \<and> w_entry w = h))
    \<and> length (filter (\<lambda>w. is_Watch_restart (w_kind w)) (watches_of s h)) \<le> 1"
proof -
  have ok: "entry_ok (watches_of s h) e"
    using core e by (simp add: sup_core_def)
  have "\<exists>w \<in> set (su_watches s). w_kind w = Watch_child (se_pid e) \<and> w_entry w = h" if "0 < se_pid e"
  proof -
    obtain w where w: "w \<in> set (watches_of s h)" "is_Watch_child (w_kind w)"
      using field_installed(2) [OF ok] entry_ok_values(1) [OF ok \<open>0 < se_pid e\<close>] by blast
    then have "watch_ok e w"
      using ok by (simp add: entry_ok_def)
    then have "w_kind w = Watch_child (se_pid e)"
      using w(2) live_entry_running [OF tab e] by (cases "w_kind w") (simp_all add: watch_ok_def)
    then show ?thesis
      using w(1) by auto
  qed
  then show ?thesis
    using ok by (simp add: entry_ok_def)
qed

section \<open>Properties\<close>

text \<open>C18. In every reachable state the open sockets and the running workers are exactly those of the
  entries in the table, each of one entry; every running worker has a watch for its exit; an entry
  that waits for a restart has no worker, no socket and no second restart pending; at most ten restarts are
  tried in a row; and no callback meets a freed entry, except that of a restart timer.\<close>

theorem supervisor_owns_its_workers:
  assumes "sup_reachable s"
  shows "owns entry_fds (su_mem s) (su_fds s) \<and> owns entry_pids (su_mem s) (su_procs s)
    \<and> (\<forall>h. su_mem s h \<noteq> None \<longleftrightarrow> h \<in> snd ` set (su_table s))
    \<and> (\<forall>h e. su_mem s h = Some e \<longrightarrow> se_restart_attempts e \<le> MAX_RESTART_ATTEMPTS + 1
         \<and> (0 < se_pid e \<longrightarrow> (\<exists>w \<in> set (su_watches s). w_kind w = Watch_child (se_pid e) \<and> w_entry w = h))
         \<and> length (filter (\<lambda>w. is_Watch_restart (w_kind w)) (watches_of s h)) \<le> 1)
    \<and> (\<forall>w \<in> set (su_watches s). \<forall>e. is_Watch_restart (w_kind w) \<and> su_mem s (w_entry w) = Some e \<longrightarrow>
         se_pid e = 0 \<and> entry_fds e = {} \<and> se_restart_attempts e \<le> MAX_RESTART_ATTEMPTS)
    \<and> (\<forall>w \<in> set (su_watches s). \<forall>v. env_ok v s \<and> run_watch v w s = None \<longrightarrow>
         is_Watch_restart (w_kind w) \<and> su_mem s (w_entry w) = None)"
proof -
  have inv: "sup_inv s"
    using assms by (rule sup_reachable_inv)
  then have core: "sup_core s" and tab: "table_ok s" and wok: "watches_ok s"
    by (simp_all add: sup_inv_def sup_core_def)
  note entry = live_entry_facts [OF core tab]
  have restart: "se_pid e = 0 \<and> entry_fds e = {} \<and> se_restart_attempts e \<le> MAX_RESTART_ATTEMPTS"
    if "w \<in> set (su_watches s)" "is_Watch_restart (w_kind w)" "su_mem s (w_entry w) = Some e" for w e
    using restart_excludes_child [of "watches_of s (w_entry w)" e w] sup_core_entry [OF core that(3)] that(1,2)
    by (simp add: entry_fds_cases)
  have dead: "is_Watch_restart (w_kind w) \<and> su_mem s (w_entry w) = None"
    if w: "w \<in> set (su_watches s)" "env_ok v s" "run_watch v w s = None" for w v
  proof -
    have "su_mem s (w_entry w) = None"
    proof (rule ccontr)
      assume "su_mem s (w_entry w) \<noteq> None"
      then obtain e where "su_mem s (w_entry w) = Some e" by blast
      from run_watch_result [OF inv w(1,2) this] show False
        using w(3) by auto
    qed
    then show ?thesis
      using wok w(1) by (auto simp: watches_ok_def)
  qed
  have owners: "owns entry_fds (su_mem s) (su_fds s)" "owns entry_pids (su_mem s) (su_procs s)"
    using core by (simp_all add: sup_core_def)
  have live: "su_mem s h \<noteq> None \<longleftrightarrow> h \<in> snd ` set (su_table s)" for h
    using tab unfolding table_ok_def by blast
  show ?thesis
    by (intro conjI allI impI ballI owners live) (use entry restart dead in blast)+
qed

definition sample_launch :: launch_env where
  "sample_launch = \<lparr>le_listen = Some 3, le_config = True, le_pipe = True, le_fork = Some 100, le_accept = None,
     le_now = 5\<rparr>"

definition sample_start :: source_sup where
  "sample_start = snd (sbs_source_supervisor_start_source sample_launch (Some ''cam'') None 0
     (sbs_source_supervisor_new (\<lambda>_. source_slot)))"

lemma sample_start_reachable: "sup_reachable sample_start"
  unfolding sample_start_def
  by (intro sup_reachable.start sup_reachable.created)
    (simp add: sample_launch_def launch_ok_def sbs_source_supervisor_new_def)

lemma sample_start_facts:
  "su_fds sample_start = {3}" "su_procs sample_start = {100}"
  "su_watches sample_start = [\<lparr>w_id = 1, w_kind = Watch_child 100, w_entry = 0\<rparr>,
     \<lparr>w_id = 2, w_kind = Watch_accept, w_entry = 0\<rparr>, \<lparr>w_id = 3, w_kind = Watch_io 3, w_entry = 0\<rparr>]"
  "su_table sample_start = [(''cam'', 0)]" "su_next_id sample_start = 4" "su_next_handle sample_start = 1"
  "su_mem sample_start = [0 \<mapsto> (new_entry ''cam'' ''videotestsrc'' 0)\<lparr>se_pid := 100, se_listen_fd := 3,
     se_io_watch := 3, se_child_watch := 1, se_accept_timer := 2, se_last_start := 5\<rparr>]"
  by (simp_all add: sample_start_def sample_launch_def sbs_source_supervisor_start_source_def Let_def
      sbs_source_supervisor_new_def source_entry_launch_def sup_step_defs ht_insert_def new_entry_def
      numeral_2_eq_2 numeral_3_eq_3)

theorem supervisor_owns_its_workers_witness:
  "owns entry_fds (su_mem sample_start) {3} \<and> owns entry_pids (su_mem sample_start) {100}"
  using supervisor_owns_its_workers [OF sample_start_reachable, THEN conjunct1]
    supervisor_owns_its_workers [OF sample_start_reachable, THEN conjunct2, THEN conjunct1]
  by (simp only: sample_start_facts(1,2))

text \<open>C19. After \<open>shutdown_all\<close>, whichever workers exit in time, no entry is left, every socket is
  closed, every worker is reaped, and only restart timers remain in the main loop.\<close>

theorem shutdown_leaves_nothing_running:
  fixes exits1 exits2 :: "nat set"
  assumes "sup_reachable s"
  defines "s' \<equiv> sbs_source_supervisor_shutdown_all exits1 exits2 s"
  shows "su_table s' = [] \<and> (\<forall>h. su_mem s' h = None) \<and> su_fds s' = {} \<and> su_procs s' = {}
    \<and> (\<forall>w \<in> set (su_watches s'). is_Watch_restart (w_kind w))"
proof -
  have down: "sup_core s'" "su_table s' = []" "\<And>h. su_mem s' h = None"
    using shutdown_result [OF sup_reachable_inv [OF assms(1)], of exits1 exits2] by (simp_all add: s'_def)
  have "su_fds s' = {}" "su_procs s' = {}"
    using down(1,3) by (auto simp: sup_core_def dest!: owns_no_objects)
  moreover have "\<forall>w \<in> set (su_watches s'). is_Watch_restart (w_kind w)"
    using down(1,3) by (simp add: sup_core_def watches_ok_def)
  ultimately show ?thesis
    using down by simp
qed

theorem shutdown_leaves_nothing_running_witness:
  "su_procs (sbs_source_supervisor_shutdown_all {} {} sample_start) = {}"
  using shutdown_leaves_nothing_running [OF sample_start_reachable, of "{}" "{}"] by simp

text \<open>C20. Stopping a source that waits for a restart frees its entry but leaves the restart timer in the
  main loop: when the timer fires, its callback uses the freed entry.\<close>

theorem stop_leaves_restart_timer:
  assumes "sup_reachable s" "w \<in> set (su_watches s)" "w_kind w = Watch_restart d"
    and "su_mem s (w_entry w) = Some e"
  defines "s' \<equiv> snd (sbs_source_supervisor_stop_source (Some (se_source_id e)) s)"
  shows "fst (sbs_source_supervisor_stop_source (Some (se_source_id e)) s) = SBS_OK
    \<and> w \<in> set (su_watches s') \<and> (\<forall>v. run_watch v w s' = None)"
proof -
  let ?h = "w_entry w"
  have core: "sup_core s" and tab: "table_ok s" and wok: "watches_ok s"
    using sup_reachable_inv [OF assms(1)] by (simp_all add: sup_inv_def sup_core_def)
  obtain sid where "(sid, ?h) \<in> set (su_table s)"
    using tab assms(4) unfolding table_ok_def by (metis imageE option.distinct(1) prod.collapse)
  moreover from this have "sid = se_source_id e"
    using tab assms(4) unfolding table_ok_def by (metis option.inject)
  ultimately have sid: "ht_lookup (su_table s) (se_source_id e) = Some ?h"
    using tab ht_lookup_iff [of "su_table s"] by (simp add: table_ok_def)
  let ?e = "e\<lparr>se_shutting_down := True\<rparr>"
  note stop = stop_unfold [OF sid assms(4)]
  have "w_id w \<notin> entry_ids ?e"
    using field_watch [OF core assms(4,2)] assms(3) by (auto simp: entry_ids_def)
  then have "w \<in> set (su_watches s')"
    using assms(2) wok unfolding s'_def stop snd_conv
    by (subst free_result [where e = ?e]) (simp_all add: watches_ok_def set_entry_def without_ids_def)
  moreover have "su_mem s' ?h = None"
    unfolding s'_def stop snd_conv by (simp add: free_mem)
  ultimately show ?thesis
    using run_watch_dead stop by simp
qed

text \<open>The worker of the sample exits before it connects: a restart is pending.\<close>

definition sample_env :: loop_env where
  "sample_env = \<lparr>lv_accepted = None, lv_hup = False, lv_events = [], lv_launch = sample_launch\<lparr>le_listen := None\<rparr>,
     lv_up = True, lv_jitter = 7\<rparr>"

definition sample_waiting :: source_sup where
  "sample_waiting = the (run_watch sample_env \<lparr>w_id = 1, w_kind = Watch_child 100, w_entry = 0\<rparr> sample_start)"

lemma sample_exit:
  "run_watch (sample_env\<lparr>lv_launch := l\<rparr>) \<lparr>w_id = 1, w_kind = Watch_child 100, w_entry = 0\<rparr> sample_start
     = Some sample_waiting"
  by (simp add: sample_waiting_def run_watch_def on_child_exit_def sample_start_facts new_entry_def sample_env_def
      g_source_remove_def Let_def)

lemma sample_waiting_facts:
  "su_watches sample_waiting = [\<lparr>w_id = 2, w_kind = Watch_accept, w_entry = 0\<rparr>,
     \<lparr>w_id = 4, w_kind = Watch_restart 1007, w_entry = 0\<rparr>]"
  "\<exists>e. su_mem sample_waiting 0 = Some e \<and> se_source_id e = ''cam''"
  by (simp_all add: sample_waiting_def run_watch_def on_child_exit_def sample_start_facts new_entry_def sample_env_def
      sup_step_defs Let_def schedule_restart_def MAX_RESTART_ATTEMPTS_def backoff_delay_def
      jittered_delay_def BACKOFF_BASE_MS_def BACKOFF_MAX_MS_def)

lemma sample_waiting_reachable: "sup_reachable sample_waiting"
proof (rule sup_reachable.callback [OF sample_start_reachable _ _ sample_exit])
  show "env_ok (sample_env\<lparr>lv_launch := sample_launch\<lparr>le_listen := None, le_fork := None\<rparr>\<rparr>) sample_start"
    by (simp add: env_ok_def sample_env_def launch_ok_def sample_launch_def)
qed (simp add: sample_start_facts)

theorem stop_leaves_restart_timer_witness:
  "run_watch sample_env \<lparr>w_id = 4, w_kind = Watch_restart 1007, w_entry = 0\<rparr>
     (snd (sbs_source_supervisor_stop_source (Some ''cam'') sample_waiting)) = None"
proof -
  obtain e where "su_mem sample_waiting 0 = Some e" "se_source_id e = ''cam''"
    using sample_waiting_facts(2) by blast
  then show ?thesis
    using stop_leaves_restart_timer [OF sample_waiting_reachable,
        of "\<lparr>w_id = 4, w_kind = Watch_restart 1007, w_entry = 0\<rparr>" 1007 e] sample_waiting_facts(1)
    by simp
qed

lemma double_backoff_min: "min (double_backoff n d) BACKOFF_MAX_MS = min (d * 2 ^ n) BACKOFF_MAX_MS"
proof (induction n arbitrary: d)
  case (Suc n)
  have "min (d * 2 ^ Suc n) BACKOFF_MAX_MS = BACKOFF_MAX_MS" if "BACKOFF_MAX_MS \<le> d"
    using order_trans [OF that, of "d * 2 ^ Suc n"] by (simp add: min_absorb2)
  then show ?case
    using Suc [of "d * 2"] by (simp add: mult.assoc not_less)
qed simp

text \<open>The delay before the n-th restart in a row is one second doubled n-1 times, at most thirty
  seconds, and the jitter moves it by less than a quarter of it; so the delay can exceed the maximum.\<close>

theorem restart_delay_bounds:
  assumes "1 \<le> n" "jitter < backoff_delay n div 4"
  shows "backoff_delay n = min (1000 * 2 ^ (n - 1)) 30000
    \<and> 3 * backoff_delay n < 4 * jittered_delay (backoff_delay n) up jitter
    \<and> 4 * jittered_delay (backoff_delay n) up jitter < 5 * backoff_delay n
    \<and> BACKOFF_MAX_MS < jittered_delay (backoff_delay 6) True 7499"
proof -
  have "backoff_delay n = min (1000 * 2 ^ (n - 1)) 30000"
    unfolding backoff_delay_def double_backoff_min by (simp add: BACKOFF_BASE_MS_def BACKOFF_MAX_MS_def)
  moreover have "backoff_delay 6 = 30000"
    unfolding backoff_delay_def double_backoff_min by (simp add: BACKOFF_BASE_MS_def BACKOFF_MAX_MS_def)
  moreover have "4 * jitter < backoff_delay n"
    using assms(2) by linarith
  moreover from this have "3 * backoff_delay n < 4 * jittered_delay (backoff_delay n) up jitter
      \<and> 4 * jittered_delay (backoff_delay n) up jitter < 5 * backoff_delay n"
    unfolding jittered_delay_def by (cases up; simp; linarith)
  ultimately show ?thesis
    by (simp add: jittered_delay_def BACKOFF_MAX_MS_def)
qed

theorem restart_delay_bounds_witness:
  "BACKOFF_MAX_MS < jittered_delay (backoff_delay 6) True 7499"
  using restart_delay_bounds [of 1 0 True] by (simp add: backoff_delay_def BACKOFF_BASE_MS_def BACKOFF_MAX_MS_def)

end
