(* ===== verification/Rects.thy ===== *)
theory Rects
  imports Ieee "HOL-Library.Word"
begin

text \<open>
  The rectangles of the native compositor (\<open>src/server/engine/compositor.c\<close>): clipping to the
  canvas, alignment to the 2x2 cells of the chroma plane, and \<open>native_rect_subtract_one\<close>, which
  cuts the rectangle of an opaque layer out of a list of rectangles; and the scan that finds the
  rectangle of an RGBA buffer outside of which every pixel is transparent
  (\<open>source_alpha_bounds_scan_rgba_fd\<close>). Coordinates are C integers: signed sums wrap
  (\<^const>\<open>c_int\<close>), unsigned ones are taken modulo a power of two.

  The lemmas count, for a pixel, the rectangles of a list that contain it: a cut changes the count
  to zero inside the rectangle cut out and nowhere else.
\<close>

section \<open>Machine integers\<close>

definition c_u32 :: "int \<Rightarrow> int" where
  "c_u32 n = n mod 2 ^ 32"

definition c_u64 :: "int \<Rightarrow> int" where
  "c_u64 n = n mod 2 ^ 64"

lemma c_u32_id [simp]: "0 \<le> n \<Longrightarrow> n < 2 ^ 32 \<Longrightarrow> c_u32 n = n"
  by (simp add: c_u32_def)

lemma c_u64_id [simp]: "0 \<le> n \<Longrightarrow> n < 2 ^ 64 \<Longrightarrow> c_u64 n = n"
  by (simp add: c_u64_def)

lemma c_int_id [simp]: "- (2 ^ 31) \<le> n \<Longrightarrow> n < 2 ^ 31 \<Longrightarrow> c_int n = n"
  by (simp add: c_int_def signed_take_bit_int_eq_self_iff)

section \<open>Rectangles\<close>

text \<open>\<open>x\<close> and \<open>y\<close> belong to the rectangle, \<open>x1\<close> and \<open>y1\<close> do not.\<close>

record native_rect =
  r_x :: int
  r_y :: int
  r_x1 :: int
  r_y1 :: int

type_synonym pixel = "int \<times> int"

definition mk_rect :: "int \<Rightarrow> int \<Rightarrow> int \<Rightarrow> int \<Rightarrow> native_rect" where
  "mk_rect x y x1 y1 = \<lparr>r_x = x, r_y = y, r_x1 = x1, r_y1 = y1\<rparr>"

definition in_rect :: "pixel \<Rightarrow> native_rect \<Rightarrow> bool" where
  "in_rect p r \<longleftrightarrow> r_x r \<le> fst p \<and> fst p < r_x1 r \<and> r_y r \<le> snd p \<and> snd p < r_y1 r"

definition rect_nonempty :: "native_rect \<Rightarrow> bool" where
  "rect_nonempty r \<longleftrightarrow> r_x1 r > r_x r \<and> r_y1 r > r_y r"

definition SBS_NATIVE_OCCLUSION_MAX_RECTS :: nat where
  "SBS_NATIVE_OCCLUSION_MAX_RECTS = 32"

definition native_rect_clip_canvas :: "native_rect \<Rightarrow> int \<Rightarrow> int \<Rightarrow> bool \<times> native_rect" where
  "native_rect_clip_canvas r canvas_width canvas_height =
     (let r = (if r_x r < 0 then r\<lparr>r_x := 0\<rparr> else r);
          r = (if r_y r < 0 then r\<lparr>r_y := 0\<rparr> else r);
          r = (if r_x1 r > c_int canvas_width then r\<lparr>r_x1 := c_int canvas_width\<rparr> else r);
          r = (if r_y1 r > c_int canvas_height then r\<lparr>r_y1 := c_int canvas_height\<rparr> else r)
      in (rect_nonempty r, r))"

definition native_rect_align_full_chroma_cells :: "native_rect \<Rightarrow> bool \<times> native_rect" where
  "native_rect_align_full_chroma_cells r =
     (let r = \<lparr>r_x = and (c_int (r_x r + 1)) (not 1), r_y = and (c_int (r_y r + 1)) (not 1),
               r_x1 = and (r_x1 r) (not 1), r_y1 = and (r_y1 r) (not 1)\<rparr>
      in (rect_nonempty r, r))"

text \<open>
  The four parts of \<open>r\<close> around its intersection with \<open>occ\<close>: above, below, left and right. A part
  may be empty; it is skipped when the parts are stored.
\<close>

definition cut_pieces :: "native_rect \<Rightarrow> native_rect \<Rightarrow> native_rect list" where
  "cut_pieces r occ =
     (let ix0 = if r_x r > r_x occ then r_x r else r_x occ;
          iy0 = if r_y r > r_y occ then r_y r else r_y occ;
          ix1 = if r_x1 r < r_x1 occ then r_x1 r else r_x1 occ;
          iy1 = if r_y1 r < r_y1 occ then r_y1 r else r_y1 occ
      in if ix1 \<le> ix0 \<or> iy1 \<le> iy0 then [r]
         else filter rect_nonempty
                [mk_rect (r_x r) (r_y r) (r_x1 r) iy0, mk_rect (r_x r) iy1 (r_x1 r) (r_y1 r),
                 mk_rect (r_x r) iy0 ix0 iy1, mk_rect ix1 iy0 (r_x1 r) iy1])"

text \<open>\<open>out[out_count++] = p\<close> for each part, in an array of \<open>SBS_NATIVE_OCCLUSION_MAX_RECTS\<close>.\<close>

fun push_rects :: "native_rect list \<Rightarrow> native_rect list \<Rightarrow> native_rect list option" where
  "push_rects [] out = Some out"
| "push_rects (p # ps) out =
     (if length out \<ge> SBS_NATIVE_OCCLUSION_MAX_RECTS then None else push_rects ps (out @ [p]))"

fun subtract_loop :: "native_rect \<Rightarrow> native_rect list \<Rightarrow> native_rect list \<Rightarrow> native_rect list option" where
  "subtract_loop occ [] out = Some out"
| "subtract_loop occ (r # rs) out =
     (case push_rects (cut_pieces r occ) out of
        None \<Rightarrow> None
      | Some out \<Rightarrow> subtract_loop occ rs out)"

text \<open>
  \<open>rects\<close> and \<open>*rect_count\<close> are one list. \<open>None\<close> is the result false, which leaves them as they are.
\<close>

definition native_rect_subtract_one :: "native_rect list \<Rightarrow> native_rect \<Rightarrow> native_rect list option" where
  "native_rect_subtract_one rects occ = subtract_loop occ rects []"

section \<open>How many rectangles hold a pixel\<close>

definition cover :: "native_rect list \<Rightarrow> pixel \<Rightarrow> nat" where
  "cover rs p = length (filter (in_rect p) rs)"

lemma cover_simps [simp]:
  "cover [] p = 0"
  "cover (r # rs) p = (if in_rect p r then 1 else 0) + cover rs p"
  "cover (rs @ rs') p = cover rs p + cover rs' p"
  by (simp_all add: cover_def)

lemma in_rect_nonempty: "in_rect p r \<Longrightarrow> rect_nonempty r"
  by (auto simp: in_rect_def rect_nonempty_def)

lemma cover_filter_nonempty [simp]: "cover (filter rect_nonempty rs) p = cover rs p"
  by (induction rs) (auto dest: in_rect_nonempty)

lemma in_mk_rect [simp]: "in_rect (a, b) (mk_rect x y x1 y1) \<longleftrightarrow> x \<le> a \<and> a < x1 \<and> y \<le> b \<and> b < y1"
  by (auto simp: in_rect_def mk_rect_def)

text \<open>The four parts around \<open>[i0, i1) x [j0, j1)\<close> and that intersection itself tile the rectangle.\<close>

lemma parts_tile:
  fixes a b :: int
  assumes "x \<le> i0" "i0 < i1" "i1 \<le> x1" "y \<le> j0" "j0 < j1" "j1 \<le> y1"
  shows "cover [mk_rect x y x1 j0, mk_rect x j1 x1 y1, mk_rect x j0 i0 j1, mk_rect i1 j0 x1 j1] (a, b)
    = (if in_rect (a, b) (mk_rect x y x1 y1) \<and> \<not> in_rect (a, b) (mk_rect i0 j0 i1 j1) then 1 else 0)"
  using assms
  by (cases "b < j0"; cases "j1 \<le> b"; cases "a < i0"; cases "i1 \<le> a") simp_all

lemma in_rect_Int:
  "in_rect p (mk_rect (max (r_x r) (r_x q)) (max (r_y r) (r_y q)) (min (r_x1 r) (r_x1 q)) (min (r_y1 r) (r_y1 q)))
     \<longleftrightarrow> in_rect p r \<and> in_rect p q"
  by (cases p) (auto simp: in_rect_def mk_rect_def)

lemma mk_rect_same [simp]: "mk_rect (r_x r) (r_y r) (r_x1 r) (r_y1 r) = r"
  by (simp add: mk_rect_def)

lemma cover_cut_pieces:
  "cover (cut_pieces r occ) p = (if in_rect p r \<and> \<not> in_rect p occ then 1 else 0)"
proof -
  obtain a b where p: "p = (a, b)"
    by (cases p)
  let ?i0 = "max (r_x r) (r_x occ)" and ?j0 = "max (r_y r) (r_y occ)"
  let ?i1 = "min (r_x1 r) (r_x1 occ)" and ?j1 = "min (r_y1 r) (r_y1 occ)"
  have bounds: "(if u > v then u else v) = max u v" "(if u < v then u else v) = min u v" for u v :: int
    by auto
  show ?thesis
  proof (cases "?i1 \<le> ?i0 \<or> ?j1 \<le> ?j0")
    case True
    then have "\<not> in_rect p (mk_rect ?i0 ?j0 ?i1 ?j1)"
      by (simp only: p in_mk_rect) linarith
    then have "\<not> (in_rect p r \<and> in_rect p occ)"
      using in_rect_Int by blast
    moreover have "cut_pieces r occ = [r]"
      using True by (simp only: cut_pieces_def Let_def bounds if_True)
    ultimately show ?thesis
      by auto
  next
    case False
    have "r_x r \<le> ?i0" "?i0 < ?i1" "?i1 \<le> r_x1 r" "r_y r \<le> ?j0" "?j0 < ?j1" "?j1 \<le> r_y1 r"
      using False by (simp_all only: de_Morgan_disj not_le)
    then have "cover [mk_rect (r_x r) (r_y r) (r_x1 r) ?j0, mk_rect (r_x r) ?j1 (r_x1 r) (r_y1 r),
        mk_rect (r_x r) ?j0 ?i0 ?j1, mk_rect ?i1 ?j0 (r_x1 r) ?j1] p
      = (if in_rect p r \<and> \<not> (in_rect p r \<and> in_rect p occ) then 1 else 0)"
      unfolding p by (simp only: parts_tile mk_rect_same in_rect_Int)
    then show ?thesis
      using False by (simp only: cut_pieces_def Let_def bounds if_False cover_filter_nonempty) simp
  qed
qed

lemma cut_pieces_nonempty: "rect_nonempty r \<Longrightarrow> q \<in> set (cut_pieces r occ) \<Longrightarrow> rect_nonempty q"
  by (auto simp: cut_pieces_def Let_def split: if_splits)

text \<open>The cut with no limit on the number of rectangles.\<close>

definition cut_all :: "native_rect list \<Rightarrow> native_rect \<Rightarrow> native_rect list" where
  "cut_all rects occ = concat (map (\<lambda>r. cut_pieces r occ) rects)"

lemma cover_cut_all: "cover (cut_all rects occ) p = (if in_rect p occ then 0 else cover rects p)"
  by (induction rects) (simp_all add: cut_all_def cover_cut_pieces)

lemma cut_all_nonempty:
  "(\<And>r. r \<in> set rects \<Longrightarrow> rect_nonempty r) \<Longrightarrow> q \<in> set (cut_all rects occ) \<Longrightarrow> rect_nonempty q"
  by (auto simp: cut_all_def intro: cut_pieces_nonempty)

lemma push_rects_eq:
  "push_rects ps out = (if ps = [] \<or> length out + length ps \<le> 32 then Some (out @ ps) else None)"
  by (induction ps arbitrary: out) (auto simp: SBS_NATIVE_OCCLUSION_MAX_RECTS_def)

lemma subtract_loop_eq:
  "length out \<le> 32 \<Longrightarrow> subtract_loop occ rects out
     = (if length out + length (cut_all rects occ) \<le> 32 then Some (out @ cut_all rects occ) else None)"
  by (induction rects arbitrary: out) (auto simp: push_rects_eq cut_all_def)

lemma subtract_one_eq:
  "native_rect_subtract_one rects occ
     = (if length (cut_all rects occ) \<le> 32 then Some (cut_all rects occ) else None)"
  by (simp add: native_rect_subtract_one_def subtract_loop_eq)

lemma subtract_oneD:
  assumes "native_rect_subtract_one rects occ = Some rs"
  shows "rs = cut_all rects occ" "length rs \<le> 32"
  using assms by (auto simp: subtract_one_eq split: if_splits)

text \<open>
  C23. Cutting an opaque rectangle out of a list of rectangles: the result is that of cutting every
  rectangle into its parts around the opaque one, and the only failure is more than 32 parts. A
  pixel of the opaque rectangle is in no part, and any other pixel is in exactly as many parts as
  it was in rectangles, so disjoint rectangles stay disjoint and nothing else is lost.
\<close>

theorem subtract_one_exact:
  "native_rect_subtract_one rects occ
     = (if length (cut_all rects occ) \<le> SBS_NATIVE_OCCLUSION_MAX_RECTS
        then Some (cut_all rects occ) else None)
   \<and> cover (cut_all rects occ) p = (if in_rect p occ then 0 else cover rects p)"
  by (simp add: subtract_one_eq cover_cut_all SBS_NATIVE_OCCLUSION_MAX_RECTS_def)

section \<open>Clipping and alignment\<close>

lemma and_not_one: "and (n :: int) (not 1) = 2 * (n div 2)"
proof -
  have "and n (not 1) = push_bit 1 (drop_bit 1 n)"
    by (rule bit_eqI) (auto simp: bit_simps bit_double_iff mult.commute [of _ 2] gr0_conv_Suc)
  then show ?thesis
    by (simp add: push_bit_eq_mult drop_bit_eq_div)
qed

lemma and_minus_2 [simp]: "and (n :: int) (- 2) = 2 * (n div 2)"
  using and_not_one [of n] by simp

text \<open>A clipped rectangle holds the pixels of the rectangle that are on the canvas.\<close>

definition canvas_rect :: "int \<Rightarrow> int \<Rightarrow> native_rect" where
  "canvas_rect w h = mk_rect 0 0 w h"

lemma clip_canvas_pixels:
  "in_rect p (snd (native_rect_clip_canvas r w h)) \<longleftrightarrow> in_rect p r \<and> in_rect p (canvas_rect (c_int w) (c_int h))"
  by (cases p) (auto simp: native_rect_clip_canvas_def Let_def in_rect_def canvas_rect_def mk_rect_def)

lemma clip_canvas_flag: "fst (native_rect_clip_canvas r w h) = rect_nonempty (snd (native_rect_clip_canvas r w h))"
  by (simp add: native_rect_clip_canvas_def Let_def)

lemma clip_canvas_inside:
  assumes "native_rect_clip_canvas r w h = (True, q)"
  shows "0 \<le> r_x q" "0 \<le> r_y q" "r_x1 q \<le> c_int w" "r_y1 q \<le> c_int h" "rect_nonempty q"
  using assms by (auto simp: native_rect_clip_canvas_def Let_def split: if_splits)

text \<open>
  The 2x2 cell of a pixel. An aligned rectangle holds a pixel exactly when the rectangle before
  holds the whole cell of the pixel.
\<close>

definition cell_rect :: "pixel \<Rightarrow> native_rect" where
  "cell_rect p = (let x = 2 * (fst p div 2); y = 2 * (snd p div 2) in mk_rect x y (x + 2) (y + 2))"

definition rect_within :: "native_rect \<Rightarrow> native_rect \<Rightarrow> bool" where
  "rect_within q r \<longleftrightarrow> r_x r \<le> r_x q \<and> r_x1 q \<le> r_x1 r \<and> r_y r \<le> r_y q \<and> r_y1 q \<le> r_y1 r"

definition rect_even :: "native_rect \<Rightarrow> bool" where
  "rect_even r \<longleftrightarrow> even (r_x r) \<and> even (r_y r) \<and> even (r_x1 r) \<and> even (r_y1 r)"

lemma align_even: "native_rect_align_full_chroma_cells r = (b, q) \<Longrightarrow> rect_even q \<and> b = rect_nonempty q"
  by (auto simp: native_rect_align_full_chroma_cells_def Let_def rect_even_def)

lemma align_cells:
  assumes "0 \<le> r_x r" "0 \<le> r_y r" "r_x r < 2 ^ 31 - 1" "r_y r < 2 ^ 31 - 1"
    and "native_rect_align_full_chroma_cells r = (b, q)"
  shows "in_rect p q \<longleftrightarrow> rect_within (cell_rect p) r"
proof -
  have step: "c_int (r_x r + 1) = r_x r + 1" "c_int (r_y r + 1) = r_y r + 1"
    using assms by simp_all
  then have q: "q = mk_rect (2 * ((r_x r + 1) div 2)) (2 * ((r_y r + 1) div 2)) (2 * (r_x1 r div 2)) (2 * (r_y1 r div 2))"
    using assms(5) by (simp only: native_rect_align_full_chroma_cells_def Let_def and_not_one mk_rect_def prod.inject step)
  have lo: "2 * ((u + 1) div 2) \<le> n \<longleftrightarrow> u \<le> 2 * (n div 2)" for u n :: int
    by presburger
  have hi: "n < 2 * (u div 2) \<longleftrightarrow> 2 * (n div 2) + 2 \<le> u" for u n :: int
    by presburger
  show ?thesis
    by (cases p) (simp add: q rect_within_def cell_rect_def Let_def mk_rect_def in_rect_def lo hi)
qed

lemma cut_pieces_cases:
  assumes "q \<in> set (cut_pieces r occ)"
  obtains "q = r"
  | i0 j0 i1 j1 where "i0 \<in> {r_x r, r_x occ}" "j0 \<in> {r_y r, r_y occ}"
      "i1 \<in> {r_x1 r, r_x1 occ}" "j1 \<in> {r_y1 r, r_y1 occ}"
      "q \<in> {mk_rect (r_x r) (r_y r) (r_x1 r) j0, mk_rect (r_x r) j1 (r_x1 r) (r_y1 r),
             mk_rect (r_x r) j0 i0 j1, mk_rect i1 j0 (r_x1 r) j1}"
proof -
  let ?i0 = "if r_x r > r_x occ then r_x r else r_x occ"
  let ?j0 = "if r_y r > r_y occ then r_y r else r_y occ"
  let ?i1 = "if r_x1 r < r_x1 occ then r_x1 r else r_x1 occ"
  let ?j1 = "if r_y1 r < r_y1 occ then r_y1 r else r_y1 occ"
  have pick: "(if c then u else v) \<in> {u, v}" for c and u v :: int
    by simp
  show thesis
  proof (cases "?i1 \<le> ?i0 \<or> ?j1 \<le> ?j0")
    case True
    then have "cut_pieces r occ = [r]"
      by (simp only: cut_pieces_def Let_def if_True)
    then show thesis
      using assms that(1) by simp
  next
    case False
    then have "set (cut_pieces r occ) \<subseteq> {mk_rect (r_x r) (r_y r) (r_x1 r) ?j0,
        mk_rect (r_x r) ?j1 (r_x1 r) (r_y1 r), mk_rect (r_x r) ?j0 ?i0 ?j1, mk_rect ?i1 ?j0 (r_x1 r) ?j1}"
      by (simp only: cut_pieces_def Let_def if_False set_filter list.simps) blast
    then show thesis
      using assms by (intro that(2) [OF pick pick pick pick]) blast
  qed
qed

lemma cut_pieces_even:
  assumes "rect_even r" "rect_even occ" "q \<in> set (cut_pieces r occ)"
  shows "rect_even q"
  using assms(3)
proof (cases rule: cut_pieces_cases)
  case 1
  then show ?thesis
    using assms by simp
next
  case (2 i0 j0 i1 j1)
  have "even i0" "even j0" "even i1" "even j1"
    using 2(1-4) assms(1,2) by (auto simp: rect_even_def)
  then show ?thesis
    using 2(5) assms(1) by (auto simp: rect_even_def mk_rect_def)
qed

lemma cut_all_even:
  "(\<And>r. r \<in> set rects \<Longrightarrow> rect_even r) \<Longrightarrow> rect_even occ \<Longrightarrow> q \<in> set (cut_all rects occ) \<Longrightarrow> rect_even q"
  by (auto simp: cut_all_def intro: cut_pieces_even)

end
