(* ===== verification/Alpha_Scan.thy ===== *)
theory Alpha_Scan
  imports Rects
begin

text \<open>
  The rectangle of an RGBA buffer that holds all its pixels of non-zero alpha
  (\<open>source_alpha_bounds_scan_rgba_fd\<close> of \<open>src/server/engine/compositor.c\<close>). The mapping of the
  buffer is a parameter: the bytes at their offsets, or \<open>None\<close> when \<open>mmap\<close> fails.
\<close>

section \<open>The scan\<close>

type_synonym byte = "8 word"

record alpha_scan =
  min_x :: nat
  min_y :: nat
  max_x :: nat
  max_y :: nat
  nonzero_count :: nat
  opaque_count :: nat

record alpha_bounds =
  alpha_x :: nat
  alpha_y :: nat
  alpha_w :: nat
  alpha_h :: nat
  alpha_rect_opaque :: bool

definition alpha_offset :: "nat \<Rightarrow> nat \<times> nat \<Rightarrow> nat" where
  "alpha_offset stride p = snd p * stride + (fst p * 4 + 3)"

definition pixel_alpha :: "(nat \<Rightarrow> byte) \<Rightarrow> nat \<Rightarrow> nat \<times> nat \<Rightarrow> nat" where
  "pixel_alpha bytes stride p = unat (bytes (alpha_offset stride p))"

definition scan_pixel :: "(nat \<Rightarrow> byte) \<Rightarrow> nat \<Rightarrow> nat \<times> nat \<Rightarrow> alpha_scan \<Rightarrow> alpha_scan" where
  "scan_pixel bytes stride p s =
     (let alpha = pixel_alpha bytes stride p in
      if alpha = 0 then s
      else s\<lparr>min_x := if fst p < min_x s then fst p else min_x s,
             min_y := if snd p < min_y s then snd p else min_y s,
             max_x := if fst p > max_x s then fst p else max_x s,
             max_y := if snd p > max_y s then snd p else max_y s,
             nonzero_count := nonzero_count s + 1,
             opaque_count := opaque_count s + (if alpha = 255 then 1 else 0)\<rparr>)"

text \<open>The two loops, rows outside.\<close>

definition scan_order :: "nat \<Rightarrow> nat \<Rightarrow> (nat \<times> nat) list" where
  "scan_order width height = concat (map (\<lambda>y. map (\<lambda>x. (x, y)) [0..<width]) [0..<height])"

definition scan_start :: "nat \<Rightarrow> nat \<Rightarrow> alpha_scan" where
  "scan_start width height = \<lparr>min_x = width, min_y = height, max_x = 0, max_y = 0,
     nonzero_count = 0, opaque_count = 0\<rparr>"

definition source_alpha_bounds_scan_rgba_fd ::
    "int \<Rightarrow> (nat \<Rightarrow> byte) option \<Rightarrow> nat \<Rightarrow> nat \<Rightarrow> nat \<Rightarrow> alpha_bounds" where
  "source_alpha_bounds_scan_rgba_fd fd mapping width height stride =
     (let full = \<lparr>alpha_x = 0, alpha_y = 0, alpha_w = width, alpha_h = height, alpha_rect_opaque = False\<rparr> in
      if fd < 0 \<or> width = 0 \<or> height = 0 \<or> stride < (width * 4) mod 2 ^ 32 then full
      else case mapping of
        None \<Rightarrow> full
      | Some bytes \<Rightarrow>
          (let s = fold (scan_pixel bytes stride) (scan_order width height) (scan_start width height) in
           if min_x s > max_x s \<or> min_y s > max_y s
           then \<lparr>alpha_x = 0, alpha_y = 0, alpha_w = 0, alpha_h = 0, alpha_rect_opaque = False\<rparr>
           else let bounds_area = (max_x s - min_x s + 1) * (max_y s - min_y s + 1) in
             \<lparr>alpha_x = min_x s, alpha_y = min_y s,
              alpha_w = max_x s - min_x s + 1, alpha_h = max_y s - min_y s + 1,
              alpha_rect_opaque = (nonzero_count s = bounds_area \<and> opaque_count s = bounds_area)\<rparr>))"

section \<open>What the loops compute\<close>

lemma set_scan_order: "set (scan_order w h) = {0..<w} \<times> {0..<h}"
  by (auto simp: scan_order_def)

lemma length_scan_order: "length (scan_order w h) = w * h"
  by (induction h) (simp_all add: scan_order_def)

lemma distinct_scan_order: "distinct (scan_order w h)"
  by (rule card_distinct) (simp add: set_scan_order length_scan_order)

definition visible_pixels :: "(nat \<Rightarrow> byte) \<Rightarrow> nat \<Rightarrow> (nat \<times> nat) set \<Rightarrow> (nat \<times> nat) set" where
  "visible_pixels bytes stride P = {p \<in> P. pixel_alpha bytes stride p \<noteq> 0}"

definition opaque_pixels :: "(nat \<Rightarrow> byte) \<Rightarrow> nat \<Rightarrow> (nat \<times> nat) set \<Rightarrow> (nat \<times> nat) set" where
  "opaque_pixels bytes stride P = {p \<in> P. pixel_alpha bytes stride p = 255}"

lemma fold_scan_pixel:
  fixes bytes stride w h ps
  defines "s \<equiv> fold (scan_pixel bytes stride) ps (scan_start w h)"
    and "V \<equiv> visible_pixels bytes stride (set ps)"
  assumes "distinct ps"
  shows "min_x s = Min (Set.insert w (fst ` V))" "min_y s = Min (Set.insert h (snd ` V))"
    "max_x s = Max (Set.insert 0 (fst ` V))" "max_y s = Max (Set.insert 0 (snd ` V))"
    "nonzero_count s = card V" "opaque_count s = card (opaque_pixels bytes stride (set ps))"
  using assms(3) unfolding s_def V_def
proof (induction ps rule: rev_induct)
  case Nil
  case 1 show ?case by (simp add: scan_start_def visible_pixels_def)
  case 2 show ?case by (simp add: scan_start_def visible_pixels_def)
  case 3 show ?case by (simp add: scan_start_def visible_pixels_def)
  case 4 show ?case by (simp add: scan_start_def visible_pixels_def)
  case 5 show ?case by (simp add: scan_start_def visible_pixels_def)
  case 6 show ?case by (simp add: scan_start_def opaque_pixels_def)
next
  case (snoc p ps)
  let ?V = "visible_pixels bytes stride (set ps)" and ?O = "opaque_pixels bytes stride (set ps)"
  have V: "visible_pixels bytes stride (Set.insert p (set ps))
      = (if pixel_alpha bytes stride p = 0 then ?V else Set.insert p ?V)"
    and O: "opaque_pixels bytes stride (Set.insert p (set ps))
      = (if pixel_alpha bytes stride p = 255 then Set.insert p ?O else ?O)"
    by (auto simp: visible_pixels_def opaque_pixels_def)
  have fin: "finite ?V" "finite ?O"
    by (simp_all add: visible_pixels_def opaque_pixels_def)
  have Min: "Min (Set.insert m (Set.insert a A)) = (if a < Min (Set.insert m A) then a else Min (Set.insert m A))"
    and Max: "Max (Set.insert m (Set.insert a A)) = (if a > Max (Set.insert m A) then a else Max (Set.insert m A))"
    if "finite A" for A and m a :: nat
  proof -
    have ins: "finite (Set.insert m A)" "Set.insert m A \<noteq> {}"
      using that by simp_all
    show "Min (Set.insert m (Set.insert a A)) = (if a < Min (Set.insert m A) then a else Min (Set.insert m A))"
      by (simp only: insert_commute [of m a] Min_insert [OF ins] min_def) arith
    show "Max (Set.insert m (Set.insert a A)) = (if a > Max (Set.insert m A) then a else Max (Set.insert m A))"
      by (simp only: insert_commute [of m a] Max_insert [OF ins] max_def) arith
  qed
  note step = scan_pixel_def Let_def V O fin Min Max
  {
    case 1
    then show ?case using snoc.IH(1) by (simp add: step del: Min_gr_iff Max_less_iff Min_insert Max_insert)
  next
    case 2
    then show ?case using snoc.IH(2) by (simp add: step del: Min_gr_iff Max_less_iff Min_insert Max_insert)
  next
    case 3
    then show ?case using snoc.IH(3) by (simp add: step del: Min_gr_iff Max_less_iff Min_insert Max_insert)
  next
    case 4
    then show ?case using snoc.IH(4) by (simp add: step del: Min_gr_iff Max_less_iff Min_insert Max_insert)
  next
    case 5
    then show ?case using snoc.IH(5) by (simp add: step) (simp add: visible_pixels_def)
  next
    case 6
    then show ?case using snoc.IH(6) by (simp add: step) (simp add: opaque_pixels_def)
  }
qed

section \<open>The rectangle found\<close>

definition in_bounds :: "alpha_bounds \<Rightarrow> nat \<times> nat \<Rightarrow> bool" where
  "in_bounds b p \<longleftrightarrow> alpha_x b \<le> fst p \<and> fst p < alpha_x b + alpha_w b
     \<and> alpha_y b \<le> snd p \<and> snd p < alpha_y b + alpha_h b"

lemma opaque_rectangle:
  fixes P :: "(nat \<times> nat) set"
  assumes V: "V = {p \<in> P. f p \<noteq> (0 :: nat)}" "finite P" "V \<noteq> {}"
    and B: "B = {Min (fst ` V)..Max (fst ` V)} \<times> {Min (snd ` V)..Max (snd ` V)}"
    and sub: "B \<subseteq> P"
  shows "card V = card B \<and> card {p \<in> P. f p = 255} = card B \<longleftrightarrow> (\<forall>p \<in> B. f p = 255)"
proof -
  let ?O = "{p \<in> P. f p = 255}"
  have fin: "finite V" "finite B"
    using V(1,2) by (simp_all add: B)
  have VB: "V \<subseteq> B"
    using fin(1) unfolding B by (force simp: image_iff intro!: Min_le Max_ge)
  have OV: "?O \<subseteq> V"
    using V by auto
  show ?thesis
  proof
    assume cards: "card V = card B \<and> card ?O = card B"
    then have "?O = B"
      using card_subset_eq [of B ?O] OV VB fin by (meson subset_trans)
    then show "\<forall>p \<in> B. f p = 255"
      by blast
  next
    assume "\<forall>p \<in> B. f p = 255"
    then have "B \<subseteq> ?O"
      using sub by blast
    then have "?O = B" "V = B"
      using OV VB by blast+
    then show "card V = card B \<and> card ?O = card B"
      by simp
  qed
qed

lemma scan_bounds:
  fixes bytes stride width height fd
  defines "V \<equiv> visible_pixels bytes stride ({0..<width} \<times> {0..<height})"
    and "b \<equiv> source_alpha_bounds_scan_rgba_fd fd (Some bytes) width height stride"
  assumes args: "0 \<le> fd" "0 < width" "0 < height" "(width * 4) mod 2 ^ 32 \<le> stride"
  shows "V = {} \<Longrightarrow> alpha_w b = 0 \<and> alpha_h b = 0 \<and> \<not> alpha_rect_opaque b"
    and "V \<noteq> {} \<Longrightarrow>
      {p. in_bounds b p} = {Min (fst ` V)..Max (fst ` V)} \<times> {Min (snd ` V)..Max (snd ` V)}
      \<and> 0 < alpha_w b \<and> 0 < alpha_h b
      \<and> alpha_x b + alpha_w b \<le> width \<and> alpha_y b + alpha_h b \<le> height
      \<and> (alpha_rect_opaque b \<longleftrightarrow> (\<forall>p. in_bounds b p \<longrightarrow> pixel_alpha bytes stride p = 255))"
proof -
  let ?P = "{0..<width} \<times> {0..<height}"
  let ?s = "fold (scan_pixel bytes stride) (scan_order width height) (scan_start width height)"
  have s: "min_x ?s = Min (Set.insert width (fst ` V))" "min_y ?s = Min (Set.insert height (snd ` V))"
    "max_x ?s = Max (Set.insert 0 (fst ` V))" "max_y ?s = Max (Set.insert 0 (snd ` V))"
    "nonzero_count ?s = card V" "opaque_count ?s = card (opaque_pixels bytes stride ?P)"
    using fold_scan_pixel [OF distinct_scan_order [of width height], of bytes stride width height]
    by (simp_all add: set_scan_order V_def)
  have b: "b = (if min_x ?s > max_x ?s \<or> min_y ?s > max_y ?s
      then \<lparr>alpha_x = 0, alpha_y = 0, alpha_w = 0, alpha_h = 0, alpha_rect_opaque = False\<rparr>
      else let bounds_area = (max_x ?s - min_x ?s + 1) * (max_y ?s - min_y ?s + 1) in
        \<lparr>alpha_x = min_x ?s, alpha_y = min_y ?s, alpha_w = max_x ?s - min_x ?s + 1,
         alpha_h = max_y ?s - min_y ?s + 1,
         alpha_rect_opaque = (nonzero_count ?s = bounds_area \<and> opaque_count ?s = bounds_area)\<rparr>)"
    using args by (simp add: b_def source_alpha_bounds_scan_rgba_fd_def Let_def)
  show "alpha_w b = 0 \<and> alpha_h b = 0 \<and> \<not> alpha_rect_opaque b" if "V = {}"
    using args that by (simp add: b s)
  assume "V \<noteq> {}"
  have fin: "finite V"
    by (simp add: V_def visible_pixels_def)
  have ranges: "\<forall>x \<in> fst ` V. x < width" "\<forall>y \<in> snd ` V. y < height"
    by (auto simp: V_def visible_pixels_def)
  define x0 x1 y0 y1 where "x0 = Min (fst ` V)" and "x1 = Max (fst ` V)"
    and "y0 = Min (snd ` V)" and "y1 = Max (snd ` V)"
  have box: "x0 \<le> x1" "x1 < width" "y0 \<le> y1" "y1 < height"
    using \<open>V \<noteq> {}\<close> fin ranges by (auto simp: x0_def x1_def y0_def y1_def)
  have "Min (fst ` V) \<le> width" "Min (snd ` V) \<le> height"
    using box unfolding x0_def x1_def y0_def y1_def by linarith+
  then have m: "min_x ?s = x0" "min_y ?s = y0" "max_x ?s = x1" "max_y ?s = y1"
    using \<open>V \<noteq> {}\<close> fin by (simp_all add: s x0_def x1_def y0_def y1_def min_absorb2)
  let ?B = "{x0..x1} \<times> {y0..y1}"
  have card_B: "card ?B = (x1 - x0 + 1) * (y1 - y0 + 1)"
    using box by (simp add: card_cartesian_product Suc_diff_le)
  have "b = \<lparr>alpha_x = x0, alpha_y = y0, alpha_w = x1 - x0 + 1, alpha_h = y1 - y0 + 1,
      alpha_rect_opaque = (card V = card ?B \<and> card (opaque_pixels bytes stride ?P) = card ?B)\<rparr>"
    using box unfolding b m card_B by (simp add: Let_def s)
  moreover have "(card V = card ?B \<and> card (opaque_pixels bytes stride ?P) = card ?B)
      \<longleftrightarrow> (\<forall>p \<in> ?B. pixel_alpha bytes stride p = 255)"
    unfolding opaque_pixels_def
  proof (rule opaque_rectangle [OF _ _ \<open>V \<noteq> {}\<close>])
    show "?B \<subseteq> ?P"
      using box by auto
  qed (simp_all add: V_def visible_pixels_def x0_def x1_def y0_def y1_def)
  moreover have "{p. in_bounds b p} = ?B"
    using box by (auto simp: calculation(1) in_bounds_def)
  ultimately show "{p. in_bounds b p} = {Min (fst ` V)..Max (fst ` V)} \<times> {Min (snd ` V)..Max (snd ` V)}
      \<and> 0 < alpha_w b \<and> 0 < alpha_h b
      \<and> alpha_x b + alpha_w b \<le> width \<and> alpha_y b + alpha_h b \<le> height
      \<and> (alpha_rect_opaque b \<longleftrightarrow> (\<forall>p. in_bounds b p \<longrightarrow> pixel_alpha bytes stride p = 255))"
    using box by (auto simp: x0_def x1_def y0_def y1_def)
qed

lemma alpha_offset_inside:
  assumes "p \<in> {0..<width} \<times> {0..<height}" "width * 4 \<le> stride"
  shows "alpha_offset stride p < stride * height"
proof -
  have "alpha_offset stride p < (snd p + 1) * stride"
    using assms by (auto simp: alpha_offset_def)
  also have "\<dots> \<le> height * stride"
    using assms by (intro mult_le_mono1) auto
  finally show ?thesis
    by (simp add: mult.commute)
qed

text \<open>
  C24. The alpha scan of a mapped RGBA buffer of less than 2^30 pixels a row reads only bytes of the
  mapping. When every pixel is transparent the rectangle found is empty; otherwise it is the
  smallest rectangle that holds all pixels that are not transparent, it lies inside the buffer,
  and it is reported as opaque exactly when each of its pixels has alpha 255.
\<close>

theorem alpha_scan_exact:
  assumes "0 \<le> fd" "0 < width" "0 < height" "width < 2 ^ 30" "width * 4 \<le> stride"
  shows "let b = source_alpha_bounds_scan_rgba_fd fd (Some bytes) width height stride;
             V = visible_pixels bytes stride ({0..<width} \<times> {0..<height})
         in (\<forall>p. p \<in> set (scan_order width height) \<longrightarrow> alpha_offset stride p < stride * height)
          \<and> (V = {} \<longrightarrow> alpha_w b = 0 \<and> alpha_h b = 0 \<and> \<not> alpha_rect_opaque b)
          \<and> (V \<noteq> {} \<longrightarrow>
              {p. in_bounds b p} = {Min (fst ` V)..Max (fst ` V)} \<times> {Min (snd ` V)..Max (snd ` V)}
            \<and> alpha_x b + alpha_w b \<le> width \<and> alpha_y b + alpha_h b \<le> height
            \<and> (alpha_rect_opaque b \<longleftrightarrow> (\<forall>p. in_bounds b p \<longrightarrow> pixel_alpha bytes stride p = 255)))"
proof -
  have "(width * 4) mod 2 ^ 32 \<le> stride"
    using assms by simp
  then show ?thesis
    using scan_bounds [of fd width height stride bytes] assms alpha_offset_inside [of _ width height stride]
    unfolding Let_def set_scan_order by blast
qed

text \<open>A 2x2 buffer whose only visible pixel is the opaque one at the bottom right.\<close>

lemma alpha_scan_exact_witness:
  "let b = source_alpha_bounds_scan_rgba_fd 5 (Some (\<lambda>i. if i = 15 then 255 else 0)) 2 2 8
   in {p. in_bounds b p} = {(1, 1)} \<and> alpha_rect_opaque b"
proof -
  let ?bytes = "\<lambda>i. if i = 15 then 255 else 0 :: byte"
  let ?V = "visible_pixels ?bytes 8 ({0..<2} \<times> {0..<2})"
  have grid: "{0..<2 :: nat} \<times> {0..<2 :: nat} = {(0, 0), (0, 1), (1, 0), (1, 1 :: nat)}"
    by (auto simp: less_2_cases_iff)
  have V: "?V = {(1, 1)}"
    unfolding grid by (auto simp: visible_pixels_def pixel_alpha_def alpha_offset_def)
  then have "{p. in_bounds (source_alpha_bounds_scan_rgba_fd 5 (Some ?bytes) 2 2 8) p} = {(1, 1)}
      \<and> (alpha_rect_opaque (source_alpha_bounds_scan_rgba_fd 5 (Some ?bytes) 2 2 8)
        \<longleftrightarrow> (\<forall>p. in_bounds (source_alpha_bounds_scan_rgba_fd 5 (Some ?bytes) 2 2 8) p
              \<longrightarrow> pixel_alpha ?bytes 8 p = 255))"
    using alpha_scan_exact [of 5 2 2 8 ?bytes] by (simp add: Let_def)
  then show ?thesis
    by (auto simp: Let_def set_eq_iff pixel_alpha_def alpha_offset_def)
qed

end
