(* ===== verification/Layers.thy ===== *)
theory Layers
  imports Alpha_Scan Native_Canvas
begin

text \<open>
  The layers of the native compositor (\<open>src/server/engine/compositor.c\<close>): which texture slot the
  source of a scene item uses, where the item is drawn on the canvas, which rectangle of it counts
  as opaque, and the visible parts of the layers under it (\<open>native_build_base_visible_rects\<close>,
  \<open>native_build_layer_visible_rects\<close>). Vulkan handles appear only as whether they exist; the
  floating-point fields are the values of \<open>Ieee\<close>.
\<close>

section \<open>Scene items and textures\<close>

definition SBS_MAX_SOURCE_TEXTURES :: nat where
  "SBS_MAX_SOURCE_TEXTURES = 32"

definition DRM_NV12 :: u32 where "DRM_NV12 = 0x3231564e"
definition DRM_NV21 :: u32 where "DRM_NV21 = 0x3132564e"
definition DRM_P010 :: u32 where "DRM_P010 = 0x30313050"
definition DRM_FORMAT_ABGR8888 :: u32 where "DRM_FORMAT_ABGR8888 = 0x34324241"
definition SBS_DRM_FORMAT_AMLY :: u32 where "SBS_DRM_FORMAT_AMLY = 0x594c4d41"

definition SBS_COMP_FILTER_GRAYSCALE :: u32 where "SBS_COMP_FILTER_GRAYSCALE = push_bit 0 1"
definition SBS_COMP_FILTER_BRIGHTNESS :: u32 where "SBS_COMP_FILTER_BRIGHTNESS = push_bit 1 1"
definition SBS_COMP_FILTER_CONTRAST :: u32 where "SBS_COMP_FILTER_CONTRAST = push_bit 2 1"
definition SBS_COMP_FILTER_HDR_TO_SDR_LUT :: u32 where "SBS_COMP_FILTER_HDR_TO_SDR_LUT = push_bit 5 1"
definition SBS_COMP_FILTER_COLOR_CORRECTION :: u32 where "SBS_COMP_FILTER_COLOR_CORRECTION = push_bit 6 1"
definition SBS_COMP_FILTER_LUMA_KEY :: u32 where "SBS_COMP_FILTER_LUMA_KEY = push_bit 7 1"
definition SBS_COMP_FILTER_SDR_TO_HDR :: u32 where "SBS_COMP_FILTER_SDR_TO_HDR = push_bit 10 1"

text \<open>The fields of \<open>sbs_comp_scene_item_t\<close> that the functions here read.\<close>

record comp_item =
  ci_source_id :: string
  ci_visible :: bool
  ci_crop :: "fp \<times> fp \<times> fp \<times> fp"
  ci_opacity :: fp
  ci_filter_flags :: u32
  ci_lut_path :: string
  ci_render_x :: int
  ci_render_y :: int
  ci_render_width :: int
  ci_render_height :: int
  ci_flip_horizontal :: bool
  ci_flip_vertical :: bool
  ci_rotation_deg :: fp
  ci_frame_slot :: bool

record source_texture =
  tex_source_id :: string
  tex_width :: nat
  tex_height :: nat
  tex_allocated :: bool
  tex_has_content :: bool
  tex_dmabuf_imported :: bool
  tex_y_buf :: bool
  tex_view :: bool
  tex_alpha :: alpha_bounds
  tex_drm_format :: u32

text \<open>The textures and pipelines of \<open>sbs_compositor_t\<close>; the array has \<open>SBS_MAX_SOURCE_TEXTURES\<close> entries.\<close>

record layer_comp =
  lc_sources :: "nat \<Rightarrow> source_texture"
  lc_p010_direct_layout :: bool
  lc_p010_direct :: bool
  lc_yuv8_to_p010 :: bool
  lc_amly_to_p010 :: bool
  lc_p010_to_nv21 :: bool
  lc_yuv8_to_nv21 :: bool
  lc_amly_to_nv21 :: bool

section \<open>Texture slots\<close>

text \<open>The first index below \<open>n\<close>, and below the number of textures, with property \<open>P\<close>.\<close>

definition first_texture :: "(nat \<Rightarrow> bool) \<Rightarrow> nat \<Rightarrow> nat option" where
  "first_texture P n = find P [0..<min n SBS_MAX_SOURCE_TEXTURES]"

definition live_item_of :: "comp_item list \<Rightarrow> string \<Rightarrow> nat \<Rightarrow> bool" where
  "live_item_of items sid i \<longleftrightarrow>
     ci_visible (items ! i) \<and> ci_frame_slot (items ! i) \<and> ci_source_id (items ! i) = sid"

definition source_texture_slot_for_item :: "comp_item list \<Rightarrow> nat \<Rightarrow> nat" where
  "source_texture_slot_for_item items item_idx =
     (if item_idx \<ge> length items then item_idx
      else case first_texture (live_item_of items (ci_source_id (items ! item_idx))) item_idx of
        Some i \<Rightarrow> i | None \<Rightarrow> item_idx)"

definition source_texture_slot_for_item_with_reference ::
    "comp_item list \<Rightarrow> nat \<Rightarrow> comp_item list \<Rightarrow> nat" where
  "source_texture_slot_for_item_with_reference items item_idx ref_items =
     (if item_idx \<ge> length items then item_idx
      else if ref_items = [] then source_texture_slot_for_item items item_idx
      else let in_ref = (\<lambda>sid. first_texture (live_item_of ref_items sid) (length ref_items)) in
        case in_ref (ci_source_id (items ! item_idx)) of
          Some i \<Rightarrow> i
        | None \<Rightarrow> length ref_items + length (filter (\<lambda>i. ci_visible (items ! i) \<and> ci_frame_slot (items ! i)
              \<and> in_ref (ci_source_id (items ! i)) = None) [0..<min item_idx SBS_MAX_SOURCE_TEXTURES]))"

definition native_source_texture_slot_for_item ::
    "layer_comp \<Rightarrow> comp_item list \<Rightarrow> nat \<Rightarrow> comp_item list \<Rightarrow> nat" where
  "native_source_texture_slot_for_item lc items item_idx ref_items =
     (let slot = source_texture_slot_for_item_with_reference items item_idx ref_items in
      if item_idx \<ge> length items \<or> slot \<ge> SBS_MAX_SOURCE_TEXTURES then slot
      else let sid = ci_source_id (items ! item_idx) in
        if sid = [] then slot
        else if tex_source_id (lc_sources lc slot) = [] \<or> tex_source_id (lc_sources lc slot) = sid then slot
        else case first_texture (\<lambda>i. tex_source_id (lc_sources lc i) = sid) SBS_MAX_SOURCE_TEXTURES of
          Some i \<Rightarrow> i | None \<Rightarrow> slot)"

definition source_drm_format_is_rgba :: "u32 \<Rightarrow> bool" where
  "source_drm_format_is_rgba drm_format \<longleftrightarrow> drm_format = DRM_FORMAT_ABGR8888"

definition source_texture_matches_item :: "source_texture \<Rightarrow> comp_item \<Rightarrow> bool" where
  "source_texture_matches_item tex item \<longleftrightarrow>
     ci_source_id item \<noteq> [] \<and> tex_source_id tex \<noteq> [] \<and> tex_source_id tex = ci_source_id item"

section \<open>Filters and direct conversion\<close>

definition native_item_filters_direct_yuv_compatible :: "comp_item \<Rightarrow> export_color_mode \<Rightarrow> bool" where
  "native_item_filters_direct_yuv_compatible item color_mode =
     (let mask = or SBS_COMP_FILTER_GRAYSCALE (or SBS_COMP_FILTER_BRIGHTNESS (or SBS_COMP_FILTER_CONTRAST
            (or SBS_COMP_FILTER_HDR_TO_SDR_LUT (or SBS_COMP_FILTER_COLOR_CORRECTION SBS_COMP_FILTER_SDR_TO_HDR))));
          mask = (if color_mode = SBS_EXPORT_COLOR_SDR then or mask SBS_COMP_FILTER_LUMA_KEY else mask);
          flags = ci_filter_flags item
      in if flags = 0 then True
         else if and flags SBS_COMP_FILTER_LUMA_KEY \<noteq> 0 \<and> and flags SBS_COMP_FILTER_HDR_TO_SDR_LUT \<noteq> 0 then False
         else and flags (not mask) = 0 \<and> ci_lut_path item = [])"

definition drm_is_yuv8 :: "u32 \<Rightarrow> bool" where
  "drm_is_yuv8 f \<longleftrightarrow> f = DRM_NV12 \<or> f = DRM_NV21"

definition native_source_can_direct_yuv ::
    "layer_comp \<Rightarrow> export_color_mode \<Rightarrow> source_texture \<Rightarrow> comp_item \<Rightarrow> bool" where
  "native_source_can_direct_yuv lc color_mode tex item =
     (let fmt = tex_drm_format tex; hdr = (color_mode = SBS_EXPORT_COLOR_HDR10) in
      if \<not> lc_p010_direct_layout lc \<or> \<not> tex_dmabuf_imported tex \<or> \<not> tex_y_buf tex then False
      else if \<not> native_item_filters_direct_yuv_compatible item color_mode then False
      else if hdr \<and> and (ci_filter_flags item) SBS_COMP_FILTER_SDR_TO_HDR \<noteq> 0 \<and> drm_is_yuv8 fmt then False
      else if hdr then
        (if fmt = DRM_P010 then lc_p010_direct lc
         else if drm_is_yuv8 fmt then lc_yuv8_to_p010 lc
         else if fmt = SBS_DRM_FORMAT_AMLY then lc_amly_to_p010 lc
         else False)
      else
        (if fmt = DRM_P010 then lc_p010_to_nv21 lc
         else if drm_is_yuv8 fmt then lc_yuv8_to_nv21 lc
         else if fmt = SBS_DRM_FORMAT_AMLY then lc_amly_to_nv21 lc
         else False))"

lemma rgba_not_direct: "source_drm_format_is_rgba (tex_drm_format tex) \<Longrightarrow> \<not> native_source_can_direct_yuv lc mode tex item"
  by (simp add: source_drm_format_is_rgba_def native_source_can_direct_yuv_def Let_def drm_is_yuv8_def
      DRM_NV12_def DRM_NV21_def DRM_P010_def DRM_FORMAT_ABGR8888_def SBS_DRM_FORMAT_AMLY_def)

section \<open>Where a layer is drawn\<close>

text \<open>The arguments that the drawing pass hands to each of the functions below.\<close>

record layer_pass =
  pass_comp :: layer_comp
  pass_mode :: export_color_mode
  pass_items :: "comp_item list"
  pass_opacity_scale :: fp
  pass_scale_x :: fp
  pass_scale_y :: fp
  pass_width :: int
  pass_height :: int
  pass_ref_items :: "comp_item list"

definition native_clampf01 :: "fp \<Rightarrow> fp" where
  "native_clampf01 v = (if fp_less v (Fin 0) then Fin 0 else if fp_less (Fin 1) v then Fin 1 else v)"

definition native_item_has_crop :: "comp_item \<Rightarrow> bool" where
  "native_item_has_crop item =
     (case ci_crop item of (c0, c1, c2, c3) \<Rightarrow>
        let eps = fp_round binary32 (1 / 1000000) in
        fp_less eps c0 \<or> fp_less eps c1 \<or> fp_less eps c2 \<or> fp_less eps c3)"

definition native_scale_i32 :: "int \<Rightarrow> fp \<Rightarrow> int" where
  "native_scale_i32 value scale = c_int (lround (fp_mul binary32 (fp_round binary32 (of_int value)) scale))"

definition native_scale_u32 :: "int \<Rightarrow> fp \<Rightarrow> int" where
  "native_scale_u32 value scale =
     (if value \<le> 0 then 0
      else let scaled = lround (fp_mul binary32 (fp_round binary32 (of_int value)) scale)
        in if scaled > 0 then c_u32 scaled else 1)"

definition crop_pixels :: "fp \<Rightarrow> int \<Rightarrow> int" where
  "crop_pixels c extent =
     (let n = c_u32 (lround (fp_mul binary32 (native_clampf01 c) (fp_round binary32 (of_int extent))))
      in if n > extent then extent else n)"

text \<open>The part \<open>(x, y, w, h)\<close> of the texture that the crop of an item leaves, if it is not empty.\<close>

definition native_apply_item_crop :: "comp_item \<Rightarrow> int \<Rightarrow> int \<Rightarrow> (int \<times> int \<times> int \<times> int) option" where
  "native_apply_item_crop item width height =
     (if width = 0 \<or> height = 0 then None
      else case ci_crop item of (c0, c1, c2, c3) \<Rightarrow>
        let left = crop_pixels c0 width; top = crop_pixels c1 height;
            right = crop_pixels c2 width; bottom = crop_pixels c3 height;
            right = (if right > width - left then width - left else right);
            bottom = (if bottom > height - top then height - top else bottom);
            src_w = width - left - right; src_h = height - top - bottom
        in if src_w > 0 \<and> src_h > 0 then Some (left, top, src_w, src_h) else None)"

text \<open>
  The alpha rectangle of a texture, cut to the texture, and the rectangle \<open>(x0, y0, x1, y1)\<close> it
  takes in a destination of \<open>dst_w\<close> by \<open>dst_h\<close> pixels, rounded outwards. Both users of the alpha
  rectangle compute it with these lines; the 64-bit products do not wrap.
\<close>

definition clipped_alpha :: "source_texture \<Rightarrow> (int \<times> int \<times> int \<times> int) option" where
  "clipped_alpha tex =
     (let w = int (tex_width tex); h = int (tex_height tex);
          ax = int (alpha_x (tex_alpha tex)); ay = int (alpha_y (tex_alpha tex));
          aw = int (alpha_w (tex_alpha tex)); ah = int (alpha_h (tex_alpha tex))
      in if aw = 0 \<or> ah = 0 \<or> ax \<ge> w \<or> ay \<ge> h then None
         else Some (ax, ay, if c_u32 (ax + aw) > w then w - ax else aw,
                            if c_u32 (ay + ah) > h then h - ay else ah))"

definition scaled_alpha :: "source_texture \<Rightarrow> int \<times> int \<times> int \<times> int \<Rightarrow> int \<Rightarrow> int \<Rightarrow> (int \<times> int \<times> int \<times> int) option" where
  "scaled_alpha tex alpha dst_w dst_h =
     (case alpha of (ax, ay, aw, ah) \<Rightarrow>
        let w = int (tex_width tex); h = int (tex_height tex);
            x0 = (dst_w * ax) div w; y0 = (dst_h * ay) div h;
            x1 = (dst_w * c_u32 (ax + aw) + w - 1) div w;
            y1 = (dst_h * c_u32 (ay + ah) + h - 1) div h
        in if x1 \<le> x0 \<or> y1 \<le> y0 then None else Some (x0, y0, x1, y1))"

text \<open>A destination and the part of the texture drawn there, each as \<open>(x, y, w, h)\<close>.\<close>

record placement =
  pl_direct :: bool
  pl_dst :: "int \<times> int \<times> int \<times> int"
  pl_src :: "int \<times> int \<times> int \<times> int"

definition native_crop_rgba_layer_to_alpha_bounds :: "source_texture \<Rightarrow> int \<times> int \<times> int \<times> int \<Rightarrow> placement option" where
  "native_crop_rgba_layer_to_alpha_bounds tex dst =
     (case dst of (dst_x, dst_y, dst_w, dst_h) \<Rightarrow>
        if tex_width tex = 0 \<or> tex_height tex = 0 \<or> dst_w = 0 \<or> dst_h = 0 then None
        else case clipped_alpha tex of
          None \<Rightarrow> None
        | Some alpha \<Rightarrow> (case scaled_alpha tex alpha dst_w dst_h of
            None \<Rightarrow> None
          | Some (x0, y0, x1, y1) \<Rightarrow>
              Some \<lparr>pl_direct = False,
                    pl_dst = (c_int (dst_x + c_int x0), c_int (dst_y + c_int y0), c_u32 (x1 - x0), c_u32 (y1 - y0)),
                    pl_src = alpha\<rparr>))"

text \<open>
  The first half of the body of \<open>native_dispatch_source_layers\<close>: whether and where layer \<open>i\<close> is
  drawn. \<open>have_direct\<close> and \<open>have_rgba\<close> say whether the layer has the pipeline and descriptor set of
  that path (for \<open>have_rgba\<close>, together with the view of its texture).
\<close>

definition item_destination :: "layer_pass \<Rightarrow> comp_item \<Rightarrow> int \<times> int \<times> int \<times> int" where
  "item_destination ps item =
     (native_scale_i32 (ci_render_x item) (pass_scale_x ps), native_scale_i32 (ci_render_y item) (pass_scale_y ps),
      native_scale_u32 (ci_render_width item) (pass_scale_x ps), native_scale_u32 (ci_render_height item) (pass_scale_y ps))"

definition layer_placement :: "layer_pass \<Rightarrow> bool \<Rightarrow> bool \<Rightarrow> nat \<Rightarrow> placement option" where
  "layer_placement ps have_direct have_rgba i =
     (let item = pass_items ps ! i;
          slot = native_source_texture_slot_for_item (pass_comp ps) (pass_items ps) i (pass_ref_items ps);
          tex = lc_sources (pass_comp ps) slot
      in if slot \<ge> SBS_MAX_SOURCE_TEXTURES then None
         else if \<not> ci_visible item \<or> \<not> tex_allocated tex \<or> \<not> tex_has_content tex
           \<or> \<not> source_texture_matches_item tex item
           \<or> ci_render_width item \<le> 0 \<or> ci_render_height item \<le> 0 then None
         else case native_apply_item_crop item (int (tex_width tex)) (int (tex_height tex)) of
           None \<Rightarrow> None
         | Some src \<Rightarrow>
             (let direct = have_direct \<and> native_source_can_direct_yuv (pass_comp ps) (pass_mode ps) tex item in
              if \<not> direct \<and> (\<not> have_rgba \<or> \<not> tex_view tex) then None
              else case item_destination ps item of (dst_x, dst_y, dst_w, dst_h) \<Rightarrow>
                if dst_w = 0 \<or> dst_h = 0 then None
                else if \<not> direct \<and> \<not> native_item_has_crop item
                then native_crop_rgba_layer_to_alpha_bounds tex (dst_x, dst_y, dst_w, dst_h)
                else Some \<lparr>pl_direct = direct, pl_dst = (dst_x, dst_y, dst_w, dst_h), pl_src = src\<rparr>))"

section \<open>Which part of a layer counts as opaque\<close>

definition OPAQUE_MIN :: fp where
  "OPAQUE_MIN = fp_round binary32 (999 / 1000)"

text \<open>Its place before it is cut to the canvas: the alpha rectangle of an RGBA layer, or the whole layer.\<close>

definition opaque_part :: "layer_pass \<Rightarrow> comp_item \<Rightarrow> source_texture \<Rightarrow> int \<times> int \<times> int \<times> int \<Rightarrow> native_rect option" where
  "opaque_part ps item tex dst =
     (case dst of (dst_x, dst_y, dst_w, dst_h) \<Rightarrow>
      if source_drm_format_is_rgba (tex_drm_format tex) then
        (if \<not> alpha_rect_opaque (tex_alpha tex) then None
         else case clipped_alpha tex of
           None \<Rightarrow> None
         | Some alpha \<Rightarrow> (case scaled_alpha tex alpha dst_w dst_h of
             None \<Rightarrow> None
           | Some (ox0, oy0, ox1, oy1) \<Rightarrow>
               (let (ox0, ox1) = (if ci_flip_horizontal item then (c_u64 (dst_w - ox1), c_u64 (dst_w - ox0)) else (ox0, ox1));
                    (oy0, oy1) = (if ci_flip_vertical item then (c_u64 (dst_h - oy1), c_u64 (dst_h - oy0)) else (oy0, oy1));
                    x = c_int (dst_x + c_int ox0); y = c_int (dst_y + c_int oy0)
                in Some (mk_rect x y (c_int (x + c_int (ox1 - ox0))) (c_int (y + c_int (oy1 - oy0)))))))
      else if \<not> native_source_can_direct_yuv (pass_comp ps) (pass_mode ps) tex item then None
      else Some (mk_rect dst_x dst_y (c_int (dst_x + c_int dst_w)) (c_int (dst_y + c_int dst_h))))"

definition native_source_opaque_occluder_rect :: "layer_pass \<Rightarrow> nat \<Rightarrow> native_rect option" where
  "native_source_opaque_occluder_rect ps item_index =
     (if item_index \<ge> length (pass_items ps) then None
      else let item = pass_items ps ! item_index;
        slot = native_source_texture_slot_for_item (pass_comp ps) (pass_items ps) item_index (pass_ref_items ps);
        tex = lc_sources (pass_comp ps) slot
      in if \<not> ci_visible item \<or> ci_render_width item \<le> 0 \<or> ci_render_height item \<le> 0
           \<or> fp_less (native_clampf01 (fp_mul binary32 (ci_opacity item) (pass_opacity_scale ps))) OPAQUE_MIN
           \<or> ci_rotation_deg item \<noteq> Fin 0 then None
         else if slot \<ge> SBS_MAX_SOURCE_TEXTURES then None
         else if \<not> tex_allocated tex \<or> \<not> tex_has_content tex \<or> \<not> source_texture_matches_item tex item then None
         else case item_destination ps item of (dst_x, dst_y, dst_w, dst_h) \<Rightarrow>
           if dst_w = 0 \<or> dst_h = 0 then None
           else case opaque_part ps item tex (dst_x, dst_y, dst_w, dst_h) of
             None \<Rightarrow> None
           | Some r \<Rightarrow> (case native_rect_clip_canvas r (pass_width ps) (pass_height ps) of
               (False, _) \<Rightarrow> None
             | (True, r) \<Rightarrow> (case native_rect_align_full_chroma_cells r of
                 (False, _) \<Rightarrow> None
               | (True, r) \<Rightarrow> Some r)))"

end
