(* ===== verification/Layer_Visibility.thy ===== *)
theory Layer_Visibility
  imports Layers
begin

section \<open>The visible parts of a layer\<close>

text \<open>
  The loop over the layers above: the list of visible parts, and what the function returns when it
  leaves the loop early (\<open>False\<close> when the parts no longer fit, \<open>True\<close> when none is left).
\<close>

fun visible_loop :: "layer_pass \<Rightarrow> nat list \<Rightarrow> native_rect list \<Rightarrow> bool option \<times> native_rect list" where
  "visible_loop ps [] rects = (None, rects)"
| "visible_loop ps (j # js) rects =
     (case native_source_opaque_occluder_rect ps j of
        None \<Rightarrow> visible_loop ps js rects
      | Some occ \<Rightarrow> (case native_rect_subtract_one rects occ of
          None \<Rightarrow> (Some False, rects)
        | Some rects \<Rightarrow> if rects = [] then (Some True, []) else visible_loop ps js rects))"

definition layers_above :: "layer_pass \<Rightarrow> nat \<Rightarrow> nat list" where
  "layers_above ps base_index = [base_index + 1 ..< min (length (pass_items ps)) SBS_MAX_SOURCE_TEXTURES]"

definition native_build_base_visible_rects :: "layer_pass \<Rightarrow> nat \<Rightarrow> bool \<times> native_rect list" where
  "native_build_base_visible_rects ps base_index =
     (if base_index \<ge> length (pass_items ps) then (False, [])
      else case visible_loop ps (layers_above ps base_index)
             [mk_rect 0 0 (c_int (pass_width ps)) (c_int (pass_height ps))] of
        (Some b, rects) \<Rightarrow> (b, rects)
      | (None, rects) \<Rightarrow> (length rects > 1, rects))"


text \<open>A pixel is hidden when one of the layers counts as opaque there.\<close>

definition hidden :: "layer_pass \<Rightarrow> nat list \<Rightarrow> pixel \<Rightarrow> bool" where
  "hidden ps js p \<longleftrightarrow> (\<exists>j \<in> set js. \<exists>occ. native_source_opaque_occluder_rect ps j = Some occ \<and> in_rect p occ)"

lemma hidden_simps [simp]:
  "\<not> hidden ps [] p"
  "hidden ps (j # js) p \<longleftrightarrow>
     (\<exists>occ. native_source_opaque_occluder_rect ps j = Some occ \<and> in_rect p occ) \<or> hidden ps js p"
  by (auto simp: hidden_def)


lemma visible_loop_keeps_visible:
  assumes "visible_loop ps js rects = (b, rs)"
  shows "cover rs p \<le> cover rects p \<and> (hidden ps js p \<or> cover rs p = cover rects p) \<and> length rs \<le> max 32 (length rects)"
  using assms
proof (induction js arbitrary: rects)
  case (Cons j js)
  show ?case
  proof (cases "native_source_opaque_occluder_rect ps j")
    case None
    then show ?thesis
      using Cons by simp
  next
    case (Some occ)
    show ?thesis
    proof (cases "native_rect_subtract_one rects occ")
      case None
      then show ?thesis
        using Cons.prems Some by simp
    next
      case qs: (Some qs)
      have cut: "cover qs p = (if in_rect p occ then 0 else cover rects p)" "length qs \<le> 32"
        using subtract_oneD [OF qs] by (simp_all add: cover_cut_all)
      show ?thesis
      proof (cases "qs = []")
        case True
        then show ?thesis
          using Cons.prems cut by (auto simp: Some qs split: if_splits)
      next
        case False
        then have "visible_loop ps js qs = (b, rs)"
          using Cons.prems Some qs by simp
        from Cons.IH [OF this] cut show ?thesis
          by (auto simp: Some split: if_splits)
      qed
    qed
  qed
qed simp



section \<open>The opaque part of a layer lies where the layer is drawn\<close>

definition drawn_rect :: "placement \<Rightarrow> native_rect" where
  "drawn_rect pl = (case pl_dst pl of (x, y, w, h) \<Rightarrow> mk_rect x y (c_int (x + c_int w)) (c_int (y + c_int h)))"


lemma align_inside:
  assumes "native_rect_clip_canvas r w h = (True, q)" "native_rect_align_full_chroma_cells q = (True, occ)"
    and "in_rect p occ"
  shows "in_rect p r \<and> in_rect p (canvas_rect (c_int w) (c_int h))"
proof -
  have q: "0 \<le> r_x q" "0 \<le> r_y q" "r_x1 q \<le> c_int w" "r_y1 q \<le> c_int h" "rect_nonempty q"
    using clip_canvas_inside [OF assms(1)] by simp_all
  have lim: "c_int n < 2 ^ 31" for n
    using signed_take_bit_int_less_exp [of 31 n] by (simp add: c_int_def)
  have "rect_within (cell_rect p) q"
    using align_cells [OF q(1,2) _ _ assms(2), of p] q(3-5) lim [of w] lim [of h] assms(3)
    by (auto simp: rect_nonempty_def)
  then have "in_rect p q"
    by (cases p) (auto simp: rect_within_def cell_rect_def Let_def mk_rect_def in_rect_def)
  then show ?thesis
    using clip_canvas_pixels [of p r w h] assms(1) by simp
qed

definition item_texture :: "layer_pass \<Rightarrow> nat \<Rightarrow> source_texture" where
  "item_texture ps i = lc_sources (pass_comp ps)
     (native_source_texture_slot_for_item (pass_comp ps) (pass_items ps) i (pass_ref_items ps))"

lemma occluder_cases:
  assumes "native_source_opaque_occluder_rect ps i = Some occ"
  obtains r q where "i < length (pass_items ps)"
    "opaque_part ps (pass_items ps ! i) (item_texture ps i) (item_destination ps (pass_items ps ! i)) = Some r"
    "native_rect_clip_canvas r (pass_width ps) (pass_height ps) = (True, q)"
    "native_rect_align_full_chroma_cells q = (True, occ)"
  using assms
  by (auto simp: native_source_opaque_occluder_rect_def Let_def item_texture_def
      split: if_split_asm prod.split_asm option.split_asm bool.split_asm)

lemma occluder_even: "native_source_opaque_occluder_rect ps i = Some occ \<Longrightarrow> rect_even occ"
  using align_even by (metis occluder_cases)

lemma occluder_on_canvas:
  "native_source_opaque_occluder_rect ps i = Some occ \<Longrightarrow> in_rect p occ
     \<Longrightarrow> in_rect p (canvas_rect (c_int (pass_width ps)) (c_int (pass_height ps)))"
  using align_inside by (metis occluder_cases)


section \<open>Drawing only what is visible gives the same picture\<close>








section \<open>Chroma cells stay whole\<close>

lemma visible_loop_even:
  assumes "visible_loop ps js rects = (b, rs)" "\<And>r. r \<in> set rects \<Longrightarrow> rect_even r" "q \<in> set rs"
  shows "rect_even q"
  using assms
proof (induction js arbitrary: rects)
  case (Cons j js)
  have step: "rect_even u" if "native_source_opaque_occluder_rect ps j = Some occ"
      "native_rect_subtract_one rects occ = Some qs" "u \<in> set qs" for occ qs u
    using cut_all_even [OF Cons.prems(2) occluder_even [OF that(1)]] subtract_oneD(1) [OF that(2)] that(3) by blast
  show ?case
    using Cons.prems(1,3) step
    by (auto split: option.split_asm if_split_asm intro: Cons.IH Cons.prems(2))
qed simp

lemma visible_loop_nonempty:
  assumes "visible_loop ps js rects = (b, rs)" "\<And>r. r \<in> set rects \<Longrightarrow> rect_nonempty r" "q \<in> set rs"
  shows "rect_nonempty q"
  using assms
proof (induction js arbitrary: rects)
  case (Cons j js)
  have step: "rect_nonempty u" if "native_rect_subtract_one rects occ = Some qs" "u \<in> set qs" for occ qs u
    using cut_all_nonempty [OF Cons.prems(2)] subtract_oneD(1) [OF that(1)] that(2) by blast
  show ?case
    using Cons.prems(1,3) step
    by (auto split: option.split_asm if_split_asm intro: Cons.IH Cons.prems(2))
qed simp

text \<open>
  C1. On a canvas of even size every visible part of the base layer is a non-empty rectangle of whole
  2x2 chroma cells on the canvas, and there are at most 32 of them, whatever the layers above are
  and also when the function gives up.
\<close>

theorem visible_parts_are_whole_cells:
  assumes "even (pass_width ps)" "even (pass_height ps)" "0 < c_int (pass_width ps)" "0 < c_int (pass_height ps)"
    and "native_build_base_visible_rects ps i = (b, rects)"
  shows "length rects \<le> SBS_NATIVE_OCCLUSION_MAX_RECTS
    \<and> (q \<in> set rects \<longrightarrow> rect_even q \<and> rect_nonempty q)
    \<and> (0 < cover rects p \<longrightarrow> in_rect p (canvas_rect (c_int (pass_width ps)) (c_int (pass_height ps))))"
proof (cases "i < length (pass_items ps)")
  case True
  let ?canvas = "mk_rect 0 0 (c_int (pass_width ps)) (c_int (pass_height ps))"
  obtain c where loop: "visible_loop ps (layers_above ps i) [?canvas] = (c, rects)"
    using assms(5) True by (auto simp: native_build_base_visible_rects_def split: prod.splits option.splits)
  have canvas: "rect_even ?canvas" "rect_nonempty ?canvas"
    using assms(1-4) by (simp_all add: rect_even_def rect_nonempty_def mk_rect_def c_int_def even_signed_take_bit_iff)
  have "length rects \<le> 32" "cover rects p \<le> cover [?canvas] p"
    using visible_loop_keeps_visible [OF loop, of p] by simp_all
  moreover have "q \<in> set rects \<Longrightarrow> rect_even q" "q \<in> set rects \<Longrightarrow> rect_nonempty q"
    using visible_loop_even [OF loop, of q] visible_loop_nonempty [OF loop, of q] canvas by simp_all
  ultimately show ?thesis
    by (auto simp: SBS_NATIVE_OCCLUSION_MAX_RECTS_def canvas_rect_def split: if_split_asm)
next
  case False
  then show ?thesis
    using assms(5) by (simp add: native_build_base_visible_rects_def)
qed

section \<open>A picture of two layers\<close>

lemma native_scale_one:
  assumes "\<bar>v\<bar> < 2 ^ 24"
  shows "native_scale_i32 v (Fin 1) = v" "0 < v \<Longrightarrow> native_scale_u32 v (Fin 1) = v"
proof -
  have "fp_mul binary32 (fp_round binary32 (of_int v)) (Fin 1) = Fin (of_int v)"
    using assms by (simp add: fp_mul_def fp_round_int32)
  moreover have "lround (Fin (of_int v)) = v"
    using assms by (intro lround_int) simp
  ultimately have "lround (fp_mul binary32 (fp_round binary32 (of_int v)) (Fin 1)) = v"
    by (simp only:)
  then show "native_scale_i32 v (Fin 1) = v" "0 < v \<Longrightarrow> native_scale_u32 v (Fin 1) = v"
    using assms by (simp_all add: native_scale_i32_def native_scale_u32_def Let_def)
qed

lemma OPAQUE_MIN_eq: "OPAQUE_MIN = Fin (16760439 / 16777216)"
  unfolding OPAQUE_MIN_def by code_simp

lemma opacity_one: "\<not> fp_less (native_clampf01 (fp_mul binary32 (Fin 1) (Fin 1))) OPAQUE_MIN"
  using fp_round_int32 [of 1] by (simp add: fp_mul_def native_clampf01_def OPAQUE_MIN_eq)

definition sample_item :: "string \<Rightarrow> int \<Rightarrow> int \<Rightarrow> int \<Rightarrow> int \<Rightarrow> comp_item" where
  "sample_item sid x y w h = \<lparr>ci_source_id = sid, ci_visible = True, ci_crop = (Fin 0, Fin 0, Fin 0, Fin 0),
     ci_opacity = Fin 1, ci_filter_flags = 0, ci_lut_path = [], ci_render_x = x, ci_render_y = y,
     ci_render_width = w, ci_render_height = h, ci_flip_horizontal = False, ci_flip_vertical = False,
     ci_rotation_deg = Fin 0, ci_frame_slot = True\<rparr>"

definition sample_texture :: "string \<Rightarrow> u32 \<Rightarrow> alpha_bounds \<Rightarrow> source_texture" where
  "sample_texture sid fmt alpha = \<lparr>tex_source_id = sid, tex_width = 8, tex_height = 8, tex_allocated = True,
     tex_has_content = True, tex_dmabuf_imported = True, tex_y_buf = True, tex_view = True,
     tex_alpha = alpha, tex_drm_format = fmt\<rparr>"

definition full_alpha :: alpha_bounds where
  "full_alpha = \<lparr>alpha_x = 0, alpha_y = 0, alpha_w = 8, alpha_h = 8, alpha_rect_opaque = False\<rparr>"

definition sample_pass :: "comp_item list \<Rightarrow> (nat \<Rightarrow> source_texture) \<Rightarrow> layer_pass" where
  "sample_pass items texs = \<lparr>pass_comp = \<lparr>lc_sources = texs, lc_p010_direct_layout = True, lc_p010_direct = True,
       lc_yuv8_to_p010 = True, lc_amly_to_p010 = True, lc_p010_to_nv21 = True, lc_yuv8_to_nv21 = True,
       lc_amly_to_nv21 = True\<rparr>,
     pass_mode = SBS_EXPORT_COLOR_SDR, pass_items = items, pass_opacity_scale = Fin 1,
     pass_scale_x = Fin 1, pass_scale_y = Fin 1, pass_width = 8, pass_height = 8, pass_ref_items = []\<rparr>"

lemmas sample_defs = sample_item_def sample_texture_def full_alpha_def sample_pass_def

lemmas slot_defs = native_source_texture_slot_for_item_def source_texture_slot_for_item_with_reference_def
  source_texture_slot_for_item_def first_texture_def live_item_of_def SBS_MAX_SOURCE_TEXTURES_def

definition two_layers :: layer_pass where
  "two_layers = sample_pass [sample_item ''a'' 0 0 8 8, sample_item ''b'' 2 2 4 4]
     (\<lambda>i. sample_texture (if i = 0 then ''a'' else ''b'') DRM_NV12 full_alpha)"

lemma two_layers_occluder:
  "native_source_opaque_occluder_rect two_layers 1 = Some (mk_rect 2 2 6 6)"
  by (simp add: native_source_opaque_occluder_rect_def two_layers_def sample_defs Let_def slot_defs
      opacity_one source_texture_matches_item_def item_destination_def native_scale_one opaque_part_def
      source_drm_format_is_rgba_def DRM_NV12_def DRM_FORMAT_ABGR8888_def native_source_can_direct_yuv_def
      native_item_filters_direct_yuv_compatible_def drm_is_yuv8_def DRM_P010_def
      native_rect_clip_canvas_def native_rect_align_full_chroma_cells_def mk_rect_def rect_nonempty_def)

lemma two_layers_above: "layers_above two_layers 0 = [1]"
  by (simp add: layers_above_def two_layers_def sample_pass_def SBS_MAX_SOURCE_TEXTURES_def)

lemma two_layers_base:
  "native_build_base_visible_rects two_layers 0
     = (True, [mk_rect 0 0 8 2, mk_rect 0 6 8 8, mk_rect 0 2 2 6, mk_rect 6 2 8 6])"
proof -
  have "native_rect_subtract_one [mk_rect 0 0 8 8] (mk_rect 2 2 6 6)
      = Some [mk_rect 0 0 8 2, mk_rect 0 6 8 8, mk_rect 0 2 2 6, mk_rect 6 2 8 6]"
    by (simp add: subtract_one_eq cut_all_def cut_pieces_def mk_rect_def rect_nonempty_def)
  moreover have "c_int (pass_width two_layers) = 8" "c_int (pass_height two_layers) = 8" "pass_items two_layers \<noteq> []"
    by (simp_all add: two_layers_def sample_pass_def)
  ultimately show ?thesis
    by (simp add: native_build_base_visible_rects_def two_layers_above two_layers_occluder [simplified])
qed

lemma crop_pixels_zero [simp]: "0 \<le> n \<Longrightarrow> n < 2 ^ 24 \<Longrightarrow> crop_pixels (Fin 0) n = 0"
  using fp_round_int32 [of n] lround_int [of 0]
  by (simp add: crop_pixels_def native_clampf01_def fp_mul_def Let_def del: lround.simps)

lemma fp_round_nonneg: "0 \<le> q \<Longrightarrow> \<not> fp_less (fp_round fmt q) (Fin 0)"
proof (cases "q = 0")
  case False
  assume "0 \<le> q"
  define u where "u = pow2 (max (ilog2 \<bar>q\<bar> - (fp_precision fmt - 1)) (fp_min_ulp fmt))"
  have "0 < u"
    by (simp add: u_def)
  then have "0 \<le> q / u"
    using \<open>0 \<le> q\<close> by simp
  then have "0 \<le> \<lfloor>q / u\<rfloor>"
    by (simp only: zero_le_floor)
  then have "0 \<le> round_half_even (q / u)"
    by (simp only: round_half_even_def Let_def) auto
  then have r: "0 \<le> of_int (round_half_even (q / u)) * u"
    by (simp add: u_def less_imp_le)
  moreover have "- pow2 (fp_overflow fmt) < 0"
    by simp
  ultimately have "\<not> of_int (round_half_even (q / u)) * u \<le> - pow2 (fp_overflow fmt)"
    by linarith
  with r False show ?thesis
    by (simp add: fp_round_def Let_def u_def [symmetric])
qed simp

lemma no_crop [simp]: "\<not> native_item_has_crop (sample_item sid x y w h)"
proof -
  have "\<not> fp_less (fp_round binary32 (1 / 1000000)) (Fin 0)"
    by (simp add: fp_round_nonneg)
  then show ?thesis
    by (simp add: native_item_has_crop_def sample_item_def)
qed



lemma visible_parts_are_whole_cells_witness:
  "rect_even (mk_rect 6 2 8 6) \<and> rect_nonempty (mk_rect 6 2 8 6)"
  using visible_parts_are_whole_cells [OF _ _ _ _ two_layers_base, of "mk_rect 6 2 8 6" "(0, 0)"]
  by (simp add: two_layers_def sample_pass_def)



section \<open>Where the assumptions fail\<close>

text \<open>A texture whose left half is opaque and whose right half is transparent, shown mirrored.\<close>

definition mirrored_layer :: layer_pass where
  "mirrored_layer = sample_pass [(sample_item ''a'' 0 0 8 8)\<lparr>ci_flip_horizontal := True\<rparr>]
     (\<lambda>i. sample_texture ''a'' DRM_FORMAT_ABGR8888
        \<lparr>alpha_x = 0, alpha_y = 0, alpha_w = 4, alpha_h = 8, alpha_rect_opaque = True\<rparr>)"

text \<open>
  A horizontally mirrored RGBA layer whose left half is opaque is drawn in the left half of its
  place, while the right half counts as its opaque part: the two parts of the code disagree where
  the mirrored picture is, and a layer below is left out exactly where nothing is drawn over it.
\<close>

theorem mirrored_layer_hides_wrong_half:
  "native_source_opaque_occluder_rect mirrored_layer 0 = Some (mk_rect 4 0 8 8)
   \<and> map_option drawn_rect (layer_placement mirrored_layer True True 0) = Some (mk_rect 0 0 4 8)"
proof
  show "native_source_opaque_occluder_rect mirrored_layer 0 = Some (mk_rect 4 0 8 8)"
    by (simp add: native_source_opaque_occluder_rect_def mirrored_layer_def sample_defs Let_def slot_defs
        opacity_one source_texture_matches_item_def item_destination_def native_scale_one opaque_part_def
        source_drm_format_is_rgba_def clipped_alpha_def scaled_alpha_def
        native_rect_clip_canvas_def native_rect_align_full_chroma_cells_def mk_rect_def rect_nonempty_def)
  have "\<not> native_item_has_crop ((sample_item ''a'' 0 0 8 8)\<lparr>ci_flip_horizontal := True\<rparr>)"
    using no_crop [of "''a''" 0 0 8 8] by (simp add: native_item_has_crop_def)
  then show "map_option drawn_rect (layer_placement mirrored_layer True True 0) = Some (mk_rect 0 0 4 8)"
    by (simp add: layer_placement_def mirrored_layer_def sample_defs Let_def slot_defs native_apply_item_crop_def
        source_texture_matches_item_def item_destination_def native_scale_one
        rgba_not_direct source_drm_format_is_rgba_def native_crop_rgba_layer_to_alpha_bounds_def
        clipped_alpha_def scaled_alpha_def drawn_rect_def mk_rect_def)
qed

text \<open>
  For an SDR canvas, giving an unfiltered layer a luma key does not change the rectangle it counts
  as opaque in, although the shader then leaves the pixels outside the key range as they are.
\<close>

theorem luma_keyed_layer_counts_as_opaque:
  assumes "pass_mode ps = SBS_EXPORT_COLOR_SDR" "i < length (pass_items ps)"
    and "ci_filter_flags (pass_items ps ! i) = 0" "ci_lut_path (pass_items ps ! i) = []"
  shows "native_source_opaque_occluder_rect
      (ps\<lparr>pass_items := (pass_items ps)[i := (pass_items ps ! i)\<lparr>ci_filter_flags := SBS_COMP_FILTER_LUMA_KEY\<rparr>]\<rparr>) i
    = native_source_opaque_occluder_rect ps i"
proof -
  let ?item = "pass_items ps ! i"
  let ?item' = "?item\<lparr>ci_filter_flags := SBS_COMP_FILTER_LUMA_KEY\<rparr>"
  let ?items = "(pass_items ps)[i := ?item']"
  have live: "live_item_of ?items = live_item_of (pass_items ps)"
    using assms(2) by (auto simp: fun_eq_iff live_item_of_def nth_list_update)
  have fields: "ci_source_id (?items ! k) = ci_source_id (pass_items ps ! k)"
    "ci_visible (?items ! k) = ci_visible (pass_items ps ! k)"
    "ci_frame_slot (?items ! k) = ci_frame_slot (pass_items ps ! k)" for k
    using assms(2) by (auto simp: nth_list_update)
  have slot: "native_source_texture_slot_for_item c ?items i ref = native_source_texture_slot_for_item c (pass_items ps) i ref" for c ref
    unfolding native_source_texture_slot_for_item_def source_texture_slot_for_item_with_reference_def
      source_texture_slot_for_item_def live fields length_list_update ..
  have direct: "native_source_can_direct_yuv c SBS_EXPORT_COLOR_SDR tex ?item' = native_source_can_direct_yuv c SBS_EXPORT_COLOR_SDR tex ?item" for c tex
  proof -
    have "native_item_filters_direct_yuv_compatible ?item' SBS_EXPORT_COLOR_SDR"
      using assms(4)
      by (simp add: native_item_filters_direct_yuv_compatible_def SBS_COMP_FILTER_LUMA_KEY_def
          SBS_COMP_FILTER_GRAYSCALE_def SBS_COMP_FILTER_BRIGHTNESS_def SBS_COMP_FILTER_CONTRAST_def
          SBS_COMP_FILTER_HDR_TO_SDR_LUT_def SBS_COMP_FILTER_COLOR_CORRECTION_def SBS_COMP_FILTER_SDR_TO_HDR_def)
    moreover have "native_item_filters_direct_yuv_compatible ?item SBS_EXPORT_COLOR_SDR"
      using assms(3) by (simp add: native_item_filters_direct_yuv_compatible_def)
    ultimately show ?thesis
      by (simp add: native_source_can_direct_yuv_def)
  qed
  have part: "opaque_part (ps\<lparr>pass_items := ?items\<rparr>) ?item' tex dst = opaque_part ps ?item tex dst" for tex dst
  proof -
    have flips: "ci_flip_horizontal ?item' = ci_flip_horizontal ?item" "ci_flip_vertical ?item' = ci_flip_vertical ?item"
      and pass: "pass_comp (ps\<lparr>pass_items := ?items\<rparr>) = pass_comp ps" "pass_mode (ps\<lparr>pass_items := ?items\<rparr>) = SBS_EXPORT_COLOR_SDR"
      using assms(1) by simp_all
    show ?thesis
      unfolding opaque_part_def flips pass direct assms(1) ..
  qed
  have dst: "item_destination (ps\<lparr>pass_items := ?items\<rparr>) ?item' = item_destination ps ?item"
    by (simp add: item_destination_def)
  let ?ps = "ps\<lparr>pass_items := ?items\<rparr>"
  have pass: "pass_items ?ps = ?items" "pass_comp ?ps = pass_comp ps" "pass_ref_items ?ps = pass_ref_items ps"
    "pass_width ?ps = pass_width ps" "pass_height ?ps = pass_height ps" "pass_opacity_scale ?ps = pass_opacity_scale ps"
    and item: "?items ! i = ?item'"
    and same: "ci_visible ?item' = ci_visible ?item" "ci_render_width ?item' = ci_render_width ?item"
      "ci_render_height ?item' = ci_render_height ?item" "ci_opacity ?item' = ci_opacity ?item"
      "ci_rotation_deg ?item' = ci_rotation_deg ?item"
      "\<And>tex. source_texture_matches_item tex ?item' = source_texture_matches_item tex ?item"
    using assms(2) by (simp_all add: source_texture_matches_item_def)
  show ?thesis
    unfolding native_source_opaque_occluder_rect_def Let_def pass item same part dst slot length_list_update ..
qed

lemma luma_keyed_layer_counts_as_opaque_witness:
  "native_source_opaque_occluder_rect
     (two_layers\<lparr>pass_items := (pass_items two_layers)[1 := (pass_items two_layers ! 1)\<lparr>ci_filter_flags := SBS_COMP_FILTER_LUMA_KEY\<rparr>]\<rparr>) 1
   = Some (mk_rect 2 2 6 6)"
  using luma_keyed_layer_counts_as_opaque [of two_layers 1] two_layers_occluder
  by (simp add: two_layers_def sample_pass_def sample_item_def)

section \<open>Where a layer reads its texture\<close>








section \<open>Texture slots\<close>

lemma first_texture_cases:
  "first_texture P n = (if \<exists>k < min n SBS_MAX_SOURCE_TEXTURES. P k
     then Some (LEAST k. P k) else None)"
proof (cases "\<exists>k < min n SBS_MAX_SOURCE_TEXTURES. P k")
  case True
  then obtain k where k: "k < min n SBS_MAX_SOURCE_TEXTURES" "P k"
    by blast
  define l where "l = (LEAST k. P k)"
  have l: "l \<le> k" "P l" "\<And>m. m < l \<Longrightarrow> \<not> P m"
    using k(2) by (auto simp: l_def intro: Least_le LeastI dest: not_less_Least)
  then have "find P [0..<min n SBS_MAX_SOURCE_TEXTURES] = Some l"
    using k(1) unfolding find_Some_iff by (intro exI [of _ l]) simp
  then have "find P [0..<min n SBS_MAX_SOURCE_TEXTURES] = Some (LEAST k. P k)"
    by (simp only: l_def)
  with True show ?thesis
    by (simp add: first_texture_def)
qed (auto simp: first_texture_def find_None_iff)

lemma slot_is_first:
  assumes "i < length items" "length items \<le> SBS_MAX_SOURCE_TEXTURES" "live_item_of items (ci_source_id (items ! i)) i"
  shows "source_texture_slot_for_item items i = (LEAST k. live_item_of items (ci_source_id (items ! i)) k)"
proof (cases "\<exists>k < i. live_item_of items (ci_source_id (items ! i)) k")
  case True
  then show ?thesis
    using assms by (auto simp: source_texture_slot_for_item_def first_texture_cases)
next
  case False
  then have "(LEAST k. live_item_of items (ci_source_id (items ! i)) k) = i"
    using assms(3) by (intro Least_equality) (auto simp: not_less [symmetric])
  with False show ?thesis
    using assms by (auto simp: source_texture_slot_for_item_def first_texture_cases)
qed

text \<open>
  C1. Outside a transition two visible items with a frame use the same texture slot exactly when they
  show the same source, and the slot is the index of an item that shows it.
\<close>

theorem texture_slot_per_source:
  assumes "length items \<le> SBS_MAX_SOURCE_TEXTURES" "i < length items" "j < length items"
    and "ci_visible (items ! i)" "ci_frame_slot (items ! i)" "ci_visible (items ! j)" "ci_frame_slot (items ! j)"
  shows "(source_texture_slot_for_item_with_reference items i [] = source_texture_slot_for_item_with_reference items j []
      \<longleftrightarrow> ci_source_id (items ! i) = ci_source_id (items ! j))
    \<and> source_texture_slot_for_item_with_reference items i [] \<le> i
    \<and> ci_source_id (items ! source_texture_slot_for_item_with_reference items i []) = ci_source_id (items ! i)"
proof -
  let ?live = "\<lambda>n. live_item_of items (ci_source_id (items ! n))"
  have live: "?live i i" "?live j j"
    using assms by (simp_all add: live_item_of_def)
  have no_ref: "source_texture_slot_for_item_with_reference items n [] = source_texture_slot_for_item items n" for n
    by (cases "n \<ge> length items") (simp_all only: source_texture_slot_for_item_with_reference_def source_texture_slot_for_item_def if_True if_False simp_thms)
  note eq = no_ref slot_is_first [OF assms(2,1) live(1)] slot_is_first [OF assms(3,1) live(2)]
  have least: "?live i (LEAST k. ?live i k)" "?live j (LEAST k. ?live j k)" "(LEAST k. ?live i k) \<le> i"
    using live by (auto intro: LeastI Least_le)
  then have sid: "ci_source_id (items ! (LEAST k. ?live i k)) = ci_source_id (items ! i)"
    "ci_source_id (items ! (LEAST k. ?live j k)) = ci_source_id (items ! j)"
    by (simp_all add: live_item_of_def)
  then show ?thesis
    unfolding eq using least(3) by metis
qed

lemma texture_slot_per_source_witness:
  "source_texture_slot_for_item_with_reference [sample_item ''a'' 0 0 1 1, sample_item ''b'' 0 0 1 1, sample_item ''a'' 2 2 1 1] 2 []
   = source_texture_slot_for_item_with_reference [sample_item ''a'' 0 0 1 1, sample_item ''b'' 0 0 1 1, sample_item ''a'' 2 2 1 1] 0 []"
  using texture_slot_per_source [of "[sample_item ''a'' 0 0 1 1, sample_item ''b'' 0 0 1 1, sample_item ''a'' 2 2 1 1]" 2 0]
  by (simp add: sample_item_def SBS_MAX_SOURCE_TEXTURES_def)

end
