(* ===== verification/Output_Router.thy ===== *)
theory Output_Router
  imports Native_Canvas "HOL-Library.Multiset"
begin

text \<open>
  The hand-over of canvas leases in the output router (\<open>src/server/engine/output_router.c\<close>): the
  export thread takes leases from the mailboxes of the canvas and gives them to the encoder thread
  through a queue of two and to the preview thread through one place; the encoder thread keeps the
  last leases while B-frames may still refer to them. A lease is a canvas entry in use until it is
  released. The sections under a mutex are atomic steps; the release after such a section touches
  no state of the router and belongs to the step. What a lease carries for its readers only (layout
  and mapping) is left out.
\<close>

section \<open>Leases\<close>

record canvas_lease =
  cl_entry_idx :: nat
  cl_frame_number :: u64
  cl_content_frame_number :: u64
  cl_backing_fd :: int
  cl_backing_size :: nat
  cl_color_mode :: export_color_mode

definition native_encoder_clear_lease :: canvas_lease where
  "native_encoder_clear_lease = \<lparr>cl_entry_idx = 0, cl_frame_number = 0, cl_content_frame_number = 0,
     cl_backing_fd = -1, cl_backing_size = 0, cl_color_mode = SBS_EXPORT_COLOR_SDR\<rparr>"

definition native_encoder_lease_valid :: "canvas_lease \<Rightarrow> bool" where
  "native_encoder_lease_valid lease \<longleftrightarrow> cl_backing_fd lease \<ge> 0 \<and> cl_backing_size lease > 0"

lemma cleared_lease_invalid [simp]: "\<not> native_encoder_lease_valid native_encoder_clear_lease"
  by (simp add: native_encoder_lease_valid_def native_encoder_clear_lease_def)

section \<open>The router\<close>

definition SBS_NATIVE_ENCODER_QUEUE_CAPACITY :: nat where "SBS_NATIVE_ENCODER_QUEUE_CAPACITY = 2"
definition SBS_NATIVE_ENCODER_RETAIN_CAPACITY :: nat where "SBS_NATIVE_ENCODER_RETAIN_CAPACITY = 16"
definition SBS_NATIVE_ENCODER_BFRAME_RETAIN_COUNT :: nat where "SBS_NATIVE_ENCODER_BFRAME_RETAIN_COUNT = 8"

lemmas encoder_limits = SBS_NATIVE_ENCODER_QUEUE_CAPACITY_def SBS_NATIVE_ENCODER_RETAIN_CAPACITY_def
  SBS_NATIVE_ENCODER_BFRAME_RETAIN_COUNT_def

text \<open>\<open>released\<close> lists the leases given back to the compositor, in the order of the calls.\<close>

record router =
  encoder_mgr :: bool
  encoder_thread_running :: bool
  encoder_queue_head :: nat
  encoder_queue_count :: nat
  encoder_queue_leases :: "canvas_lease list"
  encoder_retain_head :: nat
  encoder_retain_count :: nat
  encoder_retained_leases :: "canvas_lease list"
  encoder_frames_submitted :: u64
  encoder_frames_dropped :: u64
  encoder_last_content_frame :: u64
  encoder_duplicate_frames_skipped :: u64
  preview_engine :: bool
  preview_thread_running :: bool
  preview_has_pending :: bool
  preview_pending_lease :: canvas_lease
  preview_frames_submitted :: u64
  preview_frames_dropped :: u64
  frames_distributed :: u64
  released :: "canvas_lease list"

definition sbs_output_router_new :: router where
  "sbs_output_router_new = \<lparr>encoder_mgr = False, encoder_thread_running = True,
     encoder_queue_head = 0, encoder_queue_count = 0,
     encoder_queue_leases = replicate SBS_NATIVE_ENCODER_QUEUE_CAPACITY native_encoder_clear_lease,
     encoder_retain_head = 0, encoder_retain_count = 0,
     encoder_retained_leases = replicate SBS_NATIVE_ENCODER_RETAIN_CAPACITY native_encoder_clear_lease,
     encoder_frames_submitted = 0, encoder_frames_dropped = 0, encoder_last_content_frame = 0,
     encoder_duplicate_frames_skipped = 0, preview_engine = False, preview_thread_running = True,
     preview_has_pending = False, preview_pending_lease = native_encoder_clear_lease,
     preview_frames_submitted = 0, preview_frames_dropped = 0, frames_distributed = 0, released = []\<rparr>"

definition native_encoder_release_lease :: "canvas_lease \<Rightarrow> router \<Rightarrow> router" where
  "native_encoder_release_lease lease r =
     (if native_encoder_lease_valid lease then r\<lparr>released := released r @ [lease]\<rparr> else r)"

subsection \<open>The queue to the encoder thread\<close>

text \<open>Take the lease at the head of the queue and clear its cell.\<close>

definition queue_take :: "router \<Rightarrow> canvas_lease \<times> router" where
  "queue_take r =
     (encoder_queue_leases r ! encoder_queue_head r,
      r\<lparr>encoder_queue_head := (encoder_queue_head r + 1) mod SBS_NATIVE_ENCODER_QUEUE_CAPACITY,
        encoder_queue_count := encoder_queue_count r - 1,
        encoder_queue_leases := (encoder_queue_leases r)[encoder_queue_head r := native_encoder_clear_lease]\<rparr>)"

text \<open>A full queue drops its oldest lease.\<close>

definition queue_drop :: "router \<Rightarrow> canvas_lease \<times> router" where
  "queue_drop r =
     (if encoder_queue_count r \<ge> SBS_NATIVE_ENCODER_QUEUE_CAPACITY
      then let (lease, r) = queue_take r in
        (lease, r\<lparr>encoder_frames_dropped := encoder_frames_dropped r + 1\<rparr>)
      else (native_encoder_clear_lease, r))"

definition queue_store :: "canvas_lease \<Rightarrow> router \<Rightarrow> router" where
  "queue_store lease r =
     (let tail = (encoder_queue_head r + encoder_queue_count r) mod SBS_NATIVE_ENCODER_QUEUE_CAPACITY
      in r\<lparr>encoder_queue_count := encoder_queue_count r + 1,
           encoder_queue_leases := (encoder_queue_leases r)[tail := lease]\<rparr>)"

definition native_encoder_enqueue_lease :: "canvas_lease \<Rightarrow> router \<Rightarrow> bool \<times> router" where
  "native_encoder_enqueue_lease lease r =
     (if \<not> native_encoder_lease_valid lease \<or> \<not> encoder_mgr r \<or> \<not> encoder_thread_running r then (False, r)
      else case queue_drop r of (dropped, r) \<Rightarrow>
        (True, native_encoder_release_lease dropped (queue_store lease r)))"

subsection \<open>Leases kept for B-frames\<close>

definition release_oldest_retained :: "router \<Rightarrow> router" where
  "release_oldest_retained r =
     (let lease = encoder_retained_leases r ! encoder_retain_head r;
          r = native_encoder_release_lease lease r
      in r\<lparr>encoder_retain_head := (encoder_retain_head r + 1) mod SBS_NATIVE_ENCODER_RETAIN_CAPACITY,
           encoder_retain_count := encoder_retain_count r - 1,
           encoder_retained_leases := (if native_encoder_lease_valid lease
             then (encoder_retained_leases r)[encoder_retain_head r := native_encoder_clear_lease]
             else encoder_retained_leases r)\<rparr>)"

lemma release_oldest_retained_count [simp]:
  "encoder_retain_count (release_oldest_retained r) = encoder_retain_count r - 1"
  by (simp add: release_oldest_retained_def Let_def native_encoder_release_lease_def)

function release_retained_above :: "nat \<Rightarrow> router \<Rightarrow> router" where
  "release_retained_above n r =
     (if encoder_retain_count r > n then release_retained_above n (release_oldest_retained r) else r)"
  by auto

termination
  by (relation "measure (\<lambda>(n, r). encoder_retain_count r)") auto

declare release_retained_above.simps [simp del]

definition retain_store :: "canvas_lease \<Rightarrow> router \<Rightarrow> router" where
  "retain_store lease r =
     (let r = (if encoder_retain_count r \<ge> SBS_NATIVE_ENCODER_RETAIN_CAPACITY then release_oldest_retained r else r);
          tail = (encoder_retain_head r + encoder_retain_count r) mod SBS_NATIVE_ENCODER_RETAIN_CAPACITY;
          r = r\<lparr>encoder_retain_count := encoder_retain_count r + 1,
                encoder_retained_leases := (encoder_retained_leases r)[tail := lease]\<rparr>
      in release_retained_above SBS_NATIVE_ENCODER_BFRAME_RETAIN_COUNT r)"

definition native_encoder_retain_lease :: "canvas_lease \<Rightarrow> router \<Rightarrow> router" where
  "native_encoder_retain_lease lease r =
     (if \<not> native_encoder_lease_valid lease then r else retain_store lease r)"

definition native_encoder_release_retained_leases :: "router \<Rightarrow> router" where
  "native_encoder_release_retained_leases r =
     (release_retained_above 0 r)\<lparr>encoder_retain_head := 0\<rparr>"

text \<open>The encoder can make B-frames with these patterns of pictures.\<close>

definition native_encoder_bframes_enabled :: "nat \<Rightarrow> bool" where
  "native_encoder_bframes_enabled gop_pattern \<longleftrightarrow> gop_pattern \<in> {1, 2, 3, 6, 7}"

text \<open>
  The end of one round of the encoder thread with the lease it took: \<open>encoder\<close> is the encoder manager
  read with the lease and its pattern of pictures, \<open>dup_ok\<close> whether the descriptor could be
  duplicated for it.
\<close>

definition encoder_finish :: "canvas_lease \<Rightarrow> nat option \<Rightarrow> bool \<Rightarrow> router \<Rightarrow> router" where
  "encoder_finish lease encoder dup_ok r =
     (case encoder of
        None \<Rightarrow> native_encoder_release_lease lease r
      | Some gop_pattern \<Rightarrow>
          if \<not> native_encoder_lease_valid lease then native_encoder_release_lease lease r
          else let r = (if dup_ok then r\<lparr>encoder_frames_submitted := encoder_frames_submitted r + 1\<rparr> else r) in
            if dup_ok \<and> native_encoder_bframes_enabled gop_pattern
            then native_encoder_retain_lease lease r
            else native_encoder_release_lease lease (native_encoder_release_retained_leases r))"

subsection \<open>The place for the preview thread\<close>

definition preview_take :: "router \<Rightarrow> canvas_lease \<times> router" where
  "preview_take r =
     (preview_pending_lease r, r\<lparr>preview_has_pending := False, preview_pending_lease := native_encoder_clear_lease\<rparr>)"

definition native_preview_enqueue_lease :: "canvas_lease \<Rightarrow> router \<Rightarrow> bool \<times> router" where
  "native_preview_enqueue_lease lease r =
     (if \<not> native_encoder_lease_valid lease \<or> \<not> preview_engine r \<or> \<not> preview_thread_running r then (False, r)
      else let
        (dropped, r) =
          (if preview_has_pending r
           then let (lease, r) = preview_take r in (lease, r\<lparr>preview_frames_dropped := preview_frames_dropped r + 1\<rparr>)
           else (native_encoder_clear_lease, r));
        r = r\<lparr>preview_has_pending := True, preview_pending_lease := lease\<rparr>
      in (True, native_encoder_release_lease dropped r))"

definition preview_finish :: "canvas_lease \<Rightarrow> bool \<Rightarrow> bool \<Rightarrow> router \<Rightarrow> router" where
  "preview_finish lease preview dup_ok r =
     (let r = (if preview \<and> native_encoder_lease_valid lease \<and> dup_ok
               then r\<lparr>preview_frames_submitted := preview_frames_submitted r + 1\<rparr> else r)
      in native_encoder_release_lease lease r)"

subsection \<open>What the export thread does with a lease\<close>

text \<open>
  The conditions of one frame: the number of outputs and of encoder sinks, whether the environment
  asks for duplicate frames to be encoded, and to how many workers the frame could be sent.
\<close>

record frame_conditions =
  fc_output_count :: nat
  fc_encoder_sinks :: nat
  fc_encode_duplicates :: bool
  fc_sent :: nat

definition native_encoder_content_already_queued :: "u64 \<Rightarrow> router \<Rightarrow> bool" where
  "native_encoder_content_already_queued content r \<longleftrightarrow> content \<noteq> 0 \<and> encoder_last_content_frame r = content"

definition native_encoder_note_content_queued :: "u64 \<Rightarrow> router \<Rightarrow> router" where
  "native_encoder_note_content_queued content r =
     (if content = 0 then r else r\<lparr>encoder_last_content_frame := content\<rparr>)"

text \<open>
  The result says whether the frame was delivered and whether the encoder got the lease. The sinks were
  counted when an encoder manager was set.
\<close>

definition deliver_to_encoder :: "frame_conditions \<Rightarrow> canvas_lease \<Rightarrow> router \<Rightarrow> bool \<times> bool \<times> router" where
  "deliver_to_encoder fc lease r =
     (if fc_encoder_sinks fc = 0 then (False, False, r)
      else let content = (if cl_content_frame_number lease \<noteq> 0 then cl_content_frame_number lease else cl_frame_number lease) in
        if \<not> fc_encode_duplicates fc \<and> native_encoder_content_already_queued content r
        then (True, False, r\<lparr>encoder_duplicate_frames_skipped := encoder_duplicate_frames_skipped r + 1\<rparr>)
        else (case native_encoder_enqueue_lease lease r of
            (True, r) \<Rightarrow> (True, True, native_encoder_note_content_queued content r)
          | (False, r) \<Rightarrow> (False, False, r)))"

definition deliver_program :: "frame_conditions \<Rightarrow> canvas_lease \<Rightarrow> router \<Rightarrow> bool \<times> router" where
  "deliver_program fc lease r =
     (let
        sent = cl_color_mode lease = SBS_EXPORT_COLOR_SDR \<and> fc_output_count fc > 0 \<and> fc_sent fc > 0;
        r = (if sent then r\<lparr>frames_distributed := frames_distributed r + 1\<rparr> else r);
        (delivered, transferred, r) = deliver_to_encoder fc lease r
      in (sent \<or> delivered, if transferred then r else native_encoder_release_lease lease r))"

text \<open>A lease for a snapshot is released at once; one for the preview unless the thread got it.\<close>

definition deliver_snapshot :: "canvas_lease \<Rightarrow> router \<Rightarrow> router" where
  "deliver_snapshot lease r = native_encoder_release_lease lease r"

definition deliver_preview :: "canvas_lease \<Rightarrow> router \<Rightarrow> bool \<times> router" where
  "deliver_preview lease r =
     (case native_preview_enqueue_lease lease r of
        (True, r) \<Rightarrow> (True, r)
      | (False, r) \<Rightarrow> (False, native_encoder_release_lease lease r))"

section \<open>The two rings\<close>

definition queue_view :: "router \<Rightarrow> canvas_lease list" where
  "queue_view r = ring_list (encoder_queue_leases r) (encoder_queue_head r) (encoder_queue_count r)"

definition retained_view :: "router \<Rightarrow> canvas_lease list" where
  "retained_view r = ring_list (encoder_retained_leases r) (encoder_retain_head r) (encoder_retain_count r)"

definition queue_wf :: "router \<Rightarrow> bool" where
  "queue_wf r \<longleftrightarrow> length (encoder_queue_leases r) = 2 \<and> encoder_queue_head r < 2 \<and> encoder_queue_count r \<le> 2"

definition retained_wf :: "router \<Rightarrow> bool" where
  "retained_wf r \<longleftrightarrow> length (encoder_retained_leases r) = 16 \<and> encoder_retain_head r < 16 \<and> encoder_retain_count r \<le> 16"

lemma release_lease_fields [simp]:
  "queue_view (native_encoder_release_lease l r) = queue_view r"
  "retained_view (native_encoder_release_lease l r) = retained_view r"
  "queue_wf (native_encoder_release_lease l r) = queue_wf r"
  "retained_wf (native_encoder_release_lease l r) = retained_wf r"
  "encoder_mgr (native_encoder_release_lease l r) = encoder_mgr r"
  "encoder_thread_running (native_encoder_release_lease l r) = encoder_thread_running r"
  "preview_engine (native_encoder_release_lease l r) = preview_engine r"
  "preview_thread_running (native_encoder_release_lease l r) = preview_thread_running r"
  "preview_has_pending (native_encoder_release_lease l r) = preview_has_pending r"
  "preview_pending_lease (native_encoder_release_lease l r) = preview_pending_lease r"
  "released (native_encoder_release_lease l r) = released r @ (if native_encoder_lease_valid l then [l] else [])"
  by (simp_all add: native_encoder_release_lease_def queue_view_def retained_view_def queue_wf_def retained_wf_def)

lemma queue_take_result:
  assumes "queue_wf r" "0 < encoder_queue_count r" "queue_take r = (l, r')"
  shows "queue_wf r'" "queue_view r = l # queue_view r'" "encoder_queue_count r' = encoder_queue_count r - 1"
proof -
  let ?xs = "encoder_queue_leases r" and ?h = "encoder_queue_head r" and ?c = "encoder_queue_count r - 1"
  have r': "l = ?xs ! ?h" "r' = snd (queue_take r)"
    using assms(3) by (auto simp: queue_take_def)
  show "queue_wf r'" "encoder_queue_count r' = encoder_queue_count r - 1"
    using assms(1) by (auto simp: r' queue_take_def queue_wf_def encoder_limits)
  have bounds: "?h < length ?xs" "?c < length ?xs" and c: "encoder_queue_count r = Suc ?c" and len: "length ?xs = 2"
    using assms(1,2) by (auto simp: queue_wf_def)
  have "queue_view r = ?xs ! ?h # ring_list ?xs ((?h + 1) mod length ?xs) ?c"
    using ring_list_Cons [OF bounds(1), of ?c] c by (simp add: queue_view_def)
  also have "ring_list ?xs ((?h + 1) mod length ?xs) ?c = queue_view r'"
    using ring_list_head_update [OF bounds, of native_encoder_clear_lease] len
    by (simp add: r' queue_take_def queue_view_def encoder_limits)
  finally show "queue_view r = l # queue_view r'"
    by (simp add: r')
qed

lemma queue_store_result:
  assumes "queue_wf r" "encoder_queue_count r < 2"
  shows "queue_wf (queue_store l r)" "queue_view (queue_store l r) = queue_view r @ [l]"
  using assms ring_list_push [of "encoder_queue_count r" "encoder_queue_leases r" "encoder_queue_head r" l]
  by (auto simp: queue_store_def queue_wf_def queue_view_def Let_def encoder_limits)

lemma queue_drop_result:
  assumes "queue_wf r" "queue_drop r = (d, r')"
  shows "queue_wf r'" "encoder_queue_count r' < 2"
    "queue_view r = (if encoder_queue_count r = 2 then [d] else []) @ queue_view r'"
    "encoder_queue_count r < 2 \<Longrightarrow> d = native_encoder_clear_lease"
proof -
  obtain l q where take: "queue_take r = (l, q)"
    by (cases "queue_take r")
  show "queue_wf r'" "encoder_queue_count r' < 2"
    "queue_view r = (if encoder_queue_count r = 2 then [d] else []) @ queue_view r'"
    "encoder_queue_count r < 2 \<Longrightarrow> d = native_encoder_clear_lease"
    using assms queue_take_result [OF assms(1) _ take] take
    by (auto simp: queue_drop_def encoder_limits queue_wf_def queue_view_def split: if_splits)
qed

text \<open>The queue to the encoder thread is a queue of two that drops its oldest lease.\<close>

interpretation enc_queue: drop_oldest_queue queue_wf queue_view 2 "\<lambda>l r. queue_store l (snd (queue_drop r))"
  "\<lambda>r. if encoder_queue_count r = 2 then Some (fst (queue_drop r)) else None"
proof unfold_locales
  fix r :: router and l
  assume wf: "queue_wf r"
  obtain d r' where drop: "queue_drop r = (d, r')"
    by (cases "queue_drop r")
  note res = queue_drop_result [OF wf drop] queue_store_result [OF queue_drop_result(1,2) [OF wf drop], of l]
  have len: "length (queue_view r) = encoder_queue_count r" "encoder_queue_count r \<le> 2"
    using wf by (simp_all add: queue_view_def queue_wf_def)
  show "length (queue_view r) \<le> 2"
    using len by simp
  show "queue_wf (queue_store l (snd (queue_drop r)))"
    using res by (simp add: drop)
  show "queue_view (queue_store l (snd (queue_drop r)))
      = (if length (queue_view r) = 2 then tl (queue_view r) else queue_view r) @ [l]"
    using res len by (simp add: drop)
  show "(if encoder_queue_count r = 2 then Some (fst (queue_drop r)) else None)
      = (if length (queue_view r) = 2 then Some (hd (queue_view r)) else None)"
    using res len by (simp add: drop)
qed simp

text \<open>The retained leases.\<close>

lemma release_oldest_result:
  assumes "retained_wf r" "0 < encoder_retain_count r"
  defines "l \<equiv> hd (retained_view r)"
  shows "retained_wf (release_oldest_retained r)" "retained_view r = l # retained_view (release_oldest_retained r)"
    "released (release_oldest_retained r) = released r @ (if native_encoder_lease_valid l then [l] else [])"
proof -
  let ?xs = "encoder_retained_leases r" and ?h = "encoder_retain_head r" and ?c = "encoder_retain_count r - 1"
  let ?ys = "if native_encoder_lease_valid (?xs ! ?h) then ?xs[?h := native_encoder_clear_lease] else ?xs"
  have bounds: "?h < length ?xs" "?c < length ?xs" and c: "encoder_retain_count r = Suc ?c" and len: "length ?xs = 16"
    using assms(1,2) by (auto simp: retained_wf_def)
  have view: "retained_view r = ?xs ! ?h # ring_list ?xs ((?h + 1) mod length ?xs) ?c"
    using ring_list_Cons [OF bounds(1), of ?c] c by (simp add: retained_view_def)
  then have l: "l = ?xs ! ?h"
    by (simp add: l_def)
  have "ring_list ?ys ((?h + 1) mod length ?xs) ?c = ring_list ?xs ((?h + 1) mod length ?xs) ?c"
    using ring_list_head_update [OF bounds, of native_encoder_clear_lease] by simp
  moreover have "retained_view (release_oldest_retained r) = ring_list ?ys ((?h + 1) mod 16) ?c"
    by (simp add: release_oldest_retained_def Let_def retained_view_def native_encoder_release_lease_def encoder_limits)
  ultimately show "retained_view r = l # retained_view (release_oldest_retained r)"
    using view l len by simp
  show "retained_wf (release_oldest_retained r)"
    using assms(1) by (simp add: release_oldest_retained_def Let_def retained_wf_def native_encoder_release_lease_def encoder_limits) arith
  show "released (release_oldest_retained r) = released r @ (if native_encoder_lease_valid l then [l] else [])"
    by (simp add: release_oldest_retained_def Let_def l native_encoder_release_lease_def)
qed

definition retained_valid :: "router \<Rightarrow> bool" where
  "retained_valid r \<longleftrightarrow> (\<forall>l \<in> set (retained_view r). native_encoder_lease_valid l)"

lemma length_views [simp]:
  "length (queue_view r) = encoder_queue_count r" "length (retained_view r) = encoder_retain_count r"
  by (simp_all add: queue_view_def retained_view_def)

lemma release_above_result:
  assumes "retained_wf r"
  shows "retained_wf (release_retained_above n r)
    \<and> retained_view (release_retained_above n r) = drop (encoder_retain_count r - n) (retained_view r)
    \<and> released (release_retained_above n r) = released r
        @ filter native_encoder_lease_valid (take (encoder_retain_count r - n) (retained_view r))"
  using assms
proof (induction n r rule: release_retained_above.induct)
  case (1 n r)
  show ?case
  proof (cases "encoder_retain_count r > n")
    case True
    note step = release_oldest_result [OF 1(2)]
    let ?l = "hd (retained_view r)" and ?q = "release_oldest_retained r"
    have pos: "0 < encoder_retain_count r"
      using True by simp
    obtain m where m: "encoder_retain_count r - n = Suc m" "encoder_retain_count ?q - n = m"
      using True by (cases "encoder_retain_count r - n") auto
    have IH: "retained_wf (release_retained_above n ?q)"
      "retained_view (release_retained_above n ?q) = drop m (retained_view ?q)"
      "released (release_retained_above n ?q) = released ?q @ filter native_encoder_lease_valid (take m (retained_view ?q))"
      using 1(1) [OF True step(1) [OF pos]] m(2) by (simp_all del: release_oldest_retained_count)
    obtain x xs where xs: "retained_view r = x # xs" "retained_view ?q = xs" "?l = x"
      using step(2) [OF pos] by auto
    have "released ?q = released r @ (if native_encoder_lease_valid x then [x] else [])"
      using step(3) [OF pos] xs(3) by simp
    then show ?thesis
      using True IH m(1) by (simp add: release_retained_above.simps [of n r] xs)
  qed (use 1 in \<open>simp add: release_retained_above.simps [of n r]\<close>)
qed

lemma retain_store_result:
  assumes "retained_wf r" "encoder_retain_count r \<le> 8"
  shows "retained_wf (retain_store l r)"
    "retained_view (retain_store l r) = drop (encoder_retain_count r - 7) (retained_view r @ [l])"
    "released (retain_store l r) = released r
       @ filter native_encoder_lease_valid (take (encoder_retain_count r - 7) (retained_view r))"
proof -
  let ?tail = "(encoder_retain_head r + encoder_retain_count r) mod 16"
  let ?q = "r\<lparr>encoder_retain_count := encoder_retain_count r + 1,
              encoder_retained_leases := (encoder_retained_leases r)[?tail := l]\<rparr>"
  have store: "retain_store l r = release_retained_above 8 ?q"
    using assms(2) by (simp add: retain_store_def Let_def encoder_limits)
  have wf: "retained_wf ?q"
    using assms by (auto simp: retained_wf_def)
  have view: "retained_view ?q = retained_view r @ [l]"
    using ring_list_push [of "encoder_retain_count r" "encoder_retained_leases r" "encoder_retain_head r" l] assms
    by (simp add: retained_view_def retained_wf_def)
  have "take (encoder_retain_count r - 7) (retained_view r @ [l]) = take (encoder_retain_count r - 7) (retained_view r)"
    by simp
  then show "retained_wf (retain_store l r)"
    "retained_view (retain_store l r) = drop (encoder_retain_count r - 7) (retained_view r @ [l])"
    "released (retain_store l r) = released r
       @ filter native_encoder_lease_valid (take (encoder_retain_count r - 7) (retained_view r))"
    using release_above_result [OF wf, of 8] unfolding store view by simp_all
qed

lemma retain_store_view:
  assumes "retained_wf r" "encoder_retain_count r \<le> 8"
  shows "retained_view (retain_store l r)
    = (if encoder_retain_count r = 8 then tl (retained_view r) else retained_view r) @ [l]"
proof (cases "encoder_retain_count r = 8")
  case True
  then have "retained_view r \<noteq> []"
    by (metis length_views(2) list.size(3) zero_neq_numeral)
  then show ?thesis
    using retain_store_result(2) [OF assms, of l] True by (cases "retained_view r") simp_all
next
  case False
  then show ?thesis
    using retain_store_result(2) [OF assms, of l] assms(2) by simp
qed

lemma retain_store_count:
  assumes "retained_wf r" "encoder_retain_count r \<le> 8"
  shows "encoder_retain_count (retain_store l r) \<le> 8"
proof -
  have "encoder_retain_count (retain_store l r)
      = length ((if encoder_retain_count r = 8 then tl (retained_view r) else retained_view r) @ [l])"
    by (simp only: retain_store_view [OF assms, symmetric] length_views)
  then show ?thesis
    using assms(2) by simp
qed

text \<open>The leases kept for B-frames are a queue of eight that drops its oldest lease.\<close>

interpretation kept: drop_oldest_queue "\<lambda>r. retained_wf r \<and> encoder_retain_count r \<le> 8" retained_view 8 retain_store
  "\<lambda>r. if encoder_retain_count r = 8 then Some (hd (retained_view r)) else None"
  by unfold_locales (auto simp: retain_store_view retain_store_result(1) retain_store_count)

end
