(* ===== verification/Output_Handover.thy ===== *)
theory Output_Handover
  imports Output_Router
begin

text \<open>
  The threads of the output router (\<open>src/server/engine/output_router.c\<close>) as steps between the
  sections under its mutexes: the export thread hands leases over, the encoder and preview threads
  take them and finish with them, the main thread sets the consumers and finally stops and joins the
  threads in \<open>sbs_output_router_free\<close>. The lemmas follow every lease from the mailbox to its release.
\<close>

section \<open>Stopping\<close>

definition stop_preview :: "router \<Rightarrow> router" where
  "stop_preview r =
     (let r = r\<lparr>preview_thread_running := False\<rparr> in
      if preview_has_pending r
      then let (pending, r) = preview_take r in native_encoder_release_lease pending r
      else r)"

fun take_pending :: "nat \<Rightarrow> router \<Rightarrow> canvas_lease list \<times> router" where
  "take_pending 0 r = ([], r)"
| "take_pending (Suc n) r =
     (if encoder_queue_count r > 0
      then let (lease, r) = queue_take r; (leases, r) = take_pending n r in (lease # leases, r)
      else ([], r))"

definition stop_encoder :: "router \<Rightarrow> router" where
  "stop_encoder r =
     (case take_pending SBS_NATIVE_ENCODER_QUEUE_CAPACITY (r\<lparr>encoder_thread_running := False\<rparr>) of
        (pending, r) \<Rightarrow> fold native_encoder_release_lease pending r)"

definition native_encoder_reset_content_gate :: "router \<Rightarrow> router" where
  "native_encoder_reset_content_gate r = r\<lparr>encoder_last_content_frame := 0\<rparr>"

definition sbs_output_router_set_encoder_manager :: "bool \<Rightarrow> router \<Rightarrow> router" where
  "sbs_output_router_set_encoder_manager mgr r = r\<lparr>encoder_mgr := mgr, encoder_last_content_frame := 0\<rparr>"

definition sbs_output_router_set_preview_engine :: "bool \<Rightarrow> router \<Rightarrow> router" where
  "sbs_output_router_set_preview_engine preview r = r\<lparr>preview_engine := preview\<rparr>"

section \<open>Threads\<close>

datatype encoder_state = Enc_waiting | Enc_holding canvas_lease bool | Enc_finished

datatype preview_state = Prev_waiting | Prev_holding canvas_lease bool | Prev_finished

datatype router_phase = Routing | Stopping_preview | Stopping_encoder | Freed

text \<open>\<open>acquired\<close> lists the leases the export thread got from the mailboxes.\<close>

record router_run =
  rt :: router
  enc :: encoder_state
  prv :: preview_state
  phase :: router_phase
  acquired :: "canvas_lease list"

text \<open>
  The export thread, which acts only until \<open>sbs_output_router_free\<close> has joined it. A lease it acquires
  is valid: \<open>sbs_compositor_thread_native_mailbox_acquire\<close> hands out none without a buffer.
\<close>

inductive export_step :: "router_run \<Rightarrow> router_run \<Rightarrow> bool" where
  gate: "phase s = Routing \<Longrightarrow> export_step s (s\<lparr>rt := native_encoder_reset_content_gate (rt s)\<rparr>)"
| program: "phase s = Routing \<Longrightarrow> native_encoder_lease_valid l \<Longrightarrow>
    export_step s (s\<lparr>rt := snd (deliver_program fc l (rt s)), acquired := acquired s @ [l]\<rparr>)"
| snapshot: "phase s = Routing \<Longrightarrow> native_encoder_lease_valid l \<Longrightarrow>
    export_step s (s\<lparr>rt := deliver_snapshot l (rt s), acquired := acquired s @ [l]\<rparr>)"
| preview: "phase s = Routing \<Longrightarrow> native_encoder_lease_valid l \<Longrightarrow>
    export_step s (s\<lparr>rt := snd (deliver_preview l (rt s)), acquired := acquired s @ [l]\<rparr>)"

inductive encoder_step :: "router_run \<Rightarrow> router_run \<Rightarrow> bool" where
  take: "enc s = Enc_waiting \<Longrightarrow> encoder_queue_count (rt s) > 0 \<Longrightarrow> queue_take (rt s) = (l, r) \<Longrightarrow>
    encoder_step s (s\<lparr>rt := r, enc := Enc_holding l (encoder_mgr (rt s))\<rparr>)"
| finish: "enc s = Enc_holding l mgr \<Longrightarrow>
    encoder_step s (s\<lparr>rt := encoder_finish l (if mgr then Some gop_pattern else None) dup_ok (rt s), enc := Enc_waiting\<rparr>)"
| stop: "enc s = Enc_waiting \<Longrightarrow> \<not> encoder_thread_running (rt s) \<Longrightarrow> encoder_queue_count (rt s) = 0 \<Longrightarrow>
    encoder_step s (s\<lparr>rt := native_encoder_release_retained_leases (rt s), enc := Enc_finished\<rparr>)"

inductive preview_step :: "router_run \<Rightarrow> router_run \<Rightarrow> bool" where
  take: "prv s = Prev_waiting \<Longrightarrow> preview_has_pending (rt s) \<Longrightarrow> preview_take (rt s) = (l, r) \<Longrightarrow>
    preview_step s (s\<lparr>rt := r, prv := Prev_holding l (preview_engine (rt s))\<rparr>)"
| finish: "prv s = Prev_holding l preview \<Longrightarrow>
    preview_step s (s\<lparr>rt := preview_finish l preview dup_ok (rt s), prv := Prev_waiting\<rparr>)"
| stop: "prv s = Prev_waiting \<Longrightarrow> \<not> preview_thread_running (rt s) \<Longrightarrow> \<not> preview_has_pending (rt s) \<Longrightarrow>
    preview_step s (s\<lparr>prv := Prev_finished\<rparr>)"

inductive main_step :: "router_run \<Rightarrow> router_run \<Rightarrow> bool" where
  set_encoder: "phase s = Routing \<Longrightarrow>
    main_step s (s\<lparr>rt := sbs_output_router_set_encoder_manager b (rt s)\<rparr>)"
| set_preview: "phase s = Routing \<Longrightarrow>
    main_step s (s\<lparr>rt := sbs_output_router_set_preview_engine b (rt s)\<rparr>)"
| free_preview: "phase s = Routing \<Longrightarrow>
    main_step s (s\<lparr>rt := stop_preview (rt s), phase := Stopping_preview\<rparr>)"
| free_encoder: "phase s = Stopping_preview \<Longrightarrow> prv s = Prev_finished \<Longrightarrow>
    main_step s (s\<lparr>rt := stop_encoder (rt s), phase := Stopping_encoder\<rparr>)"
| free_done: "phase s = Stopping_encoder \<Longrightarrow> enc s = Enc_finished \<Longrightarrow>
    main_step s (s\<lparr>phase := Freed\<rparr>)"

definition router_step :: "router_run \<Rightarrow> router_run \<Rightarrow> bool" where
  "router_step s s' \<longleftrightarrow> export_step s s' \<or> encoder_step s s' \<or> preview_step s s' \<or> main_step s s'"

definition router_start :: router_run where
  "router_start = \<lparr>rt = sbs_output_router_new, enc = Enc_waiting, prv = Prev_waiting, phase = Routing, acquired = []\<rparr>"

definition router_reachable :: "router_run \<Rightarrow> bool" where
  "router_reachable s \<longleftrightarrow> router_step\<^sup>*\<^sup>* router_start s"

section \<open>Leases in the router\<close>

definition pending_view :: "router \<Rightarrow> canvas_lease list" where
  "pending_view r = (if preview_has_pending r then [preview_pending_lease r] else [])"

definition router_held :: "router \<Rightarrow> canvas_lease list" where
  "router_held r = queue_view r @ retained_view r @ pending_view r"

definition router_ok :: "router \<Rightarrow> bool" where
  "router_ok r \<longleftrightarrow> queue_wf r \<and> retained_wf r \<and> encoder_retain_count r \<le> 8
     \<and> (\<forall>l \<in> set (router_held r). native_encoder_lease_valid l)"

text \<open>The leases given back and held afterwards are those before and \<open>xs\<close>; the threads keep running or not.\<close>

definition accounts :: "canvas_lease list \<Rightarrow> router \<Rightarrow> router \<Rightarrow> bool" where
  "accounts xs r r' \<longleftrightarrow> router_ok r'
     \<and> mset (released r') + mset (router_held r') = mset (released r) + mset (router_held r) + mset xs
     \<and> encoder_thread_running r' = encoder_thread_running r \<and> preview_thread_running r' = preview_thread_running r"

lemma router_okD:
  assumes "router_ok r"
  shows "queue_wf r" "retained_wf r" "encoder_retain_count r \<le> 8"
    "\<forall>l \<in> set (queue_view r). native_encoder_lease_valid l" "\<forall>l \<in> set (retained_view r). native_encoder_lease_valid l"
    "\<forall>l \<in> set (pending_view r). native_encoder_lease_valid l"
  using assms by (auto simp: router_ok_def router_held_def)

lemma accounts_refl: "router_ok r \<Longrightarrow> accounts [] r r"
  by (simp add: accounts_def)

lemma accounts_trans:
  "accounts xs r r' \<Longrightarrow> accounts ys r' r'' \<Longrightarrow> accounts (xs @ ys) r r''"
  by (simp add: accounts_def ac_simps)

text \<open>Fields that hold no lease.\<close>

lemma router_ok_other [simp]:
  "router_ok (r\<lparr>encoder_frames_submitted := a\<rparr>) = router_ok r"
  "router_ok (r\<lparr>encoder_frames_dropped := a\<rparr>) = router_ok r"
  "router_ok (r\<lparr>encoder_last_content_frame := a\<rparr>) = router_ok r"
  "router_ok (r\<lparr>encoder_duplicate_frames_skipped := a\<rparr>) = router_ok r"
  "router_ok (r\<lparr>preview_frames_submitted := a\<rparr>) = router_ok r"
  "router_ok (r\<lparr>preview_frames_dropped := a\<rparr>) = router_ok r"
  "router_ok (r\<lparr>frames_distributed := a\<rparr>) = router_ok r"
  "router_ok (r\<lparr>encoder_mgr := b\<rparr>) = router_ok r"
  "router_ok (r\<lparr>preview_engine := b\<rparr>) = router_ok r"
  "router_ok (r\<lparr>encoder_thread_running := b\<rparr>) = router_ok r"
  "router_ok (r\<lparr>preview_thread_running := b\<rparr>) = router_ok r"
  by (simp_all add: router_ok_def router_held_def queue_wf_def retained_wf_def queue_view_def retained_view_def pending_view_def)

lemma router_held_other [simp]:
  "router_held (r\<lparr>encoder_frames_submitted := a\<rparr>) = router_held r"
  "router_held (r\<lparr>encoder_frames_dropped := a\<rparr>) = router_held r"
  "router_held (r\<lparr>encoder_last_content_frame := a\<rparr>) = router_held r"
  "router_held (r\<lparr>encoder_duplicate_frames_skipped := a\<rparr>) = router_held r"
  "router_held (r\<lparr>preview_frames_submitted := a\<rparr>) = router_held r"
  "router_held (r\<lparr>preview_frames_dropped := a\<rparr>) = router_held r"
  "router_held (r\<lparr>frames_distributed := a\<rparr>) = router_held r"
  "router_held (r\<lparr>encoder_mgr := b\<rparr>) = router_held r"
  "router_held (r\<lparr>preview_engine := b\<rparr>) = router_held r"
  "router_held (r\<lparr>encoder_thread_running := b\<rparr>) = router_held r"
  "router_held (r\<lparr>preview_thread_running := b\<rparr>) = router_held r"
  by (simp_all add: router_held_def queue_view_def retained_view_def pending_view_def)

lemma release_lease_ok [simp]:
  "router_ok (native_encoder_release_lease l r) = router_ok r"
  "router_held (native_encoder_release_lease l r) = router_held r"
  by (simp_all add: router_ok_def router_held_def pending_view_def native_encoder_release_lease_def
      queue_wf_def retained_wf_def queue_view_def retained_view_def)

lemma accounts_release: "router_ok r \<Longrightarrow> native_encoder_lease_valid l \<Longrightarrow> accounts [l] r (native_encoder_release_lease l r)"
  by (simp add: accounts_def)

section \<open>Each operation accounts for its leases\<close>

lemma queue_take_other:
  assumes "queue_take r = (l, r')"
  shows "retained_view r' = retained_view r" "pending_view r' = pending_view r" "retained_wf r' = retained_wf r"
    "released r' = released r" "encoder_retain_count r' = encoder_retain_count r"
    "encoder_thread_running r' = encoder_thread_running r" "preview_thread_running r' = preview_thread_running r"
    "preview_has_pending r' = preview_has_pending r"
  using assms by (auto simp: queue_take_def retained_view_def pending_view_def retained_wf_def)

lemma queue_take_accounts:
  assumes "router_ok r" "0 < encoder_queue_count r" "queue_take r = (l, r')"
  shows "native_encoder_lease_valid l" "router_ok r'" "mset (router_held r) = mset (router_held r') + {#l#}"
  using router_okD [OF assms(1)] queue_take_result [OF router_okD(1) [OF assms(1)] assms(2,3)] queue_take_other [OF assms(3)]
  by (auto simp: router_ok_def router_held_def)

lemma queue_drop_other:
  assumes "queue_drop r = (d, r')"
  shows "retained_view r' = retained_view r" "pending_view r' = pending_view r" "retained_wf r' = retained_wf r"
    "released r' = released r" "encoder_retain_count r' = encoder_retain_count r"
    "encoder_thread_running r' = encoder_thread_running r" "preview_thread_running r' = preview_thread_running r"
proof -
  obtain l q where take: "queue_take r = (l, q)"
    by (cases "queue_take r")
  have r': "r' = (if encoder_queue_count r \<ge> 2 then q\<lparr>encoder_frames_dropped := encoder_frames_dropped q + 1\<rparr> else r)"
    using assms by (simp add: queue_drop_def take encoder_limits split: if_split_asm)
  show "retained_view r' = retained_view r" "pending_view r' = pending_view r" "retained_wf r' = retained_wf r"
    "released r' = released r" "encoder_retain_count r' = encoder_retain_count r"
    "encoder_thread_running r' = encoder_thread_running r" "preview_thread_running r' = preview_thread_running r"
    using queue_take_other [OF take] unfolding r'
    by (simp_all add: retained_view_def pending_view_def retained_wf_def split: if_split_asm)
qed

lemma queue_store_other [simp]:
  "retained_view (queue_store l r) = retained_view r" "pending_view (queue_store l r) = pending_view r"
  "retained_wf (queue_store l r) = retained_wf r" "released (queue_store l r) = released r"
  "encoder_retain_count (queue_store l r) = encoder_retain_count r"
  "encoder_thread_running (queue_store l r) = encoder_thread_running r"
  "preview_thread_running (queue_store l r) = preview_thread_running r"
  by (simp_all add: queue_store_def Let_def retained_view_def pending_view_def retained_wf_def)

lemma enqueue_accounts:
  assumes "router_ok r" "native_encoder_enqueue_lease l r = (b, r')"
  shows "accounts (if b then [l] else []) r r'" "\<not> b \<Longrightarrow> r' = r"
proof -
  show unchanged: "\<not> b \<Longrightarrow> r' = r"
    using assms(2) by (auto simp: native_encoder_enqueue_lease_def split: if_splits prod.splits)
  show "accounts (if b then [l] else []) r r'"
  proof (cases b)
    case True
    obtain d q where drop: "queue_drop r = (d, q)"
      by (cases "queue_drop r")
    have l: "native_encoder_lease_valid l" and r': "r' = native_encoder_release_lease d (queue_store l q)"
      using assms(2) True drop by (auto simp: native_encoder_enqueue_lease_def split: if_splits)
    note ok = router_okD [OF assms(1)]
    note d = queue_drop_result [OF ok(1) drop] and other = queue_drop_other [OF drop]
    note s = queue_store_result [OF d(1,2), of l]
    have count: "encoder_queue_count r \<le> 2"
      using ok(1) by (simp add: queue_wf_def)
    have "native_encoder_lease_valid d \<longleftrightarrow> encoder_queue_count r = 2"
      using d(3,4) ok(4) count by (cases "encoder_queue_count r = 2") auto
    moreover have "router_ok (queue_store l q)"
      using s ok d(3) other l by (simp add: router_ok_def router_held_def ball_Un) 
    moreover have "mset (router_held (queue_store l q))
        = mset (queue_view q) + mset (retained_view r) + mset (pending_view r) + {#l#}"
      using s(2) other by (simp add: router_held_def)
    moreover have "mset (router_held r)
        = (if encoder_queue_count r = 2 then {#d#} else {#}) + mset (queue_view q) + mset (retained_view r) + mset (pending_view r)"
      by (simp add: router_held_def d(3))
    ultimately show ?thesis
      using True other by (simp add: accounts_def r')
  qed (use unchanged accounts_refl [OF assms(1)] in simp)
qed

lemma accounts_later:
  assumes "accounts xs r r'" "router_ok r'' = router_ok r'" "router_held r'' = router_held r'"
    "released r'' = released r'" "encoder_thread_running r'' = encoder_thread_running r'"
    "preview_thread_running r'' = preview_thread_running r'"
  shows "accounts xs r r''"
  using assms by (simp add: accounts_def)

lemma deliver_to_encoder_accounts:
  assumes "router_ok r" "deliver_to_encoder fc l r = (d, t, r')"
  shows "accounts (if t then [l] else []) r r'"
proof -
  obtain b q where e: "native_encoder_enqueue_lease l r = (b, q)"
    by (cases "native_encoder_enqueue_lease l r")
  show ?thesis
    using assms(2) e enqueue_accounts [OF assms(1) e] accounts_refl [OF assms(1)]
    by (auto simp: deliver_to_encoder_def Let_def native_encoder_note_content_queued_def
        split: if_split_asm bool.split_asm intro: accounts_later)
qed

lemma deliver_program_accounts:
  assumes "router_ok r" "native_encoder_lease_valid l"
  shows "accounts [l] r (snd (deliver_program fc l r))"
proof -
  let ?sent = "cl_color_mode l = SBS_EXPORT_COLOR_SDR \<and> fc_output_count fc > 0 \<and> fc_sent fc > 0"
  define q where "q = (if ?sent then r\<lparr>frames_distributed := frames_distributed r + 1\<rparr> else r)"
  obtain d t r' where e: "deliver_to_encoder fc l q = (d, t, r')"
    by (cases "deliver_to_encoder fc l q") auto
  have q: "accounts [] r q" "router_ok q"
    using assms(1) by (simp_all add: q_def accounts_def)
  have step: "accounts (if t then [l] else []) r r'"
    using accounts_trans [OF q(1) deliver_to_encoder_accounts [OF q(2) e]] by simp
  have res: "snd (deliver_program fc l r) = (if t then r' else native_encoder_release_lease l r')"
    using e by (simp add: deliver_program_def q_def Let_def split: prod.splits)
  show ?thesis
  proof (cases t)
    case False
    then have "router_ok r'"
      using step by (simp add: accounts_def)
    then show ?thesis
      using accounts_trans [OF step accounts_release [OF _ assms(2)]] False res by simp
  qed (use step res in simp)
qed

lemma preview_take_accounts:
  assumes "router_ok r" "preview_take r = (l, r')"
  shows "router_ok r'" "\<not> preview_has_pending r'" "encoder_queue_count r' = encoder_queue_count r"
    "released r' = released r"
    "encoder_thread_running r' = encoder_thread_running r" "preview_thread_running r' = preview_thread_running r"
    "preview_has_pending r \<Longrightarrow> native_encoder_lease_valid l \<and> mset (router_held r) = mset (router_held r') + {#l#}"
  using assms
  by (auto simp: preview_take_def router_ok_def router_held_def pending_view_def queue_view_def retained_view_def
      queue_wf_def retained_wf_def)

lemma preview_enqueue_accounts:
  assumes "router_ok r" "native_preview_enqueue_lease l r = (b, r')"
  shows "accounts (if b then [l] else []) r r'" "\<not> b \<Longrightarrow> r' = r"
  using assms
  by (auto simp: native_preview_enqueue_lease_def preview_take_def accounts_def router_ok_def router_held_def
      pending_view_def queue_view_def retained_view_def queue_wf_def retained_wf_def native_encoder_release_lease_def
      split: if_split_asm)

lemma deliver_preview_accounts:
  assumes "router_ok r" "native_encoder_lease_valid l"
  shows "accounts [l] r (snd (deliver_preview l r))"
proof -
  obtain b q where e: "native_preview_enqueue_lease l r = (b, q)"
    by (cases "native_preview_enqueue_lease l r")
  show ?thesis
    using preview_enqueue_accounts [OF assms(1) e] accounts_release [OF assms]
    by (cases b) (simp_all add: deliver_preview_def e)
qed

text \<open>The encoder thread keeps or releases the lease it holds.\<close>

lemma retained_others:
  "queue_view (release_oldest_retained r) = queue_view r" "pending_view (release_oldest_retained r) = pending_view r"
  "queue_wf (release_oldest_retained r) = queue_wf r" "encoder_queue_count (release_oldest_retained r) = encoder_queue_count r"
  "encoder_thread_running (release_oldest_retained r) = encoder_thread_running r"
  "preview_thread_running (release_oldest_retained r) = preview_thread_running r"
  "preview_has_pending (release_oldest_retained r) = preview_has_pending r"
  by (simp_all add: release_oldest_retained_def Let_def native_encoder_release_lease_def queue_view_def pending_view_def queue_wf_def)

lemma release_above_others [simp]:
  "queue_view (release_retained_above n r) = queue_view r \<and> pending_view (release_retained_above n r) = pending_view r
   \<and> queue_wf (release_retained_above n r) = queue_wf r
   \<and> encoder_queue_count (release_retained_above n r) = encoder_queue_count r
   \<and> encoder_thread_running (release_retained_above n r) = encoder_thread_running r
   \<and> preview_thread_running (release_retained_above n r) = preview_thread_running r
   \<and> preview_has_pending (release_retained_above n r) = preview_has_pending r"
proof (induction n r rule: release_retained_above.induct)
  case (1 n r)
  then show ?case
    by (cases "encoder_retain_count r > n") (simp_all add: release_retained_above.simps [of n r] retained_others)
qed

lemma take_drop_mset: "mset (take n xs) + mset (drop n xs) = mset xs"
  by (metis append_take_drop_id mset_append)

lemma filter_valid_take:
  "\<forall>l \<in> set xs. P l \<Longrightarrow> filter P (take n xs) = take n xs"
  by (auto simp: filter_id_conv dest: in_set_takeD)

lemma release_all_accounts:
  assumes "router_ok r"
  shows "accounts [] r (native_encoder_release_retained_leases r)"
    "encoder_retain_count (native_encoder_release_retained_leases r) = 0"
    "encoder_queue_count (native_encoder_release_retained_leases r) = encoder_queue_count r"
    "preview_has_pending (native_encoder_release_retained_leases r) = preview_has_pending r"
proof -
  note ok = router_okD [OF assms]
  let ?q = "release_retained_above 0 r"
  have q: "retained_wf ?q" "retained_view ?q = []" "released ?q = released r @ retained_view r"
    using release_above_result [OF ok(2), of 0] ok(5) by (simp_all add: filter_valid_take)
  then have count: "encoder_retain_count ?q = 0"
    by (metis length_views(2) list.size(3))
  show "encoder_retain_count (native_encoder_release_retained_leases r) = 0"
    "encoder_queue_count (native_encoder_release_retained_leases r) = encoder_queue_count r"
    "preview_has_pending (native_encoder_release_retained_leases r) = preview_has_pending r"
    using count by (simp_all add: native_encoder_release_retained_leases_def)
  have views: "queue_view (?q\<lparr>encoder_retain_head := 0\<rparr>) = queue_view r" "pending_view (?q\<lparr>encoder_retain_head := 0\<rparr>) = pending_view r"
    "retained_view (?q\<lparr>encoder_retain_head := 0\<rparr>) = []" "queue_wf (?q\<lparr>encoder_retain_head := 0\<rparr>) = queue_wf r"
    "retained_wf (?q\<lparr>encoder_retain_head := 0\<rparr>)"
    using release_above_others [of 0 r] q(1) count
    by (simp_all add: queue_view_def pending_view_def retained_view_def queue_wf_def retained_wf_def split: if_split_asm)
  show "accounts [] r (native_encoder_release_retained_leases r)"
    using views q(3) count ok
    by (auto simp: accounts_def native_encoder_release_retained_leases_def router_ok_def router_held_def)
qed

lemma retain_store_others:
  assumes "encoder_retain_count r \<le> 8"
  shows "queue_view (retain_store l r) = queue_view r" "pending_view (retain_store l r) = pending_view r"
    "queue_wf (retain_store l r) = queue_wf r" "encoder_queue_count (retain_store l r) = encoder_queue_count r"
    "encoder_thread_running (retain_store l r) = encoder_thread_running r"
    "preview_thread_running (retain_store l r) = preview_thread_running r"
    "preview_has_pending (retain_store l r) = preview_has_pending r"
proof -
  let ?q = "r\<lparr>encoder_retain_count := encoder_retain_count r + 1,
      encoder_retained_leases := (encoder_retained_leases r)[(encoder_retain_head r + encoder_retain_count r) mod 16 := l]\<rparr>"
  have "retain_store l r = release_retained_above 8 ?q"
    using assms by (simp add: retain_store_def Let_def encoder_limits)
  moreover have "queue_view ?q = queue_view r" "pending_view ?q = pending_view r" "queue_wf ?q = queue_wf r"
    by (simp_all add: queue_view_def pending_view_def queue_wf_def)
  ultimately show "queue_view (retain_store l r) = queue_view r" "pending_view (retain_store l r) = pending_view r"
    "queue_wf (retain_store l r) = queue_wf r" "encoder_queue_count (retain_store l r) = encoder_queue_count r"
    "encoder_thread_running (retain_store l r) = encoder_thread_running r"
    "preview_thread_running (retain_store l r) = preview_thread_running r"
    "preview_has_pending (retain_store l r) = preview_has_pending r"
    using release_above_others [of 8 ?q] by simp_all
qed

lemma retain_accounts:
  assumes "router_ok r" "native_encoder_lease_valid l"
  shows "accounts [l] r (native_encoder_retain_lease l r)"
proof -
  note ok = router_okD [OF assms(1)]
  let ?k = "encoder_retain_count r - 7" and ?v = "retained_view r"
  note st = retain_store_result [OF ok(2,3), of l] and other = retain_store_others [OF ok(3), of l]
  have rel: "released (retain_store l r) = released r @ take ?k ?v"
    using st(3) ok(5) by (simp add: filter_valid_take)
  have "drop ?k (?v @ [l]) = drop ?k ?v @ [l]"
    using ok(3) by simp
  then have "mset (retained_view (retain_store l r)) + mset (take ?k ?v) = mset ?v + {#l#}"
    using st(2) take_drop_mset [of ?k ?v] by (simp add: ac_simps)
  moreover have "\<forall>x \<in> set (retained_view (retain_store l r)). native_encoder_lease_valid x"
    using ok(5) assms(2) unfolding st(2) by (auto dest: in_set_dropD)
  ultimately show ?thesis
    using assms(2) rel other st(1) retain_store_count [OF ok(2,3), of l] ok
    by (auto simp: accounts_def native_encoder_retain_lease_def router_ok_def router_held_def ac_simps)
qed

lemma encoder_finish_accounts:
  assumes "router_ok r" "native_encoder_lease_valid l"
  shows "accounts [l] r (encoder_finish l encoder dup_ok r)"
proof (cases encoder)
  case None
  then show ?thesis
    using accounts_release [OF assms] by (simp add: encoder_finish_def)
next
  case (Some gop)
  define q where "q = (if dup_ok then r\<lparr>encoder_frames_submitted := encoder_frames_submitted r + 1\<rparr> else r)"
  have q: "accounts [] r q" "router_ok q"
    using assms(1) by (simp_all add: q_def accounts_def)
  let ?p = "native_encoder_release_retained_leases q"
  have p: "accounts [] q ?p" "router_ok ?p"
    using release_all_accounts(1) [OF q(2)] by (simp_all add: accounts_def)
  have "accounts [l] q (native_encoder_release_lease l ?p)"
    using accounts_trans [OF p(1) accounts_release [OF p(2) assms(2)]] by simp
  then have "accounts [l] q (if dup_ok \<and> native_encoder_bframes_enabled gop
      then native_encoder_retain_lease l q else native_encoder_release_lease l ?p)"
    using retain_accounts [OF q(2) assms(2)] by simp
  then have "accounts [l] r (if dup_ok \<and> native_encoder_bframes_enabled gop
      then native_encoder_retain_lease l q else native_encoder_release_lease l ?p)"
    using accounts_trans [OF q(1), of "[l]"] by simp
  then show ?thesis
    unfolding encoder_finish_def q_def [symmetric] Let_def using Some assms(2) by simp
qed

lemma encoder_finish_queue:
  assumes "router_ok r"
  shows "encoder_queue_count (encoder_finish l encoder dup_ok r) = encoder_queue_count r"
    "preview_has_pending (encoder_finish l encoder dup_ok r) = preview_has_pending r"
proof -
  define q where "q = (if dup_ok then r\<lparr>encoder_frames_submitted := encoder_frames_submitted r + 1\<rparr> else r)"
  have q: "router_ok q" "encoder_queue_count q = encoder_queue_count r" "preview_has_pending q = preview_has_pending r"
    using assms by (simp_all add: q_def)
  have rel: "encoder_queue_count (native_encoder_release_lease x y) = encoder_queue_count y"
    "preview_has_pending (native_encoder_release_lease x y) = preview_has_pending y" for x y
    by (simp_all add: native_encoder_release_lease_def)
  show "encoder_queue_count (encoder_finish l encoder dup_ok r) = encoder_queue_count r"
    "preview_has_pending (encoder_finish l encoder dup_ok r) = preview_has_pending r"
    unfolding encoder_finish_def q_def [symmetric] Let_def
    using q release_all_accounts(3,4) [OF q(1)] retain_store_others(4,7) [OF router_okD(3) [OF q(1)], of l]
    by (auto simp: rel native_encoder_retain_lease_def split: option.splits)
qed

lemma preview_finish_accounts:
  assumes "router_ok r" "native_encoder_lease_valid l"
  shows "accounts [l] r (preview_finish l preview dup_ok r)"
    "encoder_queue_count (preview_finish l preview dup_ok r) = encoder_queue_count r"
    "preview_has_pending (preview_finish l preview dup_ok r) = preview_has_pending r"
  using assms by (simp_all add: preview_finish_def accounts_def Let_def native_encoder_release_lease_def)
    (simp add: router_ok_def router_held_def queue_wf_def retained_wf_def queue_view_def retained_view_def pending_view_def)+

lemma stop_preview_accounts:
  assumes "router_ok r"
  shows "router_ok (stop_preview r)"
    "mset (released (stop_preview r)) + mset (router_held (stop_preview r)) = mset (released r) + mset (router_held r)"
    "\<not> preview_thread_running (stop_preview r)" "\<not> preview_has_pending (stop_preview r)"
    "encoder_thread_running (stop_preview r) = encoder_thread_running r"
proof -
  define q where "q = r\<lparr>preview_thread_running := False\<rparr>"
  obtain l p where take: "preview_take q = (l, p)"
    by (cases "preview_take q")
  have q: "router_ok q" "router_held q = router_held r" "released q = released r" "\<not> preview_thread_running q"
    "preview_has_pending q = preview_has_pending r" "encoder_thread_running q = encoder_thread_running r"
    using assms by (simp_all add: q_def)
  note t = preview_take_accounts [OF q(1) take]
  have stop: "stop_preview r = (if preview_has_pending r then native_encoder_release_lease l p else q)"
    using take by (simp add: stop_preview_def Let_def q_def)
  show "router_ok (stop_preview r)"
    "mset (released (stop_preview r)) + mset (router_held (stop_preview r)) = mset (released r) + mset (router_held r)"
    "\<not> preview_thread_running (stop_preview r)" "\<not> preview_has_pending (stop_preview r)"
    "encoder_thread_running (stop_preview r) = encoder_thread_running r"
    using q t by (auto simp: stop)
qed

lemma take_pending_result:
  assumes "router_ok r" "encoder_queue_count r \<le> n" "take_pending n r = (ls, r')"
  shows "router_ok r' \<and> (\<forall>l \<in> set ls. native_encoder_lease_valid l) \<and> encoder_queue_count r' = 0
    \<and> mset (router_held r) = mset ls + mset (router_held r') \<and> released r' = released r
    \<and> encoder_thread_running r' = encoder_thread_running r \<and> preview_thread_running r' = preview_thread_running r
    \<and> preview_has_pending r' = preview_has_pending r"
  using assms
proof (induction n arbitrary: r ls)
  case (Suc n)
  show ?case
  proof (cases "encoder_queue_count r > 0")
    case True
    obtain l q where take: "queue_take r = (l, q)"
      by (cases "queue_take r")
    obtain ks where rest: "take_pending n q = (ks, r')" "ls = l # ks"
      using Suc.prems(3) True take by (auto split: prod.splits)
    note q = queue_take_accounts [OF Suc.prems(1) True take] queue_take_other [OF take]
    have "encoder_queue_count q \<le> n"
      using queue_take_result(3) [OF router_okD(1) [OF Suc.prems(1)] True take] Suc.prems(2) by simp
    from Suc.IH [OF q(2) this rest(1)] show ?thesis
      using q rest(2) by simp
  qed (use Suc.prems in simp)
qed simp

lemma fold_release:
  assumes "router_ok r" "\<forall>l \<in> set ls. native_encoder_lease_valid l"
  shows "accounts ls r (fold native_encoder_release_lease ls r)
    \<and> encoder_queue_count (fold native_encoder_release_lease ls r) = encoder_queue_count r
    \<and> preview_has_pending (fold native_encoder_release_lease ls r) = preview_has_pending r"
  using assms
proof (induction ls arbitrary: r)
  case (Cons l ls)
  have "encoder_queue_count (native_encoder_release_lease l r) = encoder_queue_count r"
    by (simp add: native_encoder_release_lease_def)
  then show ?case
    using Cons.IH [of "native_encoder_release_lease l r"] Cons.prems
      accounts_trans [OF accounts_release [of r l], of ls] by simp
qed (simp add: accounts_refl)

lemma stop_encoder_accounts:
  assumes "router_ok r"
  shows "router_ok (stop_encoder r)"
    "mset (released (stop_encoder r)) + mset (router_held (stop_encoder r)) = mset (released r) + mset (router_held r)"
    "\<not> encoder_thread_running (stop_encoder r)" "encoder_queue_count (stop_encoder r) = 0"
    "preview_thread_running (stop_encoder r) = preview_thread_running r"
    "preview_has_pending (stop_encoder r) = preview_has_pending r"
proof -
  define q where "q = r\<lparr>encoder_thread_running := False\<rparr>"
  obtain ls p where take: "take_pending 2 q = (ls, p)"
    by (cases "take_pending 2 q")
  have q: "router_ok q" "router_held q = router_held r" "released q = released r" "\<not> encoder_thread_running q"
    "preview_has_pending q = preview_has_pending r" "preview_thread_running q = preview_thread_running r"
    using assms by (simp_all add: q_def)
  have "encoder_queue_count q \<le> 2"
    using q(1) by (simp add: router_ok_def queue_wf_def)
  note p = take_pending_result [OF q(1) this take]
  have stop: "stop_encoder r = fold native_encoder_release_lease ls p"
    using take by (simp add: stop_encoder_def q_def encoder_limits)
  show "router_ok (stop_encoder r)"
    "mset (released (stop_encoder r)) + mset (router_held (stop_encoder r)) = mset (released r) + mset (router_held r)"
    "\<not> encoder_thread_running (stop_encoder r)" "encoder_queue_count (stop_encoder r) = 0"
    "preview_thread_running (stop_encoder r) = preview_thread_running r"
    "preview_has_pending (stop_encoder r) = preview_has_pending r"
    using q p fold_release [of p ls] unfolding stop by (auto simp: accounts_def)
qed

section \<open>The invariant of the threads\<close>

definition encoder_hand :: "encoder_state \<Rightarrow> canvas_lease list" where
  "encoder_hand e = (case e of Enc_holding l _ \<Rightarrow> [l] | _ \<Rightarrow> [])"

definition preview_hand :: "preview_state \<Rightarrow> canvas_lease list" where
  "preview_hand p = (case p of Prev_holding l _ \<Rightarrow> [l] | _ \<Rightarrow> [])"

text \<open>Every lease that somebody in the router still has.\<close>

definition run_held :: "router_run \<Rightarrow> canvas_lease list" where
  "run_held s = router_held (rt s) @ encoder_hand (enc s) @ preview_hand (prv s)"

definition run_ok :: "router_run \<Rightarrow> bool" where
  "run_ok s \<longleftrightarrow> router_ok (rt s)
     \<and> (\<forall>l \<in> set (encoder_hand (enc s)). native_encoder_lease_valid l)
     \<and> (\<forall>l \<in> set (preview_hand (prv s)). native_encoder_lease_valid l)
     \<and> mset (acquired s) = mset (released (rt s)) + mset (run_held s)
     \<and> (phase s = Routing \<longleftrightarrow> preview_thread_running (rt s))
     \<and> (phase s = Routing \<or> phase s = Stopping_preview \<longleftrightarrow> encoder_thread_running (rt s))
     \<and> (phase s \<noteq> Routing \<longrightarrow> \<not> preview_has_pending (rt s))
     \<and> (phase s = Stopping_encoder \<or> phase s = Freed \<longrightarrow> encoder_queue_count (rt s) = 0 \<and> prv s = Prev_finished)
     \<and> (prv s = Prev_finished \<longrightarrow> phase s \<noteq> Routing)
     \<and> (enc s = Enc_finished \<longrightarrow> (phase s = Stopping_encoder \<or> phase s = Freed) \<and> encoder_retain_count (rt s) = 0)
     \<and> (phase s = Freed \<longrightarrow> enc s = Enc_finished)"

lemma hand_simps [simp]:
  "encoder_hand Enc_waiting = []" "encoder_hand Enc_finished = []" "encoder_hand (Enc_holding l b) = [l]"
  "preview_hand Prev_waiting = []" "preview_hand Prev_finished = []" "preview_hand (Prev_holding l b) = [l]"
  by (simp_all add: encoder_hand_def preview_hand_def)

lemma run_ok_start: "run_ok router_start"
  by (simp add: run_ok_def router_start_def sbs_output_router_new_def router_ok_def router_held_def run_held_def
      queue_wf_def retained_wf_def queue_view_def retained_view_def pending_view_def encoder_limits)

lemma run_ok_export:
  assumes "run_ok s" "phase s = Routing" "accounts [l] (rt s) r"
  shows "run_ok (s\<lparr>rt := r, acquired := acquired s @ [l]\<rparr>)"
  using assms by (auto simp: run_ok_def run_held_def accounts_def)

lemma export_step_ok:
  assumes "export_step s s'" and ok: "run_ok s"
  shows "run_ok s'"
  using assms(1)
proof (cases rule: export_step.cases)
  case gate
  show ?thesis
    using ok by (simp add: gate run_ok_def run_held_def native_encoder_reset_content_gate_def)
next
  case (program l fc)
  have "router_ok (rt s)"
    using ok by (simp add: run_ok_def)
  then show ?thesis
    using ok program run_ok_export [OF _ _ deliver_program_accounts] by simp
next
  case (snapshot l)
  have "router_ok (rt s)"
    using ok by (simp add: run_ok_def)
  then show ?thesis
    using ok snapshot run_ok_export [OF _ _ accounts_release] by (simp add: deliver_snapshot_def)
next
  case (preview l)
  have "router_ok (rt s)"
    using ok by (simp add: run_ok_def)
  then show ?thesis
    using ok preview run_ok_export [OF _ _ deliver_preview_accounts] by simp
qed

lemma encoder_step_ok:
  assumes "encoder_step s s'" and ok: "run_ok s"
  shows "run_ok s'"
  using assms(1)
proof (cases rule: encoder_step.cases)
  case (take l r)
  have "router_ok (rt s)"
    using ok by (simp add: run_ok_def)
  note t = queue_take_accounts [OF this take(3,4)] queue_take_other [OF take(4)]
  have "phase s \<noteq> Stopping_encoder" "phase s \<noteq> Freed"
    using ok take by (auto simp: run_ok_def)
  then show ?thesis
    using ok t take by (auto simp: run_ok_def run_held_def)
next
  case (finish l mgr gop dup)
  have r: "router_ok (rt s)" "native_encoder_lease_valid l"
    using ok finish by (auto simp: run_ok_def)
  note f = encoder_finish_accounts [OF r, of "if mgr then Some gop else None" dup]
    encoder_finish_queue [OF r(1), of l "if mgr then Some gop else None" dup]
  show ?thesis
    using ok f finish(2) unfolding finish(1) by (auto simp: run_ok_def run_held_def accounts_def)
next
  case stop
  have r: "router_ok (rt s)"
    using ok by (simp add: run_ok_def)
  have ph: "phase s = Stopping_encoder"
    using ok stop by (cases "phase s") (auto simp: run_ok_def)
  show ?thesis
    using ok release_all_accounts [OF r] stop ph by (auto simp: run_ok_def run_held_def accounts_def)
qed

lemma preview_step_ok:
  assumes "preview_step s s'" and ok: "run_ok s"
  shows "run_ok s'"
  using assms(1)
proof (cases rule: preview_step.cases)
  case (take l r)
  have "router_ok (rt s)"
    using ok by (simp add: run_ok_def)
  note t = preview_take_accounts [OF this take(4)]
  have "phase s = Routing" "encoder_retain_count r = encoder_retain_count (rt s)"
    using ok take by (auto simp: run_ok_def preview_take_def)
  then show ?thesis
    using ok t take by (auto simp: run_ok_def run_held_def)
next
  case (finish l preview dup)
  have r: "router_ok (rt s)" "native_encoder_lease_valid l"
    using ok finish by (auto simp: run_ok_def)
  have "encoder_retain_count (preview_finish l preview dup (rt s)) = encoder_retain_count (rt s)"
    by (simp add: preview_finish_def Let_def native_encoder_release_lease_def)
  then show ?thesis
    using ok preview_finish_accounts [OF r, of preview dup] finish by (auto simp: run_ok_def run_held_def accounts_def)
next
  case stop
  show ?thesis
    using ok stop by (auto simp: run_ok_def run_held_def)
qed

lemma main_step_ok:
  assumes "main_step s s'" and ok: "run_ok s"
  shows "run_ok s'"
  using assms(1)
proof (cases rule: main_step.cases)
  case (set_encoder b)
  show ?thesis
    using ok by (simp add: set_encoder run_ok_def run_held_def sbs_output_router_set_encoder_manager_def)
next
  case (set_preview b)
  show ?thesis
    using ok by (simp add: set_preview run_ok_def run_held_def sbs_output_router_set_preview_engine_def)
next
  case free_preview
  have "router_ok (rt s)"
    using ok by (simp add: run_ok_def)
  then show ?thesis
    using ok stop_preview_accounts [of "rt s"] free_preview by (auto simp: run_ok_def run_held_def)
next
  case free_encoder
  have "router_ok (rt s)"
    using ok by (simp add: run_ok_def)
  then show ?thesis
    using ok stop_encoder_accounts [of "rt s"] free_encoder by (auto simp: run_ok_def run_held_def)
next
  case free_done
  show ?thesis
    using ok free_done by (auto simp: run_ok_def run_held_def)
qed

lemma router_reachable_ok: "router_reachable s \<Longrightarrow> run_ok s"
  unfolding router_reachable_def
proof (induction rule: rtranclp_induct)
  case (step s s')
  then show ?case
    using export_step_ok encoder_step_ok preview_step_ok main_step_ok by (auto simp: router_step_def)
qed (rule run_ok_start)

section \<open>No lease is lost\<close>


section \<open>Stopping ends\<close>

text \<open>The work left once \<open>sbs_output_router_free\<close> has begun.\<close>

definition stop_measure :: "router_run \<Rightarrow> nat" where
  "stop_measure s =
     3 * encoder_queue_count (rt s)
     + (case enc s of Enc_waiting \<Rightarrow> 1 | Enc_holding _ _ \<Rightarrow> 2 | Enc_finished \<Rightarrow> 0)
     + (case prv s of Prev_waiting \<Rightarrow> 1 | Prev_holding _ _ \<Rightarrow> 2 | Prev_finished \<Rightarrow> 0)
     + (case phase s of Routing \<Rightarrow> 3 | Stopping_preview \<Rightarrow> 2 | Stopping_encoder \<Rightarrow> 1 | Freed \<Rightarrow> 0)"

lemma stopping_step:
  assumes "router_step s s'" "run_ok s" "phase s \<noteq> Routing"
  shows "stop_measure s' < stop_measure s \<and> phase s' \<noteq> Routing"
  using assms(1) unfolding router_step_def
proof (elim disjE)
  assume "export_step s s'"
  then show ?thesis
    using assms(3) by (cases rule: export_step.cases) simp_all
next
  assume "encoder_step s s'"
  then show ?thesis
  proof (cases rule: encoder_step.cases)
    case (take l r)
    have "router_ok (rt s)"
      using assms(2) by (simp add: run_ok_def)
    then have "encoder_queue_count r = encoder_queue_count (rt s) - 1"
      using queue_take_result(3) [OF _ take(3,4)] by (simp add: router_ok_def)
    then show ?thesis
      using take assms(3) by (simp add: stop_measure_def)
  next
    case (finish l mgr gop dup)
    have "router_ok (rt s)"
      using assms(2) by (simp add: run_ok_def)
    then show ?thesis
      using finish(2) assms(3) encoder_finish_queue(1) [of "rt s"] unfolding finish(1) by (simp add: stop_measure_def)
  next
    case stop
    have "router_ok (rt s)"
      using assms(2) by (simp add: run_ok_def)
    then show ?thesis
      using stop assms(3) release_all_accounts(3) [of "rt s"] by (simp add: stop_measure_def)
  qed
next
  assume "preview_step s s'"
  then show ?thesis
  proof (cases rule: preview_step.cases)
    case (take l r)
    then show ?thesis
      using assms(2,3) by (simp add: run_ok_def)
  next
    case (finish l preview dup)
    then have "router_ok (rt s)" "native_encoder_lease_valid l"
      using assms(2) by (auto simp: run_ok_def)
    then show ?thesis
      using finish assms(3) preview_finish_accounts(2) by (simp add: stop_measure_def)
  next
    case stop
    then show ?thesis
      using assms(3) by (simp add: stop_measure_def)
  qed
next
  assume "main_step s s'"
  then show ?thesis
  proof (cases rule: main_step.cases)
    case free_encoder
    have "router_ok (rt s)"
      using assms(2) by (simp add: run_ok_def)
    then have "encoder_queue_count (stop_encoder (rt s)) = 0"
      by (rule stop_encoder_accounts)
    then show ?thesis
      using free_encoder by (simp add: stop_measure_def)
  qed (use assms(3) in \<open>simp_all add: stop_measure_def\<close>)
qed

lemma stopping_progress:
  assumes "run_ok s" "phase s \<noteq> Routing" "phase s \<noteq> Freed"
  shows "\<exists>s'. router_step s s'"
proof (cases "phase s")
  case Stopping_preview
  then show ?thesis
    using assms(1) preview_step.stop [of s] preview_step.finish [of s] main_step.free_encoder [of s]
    by (cases "prv s") (auto simp: run_ok_def router_step_def)
next
  case Stopping_encoder
  then show ?thesis
    using assms(1) encoder_step.stop [of s] encoder_step.finish [of s] main_step.free_done [of s]
    by (cases "enc s") (auto simp: run_ok_def router_step_def)
qed (use assms in simp_all)

lemma stopping_run:
  assumes "router_step\<^sup>*\<^sup>* s s'" "run_ok s" "phase s \<noteq> Routing"
  shows "run_ok s' \<and> phase s' \<noteq> Routing"
  using assms
proof (induction rule: rtranclp_induct)
  case (step t u)
  then have t: "run_ok t" "phase t \<noteq> Routing"
    by simp_all
  then have "run_ok u"
    using step.hyps(2) export_step_ok encoder_step_ok preview_step_ok main_step_ok by (auto simp: router_step_def)
  then show ?case
    using stopping_step [OF step.hyps(2) t] by simp
qed simp

lemma no_infinite_stop:
  assumes "run_ok (f 0)" "phase (f 0) \<noteq> Routing" "\<And>n. router_step (f n) (f (Suc n))"
  shows False
proof -
  have ok: "run_ok (f n) \<and> phase (f n) \<noteq> Routing" for n
  proof (induction n)
    case (Suc n)
    then show ?case
      using stopping_run [of "f n" "f (Suc n)"] assms(3) by blast
  qed (use assms in simp)
  have "stop_measure (f n) + n \<le> stop_measure (f 0)" for n
  proof (induction n)
    case (Suc n)
    then show ?case
      using stopping_step [OF assms(3), of n] ok [of n] by simp
  qed simp
  from this [of "Suc (stop_measure (f 0))"] show False
    by simp
qed

text \<open>
  C27. Once \<open>sbs_output_router_free\<close> has begun, the threads cannot run for ever and cannot block each
  other: every run comes to an end, the only states without a further step are those in which
  the router is freed, and there every lease ever acquired has been released exactly once.
\<close>

theorem router_stops:
  assumes "router_reachable s" "phase s \<noteq> Routing"
  shows "(\<nexists>f. f 0 = s \<and> (\<forall>n. router_step (f n) (f (Suc n))))
    \<and> (\<forall>s'. router_step\<^sup>*\<^sup>* s s' \<and> (\<nexists>t. router_step s' t) \<longrightarrow>
         phase s' = Freed \<and> run_held s' = [] \<and> mset (released (rt s')) = mset (acquired s'))"
proof (intro conjI allI impI)
  have ok: "run_ok s"
    using assms(1) by (rule router_reachable_ok)
  show "\<nexists>f. f 0 = s \<and> (\<forall>n. router_step (f n) (f (Suc n)))"
    using no_infinite_stop ok assms(2) by blast
  fix s'
  assume end_of_run: "router_step\<^sup>*\<^sup>* s s' \<and> (\<nexists>t. router_step s' t)"
  then have s': "run_ok s'" "phase s' \<noteq> Routing"
    using stopping_run [of s s'] ok assms(2) by simp_all
  then show freed: "phase s' = Freed"
    using stopping_progress end_of_run by blast
  then have empty: "encoder_queue_count (rt s') = 0" "encoder_retain_count (rt s') = 0" "enc s' = Enc_finished"
    "prv s' = Prev_finished" "\<not> preview_has_pending (rt s')"
    using s' by (simp_all add: run_ok_def)
  then show "run_held s' = []"
    by (simp add: run_held_def router_held_def queue_view_def retained_view_def pending_view_def)
  then show "mset (released (rt s')) = mset (acquired s')"
    using s'(1) by (simp add: run_ok_def)
qed

section \<open>A run\<close>

definition sample_lease :: "nat \<Rightarrow> canvas_lease" where
  "sample_lease i = \<lparr>cl_entry_idx = i, cl_frame_number = of_nat i, cl_content_frame_number = of_nat i,
     cl_backing_fd = 10, cl_backing_size = 4096, cl_color_mode = SBS_EXPORT_COLOR_SDR\<rparr>"

lemma sample_lease_valid [simp]: "native_encoder_lease_valid (sample_lease i)"
  by (simp add: native_encoder_lease_valid_def sample_lease_def)

text \<open>One lease for the preview is pending when the router is freed.\<close>

definition sample_routing :: router_run where
  "sample_routing = router_start\<lparr>rt := (rt router_start)\<lparr>preview_engine := True,
     preview_has_pending := True, preview_pending_lease := sample_lease 3\<rparr>, acquired := [sample_lease 3]\<rparr>"

definition sample_stopping :: router_run where
  "sample_stopping = sample_routing\<lparr>rt := stop_preview (rt sample_routing), phase := Stopping_preview\<rparr>"

lemma sample_routing_reachable: "router_reachable sample_routing"
proof -
  have "main_step router_start (router_start\<lparr>rt := sbs_output_router_set_preview_engine True (rt router_start)\<rparr>)"
    by (rule main_step.set_preview) (simp add: router_start_def)
  then have one: "router_step router_start (router_start\<lparr>rt := (rt router_start)\<lparr>preview_engine := True\<rparr>\<rparr>)"
    by (simp add: router_step_def sbs_output_router_set_preview_engine_def)
  let ?s = "router_start\<lparr>rt := (rt router_start)\<lparr>preview_engine := True\<rparr>\<rparr>"
  have "export_step ?s (?s\<lparr>rt := snd (deliver_preview (sample_lease 3) (rt ?s)), acquired := acquired ?s @ [sample_lease 3]\<rparr>)"
    by (rule export_step.preview) (simp_all add: router_start_def)
  moreover have "snd (deliver_preview (sample_lease 3) (rt ?s))
      = (rt router_start)\<lparr>preview_engine := True, preview_has_pending := True, preview_pending_lease := sample_lease 3\<rparr>"
    by (simp add: deliver_preview_def native_preview_enqueue_lease_def router_start_def sbs_output_router_new_def
        native_encoder_release_lease_def)
  ultimately have "router_step ?s sample_routing"
    by (simp add: router_step_def sample_routing_def router_start_def)
  with one show ?thesis
    unfolding router_reachable_def by (metis converse_rtranclp_into_rtranclp r_into_rtranclp)
qed


lemma sample_stopping_reachable: "router_reachable sample_stopping"
proof -
  have "phase sample_routing = Routing"
    by (simp add: sample_routing_def router_start_def)
  then have "router_step sample_routing sample_stopping"
    unfolding router_step_def sample_stopping_def by (intro disjI2 main_step.free_preview)
  then show ?thesis
    using sample_routing_reachable unfolding router_reachable_def by (rule rtranclp.rtrancl_into_rtrancl [rotated])
qed

lemma router_stops_witness: "\<nexists>f. f 0 = sample_stopping \<and> (\<forall>n. router_step (f n) (f (Suc n)))"
proof -
  have "phase sample_stopping \<noteq> Routing"
    by (simp add: sample_stopping_def)
  from conjunct1 [OF router_stops [OF sample_stopping_reachable this]] show ?thesis .
qed

end
