(* ===== verification/Output_Supervisor.thy ===== *)
theory Output_Supervisor
  imports Source_Supervisor
begin

text \<open>
  The supervision of the output workers, \<open>src/server/supervisor/output_supervisor.c\<close>: one entry per
  output with its process, sockets, GLib watches and restart counter; start, stop and shutdown by
  the server, the callbacks of the main loop, and the frames the router sends to all workers.

  As in theory Source_Supervisor, entries are objects in memory named by handles, a callback that
  finds its entry freed has no result, and what the kernel answers is a parameter. Unlike the source
  supervisor, an entry keeps the identifier of its restart timer, and a stopped worker's entry stays
  until the worker has exited. The computation of the restart delay has the lines and constants of
  the source supervisor and is shared with it. The configuration of the worker is not modelled.
\<close>

section \<open>State\<close>

record output_entry =
  oe_output_id :: string
  oe_pid :: nat
  oe_listen_fd :: int
  oe_conn_fd :: int
  oe_io_watch :: nat
  oe_child_watch :: nat
  oe_accept_timer :: nat
  oe_stable_timer :: nat
  oe_restart_timer :: nat
  oe_restart_attempts :: nat
  oe_last_start :: int
  oe_shutting_down :: bool
  oe_connected :: bool
  oe_frames_sent :: u64
  oe_frames_dropped :: u64

record output_sup =
  os_table :: "(string \<times> nat) list"
  os_mem :: "nat \<rightharpoonup> output_entry"
  os_next_handle :: nat
  os_watches :: "watch list"
  os_next_id :: nat
  os_fds :: "int set"
  os_procs :: "nat set"
  os_signals :: "(nat \<times> unix_signal) list"
  os_sent :: "(int \<times> datagram) list"

definition sbs_output_supervisor_new :: output_sup where
  "sbs_output_supervisor_new = \<lparr>os_table = [], os_mem = Map.empty, os_next_handle = 0, os_watches = [],
     os_next_id = 1, os_fds = {}, os_procs = {}, os_signals = [], os_sent = []\<rparr>"

section \<open>GLib, the kernel and the memory\<close>

definition out_source_remove :: "nat \<Rightarrow> output_sup \<Rightarrow> output_sup" where
  "out_source_remove i s = (if i \<noteq> 0 then s\<lparr>os_watches := filter (\<lambda>w. w_id w \<noteq> i) (os_watches s)\<rparr> else s)"

definition out_watch_add :: "watch_kind \<Rightarrow> nat \<Rightarrow> output_sup \<Rightarrow> output_sup" where
  "out_watch_add k h s = s\<lparr>os_watches := os_watches s @ [\<lparr>w_id = os_next_id s, w_kind = k, w_entry = h\<rparr>],
     os_next_id := os_next_id s + 1\<rparr>"

definition out_close :: "int \<Rightarrow> output_sup \<Rightarrow> output_sup" where
  "out_close fd s = (if fd \<ge> 0 then s\<lparr>os_fds := os_fds s - {fd}\<rparr> else s)"

definition out_signal :: "unix_signal \<Rightarrow> nat \<Rightarrow> output_sup \<Rightarrow> output_sup" where
  "out_signal sig pid s = s\<lparr>os_signals := os_signals s @ [(pid, sig)]\<rparr>"

definition out_reap :: "nat \<Rightarrow> output_sup \<Rightarrow> output_sup" where
  "out_reap pid s = s\<lparr>os_procs := os_procs s - {pid}\<rparr>"

definition out_set :: "nat \<Rightarrow> output_entry \<Rightarrow> output_sup \<Rightarrow> output_sup" where
  "out_set h e s = s\<lparr>os_mem := (os_mem s)(h \<mapsto> e)\<rparr>"

definition out_send_shutdown :: "output_entry \<Rightarrow> output_sup \<Rightarrow> output_sup" where
  "out_send_shutdown e s =
     (if oe_conn_fd e \<ge> 0
      then s\<lparr>os_sent := os_sent s @ [(oe_conn_fd e, (shutdown_bytes SHUTDOWN_GRACE_MS 0, []))]\<rparr> else s)"

section \<open>Entries and workers\<close>

text \<open>The five watches of an entry are removed.\<close>

definition remove_watches :: "output_entry \<Rightarrow> output_sup \<Rightarrow> output_sup" where
  "remove_watches e s =
     out_source_remove (oe_restart_timer e) (out_source_remove (oe_stable_timer e)
       (out_source_remove (oe_accept_timer e) (out_source_remove (oe_child_watch e)
         (out_source_remove (oe_io_watch e) s))))"

definition output_entry_free :: "nat \<Rightarrow> output_sup \<Rightarrow> output_sup" where
  "output_entry_free h s =
     (case os_mem s h of
        None \<Rightarrow> s
      | Some e \<Rightarrow>
          let s = (if oe_pid e > 0 then out_reap (oe_pid e) (out_signal SIGKILL (oe_pid e) s) else s);
              s = remove_watches e s;
              s = out_close (oe_conn_fd e) s;
              s = out_close (oe_listen_fd e) s
          in s\<lparr>os_mem := (os_mem s)(h := None)\<rparr>)"

definition out_connect :: "nat \<Rightarrow> int \<Rightarrow> output_entry \<Rightarrow> output_sup \<Rightarrow> output_sup" where
  "out_connect h fd e s =
     (let s = s\<lparr>os_fds := insert fd (os_fds s)\<rparr>;
          s = out_source_remove (oe_accept_timer e) s;
          e = e\<lparr>oe_conn_fd := fd, oe_io_watch := os_next_id s, oe_accept_timer := 0,
                oe_stable_timer := os_next_id s + 1, oe_connected := True\<rparr>;
          s = out_watch_add (Watch_io fd) h s;
          s = out_watch_add Watch_stable h s
      in out_set h e s)"

definition output_entry_launch :: "launch_env \<Rightarrow> nat \<Rightarrow> output_entry \<Rightarrow> output_sup \<Rightarrow> sbs_result \<times> output_sup" where
  "output_entry_launch v h e s =
     (case le_listen v of
        None \<Rightarrow> (SBS_ERR_IO, out_set h (e\<lparr>oe_listen_fd := -1\<rparr>) s)
      | Some lfd \<Rightarrow>
          if \<not> le_config v then (SBS_ERR_NOMEM, out_set h (e\<lparr>oe_listen_fd := -1\<rparr>) s)
          else if \<not> le_pipe v then (SBS_ERR_IO, out_set h (e\<lparr>oe_listen_fd := -1\<rparr>) s)
          else case le_fork v of
            None \<Rightarrow> (SBS_ERR_IO, out_set h (e\<lparr>oe_listen_fd := -1\<rparr>) s)
          | Some pid \<Rightarrow>
              let s = s\<lparr>os_fds := insert lfd (os_fds s), os_procs := insert pid (os_procs s)\<rparr>;
                  e = e\<lparr>oe_pid := pid, oe_listen_fd := lfd, oe_child_watch := os_next_id s,
                        oe_accept_timer := os_next_id s + 1, oe_last_start := le_now v\<rparr>;
                  s = out_watch_add (Watch_child pid) h s;
                  s = out_watch_add Watch_accept h s
              in (SBS_OK,
                  case le_accept v of
                    Some fd \<Rightarrow> out_connect h fd e s
                  | None \<Rightarrow>
                      let e = e\<lparr>oe_io_watch := os_next_id s\<rparr>;
                          s = out_watch_add (Watch_io lfd) h s
                      in out_set h e s))"

definition output_entry_cleanup_worker :: "nat \<Rightarrow> output_entry \<Rightarrow> output_sup \<Rightarrow> output_entry \<times> output_sup" where
  "output_entry_cleanup_worker h e s =
     (let s = remove_watches e s;
          s = out_close (oe_conn_fd e) s;
          s = out_close (oe_listen_fd e) s;
          e = e\<lparr>oe_pid := 0, oe_listen_fd := -1, oe_conn_fd := -1, oe_io_watch := 0, oe_child_watch := 0,
                oe_accept_timer := 0, oe_stable_timer := 0, oe_restart_timer := 0, oe_connected := False\<rparr>
      in (e, out_set h e s))"

section \<open>Requests of the server\<close>

definition fresh_output :: "string \<Rightarrow> output_entry" where
  "fresh_output oid = \<lparr>oe_output_id = oid, oe_pid = 0, oe_listen_fd = -1, oe_conn_fd = -1, oe_io_watch = 0,
     oe_child_watch = 0, oe_accept_timer = 0, oe_stable_timer = 0, oe_restart_timer = 0,
     oe_restart_attempts = 0, oe_last_start = 0, oe_shutting_down = False, oe_connected = False,
     oe_frames_sent = 0, oe_frames_dropped = 0\<rparr>"

text \<open>Removing an output from the table frees its entry.\<close>

definition table_remove :: "string \<Rightarrow> output_sup \<Rightarrow> output_sup" where
  "table_remove oid s =
     (case ht_lookup (os_table s) oid of
        None \<Rightarrow> s
      | Some h \<Rightarrow> output_entry_free h (s\<lparr>os_table := ht_remove oid (os_table s)\<rparr>))"

definition sbs_output_supervisor_start_output ::
    "launch_env \<Rightarrow> string option \<Rightarrow> output_sup \<Rightarrow> sbs_result \<times> output_sup" where
  "sbs_output_supervisor_start_output v output_id s =
     (case output_id of
        None \<Rightarrow> (SBS_ERR_INVAL, s)
      | Some oid \<Rightarrow>
          if ht_contains (os_table s) oid then (SBS_ERR_INVAL, s)
          else
            let h = os_next_handle s;
                s = s\<lparr>os_table := ht_insert oid h (os_table s), os_next_handle := h + 1\<rparr>;
                (rc, s) = output_entry_launch v h (fresh_output oid) s
            in if rc \<noteq> SBS_OK then (rc, table_remove oid s) else (SBS_OK, s))"

definition sbs_output_supervisor_stop_output :: "string option \<Rightarrow> output_sup \<Rightarrow> sbs_result \<times> output_sup" where
  "sbs_output_supervisor_stop_output output_id s =
     (case output_id of
        None \<Rightarrow> (SBS_ERR_INVAL, s)
      | Some oid \<Rightarrow>
          (case ht_lookup (os_table s) oid of
             None \<Rightarrow> (SBS_ERR_NOT_FOUND, s)
           | Some h \<Rightarrow>
               let e = the (os_mem s h);
                   s = out_source_remove (oe_restart_timer e) s;
                   e = e\<lparr>oe_restart_timer := 0, oe_shutting_down := True\<rparr>;
                   s = out_send_shutdown e (out_set h e s)
               in (SBS_OK, if oe_pid e > 0 then out_signal SIGTERM (oe_pid e) s else table_remove oid s)))"

section \<open>Frames for the workers\<close>

definition entry_ready :: "output_entry \<Rightarrow> bool" where
  "entry_ready e \<longleftrightarrow> oe_connected e \<and> \<not> oe_shutting_down e \<and> oe_conn_fd e \<ge> 0"

definition sbs_output_supervisor_output_count :: "output_sup \<Rightarrow> nat" where
  "sbs_output_supervisor_output_count s =
     length (filter (\<lambda>(_, h). entry_ready (the (os_mem s h))) (os_table s))"

text \<open>
  One round of the loop of \<open>sbs_output_supervisor_send_frame\<close>, for the entry \<open>h\<close> the iterator gave:
  \<open>dup_fd\<close> is what \<open>dup\<close> answers and \<open>sent\<close> what \<open>sendmsg\<close> answers. The boolean says whether the frame
  counts as sent; there is no result when the entry has been freed.
\<close>

definition send_frame_to ::
    "video_frame_msg \<Rightarrow> int option \<Rightarrow> sys_errno + nat \<Rightarrow> nat \<Rightarrow> output_sup \<Rightarrow> (bool \<times> output_sup) option" where
  "send_frame_to msg dup_fd sent h s =
     (case os_mem s h of
        None \<Rightarrow> None
      | Some e \<Rightarrow> Some (
          if \<not> entry_ready e then (False, s)
          else case dup_fd of
            None \<Rightarrow> (False, out_set h (e\<lparr>oe_frames_dropped := oe_frames_dropped e + 1\<rparr>) s)
          | Some fd \<Rightarrow>
              let s = s\<lparr>os_fds := insert fd (os_fds s)\<rparr>;
                  (rc, ds) = sbs_ipc_send_frame sent (oe_conn_fd e) msg fd;
                  s = s\<lparr>os_sent := os_sent s @ map (\<lambda>d. (oe_conn_fd e, d)) ds\<rparr>
              in if rc = SBS_OK
                 then (True, out_set h (e\<lparr>oe_frames_sent := oe_frames_sent e + 1\<rparr>) s)
                 else
                   let s = out_close fd s;
                       e = e\<lparr>oe_frames_dropped := oe_frames_dropped e + 1\<rparr>
                   in (False,
                       if rc = SBS_ERR_PIPE \<or> rc = SBS_ERR_IO then
                         let s = out_close (oe_conn_fd e) s;
                             s = out_set h (e\<lparr>oe_conn_fd := -1, oe_connected := False\<rparr>) s
                         in if \<not> oe_shutting_down e \<and> oe_pid e > 0 then out_signal SIGKILL (oe_pid e) s else s
                       else out_set h e s)))"

fun send_frame_loop ::
    "video_frame_msg \<Rightarrow> (nat \<Rightarrow> int option) \<Rightarrow> (nat \<Rightarrow> sys_errno + nat) \<Rightarrow> nat list \<Rightarrow> output_sup \<Rightarrow> (nat \<times> output_sup) option" where
  "send_frame_loop msg dups sends [] s = Some (0, s)"
| "send_frame_loop msg dups sends (h # hs) s =
     (case send_frame_to msg (dups h) (sends h) h s of
        None \<Rightarrow> None
      | Some (b, s) \<Rightarrow> (case send_frame_loop msg dups sends hs s of
          None \<Rightarrow> None
        | Some (n, s) \<Rightarrow> Some (n + (if b then 1 else 0), s)))"

definition sbs_output_supervisor_send_frame ::
    "video_frame_msg \<Rightarrow> (nat \<Rightarrow> int option) \<Rightarrow> (nat \<Rightarrow> sys_errno + nat) \<Rightarrow> output_sup \<Rightarrow> (nat \<times> output_sup) option" where
  "sbs_output_supervisor_send_frame msg dups sends s = send_frame_loop msg dups sends (map snd (os_table s)) s"

text \<open>A packet of audio, the message and its samples, for every worker.\<close>

definition send_audio_to :: "u8 list \<Rightarrow> sys_errno + nat \<Rightarrow> nat \<Rightarrow> output_sup \<Rightarrow> (bool \<times> output_sup) option" where
  "send_audio_to packet sent h s =
     (case os_mem s h of
        None \<Rightarrow> None
      | Some e \<Rightarrow> Some (
          if \<not> entry_ready e then (False, s)
          else let (rc, ds) = sbs_ipc_send_msg sent (oe_conn_fd e) packet
            in (rc = SBS_OK, s\<lparr>os_sent := os_sent s @ map (\<lambda>d. (oe_conn_fd e, d)) ds\<rparr>)))"

fun send_audio_loop ::
    "u8 list \<Rightarrow> (nat \<Rightarrow> sys_errno + nat) \<Rightarrow> nat list \<Rightarrow> output_sup \<Rightarrow> (nat \<times> output_sup) option" where
  "send_audio_loop packet sends [] s = Some (0, s)"
| "send_audio_loop packet sends (h # hs) s =
     (case send_audio_to packet (sends h) h s of
        None \<Rightarrow> None
      | Some (b, s) \<Rightarrow> (case send_audio_loop packet sends hs s of
          None \<Rightarrow> None
        | Some (n, s) \<Rightarrow> Some (n + (if b then 1 else 0), s)))"

definition sbs_output_supervisor_send_audio ::
    "u8 list \<Rightarrow> (nat \<Rightarrow> sys_errno + nat) \<Rightarrow> output_sup \<Rightarrow> (nat \<times> output_sup) option" where
  "sbs_output_supervisor_send_audio packet sends s = send_audio_loop packet sends (map snd (os_table s)) s"

section \<open>Shutting all down\<close>

text \<open>
  \<open>exits1\<close> and \<open>exits2\<close> are the processes that exit during the grace period and after \<open>SIGTERM\<close>.
\<close>

definition out_poll_exit :: "nat set \<Rightarrow> nat \<Rightarrow> output_sup \<Rightarrow> output_sup" where
  "out_poll_exit exits h s =
     (let e = the (os_mem s h) in
      if oe_pid e > 0 \<and> oe_pid e \<in> exits then out_set h (e\<lparr>oe_pid := 0\<rparr>) (out_reap (oe_pid e) s) else s)"

definition out_term_worker :: "nat \<Rightarrow> output_sup \<Rightarrow> output_sup" where
  "out_term_worker h s =
     (let e = the (os_mem s h) in if oe_pid e > 0 then out_signal SIGTERM (oe_pid e) s else s)"

definition out_kill_straggler :: "nat \<Rightarrow> output_sup \<Rightarrow> output_sup" where
  "out_kill_straggler h s =
     (let e = the (os_mem s h) in
      if oe_pid e > 0 then out_set h (e\<lparr>oe_pid := 0\<rparr>) (out_reap (oe_pid e) (out_signal SIGKILL (oe_pid e) s)) else s)"

definition out_mark_shutting_down :: "nat \<Rightarrow> output_sup \<Rightarrow> output_sup" where
  "out_mark_shutting_down h s =
     (let e = (the (os_mem s h))\<lparr>oe_shutting_down := True\<rparr> in out_send_shutdown e (out_set h e s))"

definition sbs_output_supervisor_shutdown_all :: "nat set \<Rightarrow> nat set \<Rightarrow> output_sup \<Rightarrow> output_sup" where
  "sbs_output_supervisor_shutdown_all exits1 exits2 s =
     (let hs = map snd (os_table s) in
      if hs = [] then s
      else
        let s = fold out_mark_shutting_down hs s;
            s = fold (out_poll_exit exits1) hs s;
            s = (if list_all (\<lambda>h. oe_pid (the (os_mem s h)) = 0) hs then s
                 else fold out_kill_straggler hs (fold (out_poll_exit exits2) hs (fold out_term_worker hs s)))
        in fold output_entry_free hs (s\<lparr>os_table := []\<rparr>))"

definition sbs_output_supervisor_free :: "output_sup \<Rightarrow> output_sup" where
  "sbs_output_supervisor_free s = fold output_entry_free (map snd (os_table s)) (s\<lparr>os_table := []\<rparr>)"

section \<open>Restarts\<close>

definition out_schedule_restart :: "bool \<Rightarrow> nat \<Rightarrow> nat \<Rightarrow> output_entry \<Rightarrow> output_sup \<Rightarrow> output_sup" where
  "out_schedule_restart up jitter h e s =
     (let e = e\<lparr>oe_restart_attempts := oe_restart_attempts e + 1\<rparr> in
      if oe_restart_attempts e > MAX_RESTART_ATTEMPTS then out_set h e s
      else let d = jittered_delay (backoff_delay (oe_restart_attempts e)) up jitter;
               e = e\<lparr>oe_restart_timer := os_next_id s\<rparr>
        in out_set h e (out_watch_add (Watch_restart d) h s))"

text \<open>The callbacks. Each is called with the entry of its watch; \<open>None\<close> is a use after free.\<close>

definition out_child_exit :: "bool \<Rightarrow> nat \<Rightarrow> nat \<Rightarrow> nat \<Rightarrow> output_sup \<Rightarrow> output_sup option" where
  "out_child_exit up jitter pid h s =
     (case os_mem s h of
        None \<Rightarrow> None
      | Some e \<Rightarrow>
          let s = out_source_remove (oe_io_watch e) (out_reap pid s);
              s = out_close (oe_conn_fd e) s;
              s = out_close (oe_listen_fd e) s;
              e = e\<lparr>oe_pid := 0, oe_listen_fd := -1, oe_conn_fd := -1, oe_io_watch := 0, oe_child_watch := 0,
                    oe_connected := False\<rparr>;
              s = out_set h e s
          in Some (if oe_shutting_down e
                   then (if ht_lookup (os_table s) (oe_output_id e) = Some h then table_remove (oe_output_id e) s else s)
                   else out_schedule_restart up jitter h e s))"

definition out_accept_timeout :: "nat \<Rightarrow> output_sup \<Rightarrow> output_sup option" where
  "out_accept_timeout h s =
     (case os_mem s h of
        None \<Rightarrow> None
      | Some e \<Rightarrow>
          let s = out_set h (e\<lparr>oe_accept_timer := 0\<rparr>) s
          in Some (if oe_pid e > 0 then out_signal SIGKILL (oe_pid e) s else s))"

definition out_stable_timer :: "nat \<Rightarrow> output_sup \<Rightarrow> output_sup option" where
  "out_stable_timer h s =
     (case os_mem s h of
        None \<Rightarrow> None
      | Some e \<Rightarrow> Some (out_set h (e\<lparr>oe_stable_timer := 0, oe_restart_attempts := 0\<rparr>) s))"

definition out_restart_timer :: "launch_env \<Rightarrow> bool \<Rightarrow> nat \<Rightarrow> nat \<Rightarrow> output_sup \<Rightarrow> output_sup option" where
  "out_restart_timer v up jitter h s =
     (case os_mem s h of
        None \<Rightarrow> None
      | Some e \<Rightarrow>
          let e = e\<lparr>oe_restart_timer := 0\<rparr>; s = out_set h e s
          in if oe_shutting_down e then Some s
             else
               let (e, s) = output_entry_cleanup_worker h e s;
                   (rc, s) = output_entry_launch v h e s
               in Some (if rc \<noteq> SBS_OK then out_schedule_restart up jitter h (the (os_mem s h)) s else s))"

definition out_lose_connection :: "nat \<Rightarrow> output_entry \<Rightarrow> output_sup \<Rightarrow> output_sup" where
  "out_lose_connection h e s =
     (let s = out_close (oe_conn_fd e) s;
          s = out_set h (e\<lparr>oe_conn_fd := -1, oe_io_watch := 0, oe_connected := False\<rparr>) s
      in if \<not> oe_shutting_down e \<and> oe_pid e > 0 then out_signal SIGKILL (oe_pid e) s else s)"

text \<open>
  The watch of a socket: \<open>accepted\<close> is what \<open>accept4\<close> gives, \<open>hup\<close> whether the condition has \<open>G_IO_HUP\<close> or
  \<open>G_IO_ERR\<close>, \<open>rc\<close> what the receive answers. A message only goes to the log. The boolean of the result
  says whether the watch stays installed.
\<close>

definition on_worker_data ::
    "int option \<Rightarrow> bool \<Rightarrow> sbs_result \<Rightarrow> int \<Rightarrow> nat \<Rightarrow> output_sup \<Rightarrow> (bool \<times> output_sup) option" where
  "on_worker_data accepted hup rc fd h s =
     (case os_mem s h of
        None \<Rightarrow> None
      | Some e \<Rightarrow>
          if \<not> oe_connected e \<and> fd = oe_listen_fd e then
            (case accepted of
               None \<Rightarrow> Some (True, s)
             | Some conn \<Rightarrow> Some (False, out_connect h conn e s))
          else if hup then Some (False, out_lose_connection h e s)
          else if rc = SBS_ERR_EOF then Some (False, out_lose_connection h e s)
          else Some (True, s))"

section \<open>The main loop\<close>

record output_env =
  ov_accepted :: "int option"
  ov_hup :: bool
  ov_rc :: sbs_result
  ov_launch :: launch_env
  ov_up :: bool
  ov_jitter :: nat

definition out_run_watch :: "output_env \<Rightarrow> watch \<Rightarrow> output_sup \<Rightarrow> output_sup option" where
  "out_run_watch v w s =
     (case w_kind w of
        Watch_io fd \<Rightarrow>
          (case on_worker_data (ov_accepted v) (ov_hup v) (ov_rc v) fd (w_entry w) s of
             None \<Rightarrow> None
           | Some (keep, s) \<Rightarrow> Some (if keep then s else out_source_remove (w_id w) s))
      | Watch_child pid \<Rightarrow> out_child_exit (ov_up v) (ov_jitter v) pid (w_entry w) (out_source_remove (w_id w) s)
      | Watch_accept \<Rightarrow> out_accept_timeout (w_entry w) (out_source_remove (w_id w) s)
      | Watch_stable \<Rightarrow> out_stable_timer (w_entry w) (out_source_remove (w_id w) s)
      | Watch_restart d \<Rightarrow>
          out_restart_timer (ov_launch v) (ov_up v) (ov_jitter v) (w_entry w) (out_source_remove (w_id w) s))"

section \<open>Metrics\<close>

record output_metrics =
  om_total :: nat
  om_connected :: nat
  om_restarting :: nat
  om_max_attempts :: nat
  om_frames_sent :: u64
  om_frames_dropped :: u64
  om_degraded :: bool

definition output_connected :: "output_entry \<Rightarrow> bool" where
  "output_connected e \<longleftrightarrow> oe_pid e > 0 \<and> oe_connected e \<and> oe_conn_fd e \<ge> 0"

definition output_restarting :: "output_entry \<Rightarrow> bool" where
  "output_restarting e \<longleftrightarrow> \<not> oe_shutting_down e \<and> oe_restart_attempts e > 0 \<and> \<not> output_connected e"

definition sbs_output_supervisor_get_metrics :: "output_sup \<Rightarrow> output_metrics" where
  "sbs_output_supervisor_get_metrics s =
     (let es = map (\<lambda>(_, h). the (os_mem s h)) (os_table s);
          restarting = length (filter output_restarting es)
      in \<lparr>om_total = length es, om_connected = length (filter output_connected es), om_restarting = restarting,
          om_max_attempts = fold max (map oe_restart_attempts es) 0,
          om_frames_sent = sum_list (map oe_frames_sent es), om_frames_dropped = sum_list (map oe_frames_dropped es),
          om_degraded = (restarting > 0)\<rparr>)"

end
