(* ===== verification/Output_Sup_Inv.thy ===== *)
theory Output_Sup_Inv
  imports Output_Supervisor
begin

text \<open>
  The invariant of the output supervisor's states (every watch of the main loop belongs to an entry in
  memory, which records the watch's identifier; entries own different open descriptors; the table
  names each entry once) and what the steps of its operations do to it.
\<close>

section \<open>The invariant\<close>

definition watch_field :: "watch_kind \<Rightarrow> output_entry \<Rightarrow> nat" where
  "watch_field k e = (case k of Watch_io _ \<Rightarrow> oe_io_watch e | Watch_child _ \<Rightarrow> oe_child_watch e
     | Watch_accept \<Rightarrow> oe_accept_timer e | Watch_stable \<Rightarrow> oe_stable_timer e | Watch_restart _ \<Rightarrow> oe_restart_timer e)"

definition entry_watch_ids :: "output_entry \<Rightarrow> nat set" where
  "entry_watch_ids e = {oe_io_watch e, oe_child_watch e, oe_accept_timer e, oe_stable_timer e, oe_restart_timer e}"

text \<open>A watch of the listening socket is there only until the worker connects, before the stable timer runs.\<close>

definition watch_matches :: "watch \<Rightarrow> output_entry \<Rightarrow> bool" where
  "watch_matches w e \<longleftrightarrow> w_id w = watch_field (w_kind w) e
     \<and> (\<forall>fd. w_kind w = Watch_io fd \<longrightarrow> 0 \<le> fd \<and> (fd = oe_listen_fd e \<longrightarrow> oe_stable_timer e = 0))"

definition own_fds :: "output_entry \<Rightarrow> int set" where
  "own_fds e = {fd. 0 \<le> fd \<and> (fd = oe_conn_fd e \<or> fd = oe_listen_fd e)}"

definition entry_fine :: "nat \<Rightarrow> output_entry \<Rightarrow> bool" where
  "entry_fine n e \<longleftrightarrow> (\<forall>i \<in> entry_watch_ids e. i < n) \<and> (oe_child_watch e \<noteq> 0 \<longrightarrow> oe_restart_timer e = 0)
     \<and> (0 \<le> oe_conn_fd e \<longrightarrow> oe_conn_fd e \<noteq> oe_listen_fd e)"

definition watches_ok :: "output_sup \<Rightarrow> bool" where
  "watches_ok s \<longleftrightarrow> distinct (map w_id (os_watches s)) \<and> 0 < os_next_id s
     \<and> (\<forall>w \<in> set (os_watches s). 0 < w_id w \<and> w_id w < os_next_id s
          \<and> (\<exists>e. os_mem s (w_entry w) = Some e \<and> watch_matches w e))"

definition entries_ok :: "output_sup \<Rightarrow> bool" where
  "entries_ok s \<longleftrightarrow> (\<forall>h e. os_mem s h = Some e \<longrightarrow> entry_fine (os_next_id s) e \<and> own_fds e \<subseteq> os_fds s)
     \<and> (\<forall>h k e f. os_mem s h = Some e \<and> os_mem s k = Some f \<and> h \<noteq> k \<longrightarrow> own_fds e \<inter> own_fds f = {})"

definition outputs_table_ok :: "output_sup \<Rightarrow> bool" where
  "outputs_table_ok s \<longleftrightarrow> ht_wf (os_table s) \<and> distinct (map snd (os_table s))
     \<and> (\<forall>h. os_mem s h \<noteq> None \<longleftrightarrow> h \<in> snd ` set (os_table s))
     \<and> (\<forall>sid h. (sid, h) \<in> set (os_table s) \<longrightarrow> h < os_next_handle s \<and> (\<exists>e. os_mem s h = Some e \<and> oe_output_id e = sid))"

definition out_inv :: "output_sup \<Rightarrow> bool" where
  "out_inv s \<longleftrightarrow> watches_ok s \<and> entries_ok s \<and> outputs_table_ok s"

text \<open>What an operation on entry \<open>h\<close> may change: its own watches and descriptors, and identifiers only grow.\<close>

definition only_entry :: "nat \<Rightarrow> output_entry \<Rightarrow> output_sup \<Rightarrow> output_sup \<Rightarrow> bool" where
  "only_entry h e s s' \<longleftrightarrow> os_mem s' = (os_mem s)(h \<mapsto> e) \<and> os_table s' = os_table s
     \<and> os_next_handle s' = os_next_handle s \<and> os_next_id s \<le> os_next_id s'
     \<and> distinct (map w_id (os_watches s'))
     \<and> (\<forall>w \<in> set (os_watches s'). 0 < w_id w \<and> w_id w < os_next_id s'
          \<and> (if w_entry w = h then watch_matches w e else w \<in> set (os_watches s)))
     \<and> entry_fine (os_next_id s') e \<and> own_fds e \<subseteq> os_fds s'
     \<and> (\<forall>k f. k \<noteq> h \<and> os_mem s k = Some f \<longrightarrow> own_fds f \<subseteq> os_fds s' \<and> own_fds f \<inter> own_fds e = {})"

lemma entry_fine_mono: "entry_fine n e \<Longrightarrow> n \<le> m \<Longrightarrow> entry_fine m e"
  by (auto simp: entry_fine_def)

lemma only_entry_core:
  assumes "watches_ok s" "entries_ok s" "only_entry h e s s'"
  shows "watches_ok s'" "entries_ok s'"
proof -
  note o = assms(3) [unfolded only_entry_def]
  show "watches_ok s'"
    unfolding watches_ok_def
  proof (intro conjI ballI)
    show "distinct (map w_id (os_watches s'))"
      using o by blast
    show "0 < os_next_id s'"
      using o assms(1) by (simp add: watches_ok_def)
  next
    fix w
    assume w: "w \<in> set (os_watches s')"
    show "0 < w_id w" "w_id w < os_next_id s'"
      using o w by blast+
    show "\<exists>e. os_mem s' (w_entry w) = Some e \<and> watch_matches w e"
    proof (cases "w_entry w = h")
      case True
      then show ?thesis
        using o w by auto
    next
      case False
      then have "w \<in> set (os_watches s)"
        using o w by auto
      then show ?thesis
        using assms(1) o False by (auto simp: watches_ok_def)
    qed
  qed
  have mem: "os_mem s' k = (if k = h then Some e else os_mem s k)" for k
    using o by simp
  have "entry_fine (os_next_id s') f \<and> own_fds f \<subseteq> os_fds s'" if "os_mem s' k = Some f" for k f
  proof (cases "k = h")
    case True
    then show ?thesis
      using that o by (simp add: mem)
  next
    case False
    then have f: "os_mem s k = Some f"
      using that by (simp add: mem)
    then have "entry_fine (os_next_id s) f"
      using assms(2) by (simp add: entries_ok_def)
    then show ?thesis
      using o f False entry_fine_mono by blast
  qed
  moreover have "own_fds f \<inter> own_fds g = {}" if "os_mem s' k = Some f" "os_mem s' l = Some g" "k \<noteq> l" for k l f g
  proof -
    have other: "own_fds e' \<inter> own_fds e = {}" if "m \<noteq> h" "os_mem s m = Some e'" for m e'
      using o that by blast
    have two: "os_mem s k = Some f \<and> os_mem s l = Some g \<Longrightarrow> own_fds f \<inter> own_fds g = {}"
      using assms(2) \<open>k \<noteq> l\<close> unfolding entries_ok_def by blast
    show ?thesis
      using that two other [of k f] other [of l g] by (simp add: mem Int_commute split: if_splits)
  qed
  ultimately show "entries_ok s'"
    unfolding entries_ok_def by blast
qed

lemma only_entry_table:
  assumes "outputs_table_ok s" "only_entry h e' s s'" "os_mem s h = Some e" "oe_output_id e' = oe_output_id e"
  shows "outputs_table_ok s'"
proof -
  have eqs: "os_table s' = os_table s" "os_next_handle s' = os_next_handle s"
    and mem: "os_mem s' k = (if k = h then Some e' else os_mem s k)" for k
    using assms(2) by (simp_all add: only_entry_def)
  have "os_mem s' k \<noteq> None \<longleftrightarrow> os_mem s k \<noteq> None" for k
    using assms(3) by (simp add: mem)
  moreover have "\<exists>f. os_mem s' k = Some f \<and> oe_output_id f = sid" if row: "(sid, k) \<in> set (os_table s)" for sid k
  proof -
    obtain f where "os_mem s k = Some f" "oe_output_id f = sid"
      using assms(1) row by (meson outputs_table_ok_def)
    then show ?thesis
      using assms(3,4) by (cases "k = h") (simp_all add: mem)
  qed
  ultimately show ?thesis
    using assms(1) unfolding outputs_table_ok_def eqs by simp
qed

lemma only_entry_inv:
  assumes "out_inv s" "only_entry h e' s s'" "os_mem s h = Some e" "oe_output_id e' = oe_output_id e"
  shows "out_inv s'"
  using assms(1) only_entry_core [OF _ _ assms(2)] only_entry_table [OF _ assms(2-4)] by (simp add: out_inv_def)

section \<open>Small steps\<close>

lemma out_remove_fields [simp]:
  "os_mem (out_source_remove i s) = os_mem s" "os_table (out_source_remove i s) = os_table s"
  "os_next_handle (out_source_remove i s) = os_next_handle s" "os_next_id (out_source_remove i s) = os_next_id s"
  "os_fds (out_source_remove i s) = os_fds s"
  by (simp_all add: out_source_remove_def)

lemma out_close_fields [simp]:
  "os_mem (out_close fd s) = os_mem s" "os_table (out_close fd s) = os_table s" "os_watches (out_close fd s) = os_watches s"
  "os_next_handle (out_close fd s) = os_next_handle s" "os_next_id (out_close fd s) = os_next_id s"
  "os_fds (out_close fd s) = os_fds s - {fd' \<in> {fd}. 0 \<le> fd'}"
  by (auto simp: out_close_def)

lemma out_note_fields [simp]:
  "os_mem (out_signal g p s) = os_mem s" "os_table (out_signal g p s) = os_table s" "os_watches (out_signal g p s) = os_watches s"
  "os_next_handle (out_signal g p s) = os_next_handle s" "os_next_id (out_signal g p s) = os_next_id s" "os_fds (out_signal g p s) = os_fds s"
  "os_mem (out_reap p s) = os_mem s" "os_table (out_reap p s) = os_table s" "os_watches (out_reap p s) = os_watches s"
  "os_next_handle (out_reap p s) = os_next_handle s" "os_next_id (out_reap p s) = os_next_id s" "os_fds (out_reap p s) = os_fds s"
  "os_mem (out_send_shutdown e s) = os_mem s" "os_table (out_send_shutdown e s) = os_table s"
  "os_watches (out_send_shutdown e s) = os_watches s" "os_next_handle (out_send_shutdown e s) = os_next_handle s"
  "os_next_id (out_send_shutdown e s) = os_next_id s" "os_fds (out_send_shutdown e s) = os_fds s"
  by (simp_all add: out_signal_def out_reap_def out_send_shutdown_def)

lemma out_set_fields [simp]:
  "os_mem (out_set h e s) = (os_mem s)(h \<mapsto> e)" "os_table (out_set h e s) = os_table s" "os_watches (out_set h e s) = os_watches s"
  "os_next_handle (out_set h e s) = os_next_handle s" "os_next_id (out_set h e s) = os_next_id s" "os_fds (out_set h e s) = os_fds s"
  by (simp_all add: out_set_def)

lemma out_add_fields [simp]:
  "os_mem (out_watch_add k h s) = os_mem s" "os_table (out_watch_add k h s) = os_table s"
  "os_watches (out_watch_add k h s) = os_watches s @ [\<lparr>w_id = os_next_id s, w_kind = k, w_entry = h\<rparr>]"
  "os_next_handle (out_watch_add k h s) = os_next_handle s" "os_next_id (out_watch_add k h s) = Suc (os_next_id s)"
  "os_fds (out_watch_add k h s) = os_fds s"
  by (simp_all add: out_watch_add_def)

lemma watches_remove: "os_watches (out_source_remove i s) = filter (\<lambda>w. i = 0 \<or> w_id w \<noteq> i) (os_watches s)"
  by (simp add: out_source_remove_def)

lemma set_remove: "set (os_watches (out_source_remove i s)) = {w \<in> set (os_watches s). i = 0 \<or> w_id w \<noteq> i}"
  by (auto simp: out_source_remove_def)

lemma distinct_remove: "distinct (map w_id (os_watches s)) \<Longrightarrow> distinct (map w_id (os_watches (out_source_remove i s)))"
  by (auto simp: out_source_remove_def intro: distinct_map_filter)

lemma remove_watches_fields [simp]:
  "os_mem (remove_watches e s) = os_mem s" "os_table (remove_watches e s) = os_table s"
  "os_next_handle (remove_watches e s) = os_next_handle s" "os_next_id (remove_watches e s) = os_next_id s"
  "os_fds (remove_watches e s) = os_fds s"
  by (simp_all add: remove_watches_def)

lemma set_remove_watches:
  "set (os_watches (remove_watches e s)) = {w \<in> set (os_watches s). w_id w \<notin> entry_watch_ids e - {0}}"
  by (auto simp: remove_watches_def set_remove entry_watch_ids_def)

lemma distinct_remove_watches:
  "distinct (map w_id (os_watches s)) \<Longrightarrow> distinct (map w_id (os_watches (remove_watches e s)))"
  by (simp add: remove_watches_def distinct_remove)

text \<open>Without a watch of \<open>h\<close>, and with each watch of its kind only.\<close>

lemma no_watch_left:
  assumes "watches_ok s" "os_mem s h = Some e" "w \<in> set (os_watches (remove_watches e s))"
  shows "w_entry w \<noteq> h"
proof
  assume h: "w_entry w = h"
  have w: "w \<in> set (os_watches s)" "w_id w \<notin> entry_watch_ids e - {0}"
    using assms(3) by (simp_all add: set_remove_watches)
  then have "0 < w_id w" "w_id w = watch_field (w_kind w) e"
    using assms(1,2) h by (auto simp: watches_ok_def watch_matches_def)
  then show False
    using w(2) by (auto simp: watch_field_def entry_watch_ids_def split: watch_kind.splits)
qed

lemma same_kind_same_watch:
  assumes "watches_ok s" "w \<in> set (os_watches s)" "v \<in> set (os_watches s)" "w_entry v = w_entry w"
    and "\<And>e. watch_field (w_kind v) e = watch_field (w_kind w) e"
  shows "v = w"
proof -
  have "w_id v = w_id w"
  proof -
    obtain e where "os_mem s (w_entry w) = Some e" "w_id w = watch_field (w_kind w) e"
      using assms(1,2) by (auto simp: watches_ok_def watch_matches_def)
    moreover obtain f where "os_mem s (w_entry v) = Some f" "w_id v = watch_field (w_kind v) f"
      using assms(1,3) by (auto simp: watches_ok_def watch_matches_def)
    ultimately show ?thesis
      using assms(4,5) by simp
  qed
  then show ?thesis
    using assms(1-3) by (auto simp: watches_ok_def distinct_map inj_on_def)
qed


section \<open>Steps that keep the invariant\<close>

lemma out_inv_same:
  assumes "out_inv s" "os_mem s' = os_mem s" "os_table s' = os_table s" "os_next_handle s' = os_next_handle s"
    "os_next_id s' = os_next_id s" "os_fds s' = os_fds s" "distinct (map w_id (os_watches s'))"
    "set (os_watches s') \<subseteq> set (os_watches s)"
  shows "out_inv s'"
  using assms by (auto simp: out_inv_def watches_ok_def entries_ok_def outputs_table_ok_def)

lemma distinct_watches: "out_inv s \<Longrightarrow> distinct (map w_id (os_watches s))"
  by (simp add: out_inv_def watches_ok_def)

lemma inv_remove [simp]: "out_inv s \<Longrightarrow> out_inv (out_source_remove i s)"
  by (rule out_inv_same) (auto simp: distinct_watches distinct_remove set_remove)

lemma inv_remove_watches [simp]: "out_inv s \<Longrightarrow> out_inv (remove_watches e s)"
  by (simp add: remove_watches_def)

lemma inv_notes [simp]:
  assumes "out_inv s"
  shows "out_inv (out_signal g p s)" "out_inv (out_reap p s)" "out_inv (out_send_shutdown e s)"
  using assms distinct_watches [OF assms]
  by (auto intro!: out_inv_same [OF assms])

text \<open>An entry gives up descriptors and keeps the rest of what the invariant speaks of.\<close>

definition kept_by :: "nat \<Rightarrow> output_sup \<Rightarrow> output_entry \<Rightarrow> bool" where
  "kept_by h s e' \<longleftrightarrow> (\<forall>w \<in> set (os_watches s). w_entry w = h \<longrightarrow> watch_matches w e')"

lemma inv_set:
  assumes "out_inv s" "os_mem s h = Some e" "oe_output_id e' = oe_output_id e" "kept_by h s e'"
    "entry_fine (os_next_id s) e'" "own_fds e' \<subseteq> own_fds e" "os_mem s' = (os_mem s)(h \<mapsto> e')"
    "os_table s' = os_table s" "os_next_handle s' = os_next_handle s" "os_next_id s' = os_next_id s"
    "os_watches s' = os_watches s" "os_fds s - (own_fds e - own_fds e') \<subseteq> os_fds s'"
  shows "out_inv s'"
proof -
  have en: "own_fds f \<subseteq> os_fds s" if "os_mem s k = Some f" for k f
    using assms(1) that by (simp add: out_inv_def entries_ok_def)
  have dis: "own_fds f \<inter> own_fds e = {}" if "os_mem s k = Some f" "k \<noteq> h" for k f
    using assms(1,2) that unfolding out_inv_def entries_ok_def by blast
  have "only_entry h e' s s'"
    unfolding only_entry_def assms(7-11)
  proof (intro conjI)
    show "distinct (map w_id (os_watches s))"
      using assms(1) by (rule distinct_watches)
    show "\<forall>w \<in> set (os_watches s). 0 < w_id w \<and> w_id w < os_next_id s
        \<and> (if w_entry w = h then watch_matches w e' else w \<in> set (os_watches s))"
      using assms(1,4) by (auto simp: out_inv_def watches_ok_def kept_by_def)
    show "own_fds e' \<subseteq> os_fds s'"
      using en [OF assms(2)] assms(6,12) by blast
    show "\<forall>k f. k \<noteq> h \<and> os_mem s k = Some f \<longrightarrow> own_fds f \<subseteq> os_fds s' \<and> own_fds f \<inter> own_fds e' = {}"
    proof (intro allI impI)
      fix k f
      assume k: "k \<noteq> h \<and> os_mem s k = Some f"
      then have "own_fds f \<subseteq> os_fds s" "own_fds f \<inter> own_fds e = {}"
        using en dis by blast+
      then show "own_fds f \<subseteq> os_fds s' \<and> own_fds f \<inter> own_fds e' = {}"
        using assms(6,12) by blast
    qed
  qed (use assms(5) in simp_all)
  then show ?thesis
    by (rule only_entry_inv [OF assms(1) _ assms(2,3)])
qed

lemma entry_facts:
  assumes "out_inv s" "os_mem s h = Some e"
  shows "entry_fine (os_next_id s) e" "own_fds e \<subseteq> os_fds s" "kept_by h s e"
  using assms by (auto simp: out_inv_def entries_ok_def watches_ok_def kept_by_def)

lemma watch_entry:
  assumes "out_inv s" "w \<in> set (os_watches s)"
  obtains e where "os_mem s (w_entry w) = Some e" "watch_matches w e" "0 < w_id w" "w_id w < os_next_id s"
  using assms unfolding out_inv_def watches_ok_def by blast


lemma kept_same:
  assumes "kept_by h s e" "oe_io_watch e' = oe_io_watch e" "oe_child_watch e' = oe_child_watch e"
    "oe_accept_timer e' = oe_accept_timer e" "oe_stable_timer e' = oe_stable_timer e"
    "oe_restart_timer e' = oe_restart_timer e" "oe_listen_fd e' = oe_listen_fd e"
  shows "kept_by h s e'"
  using assms by (auto simp: kept_by_def watch_matches_def watch_field_def split: watch_kind.splits)

text \<open>Assigning to fields that hold neither a watch nor a descriptor.\<close>

lemma inv_set_plain:
  assumes "out_inv s" "os_mem s h = Some e" "oe_output_id e' = oe_output_id e"
    "oe_io_watch e' = oe_io_watch e" "oe_child_watch e' = oe_child_watch e"
    "oe_accept_timer e' = oe_accept_timer e" "oe_stable_timer e' = oe_stable_timer e"
    "oe_restart_timer e' = oe_restart_timer e" "oe_listen_fd e' = oe_listen_fd e" "oe_conn_fd e' = oe_conn_fd e"
  shows "out_inv (out_set h e' s)"
proof (rule inv_set [OF assms(1-3)])
  show "kept_by h s e'"
    using entry_facts(3) [OF assms(1,2)] assms(4-9) by (rule kept_same)
  show "entry_fine (os_next_id s) e'"
    using entry_facts(1) [OF assms(1,2)] assms(4-10) by (simp add: entry_fine_def entry_watch_ids_def)
qed (use assms(9,10) in \<open>simp_all add: own_fds_def\<close>)

lemma out_accept_timeout_inv:
  assumes "out_inv s" "os_mem s h = Some e" "\<forall>w \<in> set (os_watches s). w_entry w = h \<longrightarrow> w_kind w \<noteq> Watch_accept"
    "out_accept_timeout h s = Some s'"
  shows "out_inv s'"
proof -
  let ?e = "e\<lparr>oe_accept_timer := 0\<rparr>"
  have "out_inv (out_set h ?e s)"
  proof (rule inv_set [OF assms(1,2)])
    show "kept_by h s ?e"
      using entry_facts(3) [OF assms(1,2)] assms(3)
      by (auto simp: kept_by_def watch_matches_def watch_field_def split: watch_kind.splits)
    show "entry_fine (os_next_id s) ?e"
      using entry_facts(1) [OF assms(1,2)] by (auto simp: entry_fine_def entry_watch_ids_def)
  qed (simp_all add: own_fds_def)
  then show ?thesis
    using assms(2,4) by (auto simp: out_accept_timeout_def Let_def)
qed

lemma out_stable_timer_inv:
  assumes "out_inv s" "os_mem s h = Some e" "\<forall>w \<in> set (os_watches s). w_entry w = h \<longrightarrow> w_kind w \<noteq> Watch_stable"
    "out_stable_timer h s = Some s'"
  shows "out_inv s'"
proof -
  let ?e = "e\<lparr>oe_stable_timer := 0, oe_restart_attempts := 0\<rparr>"
  have "out_inv (out_set h ?e s)"
  proof (rule inv_set [OF assms(1,2)])
    show "kept_by h s ?e"
      using entry_facts(3) [OF assms(1,2)] assms(3)
      by (auto simp: kept_by_def watch_matches_def watch_field_def split: watch_kind.splits)
    show "entry_fine (os_next_id s) ?e"
      using entry_facts(1) [OF assms(1,2)] by (auto simp: entry_fine_def entry_watch_ids_def)
  qed (simp_all add: own_fds_def)
  then show ?thesis
    using assms(2,4) by (auto simp: out_stable_timer_def)
qed


section \<open>Freeing an entry\<close>

lemma entry_free_fields:
  assumes "os_mem s h = Some e"
  shows "os_mem (output_entry_free h s) = (os_mem s)(h := None)" "os_table (output_entry_free h s) = os_table s"
    "os_next_handle (output_entry_free h s) = os_next_handle s" "os_next_id (output_entry_free h s) = os_next_id s"
    "os_watches (output_entry_free h s) = os_watches (remove_watches e s)"
    "os_fds (output_entry_free h s) = os_fds s - own_fds e"
proof -
  let ?s = "if oe_pid e > 0 then out_reap (oe_pid e) (out_signal SIGKILL (oe_pid e) s) else s"
  have eq: "output_entry_free h s = (let t = out_close (oe_listen_fd e) (out_close (oe_conn_fd e) (remove_watches e ?s))
      in t\<lparr>os_mem := (os_mem t)(h := None)\<rparr>)"
    using assms by (simp add: output_entry_free_def Let_def)
  have same: "os_mem ?s = os_mem s" "os_table ?s = os_table s" "os_next_handle ?s = os_next_handle s"
    "os_next_id ?s = os_next_id s" "os_watches ?s = os_watches s" "os_fds ?s = os_fds s"
    by simp_all
  show "os_mem (output_entry_free h s) = (os_mem s)(h := None)" "os_table (output_entry_free h s) = os_table s"
    "os_next_handle (output_entry_free h s) = os_next_handle s" "os_next_id (output_entry_free h s) = os_next_id s"
    unfolding eq Let_def by (simp_all add: same)
  show "os_watches (output_entry_free h s) = os_watches (remove_watches e s)"
    unfolding eq Let_def remove_watches_def by (simp add: watches_remove)
  show "os_fds (output_entry_free h s) = os_fds s - own_fds e"
    unfolding eq Let_def by (auto simp: own_fds_def same)
qed

lemma entry_free_core:
  assumes "watches_ok s" "entries_ok s" "os_mem s h = Some e"
  shows "watches_ok (output_entry_free h s)" "entries_ok (output_entry_free h s)"
proof -
  show "watches_ok (output_entry_free h s)"
    unfolding watches_ok_def entry_free_fields [OF assms(3)]
  proof (intro conjI ballI)
    show "distinct (map w_id (os_watches (remove_watches e s)))"
      using assms(1) by (simp add: watches_ok_def distinct_remove_watches)
    show "0 < os_next_id s"
      using assms(1) by (simp add: watches_ok_def)
  next
    fix w
    assume w: "w \<in> set (os_watches (remove_watches e s))"
    then have "w \<in> set (os_watches s)" "w_entry w \<noteq> h"
      using no_watch_left [OF assms(1,3) w] by (simp_all add: set_remove_watches)
    then show "0 < w_id w" "w_id w < os_next_id s" "\<exists>f. ((os_mem s)(h := None)) (w_entry w) = Some f \<and> watch_matches w f"
      using assms(1) by (auto simp: watches_ok_def)
  qed
  have "own_fds f \<subseteq> os_fds s - own_fds e" if "os_mem s k = Some f" "k \<noteq> h" for k f
    using assms(2,3) that unfolding entries_ok_def by blast
  then show "entries_ok (output_entry_free h s)"
    using assms(2) unfolding entries_ok_def entry_free_fields [OF assms(3)] by (simp split: if_split_asm)
qed

lemma table_remove_inv:
  assumes "out_inv s"
  shows "out_inv (table_remove oid s)"
proof (cases "ht_lookup (os_table s) oid")
  case None
  then show ?thesis
    using assms by (simp add: table_remove_def)
next
  case (Some h)
  let ?s = "s\<lparr>os_table := ht_remove oid (os_table s)\<rparr>"
  note t = assms [unfolded out_inv_def, THEN conjunct2, THEN conjunct2]
  have wf: "ht_wf (os_table s)"
    using t by (simp add: outputs_table_ok_def)
  then have mem: "(oid, h) \<in> set (os_table s)"
    using Some by (simp add: ht_lookup_iff)
  then obtain e where e: "os_mem s h = Some e"
    using t by (meson outputs_table_ok_def)
  have core: "watches_ok ?s" "entries_ok ?s"
    using assms by (simp_all add: out_inv_def watches_ok_def entries_ok_def)
  have eq: "table_remove oid s = output_entry_free h ?s"
    using Some by (simp add: table_remove_def)
  have e': "os_mem ?s h = Some e"
    using e by simp
  have set: "(k, i) \<in> set (ht_remove oid (os_table s)) \<longleftrightarrow> (k, i) \<in> set (os_table s) \<and> i \<noteq> h" for k i
  proof -
    have "k = oid \<longleftrightarrow> i = h" if "(k, i) \<in> set (os_table s)"
      using that mem wf t by (metis (no_types, lifting) ht_lookup_iff option.inject outputs_table_ok_def snd_conv e)
    then show ?thesis
      by (auto simp: ht_remove_entries)
  qed
  have "outputs_table_ok (table_remove oid s)"
    unfolding outputs_table_ok_def eq entry_free_fields [OF e']
  proof (intro conjI allI impI)
    show "ht_wf (os_table ?s)"
      using wf by simp
    show "distinct (map snd (os_table ?s))"
      using t by (simp add: outputs_table_ok_def ht_remove_def AList.delete_eq distinct_map_filter)
    show "((os_mem ?s)(h := None)) k \<noteq> None \<longleftrightarrow> k \<in> snd ` set (os_table ?s)" for k
    proof -
      have "k \<in> snd ` set (os_table ?s) \<longleftrightarrow> k \<in> snd ` set (os_table s) \<and> k \<noteq> h"
        using set by (force simp: image_iff)
      then show ?thesis
        using t unfolding outputs_table_ok_def by simp
    qed
  next
    fix sid k
    assume "(sid, k) \<in> set (os_table ?s)"
    then have "(sid, k) \<in> set (os_table s)" "k \<noteq> h"
      by (simp_all add: set)
    then show "k < os_next_handle ?s" "\<exists>f. ((os_mem ?s)(h := None)) k = Some f \<and> oe_output_id f = sid"
      using t unfolding outputs_table_ok_def by simp_all
  qed
  then show ?thesis
    using entry_free_core [OF core e'] by (simp add: out_inv_def eq)
qed


section \<open>Workers started and cleaned up\<close>

text \<open>The descriptors the kernel answers with are new.\<close>

definition new_fd :: "output_sup \<Rightarrow> int \<Rightarrow> bool" where
  "new_fd s fd \<longleftrightarrow> 0 \<le> fd \<and> fd \<notin> os_fds s"

definition fresh_launch :: "output_sup \<Rightarrow> launch_env \<Rightarrow> bool" where
  "fresh_launch s v \<longleftrightarrow> (\<forall>l. le_listen v = Some l \<longrightarrow> new_fd s l
     \<and> (\<forall>a. le_accept v = Some a \<longrightarrow> new_fd s a \<and> a \<noteq> l))"

text \<open>An entry in hand whose worker is gone: no watch, no descriptor.\<close>

definition idle :: "nat \<Rightarrow> output_entry \<Rightarrow> output_sup \<Rightarrow> bool" where
  "idle h e s \<longleftrightarrow> own_fds e = {} \<and> oe_restart_timer e = 0 \<and> oe_stable_timer e = 0 \<and> oe_accept_timer e = 0
     \<and> oe_io_watch e = 0 \<and> oe_child_watch e = 0 \<and> oe_listen_fd e = -1 \<and> oe_conn_fd e = -1
     \<and> (\<forall>w \<in> set (os_watches s). w_entry w \<noteq> h)"

lemma others_keep:
  assumes "out_inv s" "os_mem s h = Some e" "k \<noteq> h" "os_mem s k = Some f"
  shows "own_fds f \<subseteq> os_fds s - own_fds e"
  using assms unfolding out_inv_def entries_ok_def by blast

lemma cleanup_inv:
  assumes "out_inv s" "os_mem s h = Some e" "output_entry_cleanup_worker h e s = (e', s')"
  shows "out_inv s'" "os_mem s' h = Some e'" "idle h e' s'" "oe_output_id e' = oe_output_id e" "os_fds s' \<subseteq> os_fds s"
proof -
  let ?t = "remove_watches e s"
  have e': "e' = e\<lparr>oe_pid := 0, oe_listen_fd := -1, oe_conn_fd := -1, oe_io_watch := 0, oe_child_watch := 0,
      oe_accept_timer := 0, oe_stable_timer := 0, oe_restart_timer := 0, oe_connected := False\<rparr>"
    and s': "s' = out_set h e' (out_close (oe_listen_fd e) (out_close (oe_conn_fd e) ?t))"
    using assms(3) by (auto simp: output_entry_cleanup_worker_def Let_def)
  have none: "w_entry w \<noteq> h" if "w \<in> set (os_watches ?t)" for w
    using no_watch_left [OF _ assms(2) that] assms(1) by (simp add: out_inv_def)
  have own: "own_fds e' = {}"
    by (simp add: e' own_fds_def)
  show "oe_output_id e' = oe_output_id e"
    by (simp add: e')
  show "out_inv s'"
  proof (rule inv_set [of ?t h e e'])
    show "entry_fine (os_next_id ?t) e'"
      using assms(1) by (simp add: e' entry_fine_def entry_watch_ids_def out_inv_def watches_ok_def)
    show "os_fds ?t - (own_fds e - own_fds e') \<subseteq> os_fds s'"
      by (auto simp: s' own_fds_def e')
  qed (use assms(1,2) none own in \<open>simp_all add: s' kept_by_def\<close>, simp add: e')
  show "os_mem s' h = Some e'"
    by (simp add: s')
  show "idle h e' s'"
    using none own by (simp add: idle_def s') (simp add: e')
  show "os_fds s' \<subseteq> os_fds s"
    by (auto simp: s')
qed


text \<open>A watch is installed and recorded, with descriptors \<open>F\<close> the kernel just opened.\<close>

lemma inv_add:
  assumes "out_inv s" "os_mem s h = Some e" "oe_output_id e' = oe_output_id e" "kept_by h s e'"
    "watch_matches \<lparr>w_id = os_next_id s, w_kind = k, w_entry = h\<rparr> e'" "entry_fine (Suc (os_next_id s)) e'"
    "own_fds e' \<subseteq> own_fds e \<union> F" "F \<inter> os_fds s = {}"
  shows "out_inv (out_set h e' (out_watch_add k h (s\<lparr>os_fds := F \<union> os_fds s\<rparr>)))"
proof -
  let ?w = "\<lparr>w_id = os_next_id s, w_kind = k, w_entry = h\<rparr>"
  let ?s = "out_set h e' (out_watch_add k h (s\<lparr>os_fds := F \<union> os_fds s\<rparr>))"
  have old: "0 < w_id w \<and> w_id w < os_next_id s \<and> (w_entry w = h \<longrightarrow> watch_matches w e')"
    if "w \<in> set (os_watches s)" for w
    using assms(1,4) that by (auto simp: out_inv_def watches_ok_def kept_by_def)
  have next_pos: "0 < os_next_id s"
    using assms(1) by (simp add: out_inv_def watches_ok_def)
  have "only_entry h e' s ?s"
    unfolding only_entry_def
  proof (intro conjI)
    have "os_next_id s \<notin> w_id ` set (os_watches s)"
      using old by fastforce
    then show "distinct (map w_id (os_watches ?s))"
      using distinct_watches [OF assms(1)] by simp
    show "\<forall>w \<in> set (os_watches ?s). 0 < w_id w \<and> w_id w < os_next_id ?s
        \<and> (if w_entry w = h then watch_matches w e' else w \<in> set (os_watches s))"
    proof
      fix w
      assume "w \<in> set (os_watches ?s)"
      then consider "w = ?w" | "w \<in> set (os_watches s)"
        by auto
      then show "0 < w_id w \<and> w_id w < os_next_id ?s \<and> (if w_entry w = h then watch_matches w e' else w \<in> set (os_watches s))"
        using assms(5) old [of w] next_pos by cases auto
    qed
    show "own_fds e' \<subseteq> os_fds ?s"
      using assms(7) entry_facts(2) [OF assms(1,2)] by auto
    show "\<forall>k f. k \<noteq> h \<and> os_mem s k = Some f \<longrightarrow> own_fds f \<subseteq> os_fds ?s \<and> own_fds f \<inter> own_fds e' = {}"
    proof (intro allI impI)
      fix k f
      assume k: "k \<noteq> h \<and> os_mem s k = Some f"
      then have "own_fds f \<subseteq> os_fds s - own_fds e"
        by (intro others_keep [OF assms(1,2)]) auto
      then show "own_fds f \<subseteq> os_fds ?s \<and> own_fds f \<inter> own_fds e' = {}"
        using assms(7,8) by auto
    qed
  qed (use assms(6) in simp_all)
  then show ?thesis
    by (rule only_entry_inv [OF assms(1) _ assms(2,3)])
qed

lemma collapse:
  "out_set h e' (out_watch_add k h (out_set h e s)) = out_set h e' (out_watch_add k h s)"
  "out_set h e' (out_watch_add k' h (out_watch_add k h (out_set h e s))) = out_set h e' (out_watch_add k' h (out_watch_add k h s))"
  "out_set h e' (out_set h e s) = out_set h e' s"
  by (simp_all add: out_set_def out_watch_add_def)

lemma inv_add_plain:
  assumes "out_inv s" "os_mem s h = Some e" "oe_output_id e' = oe_output_id e" "kept_by h s e'"
    "watch_matches \<lparr>w_id = os_next_id s, w_kind = k, w_entry = h\<rparr> e'" "entry_fine (Suc (os_next_id s)) e'"
    "own_fds e' \<subseteq> own_fds e"
  shows "out_inv (out_set h e' (out_watch_add k h s))"
  using inv_add [OF assms(1-6), of "{}"] assms(7) by simp

lemma out_connect_inv:
  assumes "out_inv s" "os_mem s h = Some e" "new_fd s fd" "oe_stable_timer e = 0"
    "\<forall>w \<in> set (os_watches s). w_entry w = h \<longrightarrow> \<not> is_Watch_io (w_kind w)"
  shows "out_inv (out_connect h fd e s)"
proof -
  let ?t = "out_source_remove (oe_accept_timer e) s"
  let ?e1 = "e\<lparr>oe_conn_fd := fd, oe_io_watch := os_next_id s, oe_accept_timer := 0, oe_connected := True\<rparr>"
  let ?e2 = "e\<lparr>oe_conn_fd := fd, oe_io_watch := os_next_id s, oe_accept_timer := 0,
    oe_stable_timer := os_next_id s + 1, oe_connected := True\<rparr>"
  let ?u = "out_set h ?e1 (out_watch_add (Watch_io fd) h (?t\<lparr>os_fds := {fd} \<union> os_fds ?t\<rparr>))"
  have ids: "i < os_next_id s" if "i \<in> entry_watch_ids e" for i
    using entry_facts(1) [OF assms(1,2)] that by (simp add: entry_fine_def)
  have fd: "0 \<le> fd" "fd \<noteq> oe_listen_fd e"
    using assms(3) entry_facts(2) [OF assms(1,2)] by (auto simp: new_fd_def own_fds_def)
  have inv_t: "out_inv ?t" "os_mem ?t h = Some e"
    using assms(1,2) by simp_all
  have kept_t: "kept_by h ?t e"
    using entry_facts(3) [OF inv_t] .
  have no_stable: "w_kind w \<noteq> Watch_stable" "w_kind w \<noteq> Watch_accept"
    if "w \<in> set (os_watches ?t)" "w_entry w = h" for w
  proof -
    have m: "0 < w_id w" "w_id w = watch_field (w_kind w) e"
      using inv_t that by (auto simp: out_inv_def watches_ok_def watch_matches_def)
    then show "w_kind w \<noteq> Watch_stable"
      using assms(4) by (auto simp: watch_field_def)
    show "w_kind w \<noteq> Watch_accept"
      using m that by (auto simp: set_remove watch_field_def)
  qed
  have no_io: "w_kind w \<noteq> Watch_io g" if "w \<in> set (os_watches ?t)" "w_entry w = h" for w g
    using assms(5) that by (auto simp: set_remove)
  have kept1: "kept_by h ?t ?e1"
    using kept_t no_stable assms(5)
    by (auto simp: kept_by_def watch_matches_def watch_field_def set_remove split: watch_kind.splits)
  have u: "out_inv ?u"
  proof (rule inv_add [OF inv_t _ kept1])
    show "watch_matches \<lparr>w_id = os_next_id ?t, w_kind = Watch_io fd, w_entry = h\<rparr> ?e1"
      using fd by (simp add: watch_matches_def watch_field_def)
    show "entry_fine (Suc (os_next_id ?t)) ?e1"
      using ids entry_facts(1) [OF assms(1,2)] fd by (auto simp: entry_fine_def entry_watch_ids_def less_Suc_eq)
    show "own_fds ?e1 \<subseteq> own_fds e \<union> {fd}"
      by (auto simp: own_fds_def)
  qed (use assms(3) in \<open>simp_all add: new_fd_def\<close>)
  have "out_inv (out_set h ?e2 (out_watch_add Watch_stable h ?u))"
  proof (rule inv_add_plain [OF u, of h ?e1])
    show "kept_by h ?u ?e2"
      using entry_facts(3) [OF u, of h ?e1] no_stable fd no_io
      by (auto simp: kept_by_def watch_matches_def watch_field_def split: watch_kind.splits)
    show "watch_matches \<lparr>w_id = os_next_id ?u, w_kind = Watch_stable, w_entry = h\<rparr> ?e2"
      by (simp add: watch_matches_def watch_field_def)
    show "entry_fine (Suc (os_next_id ?u)) ?e2"
      using entry_facts(1) [OF u, of h ?e1] by (auto simp: entry_fine_def entry_watch_ids_def)
  qed (simp_all add: own_fds_def)
  moreover have "out_set h ?e2 (out_watch_add Watch_stable h ?u) = out_connect h fd e s"
    by (simp add: out_connect_def Let_def collapse) (simp add: out_source_remove_def out_set_def out_watch_add_def)
  ultimately show ?thesis
    by simp
qed


text \<open>A launch, of an entry with nothing installed.\<close>

lemma launch_started:
  assumes "out_inv s" "os_mem s h = Some e" "idle h e s" "new_fd s lfd"
    and "e1 = e\<lparr>oe_pid := pid, oe_listen_fd := lfd, oe_child_watch := os_next_id s,
      oe_accept_timer := os_next_id s + 1, oe_last_start := now\<rparr>"
  shows "out_inv (out_set h e1 (out_watch_add Watch_accept h (out_watch_add (Watch_child pid) h
      (s\<lparr>os_fds := insert lfd (os_fds s), os_procs := insert pid (os_procs s)\<rparr>))))"
proof -
  let ?s = "s\<lparr>os_procs := insert pid (os_procs s)\<rparr>"
  let ?e = "e\<lparr>oe_pid := pid, oe_listen_fd := lfd, oe_child_watch := os_next_id s, oe_last_start := now\<rparr>"
  let ?u = "out_set h ?e (out_watch_add (Watch_child pid) h (?s\<lparr>os_fds := {lfd} \<union> os_fds ?s\<rparr>))"
  have next_pos: "0 < os_next_id s"
    using assms(1) by (simp add: out_inv_def watches_ok_def)
  have inv: "out_inv ?s" "os_mem ?s h = Some e"
    using assms(1,2) distinct_watches [OF assms(1)] by (auto intro!: out_inv_same [OF assms(1)])
  have none: "w_entry w \<noteq> h" if "w \<in> set (os_watches s)" for w
    using assms(3) that by (simp add: idle_def)
  have u: "out_inv ?u"
  proof (rule inv_add [OF inv])
    show "entry_fine (Suc (os_next_id ?s)) ?e"
      using assms(3) next_pos by (auto simp: entry_fine_def entry_watch_ids_def idle_def)
    show "own_fds ?e \<subseteq> own_fds e \<union> {lfd}"
      using assms(3) by (auto simp: own_fds_def idle_def)
  qed (use none assms(4) in \<open>auto simp: kept_by_def watch_matches_def watch_field_def new_fd_def\<close>)
  have "out_inv (out_set h e1 (out_watch_add Watch_accept h ?u))"
  proof (rule inv_add_plain [OF u, of h ?e])
    show "entry_fine (Suc (os_next_id ?u)) e1"
      using assms(3) next_pos by (auto simp: assms(5) entry_fine_def entry_watch_ids_def idle_def)
  qed (use none in \<open>auto simp: assms(5) kept_by_def watch_matches_def watch_field_def own_fds_def\<close>)
  moreover have "out_set h e1 (out_watch_add Watch_accept h ?u)
      = out_set h e1 (out_watch_add Watch_accept h (out_watch_add (Watch_child pid) h
          (s\<lparr>os_fds := insert lfd (os_fds s), os_procs := insert pid (os_procs s)\<rparr>)))"
    by (simp add: out_set_def out_watch_add_def)
  ultimately show ?thesis
    by simp
qed

end
