(* ===== verification/Output_Sup_Ops.thy ===== *)
theory Output_Sup_Ops
  imports Output_Sup_Inv
begin

text \<open>
  Every operation of the output supervisor, callbacks included, keeps the invariant of theory
  Output_Sup_Inv and has a result; the shutdown leaves nothing.
\<close>


lemma watch_id:
  assumes "out_inv s" "os_mem s h = Some e" "w \<in> set (os_watches s)" "w_entry w = h"
  shows "w_id w = watch_field (w_kind w) e" "0 < w_id w"
proof -
  obtain f where "os_mem s (w_entry w) = Some f" "watch_matches w f" "0 < w_id w"
    using assms(1,3) by (rule watch_entry)
  then show "w_id w = watch_field (w_kind w) e" "0 < w_id w"
    using assms(2,4) by (simp_all add: watch_matches_def)
qed

lemma kept_by_change:
  assumes "kept_by h s e"
    and "\<And>w. w \<in> set (os_watches s) \<Longrightarrow> w_entry w = h \<Longrightarrow> watch_field (w_kind w) e' = watch_field (w_kind w) e
      \<and> (is_Watch_io (w_kind w) \<longrightarrow> oe_listen_fd e' = oe_listen_fd e \<and> oe_stable_timer e' = oe_stable_timer e)"
  shows "kept_by h s e'"
  unfolding kept_by_def
proof (intro ballI impI)
  fix w
  assume w: "w \<in> set (os_watches s)" "w_entry w = h"
  then have "watch_matches w e"
    using assms(1) by (simp add: kept_by_def)
  then show "watch_matches w e'"
    using assms(2) [OF w] by (auto simp: watch_matches_def)
qed

text \<open>The state once the worker \<open>pid\<close> listens on \<open>lfd\<close>.\<close>

definition launched :: "launch_env \<Rightarrow> nat \<Rightarrow> int \<Rightarrow> nat \<Rightarrow> output_entry \<Rightarrow> output_sup \<Rightarrow> output_sup" where
  "launched v h lfd pid e s =
     (let s = s\<lparr>os_fds := insert lfd (os_fds s), os_procs := insert pid (os_procs s)\<rparr>;
          e = e\<lparr>oe_pid := pid, oe_listen_fd := lfd, oe_child_watch := os_next_id s,
                oe_accept_timer := os_next_id s + 1, oe_last_start := le_now v\<rparr>;
          s = out_watch_add (Watch_child pid) h s;
          s = out_watch_add Watch_accept h s
      in case le_accept v of
           Some fd \<Rightarrow> out_connect h fd e s
         | None \<Rightarrow> out_set h (e\<lparr>oe_io_watch := os_next_id s\<rparr>) (out_watch_add (Watch_io lfd) h s))"

lemma output_entry_launch_cases:
  assumes "output_entry_launch v h e s = (rc, s')"
  obtains (failed) "rc \<noteq> SBS_OK" "s' = out_set h (e\<lparr>oe_listen_fd := -1\<rparr>) s"
  | (started) lfd pid where "rc = SBS_OK" "le_listen v = Some lfd" "s' = launched v h lfd pid e s"
proof -
  have "rc \<noteq> SBS_OK \<and> s' = out_set h (e\<lparr>oe_listen_fd := -1\<rparr>) s
    \<or> (\<exists>lfd pid. rc = SBS_OK \<and> le_listen v = Some lfd \<and> s' = launched v h lfd pid e s)"
  proof (cases "le_listen v \<noteq> None \<and> le_config v \<and> le_pipe v \<and> le_fork v \<noteq> None")
    case True
    then obtain lfd pid where v: "le_listen v = Some lfd" "le_fork v = Some pid" "le_config v" "le_pipe v"
      by blast
    have "output_entry_launch v h e s = (SBS_OK, launched v h lfd pid e s)"
      unfolding output_entry_launch_def launched_def v option.case Let_def using v(3,4) by simp
    then show ?thesis
      using assms v(1) by auto
  next
    case False
    then show ?thesis
      using assms by (auto simp: output_entry_launch_def split: if_splits option.splits)
  qed
  then show ?thesis
    using that by blast
qed

text \<open>Installing over an entry in hand is the same as over the entry in memory.\<close>

lemma connect_set: "out_connect h fd e (out_set h e s) = out_connect h fd e s"
  by (simp add: out_connect_def Let_def out_source_remove_def out_set_def out_watch_add_def)

lemma output_entry_launch_inv:
  assumes "out_inv s" "os_mem s h = Some e" "idle h e s" "fresh_launch s v" "output_entry_launch v h e s = (rc, s')"
  shows "out_inv s'"
  using assms(5)
proof (cases rule: output_entry_launch_cases)
  case failed
  then show ?thesis
    using assms(3) by (simp add: idle_def inv_set_plain [OF assms(1,2)])
next
  case (started lfd pid)
  define e1 where "e1 = e\<lparr>oe_pid := pid, oe_listen_fd := lfd, oe_child_watch := os_next_id s,
      oe_accept_timer := os_next_id s + 1, oe_last_start := le_now v\<rparr>"
  define t where "t = out_watch_add Watch_accept h (out_watch_add (Watch_child pid) h
      (s\<lparr>os_fds := insert lfd (os_fds s), os_procs := insert pid (os_procs s)\<rparr>))"
  let ?u = "out_set h e1 t"
  have fresh: "new_fd s lfd" "\<And>a. le_accept v = Some a \<Longrightarrow> new_fd s a \<and> a \<noteq> lfd"
    using assms(4) started(2) by (auto simp: fresh_launch_def)
  have u: "out_inv ?u"
    unfolding t_def by (rule launch_started [OF assms(1-3) fresh(1) e1_def])
  have none: "\<not> is_Watch_io (w_kind w)" "w_kind w \<noteq> Watch_stable" if "w \<in> set (os_watches ?u)" "w_entry w = h" for w
  proof -
    have "w \<in> set (os_watches s) \<or> w = \<lparr>w_id = os_next_id s, w_kind = Watch_child pid, w_entry = h\<rparr>
        \<or> w = \<lparr>w_id = os_next_id s + 1, w_kind = Watch_accept, w_entry = h\<rparr>"
      using that(1) by (auto simp: t_def)
    moreover have "w \<notin> set (os_watches s)"
      using assms(3) that(2) by (auto simp: idle_def)
    ultimately show "\<not> is_Watch_io (w_kind w)" "w_kind w \<noteq> Watch_stable"
      by auto
  qed
  have s': "s' = (case le_accept v of Some fd \<Rightarrow> out_connect h fd e1 t
      | None \<Rightarrow> out_set h (e1\<lparr>oe_io_watch := os_next_id t\<rparr>) (out_watch_add (Watch_io lfd) h t))"
    using started(3) unfolding launched_def e1_def t_def Let_def by (simp split: option.split)
  show ?thesis
  proof (cases "le_accept v")
    case (Some fd)
    have "out_inv (out_connect h fd e1 ?u)"
      using none fresh(2) [OF Some] assms(3)
      by (intro out_connect_inv [OF u]) (auto simp: t_def new_fd_def e1_def idle_def)
    then show ?thesis
      by (simp add: s' Some connect_set)
  next
    case None
    let ?e = "e1\<lparr>oe_io_watch := os_next_id t\<rparr>"
    have "out_inv (out_set h ?e (out_watch_add (Watch_io lfd) h ?u))"
    proof (rule inv_add_plain [OF u, of h e1])
      show "kept_by h ?u ?e"
        using entry_facts(3) [OF u, of h e1]
      proof (rule kept_by_change)
        fix w
        assume "w \<in> set (os_watches ?u)" "w_entry w = h"
        then have "\<not> is_Watch_io (w_kind w)"
          by (rule none(1))
        then show "watch_field (w_kind w) ?e = watch_field (w_kind w) e1
          \<and> (is_Watch_io (w_kind w) \<longrightarrow> oe_listen_fd ?e = oe_listen_fd e1 \<and> oe_stable_timer ?e = oe_stable_timer e1)"
          by (cases "w_kind w") (simp_all add: watch_field_def)
      qed simp
      show "watch_matches \<lparr>w_id = os_next_id ?u, w_kind = Watch_io lfd, w_entry = h\<rparr> ?e"
        using fresh(1) assms(3) by (simp add: watch_matches_def watch_field_def new_fd_def e1_def idle_def)
      show "entry_fine (Suc (os_next_id ?u)) ?e"
        using entry_facts(1) [OF u, of h e1] by (auto simp: entry_fine_def entry_watch_ids_def)
    qed (simp_all add: own_fds_def)
    then show ?thesis
      by (simp add: s' None collapse)
  qed
qed


section \<open>Requests\<close>

lemma out_schedule_restart_inv:
  assumes "out_inv s" "os_mem s h = Some e" "oe_child_watch e = 0" "oe_restart_timer e = 0"
  shows "out_inv (out_schedule_restart up jitter h e s)"
proof -
  let ?e = "e\<lparr>oe_restart_attempts := oe_restart_attempts e + 1\<rparr>"
  have "out_inv (out_set h ?e s)"
    by (intro inv_set_plain [OF assms(1,2)]) simp_all
  moreover have "out_inv (out_set h (?e\<lparr>oe_restart_timer := os_next_id s\<rparr>) (out_watch_add (Watch_restart d) h s))" for d
  proof (rule inv_add_plain [OF assms(1,2)])
    have "w_kind w \<noteq> Watch_restart d'" if "w \<in> set (os_watches s)" "w_entry w = h" for w d'
      using watch_id [OF assms(1,2) that] assms(4) by (auto simp: watch_field_def)
    then show "kept_by h s (?e\<lparr>oe_restart_timer := os_next_id s\<rparr>)"
      using entry_facts(3) [OF assms(1,2)]
      by (auto simp: kept_by_def watch_matches_def watch_field_def split: watch_kind.splits)
    show "watch_matches \<lparr>w_id = os_next_id s, w_kind = Watch_restart d, w_entry = h\<rparr> (?e\<lparr>oe_restart_timer := os_next_id s\<rparr>)"
      by (simp add: watch_matches_def watch_field_def)
    show "entry_fine (Suc (os_next_id s)) (?e\<lparr>oe_restart_timer := os_next_id s\<rparr>)"
      using entry_facts(1) [OF assms(1,2)] assms(3) by (auto simp: entry_fine_def entry_watch_ids_def)
  qed (simp_all add: own_fds_def)
  ultimately show ?thesis
    by (simp add: out_schedule_restart_def Let_def)
qed

lemma schedule_set: "out_schedule_restart up jitter h e (out_set h e' s) = out_schedule_restart up jitter h e s"
  by (simp add: out_schedule_restart_def Let_def out_set_def out_watch_add_def)

lemma out_child_exit_inv:
  assumes "out_inv s" "os_mem s h = Some e" "oe_restart_timer e = 0"
    "\<forall>w \<in> set (os_watches s). w_entry w = h \<longrightarrow> \<not> is_Watch_child (w_kind w)"
    "out_child_exit up jitter pid h s = Some s'"
  shows "out_inv s'"
proof -
  let ?t = "out_source_remove (oe_io_watch e) (out_reap pid s)"
  let ?e = "e\<lparr>oe_pid := 0, oe_listen_fd := -1, oe_conn_fd := -1, oe_io_watch := 0, oe_child_watch := 0, oe_connected := False\<rparr>"
  let ?u = "out_set h ?e (out_close (oe_listen_fd e) (out_close (oe_conn_fd e) ?t))"
  have t: "out_inv ?t" "os_mem ?t h = Some e"
    using assms(1,2) by simp_all
  have no_io: "\<not> is_Watch_io (w_kind w)" if "w \<in> set (os_watches ?t)" "w_entry w = h" for w
  proof
    assume "is_Watch_io (w_kind w)"
    then have "w_id w = oe_io_watch e" "0 < w_id w"
      using watch_id [OF t that] by (auto simp: watch_field_def split: watch_kind.splits)
    then show False
      using that(1) by (simp add: set_remove)
  qed
  have u: "out_inv ?u" "os_mem ?u h = Some ?e"
  proof -
    show "out_inv ?u"
    proof (rule inv_set [OF t])
      show "kept_by h ?t ?e"
        using entry_facts(3) [OF t]
      proof (rule kept_by_change)
        fix w
        assume w: "w \<in> set (os_watches ?t)" "w_entry w = h"
        then have "\<not> is_Watch_io (w_kind w)" "\<not> is_Watch_child (w_kind w)"
          using no_io assms(4) by (simp_all add: set_remove)
        then show "watch_field (w_kind w) ?e = watch_field (w_kind w) e
          \<and> (is_Watch_io (w_kind w) \<longrightarrow> oe_listen_fd ?e = oe_listen_fd e \<and> oe_stable_timer ?e = oe_stable_timer e)"
          by (cases "w_kind w") (simp_all add: watch_field_def)
      qed
      show "entry_fine (os_next_id ?t) ?e"
        using entry_facts(1) [OF t] assms(3) by (auto simp: entry_fine_def entry_watch_ids_def)
      show "os_fds ?t - (own_fds e - own_fds ?e) \<subseteq> os_fds ?u"
        by (auto simp: own_fds_def)
    qed (auto simp: own_fds_def)
    show "os_mem ?u h = Some ?e"
      by simp
  qed
  have "out_inv (out_schedule_restart up jitter h ?e ?u)"
    by (rule out_schedule_restart_inv [OF u]) (simp_all add: assms(3))
  moreover have "s' = (if oe_shutting_down e
      then (if ht_lookup (os_table ?u) (oe_output_id ?e) = Some h then table_remove (oe_output_id ?e) ?u else ?u)
      else out_schedule_restart up jitter h ?e ?u)"
    using assms(2,5) by (simp add: out_child_exit_def Let_def)
  ultimately show ?thesis
    using u(1) table_remove_inv by simp
qed


lemma new_fd_sub: "new_fd s fd \<Longrightarrow> os_fds s' \<subseteq> os_fds s \<Longrightarrow> new_fd s' fd"
  by (auto simp: new_fd_def)

lemma fresh_launch_sub: "fresh_launch s v \<Longrightarrow> os_fds s' \<subseteq> os_fds s \<Longrightarrow> fresh_launch s' v"
  unfolding fresh_launch_def using new_fd_sub by blast

lemma out_restart_timer_inv:
  assumes "out_inv s" "os_mem s h = Some e" "fresh_launch s v"
    "\<forall>w \<in> set (os_watches s). w_entry w = h \<longrightarrow> \<not> is_Watch_restart (w_kind w)"
    "out_restart_timer v up jitter h s = Some s'"
  shows "out_inv s'"
proof -
  let ?e = "e\<lparr>oe_restart_timer := 0\<rparr>" and ?s = "out_set h (e\<lparr>oe_restart_timer := 0\<rparr>) s"
  have s: "out_inv ?s" "os_mem ?s h = Some ?e"
  proof -
    show "out_inv ?s"
    proof (rule inv_set [OF assms(1,2)])
      show "kept_by h s ?e"
        using entry_facts(3) [OF assms(1,2)]
      proof (rule kept_by_change)
        fix w
        assume "w \<in> set (os_watches s)" "w_entry w = h"
        then have "\<not> is_Watch_restart (w_kind w)"
          using assms(4) by simp
        then show "watch_field (w_kind w) ?e = watch_field (w_kind w) e
          \<and> (is_Watch_io (w_kind w) \<longrightarrow> oe_listen_fd ?e = oe_listen_fd e \<and> oe_stable_timer ?e = oe_stable_timer e)"
          by (cases "w_kind w") (simp_all add: watch_field_def)
      qed
      show "entry_fine (os_next_id s) ?e"
        using entry_facts(1) [OF assms(1,2)] by (auto simp: entry_fine_def entry_watch_ids_def)
    qed (simp_all add: own_fds_def)
  qed simp
  obtain e1 s1 where cl: "output_entry_cleanup_worker h ?e ?s = (e1, s1)"
    by (cases "output_entry_cleanup_worker h ?e ?s")
  note c = cleanup_inv [OF s cl]
  obtain rc s2 where la: "output_entry_launch v h e1 s1 = (rc, s2)"
    by (cases "output_entry_launch v h e1 s1")
  have "fresh_launch s1 v"
    using assms(3) c(5) by (auto intro: fresh_launch_sub)
  then have s2: "out_inv s2"
    by (rule output_entry_launch_inv [OF c(1-3) _ la])
  have s': "s' = (if oe_shutting_down ?e then ?s
      else if rc \<noteq> SBS_OK then out_schedule_restart up jitter h (the (os_mem s2 h)) s2 else s2)"
    using assms(5) unfolding out_restart_timer_def assms(2) option.case Let_def cl prod.case la
    by (simp split: if_split_asm)
  have "out_inv (out_schedule_restart up jitter h (the (os_mem s2 h)) s2)" if "rc \<noteq> SBS_OK"
    using la
  proof (cases rule: output_entry_launch_cases)
    case failed
    then show ?thesis
      using s2 c(3) by (intro out_schedule_restart_inv) (auto simp: idle_def)
  qed (use that in simp)
  then show ?thesis
    using s(1) s2 by (simp add: s')
qed

lemma remove_commutes:
  assumes "i < os_next_id s"
  shows "out_source_remove i (out_connect h fd e s) = out_connect h fd e (out_source_remove i s)"
  using assms by (auto simp: out_connect_def Let_def out_source_remove_def out_set_def out_watch_add_def conj_commute
      intro!: arg_cong [where f = "\<lambda>ws. _ (os_watches_update (\<lambda>_. ws))"])


lemma out_lose_connection_inv:
  assumes "out_inv s" "os_mem s h = Some e" "w \<in> set (os_watches s)" "w_entry w = h" "is_Watch_io (w_kind w)"
  shows "out_inv (out_source_remove (w_id w) (out_lose_connection h e s))"
proof -
  let ?t = "out_source_remove (w_id w) s"
  let ?e = "e\<lparr>oe_conn_fd := -1, oe_io_watch := 0, oe_connected := False\<rparr>"
  let ?u = "out_set h ?e (out_close (oe_conn_fd e) ?t)"
  have t: "out_inv ?t" "os_mem ?t h = Some e"
    using assms(1,2) by simp_all
  have id: "w_id w = oe_io_watch e" "0 < w_id w"
    using watch_id [OF assms(1-4)] assms(5) by (auto simp: watch_field_def split: watch_kind.splits)
  have no_io: "\<not> is_Watch_io (w_kind v)" if "v \<in> set (os_watches ?t)" "w_entry v = h" for v
  proof
    assume "is_Watch_io (w_kind v)"
    then have "w_id v = w_id w"
      using watch_id [OF t that] id by (auto simp: watch_field_def split: watch_kind.splits)
    then show False
      using that(1) id by (simp add: set_remove)
  qed
  have "out_inv ?u"
  proof (rule inv_set [OF t])
    show "kept_by h ?t ?e"
      using entry_facts(3) [OF t]
    proof (rule kept_by_change)
      fix v
      assume "v \<in> set (os_watches ?t)" "w_entry v = h"
      then have "\<not> is_Watch_io (w_kind v)"
        by (rule no_io)
      then show "watch_field (w_kind v) ?e = watch_field (w_kind v) e
        \<and> (is_Watch_io (w_kind v) \<longrightarrow> oe_listen_fd ?e = oe_listen_fd e \<and> oe_stable_timer ?e = oe_stable_timer e)"
        by (cases "w_kind v") (simp_all add: watch_field_def)
    qed
    show "entry_fine (os_next_id ?t) ?e"
      using entry_facts(1) [OF t] by (auto simp: entry_fine_def entry_watch_ids_def)
    show "os_fds ?t - (own_fds e - own_fds ?e) \<subseteq> os_fds ?u"
      using entry_facts(1) [OF t] by (auto simp: own_fds_def entry_fine_def)
  qed (auto simp: own_fds_def)
  moreover have "out_source_remove (w_id w) (out_lose_connection h e s)
      = (if \<not> oe_shutting_down e \<and> oe_pid e > 0 then out_signal SIGKILL (oe_pid e) ?u else ?u)"
    by (simp add: out_lose_connection_def Let_def out_source_remove_def out_set_def out_close_def out_signal_def)
  ultimately show ?thesis
    by simp
qed

lemma on_worker_data_inv:
  assumes "out_inv s" "w \<in> set (os_watches s)" "w_kind w = Watch_io fd"
    "\<forall>a. acc = Some a \<longrightarrow> new_fd s a" "on_worker_data acc hup rc fd (w_entry w) s = Some (keep, s1)"
  shows "out_inv (if keep then s1 else out_source_remove (w_id w) s1)"
proof -
  obtain e where e: "os_mem s (w_entry w) = Some e" "watch_matches w e" "w_id w < os_next_id s"
    using watch_entry [OF assms(1,2)] by metis
  have connect: "out_inv (out_source_remove (w_id w) (out_connect (w_entry w) conn e s))"
    if "fd = oe_listen_fd e" "acc = Some conn" for conn
  proof -
    let ?t = "out_source_remove (w_id w) s"
    have "\<not> is_Watch_io (w_kind v)" if "v \<in> set (os_watches ?t)" "w_entry v = w_entry w" for v
    proof
      assume "is_Watch_io (w_kind v)"
      then have "w_id v = w_id w"
        using watch_id [OF assms(1) e(1), of v] watch_id [OF assms(1) e(1) assms(2)] that assms(3)
        by (auto simp: set_remove watch_field_def split: watch_kind.splits)
      then show False
        using that(1) watch_id [OF assms(1) e(1) assms(2)] by (simp add: set_remove)
    qed
    moreover have "oe_stable_timer e = 0"
      using e(2) assms(3) that(1) by (simp add: watch_matches_def)
    ultimately have "out_inv (out_connect (w_entry w) conn e ?t)"
      using assms(1,4) e(1) that(2) by (intro out_connect_inv) (simp_all add: new_fd_def)
    then show ?thesis
      by (simp add: remove_commutes [OF e(3)])
  qed
  have lose: "out_inv (out_source_remove (w_id w) (out_lose_connection (w_entry w) e s))"
    using assms(1-3) e(1) by (intro out_lose_connection_inv) simp_all
  show ?thesis
    using assms(1,5) connect lose e(1)
    by (auto simp: on_worker_data_def split: if_split_asm option.splits)
qed

text \<open>A callback of the main loop finds its entry and keeps the invariant.\<close>

definition fresh_answers :: "output_sup \<Rightarrow> output_env \<Rightarrow> bool" where
  "fresh_answers s v \<longleftrightarrow> fresh_launch s (ov_launch v) \<and> (\<forall>a. ov_accepted v = Some a \<longrightarrow> new_fd s a)"


lemma gone_watch:
  assumes "out_inv s" "w \<in> set (os_watches s)" "os_mem s (w_entry w) = Some e"
    "v \<in> set (os_watches (out_source_remove (w_id w) s))" "w_entry v = w_entry w"
  shows "watch_field (w_kind v) e \<noteq> watch_field (w_kind w) e"
  using watch_id [OF assms(1,3,2)] watch_id [OF assms(1,3) _ assms(5)] assms(4) by (auto simp: set_remove)

lemma lone_watch:
  assumes "out_inv s" "w \<in> set (os_watches s)" "os_mem s (w_entry w) = Some e"
    and "\<And>k. \<not> P k \<Longrightarrow> watch_field k e = watch_field (w_kind w) e"
  shows "\<forall>v \<in> set (os_watches (out_source_remove (w_id w) s)). w_entry v = w_entry w \<longrightarrow> P (w_kind v)"
  using gone_watch [OF assms(1-3)] assms(4) by blast

lemma out_run_watch_inv:
  assumes "out_inv s" "w \<in> set (os_watches s)" "fresh_answers s v"
  shows "\<exists>s'. out_run_watch v w s = Some s' \<and> out_inv s'"
proof -
  obtain e where e: "os_mem s (w_entry w) = Some e"
    using watch_entry [OF assms(1,2)] by metis
  let ?t = "out_source_remove (w_id w) s"
  have t: "out_inv ?t" "os_mem ?t (w_entry w) = Some e"
    using assms(1) e by simp_all
  note id = watch_id [OF assms(1) e assms(2) refl]
  show ?thesis
  proof (cases "w_kind w")
    case (Watch_io fd)
    obtain keep s1 where d: "on_worker_data (ov_accepted v) (ov_hup v) (ov_rc v) fd (w_entry w) s = Some (keep, s1)"
    proof -
      have "on_worker_data (ov_accepted v) (ov_hup v) (ov_rc v) fd (w_entry w) s \<noteq> None"
        using e by (auto simp: on_worker_data_def split: option.split)
      then show ?thesis
        using that by auto
    qed
    have "out_inv (if keep then s1 else out_source_remove (w_id w) s1)"
      using assms(3) by (intro on_worker_data_inv [OF assms(1,2) Watch_io _ d]) (simp add: fresh_answers_def)
    then show ?thesis
      by (simp add: out_run_watch_def Watch_io d)
  next
    case (Watch_child pid)
    then have "oe_restart_timer e = 0"
      using id entry_facts(1) [OF assms(1) e] by (auto simp: entry_fine_def watch_field_def)
    moreover have "\<forall>v \<in> set (os_watches ?t). w_entry v = w_entry w \<longrightarrow> \<not> is_Watch_child (w_kind v)"
      by (rule lone_watch [OF assms(1,2) e]) (auto simp: watch_field_def Watch_child is_Watch_child_def)
    moreover obtain s' where "out_child_exit (ov_up v) (ov_jitter v) pid (w_entry w) ?t = Some s'"
      using t(2) by (simp add: out_child_exit_def Let_def)
    ultimately show ?thesis
      using out_child_exit_inv [OF t] by (auto simp: out_run_watch_def Watch_child)
  next
    case Watch_accept
    moreover have "\<forall>v \<in> set (os_watches ?t). w_entry v = w_entry w \<longrightarrow> w_kind v \<noteq> Watch_accept"
      by (rule lone_watch [OF assms(1,2) e]) (auto simp: watch_field_def Watch_accept)
    moreover obtain s' where "out_accept_timeout (w_entry w) ?t = Some s'"
      using t(2) by (simp add: out_accept_timeout_def Let_def)
    ultimately show ?thesis
      using out_accept_timeout_inv [OF t] by (auto simp: out_run_watch_def)
  next
    case Watch_stable
    moreover have "\<forall>v \<in> set (os_watches ?t). w_entry v = w_entry w \<longrightarrow> w_kind v \<noteq> Watch_stable"
      by (rule lone_watch [OF assms(1,2) e]) (auto simp: watch_field_def Watch_stable)
    moreover obtain s' where "out_stable_timer (w_entry w) ?t = Some s'"
      using t(2) by (simp add: out_stable_timer_def)
    ultimately show ?thesis
      using out_stable_timer_inv [OF t] by (auto simp: out_run_watch_def)
  next
    case (Watch_restart d)
    have none: "\<forall>v \<in> set (os_watches ?t). w_entry v = w_entry w \<longrightarrow> \<not> is_Watch_restart (w_kind v)"
      by (rule lone_watch [OF assms(1,2) e]) (auto simp: watch_field_def Watch_restart is_Watch_restart_def)
    have fresh: "fresh_launch ?t (ov_launch v)"
      using assms(3) by (auto simp: fresh_answers_def intro: fresh_launch_sub)
    obtain s' where "out_restart_timer (ov_launch v) (ov_up v) (ov_jitter v) (w_entry w) ?t = Some s'"
    proof -
      have "out_restart_timer (ov_launch v) (ov_up v) (ov_jitter v) (w_entry w) ?t \<noteq> None"
        using t(2) by (simp add: out_restart_timer_def Let_def split: prod.split)
      then show ?thesis
        using that by auto
    qed
    then show ?thesis
      using out_restart_timer_inv [OF t fresh none] by (auto simp: out_run_watch_def Watch_restart)
  qed
qed

section \<open>Requests of the server\<close>

definition with_row :: "string \<Rightarrow> output_sup \<Rightarrow> output_sup" where
  "with_row oid s = s\<lparr>os_table := ht_insert oid (os_next_handle s) (os_table s), os_next_handle := os_next_handle s + 1\<rparr>"

lemma with_row_fields [simp]:
  "os_mem (with_row oid s) = os_mem s" "os_watches (with_row oid s) = os_watches s" "os_fds (with_row oid s) = os_fds s"
  "os_next_id (with_row oid s) = os_next_id s" "os_next_handle (with_row oid s) = os_next_handle s + 1"
  "os_table (with_row oid s) = ht_insert oid (os_next_handle s) (os_table s)"
  by (simp_all add: with_row_def)

lemma new_entry_inv:
  assumes "out_inv s" "\<not> ht_contains (os_table s) oid"
  shows "out_inv (out_set (os_next_handle s) (fresh_output oid) (with_row oid s))"
    and "idle (os_next_handle s) (fresh_output oid) (out_set (os_next_handle s) (fresh_output oid) (with_row oid s))"
proof -
  let ?h = "os_next_handle s" and ?s = "out_set (os_next_handle s) (fresh_output oid) (with_row oid s)"
  have t: "outputs_table_ok s" and w: "watches_ok s" and en: "entries_ok s"
    using assms(1) by (simp_all add: out_inv_def)
  have bound: "h < ?h" if "(k, h) \<in> set (os_table s)" for k h
    using t that by (auto simp: outputs_table_ok_def)
  have unused: "os_mem s ?h = None"
    using t bound by (force simp: outputs_table_ok_def image_iff)
  have other: "w_entry v \<noteq> ?h" if "v \<in> set (os_watches s)" for v
    using w unused that by (force simp: watches_ok_def)
  have table: "os_table ?s = os_table s @ [(oid, ?h)]"
    using ht_fresh_insert [OF assms(2)] by simp
  have "watches_ok ?s"
    using w other by (auto simp: watches_ok_def)
  moreover have "entries_ok ?s"
  proof -
    have "own_fds (fresh_output oid) = {}" "entry_fine (os_next_id s) (fresh_output oid)"
      using w by (auto simp: own_fds_def fresh_output_def entry_fine_def entry_watch_ids_def watches_ok_def)
    then show ?thesis
      using en unused by (auto simp: entries_ok_def)
  qed
  moreover have "outputs_table_ok ?s"
    unfolding outputs_table_ok_def table
  proof (intro conjI allI impI)
    show "ht_wf (os_table s @ [(oid, ?h)])"
      using t ht_fresh_insert [OF assms(2), of ?h] ht_wf_simps(2) by (metis outputs_table_ok_def)
    show "distinct (map snd (os_table s @ [(oid, ?h)]))"
      using t bound by (fastforce simp: outputs_table_ok_def)
    show "os_mem ?s h \<noteq> None \<longleftrightarrow> h \<in> snd ` set (os_table s @ [(oid, ?h)])" for h
      using t by (auto simp: outputs_table_ok_def)
  next
    fix k h
    assume k: "(k, h) \<in> set (os_table s @ [(oid, ?h)])"
    then show "h < os_next_handle ?s"
      using bound by (auto simp: less_Suc_eq)
    show "\<exists>e. os_mem ?s h = Some e \<and> oe_output_id e = k"
      using k t bound by (force simp: outputs_table_ok_def fresh_output_def)
  qed
  ultimately show "out_inv ?s"
    by (simp add: out_inv_def)
  show "idle ?h (fresh_output oid) ?s"
    using other by (auto simp: idle_def own_fds_def fresh_output_def)
qed


lemma launch_set: "output_entry_launch v h e (out_set h e s) = output_entry_launch v h e s"
proof -
  have "launched v h lfd pid e (out_set h e s) = launched v h lfd pid e s" for lfd pid
    by (simp add: launched_def Let_def out_connect_def out_source_remove_def out_set_def out_watch_add_def split: option.split)
  moreover have "output_entry_launch v h e s
      = (case le_listen v of None \<Rightarrow> (SBS_ERR_IO, out_set h (e\<lparr>oe_listen_fd := -1\<rparr>) s)
         | Some lfd \<Rightarrow> if \<not> le_config v then (SBS_ERR_NOMEM, out_set h (e\<lparr>oe_listen_fd := -1\<rparr>) s)
             else if \<not> le_pipe v then (SBS_ERR_IO, out_set h (e\<lparr>oe_listen_fd := -1\<rparr>) s)
             else case le_fork v of None \<Rightarrow> (SBS_ERR_IO, out_set h (e\<lparr>oe_listen_fd := -1\<rparr>) s)
               | Some pid \<Rightarrow> (SBS_OK, launched v h lfd pid e s))" for s
    by (simp add: output_entry_launch_def launched_def Let_def split: option.split)
  ultimately show ?thesis
    by (simp add: collapse split: option.split)
qed

lemma start_output_inv:
  assumes "out_inv s" "fresh_launch s v"
  shows "out_inv (snd (sbs_output_supervisor_start_output v oid s))"
proof (cases "oid = None \<or> ht_contains (os_table s) (the oid)")
  case True
  then show ?thesis
    using assms(1) by (auto simp: sbs_output_supervisor_start_output_def split: option.split)
next
  case False
  then obtain k where k: "oid = Some k" "\<not> ht_contains (os_table s) k"
    by auto
  let ?h = "os_next_handle s" and ?e = "fresh_output k"
  let ?s = "out_set ?h ?e (with_row k s)"
  obtain rc s' where l: "output_entry_launch v ?h ?e (with_row k s) = (rc, s')"
    by (cases "output_entry_launch v ?h ?e (with_row k s)")
  note n = new_entry_inv [OF assms(1) k(2)]
  have "fresh_launch ?s v"
    using assms(2) by (auto intro: fresh_launch_sub)
  then have "out_inv s'"
    using output_entry_launch_inv [OF n(1) _ n(2), of v rc s'] l by (simp add: launch_set)
  then show ?thesis
    unfolding sbs_output_supervisor_start_output_def Let_def with_row_def [symmetric] k(1) option.case l prod.case
    using k(2) by (simp add: table_remove_inv)
qed

lemma stop_output_inv:
  assumes "out_inv s"
  shows "out_inv (snd (sbs_output_supervisor_stop_output oid s))"
proof (cases "oid = None \<or> ht_lookup (os_table s) (the oid) = None")
  case True
  then show ?thesis
    using assms by (auto simp: sbs_output_supervisor_stop_output_def split: option.split)
next
  case False
  then obtain k h where k: "oid = Some k" "ht_lookup (os_table s) k = Some h"
    by auto
  then obtain e where e: "os_mem s h = Some e"
    using assms ht_lookup_in_set [OF k(2)] by (meson out_inv_def outputs_table_ok_def)
  let ?t = "out_source_remove (oe_restart_timer e) s"
  let ?e = "e\<lparr>oe_restart_timer := 0, oe_shutting_down := True\<rparr>"
  let ?u = "out_send_shutdown ?e (out_set h ?e ?t)"
  have t: "out_inv ?t" "os_mem ?t h = Some e"
    using assms e by simp_all
  have "out_inv (out_set h ?e ?t)"
  proof (rule inv_set [OF t])
    show "kept_by h ?t ?e"
      using entry_facts(3) [OF t]
    proof (rule kept_by_change)
      fix w
      assume w: "w \<in> set (os_watches ?t)" "w_entry w = h"
      then have "\<not> is_Watch_restart (w_kind w)"
        using watch_id [OF t w] by (auto simp: watch_field_def set_remove is_Watch_restart_def)
      then show "watch_field (w_kind w) ?e = watch_field (w_kind w) e
        \<and> (is_Watch_io (w_kind w) \<longrightarrow> oe_listen_fd ?e = oe_listen_fd e \<and> oe_stable_timer ?e = oe_stable_timer e)"
        by (cases "w_kind w") (simp_all add: watch_field_def)
    qed
    show "entry_fine (os_next_id ?t) ?e"
      using entry_facts(1) [OF t] by (auto simp: entry_fine_def entry_watch_ids_def)
  qed (simp_all add: own_fds_def)
  then have "out_inv ?u"
    by simp
  moreover have "snd (sbs_output_supervisor_stop_output oid s)
      = (if oe_pid e > 0 then out_signal SIGTERM (oe_pid e) ?u else table_remove k ?u)"
    using k e by (simp add: sbs_output_supervisor_stop_output_def Let_def)
  ultimately show ?thesis
    using table_remove_inv by simp
qed


section \<open>Frames\<close>

lemma out_inv_more_fds:
  assumes "out_inv s" "os_mem s' = os_mem s" "os_table s' = os_table s" "os_next_handle s' = os_next_handle s"
    "os_next_id s' = os_next_id s" "os_fds s \<subseteq> os_fds s'" "os_watches s' = os_watches s"
  shows "out_inv s'"
  using assms by (fastforce simp: out_inv_def watches_ok_def entries_ok_def outputs_table_ok_def)

text \<open>The connection of an entry breaks while a frame is sent: its watch stays.\<close>

lemma broken_pipe_inv:
  assumes "out_inv s" "os_mem s h = Some e"
    "e' = e\<lparr>oe_frames_dropped := d, oe_conn_fd := -1, oe_connected := False\<rparr>"
  shows "out_inv (out_set h e' (out_close (oe_conn_fd e) s))"
proof (rule inv_set [OF assms(1,2)])
  show "kept_by h s e'"
    using entry_facts(3) [OF assms(1,2)] by (rule kept_same) (simp_all add: assms(3))
  show "entry_fine (os_next_id s) e'"
    using entry_facts(1) [OF assms(1,2)] by (auto simp: assms(3) entry_fine_def entry_watch_ids_def)
  show "os_fds s - (own_fds e - own_fds e') \<subseteq> os_fds (out_set h e' (out_close (oe_conn_fd e) s))"
    using entry_facts(1) [OF assms(1,2)] by (auto simp: assms(3) own_fds_def entry_fine_def)
qed (auto simp: assms(3) own_fds_def)

lemma send_frame_to_inv:
  assumes "out_inv s" "os_mem s h = Some e" "\<forall>fd. dup_fd = Some fd \<longrightarrow> new_fd s fd"
  shows "\<exists>b s'. send_frame_to msg dup_fd sent h s = Some (b, s') \<and> out_inv s' \<and> os_table s' = os_table s
    \<and> os_watches s' = os_watches s"
proof -
  have plain: "out_inv (out_set h (e\<lparr>oe_frames_dropped := d, oe_frames_sent := n\<rparr>) t)"
    if "out_inv t" "os_mem t h = Some e" for t d n
    by (rule inv_set_plain [OF that]) simp_all
  consider (skip) "\<not> entry_ready e" | (no_dup) "entry_ready e" "dup_fd = None"
    | (sending) fd where "entry_ready e" "dup_fd = Some fd"
    by (cases dup_fd) auto
  then show ?thesis
  proof cases
    case skip
    then show ?thesis
      using assms(1,2) by (auto simp: send_frame_to_def)
  next
    case no_dup
    then show ?thesis
      using assms(2) plain [OF assms(1,2), of "oe_frames_sent e"] by (auto simp: send_frame_to_def)
  next
    case (sending fd)
    obtain rc ds where rc: "sbs_ipc_send_frame sent (oe_conn_fd e) msg fd = (rc, ds)"
      by (cases "sbs_ipc_send_frame sent (oe_conn_fd e) msg fd")
    let ?t = "s\<lparr>os_fds := insert fd (os_fds s), os_sent := os_sent s @ map (\<lambda>d. (oe_conn_fd e, d)) ds\<rparr>"
    have t: "out_inv ?t" "os_mem ?t h = Some e"
      using assms(2) by (auto intro: out_inv_more_fds [OF assms(1)])
    have u: "out_inv (out_close fd ?t)" "os_mem (out_close fd ?t) h = Some e"
    proof -
      have "os_fds s \<subseteq> os_fds (out_close fd ?t)"
        using assms(3) sending(2) by (auto simp: new_fd_def)
      then show "out_inv (out_close fd ?t)"
        by (intro out_inv_more_fds [OF assms(1)]) simp_all
      show "os_mem (out_close fd ?t) h = Some e"
        using assms(2) by simp
    qed
    show ?thesis
      using assms(2) sending plain [OF t, of _ "oe_frames_dropped e"] plain [OF u, of "oe_frames_sent e"]
        broken_pipe_inv [OF u refl]
      by (auto simp: send_frame_to_def rc Let_def collapse)
  qed
qed

text \<open>The kernel answers each \<open>dup\<close> of a round over the outputs with a new descriptor.\<close>

fun fresh_dups ::
    "video_frame_msg \<Rightarrow> (nat \<Rightarrow> int option) \<Rightarrow> (nat \<Rightarrow> sys_errno + nat) \<Rightarrow> nat list \<Rightarrow> output_sup \<Rightarrow> bool" where
  "fresh_dups msg dups sends [] s = True"
| "fresh_dups msg dups sends (h # hs) s =
     ((case dups h of None \<Rightarrow> True | Some fd \<Rightarrow> 0 \<le> fd \<and> fd \<notin> os_fds s)
      \<and> (case send_frame_to msg (dups h) (sends h) h s of
           None \<Rightarrow> True
         | Some (b, s') \<Rightarrow> fresh_dups msg dups sends hs s'))"

lemma send_frame_loop_inv:
  assumes "out_inv s" "set hs \<subseteq> snd ` set (os_table s)" "fresh_dups msg dups sends hs s"
  shows "\<exists>n s'. send_frame_loop msg dups sends hs s = Some (n, s') \<and> out_inv s'"
  using assms
proof (induction hs arbitrary: s)
  case (Cons h hs)
  obtain e where e: "os_mem s h = Some e"
  proof -
    obtain k where "(k, h) \<in> set (os_table s)"
      using Cons.prems(2) by auto
    then show ?thesis
      using that Cons.prems(1) by (meson out_inv_def outputs_table_ok_def)
  qed
  have "\<forall>fd. dups h = Some fd \<longrightarrow> new_fd s fd"
    using Cons.prems(3) by (auto simp: new_fd_def)
  then obtain b s1 where s1: "send_frame_to msg (dups h) (sends h) h s = Some (b, s1)" "out_inv s1" "os_table s1 = os_table s"
    using send_frame_to_inv [OF Cons.prems(1) e] by blast
  obtain n s' where "send_frame_loop msg dups sends hs s1 = Some (n, s')" "out_inv s'"
    using Cons.IH [OF s1(2)] Cons.prems(2,3) s1 by auto
  then show ?case
    by (simp add: s1)
qed simp

section \<open>Shutting down\<close>

lemma live_handles:
  assumes "out_inv s" "(k, h) \<in> set (os_table s)"
  obtains e where "os_mem s h = Some e"
  using assms by (meson out_inv_def outputs_table_ok_def)

text \<open>Freeing the entries of a list of handles.\<close>

lemma free_all_entries:
  assumes "watches_ok s" "entries_ok s" "\<forall>h. os_mem s h \<noteq> None \<longleftrightarrow> h \<in> set hs" "distinct hs"
  shows "watches_ok (fold output_entry_free hs s)" "os_mem (fold output_entry_free hs s) = Map.empty"
    "os_watches (fold output_entry_free hs s) = []"
proof -
  have "watches_ok (fold output_entry_free hs s) \<and> entries_ok (fold output_entry_free hs s)
    \<and> os_mem (fold output_entry_free hs s) = Map.empty"
    using assms
  proof (induction hs arbitrary: s)
    case (Cons h hs)
    obtain e where e: "os_mem s h = Some e"
      using Cons.prems(3) by auto
    show ?case
      unfolding fold_Cons comp_def
    proof (rule Cons.IH)
      show "\<forall>k. os_mem (output_entry_free h s) k \<noteq> None \<longleftrightarrow> k \<in> set hs"
        using Cons.prems(3,4) by (auto simp: entry_free_fields [OF e])
    qed (use Cons.prems entry_free_core [OF Cons.prems(1,2) e] in simp_all)
  qed auto
  then show "watches_ok (fold output_entry_free hs s)" "os_mem (fold output_entry_free hs s) = Map.empty"
    "os_watches (fold output_entry_free hs s) = []"
    by (auto simp: watches_ok_def)
qed


text \<open>The rounds of the shutdown change flags and processes of the entries only.\<close>

definition quiet :: "(nat \<Rightarrow> output_sup \<Rightarrow> output_sup) \<Rightarrow> bool" where
  "quiet f \<longleftrightarrow> (\<forall>h s. out_inv s \<and> os_mem s h \<noteq> None \<longrightarrow>
     out_inv (f h s) \<and> os_table (f h s) = os_table s \<and> dom (os_mem (f h s)) = dom (os_mem s))"

lemma quietI:
  assumes "\<And>h s e. out_inv s \<Longrightarrow> os_mem s h = Some e \<Longrightarrow>
    out_inv (f h s) \<and> os_table (f h s) = os_table s \<and> dom (os_mem (f h s)) = dom (os_mem s)"
  shows "quiet f"
  unfolding quiet_def using assms by blast

lemma quiet_rounds:
  "quiet out_mark_shutting_down" "quiet (out_poll_exit exits)" "quiet out_term_worker" "quiet out_kill_straggler"
proof -
  have shut: "out_inv (out_set h (e\<lparr>oe_shutting_down := True\<rparr>) s)"
    and pid: "out_inv (out_set h (e\<lparr>oe_pid := 0\<rparr>) s)"
    if "out_inv s" "os_mem s h = Some e" for s h e
    by (rule inv_set_plain [OF that]; simp)+
  show "quiet out_mark_shutting_down"
    by (rule quietI) (use shut in \<open>simp add: out_mark_shutting_down_def Let_def insert_absorb domI\<close>)
  show "quiet (out_poll_exit exits)"
    by (rule quietI) (use pid in \<open>simp add: out_poll_exit_def Let_def insert_absorb domI\<close>)
  show "quiet out_term_worker"
    by (rule quietI) (simp add: out_term_worker_def Let_def)
  show "quiet out_kill_straggler"
    by (rule quietI) (use pid in \<open>simp add: out_kill_straggler_def Let_def insert_absorb domI\<close>)
qed

lemma quiet_fold:
  assumes "quiet f" "out_inv s" "set hs \<subseteq> dom (os_mem s)"
  shows "out_inv (fold f hs s)" "os_table (fold f hs s) = os_table s" "dom (os_mem (fold f hs s)) = dom (os_mem s)"
proof -
  have "out_inv (fold f hs s) \<and> os_table (fold f hs s) = os_table s \<and> dom (os_mem (fold f hs s)) = dom (os_mem s)"
    using assms(2,3)
  proof (induction hs arbitrary: s)
    case (Cons h hs)
    then have "out_inv s" "os_mem s h \<noteq> None"
      by auto
    then have "out_inv (f h s)" "os_table (f h s) = os_table s" "dom (os_mem (f h s)) = dom (os_mem s)"
      using assms(1) unfolding quiet_def by blast+
    then show ?case
      using Cons.IH [of "f h s"] Cons.prems by simp
  qed simp
  then show "out_inv (fold f hs s)" "os_table (fold f hs s) = os_table s" "dom (os_mem (fold f hs s)) = dom (os_mem s)"
    by simp_all
qed

lemma table_handles:
  assumes "out_inv s"
  shows "dom (os_mem s) = snd ` set (os_table s)" "distinct (map snd (os_table s))"
  using assms by (auto simp: out_inv_def outputs_table_ok_def)

lemma shutdown_all_result:
  assumes "out_inv s"
  shows "out_inv (sbs_output_supervisor_shutdown_all exits1 exits2 s)"
    and "os_table (sbs_output_supervisor_shutdown_all exits1 exits2 s) = []"
    and "os_mem (sbs_output_supervisor_shutdown_all exits1 exits2 s) = Map.empty"
    and "os_watches (sbs_output_supervisor_shutdown_all exits1 exits2 s) = []"
proof -
  let ?hs = "map snd (os_table s)" and ?r = "sbs_output_supervisor_shutdown_all exits1 exits2 s"
  have live: "set ?hs \<subseteq> dom (os_mem s)"
    using table_handles(1) [OF assms] by auto
  have "out_inv ?r \<and> os_table ?r = [] \<and> os_mem ?r = Map.empty \<and> os_watches ?r = []"
  proof (cases "?hs = []")
    case True
    then have "os_mem s = Map.empty"
      using table_handles(1) [OF assms] by auto
    then show ?thesis
      using True assms by (auto simp: sbs_output_supervisor_shutdown_all_def out_inv_def watches_ok_def)
  next
    case False
    define t where "t = fold (out_poll_exit exits1) ?hs (fold out_mark_shutting_down ?hs s)"
    define u where "u = (if list_all (\<lambda>h. oe_pid (the (os_mem t h)) = 0) ?hs then t
        else fold out_kill_straggler ?hs (fold (out_poll_exit exits2) ?hs (fold out_term_worker ?hs t)))"
    have t: "out_inv t" "dom (os_mem t) = dom (os_mem s)"
      unfolding t_def using quiet_fold quiet_rounds assms live by simp_all
    have u: "out_inv u" "dom (os_mem u) = dom (os_mem s)"
      unfolding u_def using quiet_fold quiet_rounds t live by simp_all
    let ?u = "u\<lparr>os_table := []\<rparr>"
    have core: "watches_ok ?u" "entries_ok ?u"
      using u(1) by (simp_all add: out_inv_def watches_ok_def entries_ok_def)
    have all: "\<forall>h. os_mem ?u h \<noteq> None \<longleftrightarrow> h \<in> set ?hs"
      using u(2) table_handles(1) [OF assms] by (simp add: domIff set_eq_iff)
    note f = free_all_entries [OF core all table_handles(2) [OF assms]]
    have table: "os_table (fold output_entry_free ks v) = os_table v" for ks v
      by (induction ks arbitrary: v) (simp_all add: output_entry_free_def Let_def split: option.split)
    have r: "?r = fold output_entry_free ?hs ?u"
      using False by (simp add: sbs_output_supervisor_shutdown_all_def Let_def t_def u_def)
    show ?thesis
      using f by (auto simp: r table out_inv_def entries_ok_def outputs_table_ok_def)
  qed
  then show "out_inv ?r" "os_table ?r = []" "os_mem ?r = Map.empty" "os_watches ?r = []"
    by simp_all
qed

lemma send_audio_loop_inv:
  "send_audio_loop packet sends hs s = Some (n, s') \<Longrightarrow> out_inv s \<Longrightarrow> out_inv s'"
proof (induction hs arbitrary: s n s')
  case (Cons h hs)
  from Cons.prems(1) obtain b t m where t: "send_audio_to packet (sends h) h s = Some (b, t)"
    "send_audio_loop packet sends hs t = Some (m, s')"
    by (auto split: option.splits prod.splits)
  have "out_inv t"
    using t(1) out_inv_more_fds [OF Cons.prems(2)] Cons.prems(2)
    by (auto simp: send_audio_to_def Let_def split: option.splits if_split_asm prod.splits)
  then show ?case
    using Cons.IH t(2) by blast
qed simp

end
