(* ===== verification/Output_Sup_Props.thy ===== *)
theory Output_Sup_Props
  imports Output_Sup_Ops
begin

text \<open>
  The output supervisor as a transition system: its reachable states, the safety of its callbacks, and
  what a frame sent to a worker leaves behind.
\<close>

section \<open>Reachable states\<close>

text \<open>
  The server's requests, frames and the callbacks of the main loop, one after the other, with any
  answers of the kernel in which a descriptor it opens is not open already.
\<close>

inductive out_step :: "output_sup \<Rightarrow> output_sup \<Rightarrow> bool" where
  start: "fresh_launch s v \<Longrightarrow> out_step s (snd (sbs_output_supervisor_start_output v oid s))"
| stop: "out_step s (snd (sbs_output_supervisor_stop_output oid s))"
| shutdown: "out_step s (sbs_output_supervisor_shutdown_all exits1 exits2 s)"
| frame: "fresh_dups msg dups sends (map snd (os_table s)) s \<Longrightarrow>
    sbs_output_supervisor_send_frame msg dups sends s = Some (n, s') \<Longrightarrow> out_step s s'"
| audio: "sbs_output_supervisor_send_audio packet sends s = Some (n, s') \<Longrightarrow> out_step s s'"
| callback: "w \<in> set (os_watches s) \<Longrightarrow> fresh_answers s v \<Longrightarrow> out_run_watch v w s = Some s' \<Longrightarrow> out_step s s'"

definition out_reachable :: "output_sup \<Rightarrow> bool" where
  "out_reachable s \<longleftrightarrow> out_step\<^sup>*\<^sup>* sbs_output_supervisor_new s"

lemma new_inv: "out_inv sbs_output_supervisor_new"
  by (simp add: out_inv_def watches_ok_def entries_ok_def outputs_table_ok_def sbs_output_supervisor_new_def)

lemma out_step_inv:
  assumes "out_step s s'" "out_inv s"
  shows "out_inv s'"
  using assms(1)
proof (cases rule: out_step.cases)
  case (frame msg dups sends n)
  have "set (map snd (os_table s)) \<subseteq> snd ` set (os_table s)"
    by simp
  then show ?thesis
    using send_frame_loop_inv [OF assms(2) _ frame(1)] frame(2) by (auto simp: sbs_output_supervisor_send_frame_def)
next
  case (audio packet sends n)
  then show ?thesis
    using send_audio_loop_inv assms(2) unfolding sbs_output_supervisor_send_audio_def by blast
next
  case (callback w v)
  then show ?thesis
    using out_run_watch_inv [OF assms(2) callback(1,2)] by auto
qed (use assms(2) start_output_inv stop_output_inv shutdown_all_result(1) in \<open>simp_all\<close>)

lemma out_reachable_inv: "out_reachable s \<Longrightarrow> out_inv s"
  unfolding out_reachable_def
  by (induction rule: rtranclp_induct) (simp_all add: new_inv out_step_inv)

text \<open>
  C28. No callback of the output supervisor meets a freed entry: in every reachable state every watch
  belongs to an entry in memory that records the identifier of the watch, running it has a result,
  and the sockets of the entries are open and belong to one entry each. So unlike the source
  supervisor it can stop an output during its restart delay.
\<close>

theorem output_callbacks_find_their_entry:
  assumes "out_reachable s" "w \<in> set (os_watches s)" "fresh_answers s v"
  shows "(\<exists>s'. out_run_watch v w s = Some s')
    \<and> (\<exists>e. os_mem s (w_entry w) = Some e \<and> w_id w = watch_field (w_kind w) e)
    \<and> (\<forall>h e. os_mem s h = Some e \<longrightarrow> own_fds e \<subseteq> os_fds s \<and> ht_lookup (os_table s) (oe_output_id e) = Some h
        \<and> (\<forall>k f. os_mem s k = Some f \<and> k \<noteq> h \<longrightarrow> own_fds e \<inter> own_fds f = {}))"
proof (intro conjI allI impI)
  have inv: "out_inv s"
    using assms(1) by (rule out_reachable_inv)
  show "\<exists>s'. out_run_watch v w s = Some s'"
    using out_run_watch_inv [OF inv assms(2,3)] by blast
  show "\<exists>e. os_mem s (w_entry w) = Some e \<and> w_id w = watch_field (w_kind w) e"
    using watch_entry [OF inv assms(2)] watch_id [OF inv _ assms(2) refl] by metis
  fix h e
  assume e: "os_mem s h = Some e"
  show "own_fds e \<subseteq> os_fds s"
    using entry_facts(2) [OF inv e] .
  have "h \<in> snd ` set (os_table s)"
    using table_handles(1) [OF inv, symmetric] e by (simp add: domI)
  then obtain k where k: "(k, h) \<in> set (os_table s)"
    by auto
  moreover from this have "oe_output_id e = k"
    using inv e by (force simp: out_inv_def outputs_table_ok_def)
  ultimately show "ht_lookup (os_table s) (oe_output_id e) = Some h"
    using inv by (simp add: ht_lookup_iff out_inv_def outputs_table_ok_def)
  show "own_fds e \<inter> own_fds f = {}" if "os_mem s k = Some f \<and> k \<noteq> h" for k f
    using inv e that unfolding out_inv_def entries_ok_def by blast
qed


section \<open>What a sent frame leaves behind\<close>

definition unowned :: "int \<Rightarrow> output_sup \<Rightarrow> bool" where
  "unowned fd s \<longleftrightarrow> fd \<in> os_fds s \<and> (\<forall>h e. os_mem s h = Some e \<longrightarrow> fd \<notin> own_fds e)"

lemma unowned_set:
  assumes "unowned fd s" "os_mem s h = Some e" "own_fds e' = own_fds e" "os_mem s' = (os_mem s)(h \<mapsto> e')" "os_fds s' = os_fds s"
  shows "unowned fd s'"
  using assms by (auto simp: unowned_def split: if_split_asm)

lemma unowned_rounds:
  assumes "unowned fd s" "os_mem s h = Some e"
  shows "unowned fd (out_mark_shutting_down h s)" "unowned fd (out_poll_exit exits h s)"
    "unowned fd (out_term_worker h s)" "unowned fd (out_kill_straggler h s)"
proof -
  have "unowned fd (out_set h (e\<lparr>oe_shutting_down := True\<rparr>) s)" "unowned fd (out_set h (e\<lparr>oe_pid := 0\<rparr>) s)"
    by (rule unowned_set [OF assms]; simp add: own_fds_def)+
  then show "unowned fd (out_mark_shutting_down h s)" "unowned fd (out_poll_exit exits h s)"
    "unowned fd (out_term_worker h s)" "unowned fd (out_kill_straggler h s)"
    using assms
    by (simp_all add: unowned_def out_mark_shutting_down_def out_poll_exit_def out_term_worker_def out_kill_straggler_def Let_def)
qed

lemma unowned_free: "unowned fd s \<Longrightarrow> unowned fd (output_entry_free h s)"
proof (cases "os_mem s h")
  case None
  then show "unowned fd s \<Longrightarrow> unowned fd (output_entry_free h s)"
    by (simp add: output_entry_free_def)
next
  case (Some e)
  then show "unowned fd s \<Longrightarrow> unowned fd (output_entry_free h s)"
    by (simp add: unowned_def entry_free_fields split: if_split_asm)
qed

lemma unowned_fold:
  assumes "quiet f" "\<And>s h e. unowned fd s \<Longrightarrow> os_mem s h = Some e \<Longrightarrow> unowned fd (f h s)"
    "out_inv s" "set hs \<subseteq> dom (os_mem s)" "unowned fd s"
  shows "unowned fd (fold f hs s)"
  using assms(3-5)
proof (induction hs arbitrary: s)
  case (Cons h hs)
  then obtain e where e: "os_mem s h = Some e"
    by auto
  then have "out_inv (f h s)" "dom (os_mem (f h s)) = dom (os_mem s)"
    using assms(1) Cons.prems(1) unfolding quiet_def by blast+
  then show ?case
    using Cons.IH [of "f h s"] Cons.prems assms(2) [OF Cons.prems(3) e] by simp
qed simp

lemma unowned_shutdown:
  assumes "out_inv s" "unowned fd s"
  shows "unowned fd (sbs_output_supervisor_shutdown_all exits1 exits2 s)"
proof (cases "os_table s = []")
  case True
  then show ?thesis
    using assms(2) by (simp add: sbs_output_supervisor_shutdown_all_def)
next
  case False
  let ?hs = "map snd (os_table s)"
  have live: "set ?hs \<subseteq> dom (os_mem s)"
    using table_handles(1) [OF assms(1)] by auto
  define t where "t = fold (out_poll_exit exits1) ?hs (fold out_mark_shutting_down ?hs s)"
  define u where "u = (if list_all (\<lambda>h. oe_pid (the (os_mem t h)) = 0) ?hs then t
      else fold out_kill_straggler ?hs (fold (out_poll_exit exits2) ?hs (fold out_term_worker ?hs t)))"
  note folds = unowned_fold [OF quiet_rounds(1)] unowned_fold [OF quiet_rounds(2)]
    unowned_fold [OF quiet_rounds(3)] unowned_fold [OF quiet_rounds(4)]
  have t: "out_inv t" "dom (os_mem t) = dom (os_mem s)" "unowned fd t"
    unfolding t_def using quiet_fold quiet_rounds unowned_rounds folds assms live by simp_all
  have "unowned fd u"
    unfolding u_def using quiet_fold quiet_rounds unowned_rounds folds t live by simp
  then have "unowned fd (u\<lparr>os_table := []\<rparr>)"
    by (simp add: unowned_def)
  moreover have "unowned fd (fold output_entry_free ks v)" if "unowned fd v" for ks v
    using that by (induction ks arbitrary: v) (simp_all add: unowned_free)
  moreover have "sbs_output_supervisor_shutdown_all exits1 exits2 s = fold output_entry_free ?hs (u\<lparr>os_table := []\<rparr>)"
    using False by (simp add: sbs_output_supervisor_shutdown_all_def Let_def t_def u_def)
  ultimately show ?thesis
    by simp
qed

text \<open>
  C29. Every frame sent to a worker leaks a descriptor: the duplicate made for the worker is attached
  to the message, which passes the worker a descriptor of its own, and stays open in the server. No
  entry records it, so that even the shutdown of all outputs leaves it open.
\<close>

theorem sent_frame_leaks_descriptor:
  assumes "out_reachable s" "os_mem s h = Some e" "entry_ready e" "new_fd s fd"
  shows "\<exists>s'. send_frame_to msg (Some fd) (Inr 128) h s = Some (True, s')
    \<and> os_sent s' = os_sent s @ [(oe_conn_fd e, (take 128 (video_frame_bytes msg), [fd]))]
    \<and> (\<forall>k f. os_mem s' k = Some f \<longrightarrow> fd \<notin> own_fds f)
    \<and> fd \<in> os_fds (sbs_output_supervisor_shutdown_all exits1 exits2 s')"
proof -
  have inv: "out_inv s"
    using assms(1) by (rule out_reachable_inv)
  let ?e = "e\<lparr>oe_frames_sent := oe_frames_sent e + 1\<rparr>"
  let ?d = "(oe_conn_fd e, (take 128 (video_frame_bytes msg), [fd]))"
  let ?s = "out_set h ?e (s\<lparr>os_fds := insert fd (os_fds s), os_sent := os_sent s @ [?d]\<rparr>)"
  have run: "send_frame_to msg (Some fd) (Inr 128) h s = Some (True, ?s)"
    using assms(2-4)
    by (simp add: send_frame_to_def entry_ready_def new_fd_def sbs_ipc_send_frame_def sbs_ipc_send_frame2_def attached_fds_def)
  have "\<forall>g. Some fd = Some g \<longrightarrow> new_fd s g"
    using assms(4) by simp
  then obtain b t where "send_frame_to msg (Some fd) (Inr 128) h s = Some (b, t)" "out_inv t"
    using send_frame_to_inv [OF inv assms(2)] by meson
  then have inv': "out_inv ?s"
    using run by (metis option.inject prod.inject)
  have "fd \<notin> own_fds f" if "os_mem s k = Some f" for k f
    using entry_facts(2) [OF inv that] assms(4) by (auto simp: new_fd_def)
  then have "unowned fd ?s"
    using assms(2) by (auto simp: unowned_def own_fds_def)
  then have u: "unowned fd ?s" "unowned fd (sbs_output_supervisor_shutdown_all exits1 exits2 ?s)"
    using unowned_shutdown [OF inv'] by blast+
  show ?thesis
  proof (intro exI conjI)
    show "send_frame_to msg (Some fd) (Inr 128) h s = Some (True, ?s)"
      by (rule run)
    show "os_sent ?s = os_sent s @ [?d]"
      by (simp add: out_set_def)
    show "\<forall>k f. os_mem ?s k = Some f \<longrightarrow> fd \<notin> own_fds f"
      using u(1) unfolding unowned_def by blast
    show "fd \<in> os_fds (sbs_output_supervisor_shutdown_all exits1 exits2 ?s)"
      using u(2) unfolding unowned_def by blast
  qed
qed

section \<open>A connected output\<close>

definition sample_launch :: launch_env where
  "sample_launch = \<lparr>le_listen = Some 3, le_config = True, le_pipe = True, le_fork = Some 77, le_accept = Some 4, le_now = 0\<rparr>"

definition sample_outputs :: output_sup where
  "sample_outputs = snd (sbs_output_supervisor_start_output sample_launch (Some ''o'') sbs_output_supervisor_new)"

lemmas sample_output_defs = sample_outputs_def sample_launch_def sbs_output_supervisor_start_output_def
  sbs_output_supervisor_new_def output_entry_launch_def out_connect_def out_watch_add_def out_set_def
  out_source_remove_def fresh_output_def ht_contains_def ht_lookup_def ht_insert_def Let_def

lemma sample_outputs_reachable: "out_reachable sample_outputs"
  unfolding out_reachable_def sample_outputs_def
  by (rule r_into_rtranclp, rule start)
    (simp add: fresh_launch_def new_fd_def sample_launch_def sbs_output_supervisor_new_def)

lemma sample_outputs_state:
  "os_mem sample_outputs 0 = Some ((fresh_output ''o'')\<lparr>oe_pid := 77, oe_listen_fd := 3, oe_conn_fd := 4, oe_io_watch := 3,
     oe_child_watch := 1, oe_stable_timer := 4, oe_connected := True\<rparr>)"
  "os_watches sample_outputs = [\<lparr>w_id = 1, w_kind = Watch_child 77, w_entry = 0\<rparr>,
     \<lparr>w_id = 3, w_kind = Watch_io 4, w_entry = 0\<rparr>, \<lparr>w_id = 4, w_kind = Watch_stable, w_entry = 0\<rparr>]"
  "os_fds sample_outputs = {4, 3}"
  by (simp_all add: sample_output_defs)

definition sample_answers :: output_env where
  "sample_answers = \<lparr>ov_accepted = None, ov_hup = False, ov_rc = SBS_OK, ov_launch = sample_launch\<lparr>le_listen := None\<rparr>,
     ov_up = False, ov_jitter = 0\<rparr>"

theorem output_callbacks_find_their_entry_witness:
  "\<exists>s'. out_run_watch sample_answers \<lparr>w_id = 1, w_kind = Watch_child 77, w_entry = 0\<rparr> sample_outputs = Some s'"
proof -
  have "fresh_answers sample_outputs sample_answers"
    by (simp add: fresh_answers_def fresh_launch_def sample_answers_def)
  then show ?thesis
    using output_callbacks_find_their_entry [OF sample_outputs_reachable, of "\<lparr>w_id = 1, w_kind = Watch_child 77, w_entry = 0\<rparr>"]
    by (simp add: sample_outputs_state)
qed

theorem sent_frame_leaks_descriptor_witness:
  "\<exists>s'. send_frame_to sample_frame (Some 9) (Inr 128) 0 sample_outputs = Some (True, s')
    \<and> 9 \<in> os_fds (sbs_output_supervisor_shutdown_all {} {77} s')"
proof -
  have "entry_ready (the (os_mem sample_outputs 0))" "new_fd sample_outputs 9"
    by (simp_all add: sample_outputs_state entry_ready_def new_fd_def fresh_output_def)
  then show ?thesis
    using sent_frame_leaks_descriptor [OF sample_outputs_reachable sample_outputs_state(1), of 9 sample_frame "{}" "{77}"]
    by (auto simp: sample_outputs_state(1))
qed

end
