(* ===== verification/Rpc.thy ===== *)
theory Rpc
  imports Auth_Manager
begin

text \<open>
  The requests of API clients: the JSON-RPC dispatcher with its authentication check
  (\<open>src/server/api/jsonrpc.c\<close>), the handlers of the methods \<open>auth.*\<close> and \<open>pubsub.*\<close>
  (\<open>src/server/api/handlers/auth.c\<close>, \<open>pubsub.c\<close>), the publication of events
  (\<open>src/server/api/pubsub.c\<close>) and the table of clients (\<open>src/server/api/ws_server.c\<close>).

  A client is NULL for requests over the local socket. The handlers of the other methods are an
  argument: they change the rest of the server and leave the client alone, as they do in the code.
  The result \<open>None\<close> is the crash of the authentication manager on a NULL salt.
\<close>

section \<open>Server and clients\<close>

record api_client =
  ac_id :: u64
  ac_subscriptions :: "string list"
  ac_outbox :: "string list"
  ac_authenticated :: bool

text \<open>\<open>srv_dirty\<close> counts the calls that mark the configuration as changed.\<close>

record 'r api_server =
  srv_auth :: "auth_manager option"
  srv_methods :: "string list"
  srv_clients :: "(u64 \<times> api_client) list"
  srv_next_client_id :: u64
  srv_config :: bool
  srv_dirty :: nat
  srv_rest :: 'r

definition sbs_api_client_new :: "u64 \<Rightarrow> api_client" where
  "sbs_api_client_new cid = \<lparr>ac_id = cid, ac_subscriptions = [], ac_outbox = [], ac_authenticated = False\<rparr>"

definition sbs_api_server_add_client :: "api_client \<Rightarrow> 'r api_server \<Rightarrow> u64 \<times> 'r api_server" where
  "sbs_api_server_add_client c s =
     (let (c, s) = (if ac_id c = 0
                    then (c\<lparr>ac_id := srv_next_client_id s\<rparr>, s\<lparr>srv_next_client_id := srv_next_client_id s + 1\<rparr>)
                    else (c, s))
      in (ac_id c, s\<lparr>srv_clients := AList.update (ac_id c) c (srv_clients s)\<rparr>))"

definition sbs_api_server_remove_client :: "u64 \<Rightarrow> 'r api_server \<Rightarrow> 'r api_server" where
  "sbs_api_server_remove_client cid s =
     (if cid = 0 then s else s\<lparr>srv_clients := AList.delete cid (srv_clients s)\<rparr>)"

section \<open>Methods\<close>

definition core_methods :: "string list" where
  "core_methods =
    [''auth.status'', ''auth.setup'', ''auth.login'', ''auth.loginApiKey'', ''auth.createApiKey'',
    ''auth.listApiKeys'', ''auth.deleteApiKey'', ''auth.updateCredentials'', ''auth.setPasswordless'',
    ''system.getState'', ''system.getInfo'', ''source.list'', ''source.get'', ''source.listKinds'',
    ''source.describeKind'', ''source.discoverV4L2'', ''source.discoverALSA'', ''source.uploadAsset'',
    ''source.create'', ''source.update'', ''source.remove'', ''source.start'', ''source.stop'',
    ''scene.list'', ''scene.get'', ''scene.create'', ''scene.update'', ''scene.remove'',
    ''scene.setActive'', ''scene.setPreview'', ''scene.transitionToPreview'',
    ''scene.transition.update'', ''scene.item.add'', ''scene.item.update'', ''scene.item.remove'',
    ''scene.item.reorder'', ''filter.add'', ''filter.update'', ''filter.remove'', ''output.list'',
    ''output.get'', ''output.create'', ''output.remove'', ''output.start'', ''output.stop'',
    ''output.update'', ''encoder.getConfig'', ''encoder.updateConfig'', ''canvas.update'',
    ''canvas.apply'', ''audio.getLevels'', ''audio.setSource'', ''audio.setSceneItem'',
    ''audio.setMaster'', ''config.export'', ''config.import'', ''config.reset'', ''snapshot.capture'',
    ''preview.listProfiles'', ''preview.ensureProfile'', ''preview.getStatus'',
    ''preview.releaseProfile'', ''preview.webrtc.start'', ''preview.webrtc.answer'',
    ''preview.webrtc.ice'', ''preview.getEncoderConfig'', ''preview.updateEncoderConfig'',
    ''command.execute'', ''pubsub.subscribe'', ''pubsub.unsubscribe'', ''instance.list'',
    ''instance.restart'']"

definition controller_methods :: "string list" where
  "controller_methods =
    [''auth.status'', ''auth.setup'', ''auth.login'', ''auth.loginApiKey'', ''auth.createApiKey'',
    ''auth.listApiKeys'', ''auth.deleteApiKey'', ''auth.updateCredentials'', ''auth.setPasswordless'',
    ''instance.list'', ''instance.create'', ''instance.update'', ''instance.enable'',
    ''instance.disable'', ''instance.start'', ''instance.stop'', ''instance.restart'',
    ''instance.remove'', ''instance.getInfo'', ''instance.getState'', ''instance.call'']"

definition sbs_api_server_configure_controller :: "'r api_server \<Rightarrow> 'r api_server" where
  "sbs_api_server_configure_controller s = s\<lparr>srv_methods := controller_methods\<rparr>"

definition is_auth_method :: "string \<Rightarrow> bool" where
  "is_auth_method m \<longleftrightarrow> m \<in> set [''auth.status'', ''auth.setup'', ''auth.login'', ''auth.loginApiKey'']"

definition json_str :: "json option \<Rightarrow> string \<Rightarrow> string option" where
  "json_str obj k =
     (if \<not> cJSON_IsObject obj then None
      else let item = cJSON_GetObjectItemCaseSensitive obj k
        in if cJSON_IsString item then cJSON_GetStringValue item else None)"

definition json_bool :: "json option \<Rightarrow> string \<Rightarrow> bool" where
  "json_bool obj k \<longleftrightarrow> cJSON_IsObject obj \<and> cJSON_IsTrue (cJSON_GetObjectItemCaseSensitive obj k)"

section \<open>Replies of the handlers\<close>

text \<open>What a handler returns and stores in \<open>*result\<close> and \<open>*error\<close>.\<close>

record rpc_reply =
  rp_rc :: sbs_result
  rp_result :: "json option"
  rp_error :: "json option"

definition rpc_error :: "int \<Rightarrow> string \<Rightarrow> json" where
  "rpc_error code message =
     cJSON_AddStringToObject (cJSON_AddNumberToObject (JObject []) ''code'' (Fin (of_int code))) ''message'' (Some message)"

definition reply_ok :: "json \<Rightarrow> rpc_reply" where
  "reply_ok v = \<lparr>rp_rc = SBS_OK, rp_result = Some v, rp_error = None\<rparr>"

definition reply_error :: "sbs_result \<Rightarrow> int \<Rightarrow> string \<Rightarrow> rpc_reply" where
  "reply_error rc code message = \<lparr>rp_rc = rc, rp_result = None, rp_error = Some (rpc_error code message)\<rparr>"

type_synonym 'r handled = "rpc_reply \<times> 'r api_server \<times> api_client option"

section \<open>The methods of authentication\<close>

definition login_result :: "auth_manager \<Rightarrow> string option \<Rightarrow> json" where
  "login_result a token =
     cJSON_AddStringToObject (sbs_auth_manager_status_json a) ''token'' (Some (case token of Some t \<Rightarrow> t | None \<Rightarrow> []))"

definition null_status_json :: json where
  "null_status_json = JObject [(''passwordless'', JFalse), (''setup_required'', JTrue), (''auth_required'', JTrue)]"

definition authenticate :: "api_client option \<Rightarrow> api_client option" where
  "authenticate c = map_option (\<lambda>c. c\<lparr>ac_authenticated := True\<rparr>) c"

text \<open>A call that opens a session: its error, or the new token for a client that counts as authenticated.\<close>

definition session_reply ::
    "int \<Rightarrow> string \<Rightarrow> 'r api_server \<Rightarrow> api_client option \<Rightarrow> auth_reply \<times> auth_manager \<Rightarrow> 'r handled" where
  "session_reply code message s c r =
     (case r of ((rc, token), a) \<Rightarrow>
        let s = s\<lparr>srv_auth := Some a\<rparr> in
        if rc \<noteq> SBS_OK then (reply_error rc code message, s, c)
        else (reply_ok (login_result a token), s, authenticate c))"

definition sbs_api_handle_auth_status :: "'r api_server \<Rightarrow> api_client option \<Rightarrow> 'r handled" where
  "sbs_api_handle_auth_status s c =
     (reply_ok (case srv_auth s of Some a \<Rightarrow> sbs_auth_manager_status_json a | None \<Rightarrow> null_status_json), s, c)"

definition sbs_api_handle_auth_setup ::
    "auth_env \<Rightarrow> bool \<Rightarrow> 'r api_server \<Rightarrow> api_client option \<Rightarrow> json option \<Rightarrow> 'r handled option" where
  "sbs_api_handle_auth_setup e wok s c params =
     (case srv_auth s of
        None \<Rightarrow> Some (reply_error SBS_ERR_INVAL (-32010) ''Invalid setup request'', s, c)
      | Some a \<Rightarrow>
          if json_bool params ''passwordless'' then
            (if \<not> sbs_auth_manager_setup_required a
             then Some (reply_error SBS_ERR_INVAL (-32010) ''Invalid setup request'', s, c)
             else let (rc, a) = sbs_auth_manager_set_passwordless e wok True a
               in Some (session_reply (-32010) ''Invalid setup request'' s c ((rc, None), a)))
          else map_option (session_reply (-32010) ''Invalid setup request'' s c)
                 (sbs_auth_manager_setup e wok (json_str params ''username'') (json_str params ''password'') a))"

definition sbs_api_handle_auth_login ::
    "auth_env \<Rightarrow> 'r api_server \<Rightarrow> api_client option \<Rightarrow> json option \<Rightarrow> 'r handled option" where
  "sbs_api_handle_auth_login e s c params =
     (case srv_auth s of
        None \<Rightarrow> Some (reply_error SBS_ERR_INVAL (-32011) ''Invalid username or password'', s, c)
      | Some a \<Rightarrow> map_option (session_reply (-32011) ''Invalid username or password'' s c)
          (sbs_auth_manager_login_password e (json_str params ''username'') (json_str params ''password'') a))"

definition sbs_api_handle_auth_login_api_key ::
    "auth_env \<Rightarrow> 'r api_server \<Rightarrow> api_client option \<Rightarrow> json option \<Rightarrow> 'r handled" where
  "sbs_api_handle_auth_login_api_key e s c params =
     (case srv_auth s of
        None \<Rightarrow> (reply_error SBS_ERR_INVAL (-32012) ''Invalid API key'', s, c)
      | Some a \<Rightarrow> session_reply (-32012) ''Invalid API key'' s c
          (sbs_auth_manager_login_api_key e (json_str params ''api_key'') a))"

definition sbs_api_handle_auth_create_api_key ::
    "auth_env \<Rightarrow> bool \<Rightarrow> 'r api_server \<Rightarrow> api_client option \<Rightarrow> json option \<Rightarrow> 'r handled" where
  "sbs_api_handle_auth_create_api_key e wok s c params =
     (case srv_auth s of
        None \<Rightarrow> (reply_error SBS_ERR_INVAL (-32013) ''Failed to create API key'', s, c)
      | Some a \<Rightarrow>
          (case sbs_auth_manager_create_api_key e wok (json_str params ''name'') a of (((rc, key), metadata), a) \<Rightarrow>
             let s = s\<lparr>srv_auth := Some a\<rparr> in
             if rc \<noteq> SBS_OK then (reply_error rc (-32013) ''Failed to create API key'', s, c)
             else (reply_ok (cJSON_AddStringToObject (case metadata of Some m \<Rightarrow> m | None \<Rightarrow> JObject []) ''api_key'' key), s, c)))"

definition sbs_api_handle_auth_list_api_keys :: "'r api_server \<Rightarrow> api_client option \<Rightarrow> 'r handled" where
  "sbs_api_handle_auth_list_api_keys s c =
     (case srv_auth s of
        None \<Rightarrow> (reply_error SBS_ERR_INVAL (-32016) ''Failed to list API keys'', s, c)
      | Some a \<Rightarrow> (reply_ok (cJSON_AddItemToObject (JObject []) ''api_keys'' (sbs_auth_manager_list_api_keys a)), s, c))"

definition sbs_api_handle_auth_delete_api_key ::
    "auth_env \<Rightarrow> bool \<Rightarrow> 'r api_server \<Rightarrow> api_client option \<Rightarrow> json option \<Rightarrow> 'r handled" where
  "sbs_api_handle_auth_delete_api_key e wok s c params =
     (case srv_auth s of
        None \<Rightarrow> (reply_error SBS_ERR_INVAL (-32017) ''Failed to delete API key'', s, c)
      | Some a \<Rightarrow>
          (case sbs_auth_manager_delete_api_key e wok (json_str params ''id'') a of (rc, a) \<Rightarrow>
             let s = s\<lparr>srv_auth := Some a\<rparr> in
             if rc \<noteq> SBS_OK then (reply_error rc (-32017) ''Failed to delete API key'', s, c)
             else (reply_ok (cJSON_AddBoolToObject (JObject []) ''deleted'' True), s, c)))"

definition sbs_api_handle_auth_update_credentials ::
    "auth_env \<Rightarrow> bool \<Rightarrow> 'r api_server \<Rightarrow> api_client option \<Rightarrow> json option \<Rightarrow> 'r handled option" where
  "sbs_api_handle_auth_update_credentials e wok s c params =
     (case srv_auth s of
        None \<Rightarrow> Some (reply_error SBS_ERR_INVAL (-32014) ''Failed to update credentials'', s, c)
      | Some a \<Rightarrow> map_option (session_reply (-32014) ''Failed to update credentials'' s c)
          (sbs_auth_manager_update_credentials e wok (json_str params ''username'') (json_str params ''password'') a))"

definition sbs_api_handle_auth_set_passwordless ::
    "auth_env \<Rightarrow> bool \<Rightarrow> 'r api_server \<Rightarrow> api_client option \<Rightarrow> json option \<Rightarrow> 'r handled" where
  "sbs_api_handle_auth_set_passwordless e wok s c params =
     (case srv_auth s of
        None \<Rightarrow> (reply_error SBS_ERR_INVAL (-32015) ''Failed to update passwordless mode'', s, c)
      | Some a \<Rightarrow>
          (case sbs_auth_manager_set_passwordless e wok
                  (cJSON_IsTrue (cJSON_GetObjectItemCaseSensitive params ''enabled'')) a of (rc, a) \<Rightarrow>
             let s = s\<lparr>srv_auth := Some a\<rparr> in
             if rc \<noteq> SBS_OK then (reply_error rc (-32015) ''Failed to update passwordless mode'', s, c)
             else (reply_ok (sbs_auth_manager_status_json a), s, c)))"

section \<open>Subscriptions\<close>

definition topic_names :: "json option \<Rightarrow> string list" where
  "topic_names topics = List.map_filter (\<lambda>t. cJSON_GetStringValue (Some t)) (json_items topics)"

definition sbs_api_handle_pubsub_subscribe :: "'r api_server \<Rightarrow> api_client option \<Rightarrow> json option \<Rightarrow> 'r handled" where
  "sbs_api_handle_pubsub_subscribe s c params =
     (let topics = cJSON_GetObjectItemCaseSensitive params ''topics'' in
      case c of
        None \<Rightarrow> (reply_error SBS_ERR_INVAL (-32602) ''topics must be an array'', s, c)
      | Some cl \<Rightarrow>
          if \<not> cJSON_IsArray topics then (reply_error SBS_ERR_INVAL (-32602) ''topics must be an array'', s, c)
          else let names = topic_names topics
            in (reply_ok (JObject [(''subscribed'', JArray (map JString names))]), s,
                Some (cl\<lparr>ac_subscriptions := ac_subscriptions cl @ names\<rparr>)))"

fun unsubscribe_loop :: "string list \<Rightarrow> string list \<Rightarrow> string list \<times> string list" where
  "unsubscribe_loop [] subs = ([], subs)"
| "unsubscribe_loop (t # ts) subs =
     (if t \<in> set subs then let (removed, subs) = unsubscribe_loop ts (remove1 t subs) in (t # removed, subs)
      else unsubscribe_loop ts subs)"

definition sbs_api_handle_pubsub_unsubscribe :: "'r api_server \<Rightarrow> api_client option \<Rightarrow> json option \<Rightarrow> 'r handled" where
  "sbs_api_handle_pubsub_unsubscribe s c params =
     (let topics = cJSON_GetObjectItemCaseSensitive params ''topics'' in
      case c of
        None \<Rightarrow> (reply_error SBS_ERR_INVAL (-32602) ''topics must be an array'', s, c)
      | Some cl \<Rightarrow>
          if \<not> cJSON_IsArray topics then (reply_error SBS_ERR_INVAL (-32602) ''topics must be an array'', s, c)
          else let (removed, subs) = unsubscribe_loop (topic_names topics) (ac_subscriptions cl)
            in (reply_ok (JObject [(''unsubscribed'', JArray (map JString removed))]), s,
                Some (cl\<lparr>ac_subscriptions := subs\<rparr>)))"

section \<open>The dispatcher\<close>

type_synonym 'r others = "string \<Rightarrow> 'r api_server \<Rightarrow> api_client option \<Rightarrow> json option \<Rightarrow> rpc_reply \<times> 'r api_server"

definition run_handler ::
    "auth_env \<Rightarrow> bool \<Rightarrow> 'r others \<Rightarrow> string \<Rightarrow> 'r api_server \<Rightarrow> api_client option \<Rightarrow> json option \<Rightarrow> 'r handled option" where
  "run_handler e wok others m s c params =
     (if m = ''auth.status'' then Some (sbs_api_handle_auth_status s c)
      else if m = ''auth.setup'' then sbs_api_handle_auth_setup e wok s c params
      else if m = ''auth.login'' then sbs_api_handle_auth_login e s c params
      else if m = ''auth.loginApiKey'' then Some (sbs_api_handle_auth_login_api_key e s c params)
      else if m = ''auth.createApiKey'' then Some (sbs_api_handle_auth_create_api_key e wok s c params)
      else if m = ''auth.listApiKeys'' then Some (sbs_api_handle_auth_list_api_keys s c)
      else if m = ''auth.deleteApiKey'' then Some (sbs_api_handle_auth_delete_api_key e wok s c params)
      else if m = ''auth.updateCredentials'' then sbs_api_handle_auth_update_credentials e wok s c params
      else if m = ''auth.setPasswordless'' then Some (sbs_api_handle_auth_set_passwordless e wok s c params)
      else if m = ''pubsub.subscribe'' then Some (sbs_api_handle_pubsub_subscribe s c params)
      else if m = ''pubsub.unsubscribe'' then Some (sbs_api_handle_pubsub_unsubscribe s c params)
      else case others m s c params of (reply, s) \<Rightarrow> Some (reply, s, c))"

definition request_authenticated ::
    "auth_env \<Rightarrow> 'r api_server \<Rightarrow> api_client option \<Rightarrow> json option \<Rightarrow> bool \<times> api_client option" where
  "request_authenticated e s c params =
     (case srv_auth s of
        None \<Rightarrow> (True, c)
      | Some a \<Rightarrow>
          if sbs_auth_manager_passwordless a then (True, c)
          else case c of
            None \<Rightarrow> (True, c)
          | Some cl \<Rightarrow>
              if ac_authenticated cl then (True, c)
              else if sbs_auth_manager_validate_session (json_str params ''auth_token'') a then (True, authenticate c)
              else if sbs_auth_manager_validate_api_key e (json_str params ''api_key'') a then (True, authenticate c)
              else (False, c))"

definition add_id_field :: "json \<Rightarrow> json option \<Rightarrow> json" where
  "add_id_field response rid =
     (case rid of
        Some (JNumber x) \<Rightarrow> cJSON_AddNumberToObject response ''id'' x
      | Some (JString t) \<Rightarrow> cJSON_AddStringToObject response ''id'' (Some t)
      | _ \<Rightarrow> cJSON_AddNullToObject response ''id'')"

definition response_head :: "json \<Rightarrow> json" where
  "response_head request =
     add_id_field (cJSON_AddStringToObject (JObject []) ''jsonrpc'' (Some ''2.0''))
       (cJSON_GetObjectItemCaseSensitive (Some request) ''id'')"

definition error_response :: "json \<Rightarrow> json \<Rightarrow> json" where
  "error_response response err = cJSON_AddItemToObject response ''error'' err"

definition reply_response :: "json \<Rightarrow> rpc_reply \<Rightarrow> json" where
  "reply_response response reply =
     (if rp_rc reply = SBS_OK \<and> rp_result reply \<noteq> None
      then cJSON_AddItemToObject response ''result'' (the (rp_result reply))
      else case rp_error reply of
        Some err \<Rightarrow> error_response response err
      | None \<Rightarrow> error_response response (rpc_error (-32603) ''Internal error''))"

text \<open>The response to a parsed request, with what the handler leaves of the server and the client.\<close>

definition answer_request ::
    "auth_env \<Rightarrow> bool \<Rightarrow> 'r others \<Rightarrow> json \<Rightarrow> 'r api_server \<Rightarrow> api_client option \<Rightarrow>
     (json \<times> 'r api_server \<times> api_client option) option" where
  "answer_request e wok others request s c =
     (let params = cJSON_GetObjectItemCaseSensitive (Some request) ''params'';
          method_item = cJSON_GetObjectItemCaseSensitive (Some request) ''method'';
          response = response_head request
      in case cJSON_GetStringValue method_item of
           None \<Rightarrow> Some (error_response response (rpc_error (-32600) ''Invalid Request''), s, c)
         | Some m \<Rightarrow>
             if m \<notin> set (srv_methods s)
             then Some (error_response response (rpc_error (-32601) ''Method not found''), s, c)
             else
               let (allowed, c) = (if is_auth_method m then (True, c) else request_authenticated e s c params) in
               if \<not> allowed
               then Some (error_response response (rpc_error (-32020) ''Authentication required''), s, c)
               else (case run_handler e wok others m s c params of
                   None \<Rightarrow> None
                 | Some (reply, s, c) \<Rightarrow> Some (reply_response response reply, s, c)))"

definition parse_error_response :: json where
  "parse_error_response =
     cJSON_AddItemToObject (cJSON_AddNullToObject (cJSON_AddStringToObject (JObject []) ''jsonrpc'' (Some ''2.0'')) ''id'')
       ''error'' (rpc_error (-32700) ''Parse error'')"

definition sbs_api_server_dispatch_json ::
    "auth_env \<Rightarrow> bool \<Rightarrow> 'r others \<Rightarrow> string option \<Rightarrow> 'r api_server \<Rightarrow> api_client option \<Rightarrow>
     (sbs_result \<times> string option \<times> 'r api_server \<times> api_client option) option" where
  "sbs_api_server_dispatch_json e wok others request_json s c =
     (if request_json = None then Some (SBS_ERR_INVAL, None, s, c)
      else case cJSON_Parse (ae_strtod e) request_json of
        None \<Rightarrow> Some (SBS_OK, Some (cJSON_PrintUnformatted (ae_fmt e) parse_error_response), s, c)
      | Some request \<Rightarrow>
          if \<not> cJSON_IsObject (Some request)
          then Some (SBS_OK, Some (cJSON_PrintUnformatted (ae_fmt e) parse_error_response), s, c)
          else (case answer_request e wok others request s c of
              None \<Rightarrow> None
            | Some (response, s, c) \<Rightarrow> Some (SBS_OK, Some (cJSON_PrintUnformatted (ae_fmt e) response), s, c)))"

section \<open>Publishing\<close>

definition topic_matches_pattern :: "string \<Rightarrow> string \<Rightarrow> bool" where
  "topic_matches_pattern topic pattern =
     (if pattern = ''*'' then True
      else if CHR ''*'' \<notin> set pattern then topic = pattern
      else let prefix = takeWhile (\<lambda>ch. ch \<noteq> CHR ''*'') pattern
        in take (length prefix) topic = prefix)"

definition sbs_api_client_matches_topic :: "api_client \<Rightarrow> string \<Rightarrow> bool" where
  "sbs_api_client_matches_topic c topic = list_ex (topic_matches_pattern topic) (ac_subscriptions c)"

definition sbs_api_client_take_message :: "api_client \<Rightarrow> string option \<times> api_client" where
  "sbs_api_client_take_message c =
     (case ac_outbox c of
        [] \<Rightarrow> (None, c)
      | m # ms \<Rightarrow> (Some m, c\<lparr>ac_outbox := ms\<rparr>))"

definition event_message :: "(fp \<Rightarrow> string) \<Rightarrow> string \<Rightarrow> json \<Rightarrow> string" where
  "event_message fmt topic v = cJSON_PrintUnformatted fmt
     (cJSON_AddItemToObject
        (cJSON_AddStringToObject (cJSON_AddStringToObject (JObject []) ''jsonrpc'' (Some ''2.0'')) ''method'' (Some ''pubsub.event''))
        ''params'' (cJSON_AddItemToObject (cJSON_AddStringToObject (JObject []) ''topic'' (Some topic)) ''data'' v))"

definition marks_dirty :: "string \<Rightarrow> bool" where
  "marks_dirty topic \<longleftrightarrow> \<not> starts_with ''telemetry.'' topic \<and> \<not> starts_with ''audio.level'' topic
     \<and> \<not> starts_with ''preview.profile.'' topic"

definition deliver :: "string \<Rightarrow> string \<Rightarrow> api_client \<Rightarrow> api_client" where
  "deliver topic msg c =
     (if sbs_api_client_matches_topic c topic then c\<lparr>ac_outbox := ac_outbox c @ [msg]\<rparr> else c)"

definition sbs_api_server_publish :: "(fp \<Rightarrow> string) \<Rightarrow> string \<Rightarrow> json option \<Rightarrow> 'r api_server \<Rightarrow> 'r api_server" where
  "sbs_api_server_publish fmt topic v s =
     (case v of
        None \<Rightarrow> s
      | Some v \<Rightarrow>
          let s = (if srv_config s \<and> marks_dirty topic then s\<lparr>srv_dirty := srv_dirty s + 1\<rparr> else s)
          in s\<lparr>srv_clients := map (\<lambda>(k, c). (k, deliver topic (event_message fmt topic v) c)) (srv_clients s)\<rparr>)"

end
