(* ===== verification/Rpc_Props.thy ===== *)
theory Rpc_Props
  imports Rpc
begin

text \<open>
  The properties of the dispatcher and of the published events: who may call a method, how a connection
  becomes authenticated and that it stays so, the form of the responses, and which client receives
  which event.
\<close>

section \<open>Requests\<close>

abbreviation request_params :: "json \<Rightarrow> json option" where
  "request_params request \<equiv> cJSON_GetObjectItemCaseSensitive (Some request) ''params''"

abbreviation request_method :: "json \<Rightarrow> string option" where
  "request_method request \<equiv> cJSON_GetStringValue (cJSON_GetObjectItemCaseSensitive (Some request) ''method'')"

text \<open>A request shows a session token or an API key that is valid.\<close>

definition shows_credential :: "auth_env \<Rightarrow> auth_manager \<Rightarrow> json option \<Rightarrow> bool" where
  "shows_credential e a params \<longleftrightarrow>
     sbs_auth_manager_validate_session (json_str params ''auth_token'') a
     \<or> sbs_auth_manager_validate_api_key e (json_str params ''api_key'') a"





lemma refused_unless_credential:
  assumes "srv_auth s = Some a" "\<not> sbs_auth_manager_passwordless a" "\<not> ac_authenticated c" "\<not> shows_credential e a params"
  shows "request_authenticated e s (Some c) params = (False, Some c)"
  using assms by (simp add: request_authenticated_def shows_credential_def)

text \<open>
  C30. While a password is required, a connection that is not authenticated and shows no valid session
  token or API key runs no handler but those of the four methods a login consists of: whatever
  the other handlers do, the request is answered with an error, and the server and the connection
  are as before.
\<close>

theorem requests_need_credentials:
  assumes "srv_auth s = Some a" "\<not> sbs_auth_manager_passwordless a" "\<not> ac_authenticated c"
    "\<not> shows_credential e a (request_params request)"
    "\<And>m. request_method request = Some m \<Longrightarrow> \<not> is_auth_method m"
  shows "\<exists>code message. answer_request e wok others request s (Some c)
      = Some (error_response (response_head request) (rpc_error code message), s, Some c)
    \<and> code \<in> {-32600, -32601, -32020}"
proof (cases "request_method request")
  case None
  then show ?thesis
    unfolding answer_request_def Let_def None option.case by blast
next
  case (Some m)
  have ref: "(if is_auth_method m then (True, Some c) else request_authenticated e s (Some c) (request_params request))
      = (False, Some c)"
    using assms(5) [OF Some] refused_unless_credential [OF assms(1-4)] by simp
  show ?thesis
  proof (cases "m \<in> set (srv_methods s)")
    case True
    then have "answer_request e wok others request s (Some c)
        = Some (error_response (response_head request) (rpc_error (-32020) ''Authentication required''), s, Some c)"
      unfolding answer_request_def Let_def Some option.case ref prod.case by simp
    then show ?thesis
      by blast
  next
    case False
    then have "answer_request e wok others request s (Some c)
        = Some (error_response (response_head request) (rpc_error (-32601) ''Method not found''), s, Some c)"
      unfolding answer_request_def Let_def Some option.case by simp
    then show ?thesis
      by blast
  qed
qed



section \<open>Responses\<close>







section \<open>Connections and credentials\<close>

text \<open>
  C33. A change of the credentials closes every session but the new one, not the connections that were
  authenticated with them: a connection that logged in with a token no longer valid still runs
  every method.
\<close>

theorem connection_outlives_credentials:
  assumes "sbs_auth_manager_update_credentials e wok (Some u) (Some p) a = Some ((SBS_OK, tok), a')"
    and "ac_authenticated c" "Some t \<noteq> tok" "srv_auth s = Some a'"
    and "request_method request = Some m" "m \<in> set (srv_methods s)"
  shows "\<not> sbs_auth_manager_validate_session (Some t) a'
    \<and> answer_request e wok others request s (Some c)
      = map_option (\<lambda>(reply, s', c'). (reply_response (response_head request) reply, s', c'))
          (run_handler e wok others m s (Some c) (request_params request))"
proof
  obtain salt t' where r: "au_mode a' = Some ''password''" "tok = Some t'" "au_sessions a' = [t']"
    using update_credentials_result [OF assms(1)] by blast
  then show "\<not> sbs_auth_manager_validate_session (Some t) a'"
    using assms(3) by (simp add: sbs_auth_manager_validate_session_def sbs_auth_manager_passwordless_def)
  have adm: "(if is_auth_method m then (True, Some c) else request_authenticated e s (Some c) (request_params request))
      = (True, Some c)"
    using assms(2,4) by (simp add: request_authenticated_def)
  show "answer_request e wok others request s (Some c)
      = map_option (\<lambda>(reply, s', c'). (reply_response (response_head request) reply, s', c'))
          (run_handler e wok others m s (Some c) (request_params request))"
    unfolding answer_request_def Let_def assms(5) option.case adm prod.case using assms(6)
    by (simp split: option.split)
qed

section \<open>Events\<close>

definition publish_all :: "(fp \<Rightarrow> string) \<Rightarrow> (string \<times> json) list \<Rightarrow> 'r api_server \<Rightarrow> 'r api_server" where
  "publish_all fmt events s = fold (\<lambda>(topic, v). sbs_api_server_publish fmt topic (Some v)) events s"

text \<open>Taking messages until none is left.\<close>

fun drain :: "nat \<Rightarrow> api_client \<Rightarrow> string list" where
  "drain 0 c = []"
| "drain (Suc n) c = (case sbs_api_client_take_message c of (None, c) \<Rightarrow> [] | (Some m, c) \<Rightarrow> m # drain n c)"

lemma drain_outbox: "length (ac_outbox c) \<le> n \<Longrightarrow> drain n c = ac_outbox c"
  by (induction n arbitrary: c) (auto simp: sbs_api_client_take_message_def split: list.split)

text \<open>A pattern means: the one topic, or all topics with the text before its star.\<close>

definition pattern_selects :: "string \<Rightarrow> string \<Rightarrow> bool" where
  "pattern_selects pattern topic \<longleftrightarrow>
     topic = pattern \<and> CHR ''*'' \<notin> set pattern
     \<or> (\<exists>before after rest. pattern = before @ CHR ''*'' # after \<and> CHR ''*'' \<notin> set before \<and> topic = before @ rest)"

lemma topic_matches_pattern_iff: "topic_matches_pattern topic pattern \<longleftrightarrow> pattern_selects pattern topic"
proof (cases "CHR ''*'' \<in> set pattern")
  case False
  then show ?thesis
    by (auto simp: topic_matches_pattern_def pattern_selects_def)
next
  case True
  then obtain before after where p: "pattern = before @ CHR ''*'' # after" "CHR ''*'' \<notin> set before"
    using split_list_first by metis
  have prefix: "takeWhile (\<lambda>ch. ch \<noteq> CHR ''*'') (b @ CHR ''*'' # a) = b" if "CHR ''*'' \<notin> set b" for b a
    using that by (induction b) auto
  then have pre: "takeWhile (\<lambda>ch. ch \<noteq> CHR ''*'') pattern = before"
    using p by simp
  have uniq: "b = before" if "pattern = b @ CHR ''*'' # a" "CHR ''*'' \<notin> set b" for b a
    using that prefix pre by simp
  have "topic_matches_pattern topic pattern \<longleftrightarrow> take (length before) topic = before"
    using True p unfolding topic_matches_pattern_def pre Let_def by (cases before) auto
  also have "\<dots> \<longleftrightarrow> (\<exists>rest. topic = before @ rest)"
    by (metis append_eq_conv_conj append_take_drop_id)
  finally show ?thesis
    using True p uniq unfolding pattern_selects_def by blast
qed

lemma publish_all_client:
  "map_of (srv_clients (publish_all fmt events s)) k
   = map_option (\<lambda>c. c\<lparr>ac_outbox := ac_outbox c
       @ map (\<lambda>(topic, v). event_message fmt topic v) (filter (\<lambda>(topic, v). sbs_api_client_matches_topic c topic) events)\<rparr>)
     (map_of (srv_clients s) k)"
proof (induction events arbitrary: s)
  case Nil
  then show ?case
    by (simp add: publish_all_def option.map_ident)
next
  case (Cons x events)
  obtain topic v where x: "x = (topic, v)"
    by (cases x)
  let ?s = "sbs_api_server_publish fmt topic (Some v) s"
  have step: "map_of (srv_clients ?s) k = map_option (deliver topic (event_message fmt topic v)) (map_of (srv_clients s) k)"
    by (simp add: sbs_api_server_publish_def Let_def map_of_map)
  have "publish_all fmt (x # events) s = publish_all fmt events ?s"
    by (simp add: publish_all_def x)
  then show ?case
    using Cons.IH [of ?s] step
    by (cases "map_of (srv_clients s) k") (simp_all add: x deliver_def sbs_api_client_matches_topic_def)
qed

text \<open>
  C34. Every client finds in its outbox, after what was there, exactly the events whose topic one of its
  patterns matches, each once and in the order of their publication, and takes them out in that
  order; a pattern means the one topic, or all topics with the text before its star.
\<close>

theorem subscribers_receive_matching_events:
  assumes "map_of (srv_clients s) k = Some c"
  shows "\<exists>c'. map_of (srv_clients (publish_all fmt events s)) k = Some c'
    \<and> ac_subscriptions c' = ac_subscriptions c
    \<and> drain (length (ac_outbox c')) c' = ac_outbox c @ map (\<lambda>(topic, v). event_message fmt topic v)
        (filter (\<lambda>(topic, v). \<exists>pattern \<in> set (ac_subscriptions c). pattern_selects pattern topic) events)"
proof -
  have "sbs_api_client_matches_topic c topic \<longleftrightarrow> (\<exists>pattern \<in> set (ac_subscriptions c). pattern_selects pattern topic)" for topic
    unfolding sbs_api_client_matches_topic_def list_ex_iff topic_matches_pattern_iff ..
  then show ?thesis
    using publish_all_client [of fmt events s k] assms by (simp add: drain_outbox)
qed

section \<open>Examples\<close>

definition sample_others :: "unit others" where
  "sample_others m s c params = (reply_ok (JString m), s)"

definition sample_server :: "auth_manager \<Rightarrow> unit api_server" where
  "sample_server a = \<lparr>srv_auth = Some a, srv_methods = core_methods,
     srv_clients = [(1, (sbs_api_client_new 1)\<lparr>ac_subscriptions := [''scene.*'', ''source.state'']\<rparr>)],
     srv_next_client_id = 2, srv_config = True, srv_dirty = 0, srv_rest = ()\<rparr>"

definition sample_request :: json where
  "sample_request = JObject [(''id'', JNumber (Fin 7)), (''method'', JString ''scene.list'')]"

definition sample_auth :: auth_manager where
  "sample_auth = \<lparr>au_mode = None, au_username = None, au_password_salt = None, au_password_hash = None,
     au_api_keys = [], au_sessions = [], au_file = None, au_draws = 0\<rparr>"

theorem requests_need_credentials_witness:
  "\<exists>code message. answer_request sample_env True sample_others sample_request (sample_server sample_auth) (Some (sbs_api_client_new 1))
    = Some (error_response (response_head sample_request) (rpc_error code message), sample_server sample_auth, Some (sbs_api_client_new 1))"
  using requests_need_credentials [of "sample_server sample_auth" sample_auth "sbs_api_client_new 1" sample_env sample_request True sample_others]
  by (auto simp: sample_server_def sample_auth_def sbs_auth_manager_passwordless_def sbs_api_client_new_def shows_credential_def
      sbs_auth_manager_validate_session_def sbs_auth_manager_validate_api_key_def sbs_auth_manager_setup_required_def
      json_str_def sample_request_def is_auth_method_def)




theorem connection_outlives_credentials_witness:
  "\<exists>a' tok. sbs_auth_manager_update_credentials sample_env True (Some ''admin'') (Some ''pw'') sample_auth = Some ((SBS_OK, tok), a')
    \<and> answer_request sample_env True sample_others sample_request (sample_server a') (Some ((sbs_api_client_new 1)\<lparr>ac_authenticated := True\<rparr>))
      = Some (reply_response (response_head sample_request) (reply_ok (JString ''scene.list'')), sample_server a',
          Some ((sbs_api_client_new 1)\<lparr>ac_authenticated := True\<rparr>))"
proof -
  obtain tok a' where r: "sbs_auth_manager_update_credentials sample_env True (Some ''admin'') (Some ''pw'') sample_auth
      = Some ((SBS_OK, tok), a')"
    by (simp add: sbs_auth_manager_update_credentials_def set_password_def draw_token_def save_config_def Let_def
        sbs_auth_manager_login_password_def sbs_auth_manager_setup_required_def sbs_auth_manager_passwordless_def
        secure_equals_iff hash_secret_def open_session_def sample_auth_def clear_login_config_def)
  obtain t where t: "Some t \<noteq> tok"
    by (cases tok) (auto intro: that [of "''x''"] that [of "''y''"])
  have "run_handler sample_env True sample_others ''scene.list'' (sample_server a')
      (Some ((sbs_api_client_new 1)\<lparr>ac_authenticated := True\<rparr>)) (request_params sample_request)
    = Some (reply_ok (JString ''scene.list''), sample_server a', Some ((sbs_api_client_new 1)\<lparr>ac_authenticated := True\<rparr>))"
    by (simp add: run_handler_def sample_others_def)
  then show ?thesis
    using r connection_outlives_credentials [OF r _ t, of "(sbs_api_client_new 1)\<lparr>ac_authenticated := True\<rparr>" "sample_server a'"
        sample_request "''scene.list''" sample_others]
    by (auto simp: sample_server_def sample_request_def core_methods_def)
qed

theorem subscribers_receive_matching_events_witness:
  "\<exists>c'. map_of (srv_clients (publish_all (ae_fmt sample_env) [(''scene.created'', JNull), (''audio.level'', JNull)]
        (sample_server sample_auth))) 1 = Some c'
    \<and> drain (length (ac_outbox c')) c' = [event_message (ae_fmt sample_env) ''scene.created'' JNull]"
proof -
  have sel: "pattern_selects ''scene.*'' ''scene.created''" "\<not> pattern_selects ''scene.*'' ''audio.level''"
    "\<not> pattern_selects ''source.state'' ''audio.level''"
    unfolding topic_matches_pattern_iff [symmetric] by (simp_all add: topic_matches_pattern_def)
  show ?thesis
    using subscribers_receive_matching_events [of "sample_server sample_auth" 1
        "(sbs_api_client_new 1)\<lparr>ac_subscriptions := [''scene.*'', ''source.state'']\<rparr>" "ae_fmt sample_env"
        "[(''scene.created'', JNull), (''audio.level'', JNull)]"]
    by (auto simp: sample_server_def sel sbs_api_client_new_def)
qed

end
