(* ===== verification/Ws_Frames.thy ===== *)
theory Ws_Frames
  imports Sbs_Prelude
begin

unbundle bit_operations_syntax

text \<open>
  The WebSocket text frames of the API server, \<open>src/server/api/ws_server.c\<close>: \<open>build_ws_frame\<close> writes
  what the server sends, \<open>read_ws_text_frame\<close> reads a message of the client, which may come in
  several frames. The stream of the socket is a list of bytes that ends where the client closes it;
  the reader returns the message and what follows it, or nothing when it gives the connection up.
  The allocations succeed.
\<close>

section \<open>Writing\<close>

definition WS_MAX_TEXT_PAYLOAD :: nat where "WS_MAX_TEXT_PAYLOAD = 192 * 1024 * 1024"

definition be_bytes :: "nat \<Rightarrow> nat \<Rightarrow> u8 list" where
  "be_bytes k n = map (\<lambda>i. word_of_nat (n div 256 ^ (k - 1 - i))) [0..<k]"

definition ws_length_bytes :: "nat \<Rightarrow> u8 list" where
  "ws_length_bytes len =
     (if len < 126 then [word_of_nat len]
      else if len \<le> 0xffff then 126 # be_bytes 2 len
      else 127 # be_bytes 8 len)"


section \<open>Reading\<close>

definition recv_exact :: "nat \<Rightarrow> u8 list \<Rightarrow> (u8 list \<times> u8 list) option" where
  "recv_exact n input = (if n \<le> length input then Some (take n input, drop n input) else None)"

definition be_value :: "u8 list \<Rightarrow> nat" where
  "be_value bs = fold (\<lambda>b v. v * 256 + unat b) bs 0"

text \<open>The length of the payload, from the second byte of the frame and the bytes after it.\<close>

definition ws_payload_len :: "u8 \<Rightarrow> u8 list \<Rightarrow> (nat \<times> u8 list) option" where
  "ws_payload_len b input =
     (let len = unat (b AND 0x7f) in
      if len = 126 then map_option (\<lambda>(ext, rest). (be_value ext, rest)) (recv_exact 2 input)
      else if len = 127 then map_option (\<lambda>(ext, rest). (be_value ext, rest)) (recv_exact 8 input)
      else Some (len, input))"

definition unmask :: "u8 list \<Rightarrow> u8 list \<Rightarrow> u8 list" where
  "unmask key payload = map (\<lambda>(i, b). b XOR key ! (i mod 4)) (enumerate 0 payload)"

definition so_far :: "u8 list option \<Rightarrow> u8 list" where
  "so_far message = (case message of Some m \<Rightarrow> m | None \<Rightarrow> [])"

text \<open>
  One round of the loop, with the message so far: the payload is appended, and the boolean says whether
  it was the last frame.
\<close>

definition ws_round :: "u8 list option \<Rightarrow> u8 list \<Rightarrow> (bool \<times> u8 list \<times> u8 list) option" where
  "ws_round message input =
     (case recv_exact 2 input of
        None \<Rightarrow> None
      | Some (hdr, input) \<Rightarrow>
          let fin = hdr ! 0 AND 0x80 \<noteq> 0;
              opcode = hdr ! 0 AND 0x0f
          in
          if opcode = 8 then None
          else if opcode \<noteq> 1 \<and> opcode \<noteq> 0 then None
          else if (opcode = 1 \<and> message \<noteq> None) \<or> (opcode = 0 \<and> message = None) then None
          else
            let msg = so_far message in
            (case ws_payload_len (hdr ! 1) input of
               None \<Rightarrow> None
             | Some (len, input) \<Rightarrow>
                 if len > WS_MAX_TEXT_PAYLOAD \<or> length msg > WS_MAX_TEXT_PAYLOAD - len then None
                 else if hdr ! 1 AND 0x80 = 0 then None
                 else (case recv_exact 4 input of
                     None \<Rightarrow> None
                   | Some (key, input) \<Rightarrow>
                       (case recv_exact len input of
                          None \<Rightarrow> None
                        | Some (payload, input) \<Rightarrow> Some (fin, msg @ unmask key payload, input)))))"

lemma recv_exact_length: "recv_exact n input = Some (bs, rest) \<Longrightarrow> length bs = n \<and> length input = n + length rest"
  by (auto simp: recv_exact_def split: if_split_asm)

lemma ws_payload_len_rest: "ws_payload_len b input = Some (len, rest) \<Longrightarrow> length rest \<le> length input"
  by (auto simp: ws_payload_len_def Let_def dest: recv_exact_length split: if_split_asm)

lemma ws_round_shrinks: "ws_round message input = Some (fin, msg, rest) \<Longrightarrow> length rest < length input"
  by (auto simp: ws_round_def Let_def dest!: recv_exact_length ws_payload_len_rest split: option.splits if_split_asm prod.splits)

function read_frames :: "u8 list option \<Rightarrow> u8 list \<Rightarrow> (u8 list \<times> u8 list) option" where
  "read_frames message input =
     (case ws_round message input of
        None \<Rightarrow> None
      | Some (fin, msg, input) \<Rightarrow> if fin then Some (msg, input) else read_frames (Some msg) input)"
  by auto

termination
  by (relation "measure (\<lambda>(message, input). length input)") (auto dest: ws_round_shrinks)

declare read_frames.simps [simp del]

definition read_ws_text_frame :: "u8 list \<Rightarrow> (u8 list \<times> u8 list) option" where
  "read_ws_text_frame input = read_frames None input"

section \<open>What a client sends\<close>

text \<open>
  A client masks its payload with a key of four bytes and may cut a message into several frames; the
  first is a text frame, the others continue it, the last has the bit \<open>FIN\<close>.
\<close>

definition masked :: "u8 list \<Rightarrow> u8 list" where
  "masked bs = (hd bs OR 0x80) # tl bs"

definition client_frame :: "bool \<Rightarrow> bool \<Rightarrow> u8 list \<Rightarrow> u8 list \<Rightarrow> u8 list" where
  "client_frame fin first key payload =
     ((if fin then 0x80 else 0) OR (if first then 1 else 0)) # masked (ws_length_bytes (length payload)) @ key @ unmask key payload"

fun client_frames :: "bool \<Rightarrow> (u8 list \<times> u8 list) list \<Rightarrow> u8 list" where
  "client_frames first [] = []"
| "client_frames first ((key, payload) # frames) =
     client_frame (frames = []) first key payload @ client_frames False frames"

section \<open>Lengths and masks\<close>

lemma be_bytes_Suc: "be_bytes (Suc k) n = word_of_nat (n div 256 ^ k) # be_bytes k n"
  by (simp add: be_bytes_def upt_conv_Cons map_Suc_upt [symmetric] del: upt_Suc)

lemma length_be_bytes [simp]: "length (be_bytes k n) = k"
  by (simp add: be_bytes_def)

lemma be_value_bytes: "n < 256 ^ k \<Longrightarrow> be_value (be_bytes k n) = n"
proof -
  have "fold (\<lambda>b v. v * 256 + unat b) (be_bytes k n) v = v * 256 ^ k + n mod 256 ^ k" for v
  proof (induction k arbitrary: v)
    case 0
    then show ?case
      by (simp add: be_bytes_def)
  next
    case (Suc k)
    have "n mod 256 ^ Suc k = 256 ^ k * (n div 256 ^ k mod 256) + n mod 256 ^ k"
      using mod_mult2_eq [of n "256 ^ k" 256] by (simp add: mult.commute)
    then show ?case
      by (simp add: be_bytes_Suc Suc.IH unat_of_nat take_bit_eq_mod) (simp add: algebra_simps)
  qed
  then show "n < 256 ^ k \<Longrightarrow> be_value (be_bytes k n) = n"
    by (simp add: be_value_def)
qed

lemma masked_bits:
  assumes "unat (w :: u8) < 128"
  shows "unat ((w OR 0x80) AND 0x7f) = unat w" "(w OR 0x80) AND 0x80 \<noteq> 0"
proof -
  have "(w OR 0x80) AND 0x7f = w AND 0x7f"
    by (simp add: bit.conj_disj_distrib2)
  also have "\<dots> = take_bit 7 w"
    by (simp add: take_bit_eq_mask mask_eq_exp_minus_1)
  finally have "(w OR 0x80) AND 0x7f = take_bit 7 w" .
  moreover have "unat (take_bit 7 w) = unat w"
    unfolding unsigned_take_bit_eq using assms by (simp add: take_bit_eq_mod)
  ultimately show "unat ((w OR 0x80) AND 0x7f) = unat w"
    by (simp only:)
  have "(w OR 0x80) AND 0x80 = 0x80"
    by (rule bit_word_eqI) (auto simp: bit_or_iff bit_and_iff)
  then show "(w OR 0x80) AND 0x80 \<noteq> 0"
    by simp
qed



lemma unmask_unmask: "unmask key (unmask key payload) = payload"
proof (rule nth_equalityI)
  show "unmask key (unmask key payload) ! i = payload ! i" if "i < length (unmask key (unmask key payload))" for i
    using that by (simp add: unmask_def nth_enumerate_eq xor.assoc)
qed (simp add: unmask_def)

lemma length_unmask [simp]: "length (unmask key payload) = length payload"
  by (simp add: unmask_def)

text \<open>The header of a masked frame is read back.\<close>

lemma masked_length:
  assumes "len < 2 ^ 64"
  obtains b ext where "masked (ws_length_bytes len) = b # ext" "b AND 0x80 \<noteq> 0"
    "\<forall>rest. ws_payload_len b (ext @ rest) = Some (len, rest)"
proof -
  consider "len < 126" | "126 \<le> len" "len \<le> 0xffff" | "0xffff < len"
    by linarith
  then show ?thesis
  proof cases
    case 1
    then have w: "unat (word_of_nat len :: u8) = len"
      by (simp add: unat_of_nat take_bit_eq_mod)
    show ?thesis
      using 1 masked_bits [of "word_of_nat len"] w
      by (intro that [of "word_of_nat len OR 0x80" "[]"]) (simp_all add: masked_def ws_length_bytes_def ws_payload_len_def)
  next
    case 2
    then have v: "be_value (be_bytes 2 len) = len"
      by (intro be_value_bytes) simp
    show ?thesis
      using 2 masked_bits [of 126] v
      by (intro that [of "126 OR 0x80" "be_bytes 2 len"])
        (simp_all add: masked_def ws_length_bytes_def ws_payload_len_def recv_exact_def)
  next
    case 3
    then have v: "be_value (be_bytes 8 len) = len"
      using assms by (intro be_value_bytes) simp
    show ?thesis
      using 3 masked_bits [of 127] v
      by (intro that [of "127 OR 0x80" "be_bytes 8 len"])
        (simp_all add: masked_def ws_length_bytes_def ws_payload_len_def recv_exact_def)
  qed
qed

lemma round_of_client_frame:
  assumes "length key = 4" "first \<longleftrightarrow> message = None" "length (so_far message) + length payload \<le> WS_MAX_TEXT_PAYLOAD"
  shows "ws_round message (client_frame fin first key payload @ rest) = Some (fin, so_far message @ payload, rest)"
proof -
  have "length payload < 2 ^ 64"
    using assms(3) by (simp add: WS_MAX_TEXT_PAYLOAD_def)
  then obtain b ext where b: "masked (ws_length_bytes (length payload)) = b # ext" "b AND 0x80 \<noteq> 0"
    "\<forall>rest. ws_payload_len b (ext @ rest) = Some (length payload, rest)"
    by (rule masked_length)
  let ?h = "(if fin then 0x80 else 0) OR (if first then 1 else 0) :: u8"
  have head: "?h AND 0x80 \<noteq> 0 \<longleftrightarrow> fin" "?h AND 0x0f = (if first then 1 else 0)"
    by simp_all
  have recv2: "recv_exact 2 (client_frame fin first key payload @ rest)
      = Some ([?h, b], ext @ key @ unmask key payload @ rest)"
    by (simp add: client_frame_def b(1) recv_exact_def)
  have recv4: "recv_exact 4 (key @ unmask key payload @ rest) = Some (key, unmask key payload @ rest)"
    using assms(1) by (simp add: recv_exact_def)
  have recvn: "recv_exact (length payload) (unmask key payload @ rest) = Some (unmask key payload, rest)"
    by (simp add: recv_exact_def)
  have lim: "\<not> WS_MAX_TEXT_PAYLOAD < length payload" "\<not> WS_MAX_TEXT_PAYLOAD - length payload < length (so_far message)"
    using assms(3) by auto
  show ?thesis
    unfolding ws_round_def recv2 option.case prod.case Let_def
    using lim assms(2) b(2) head by (cases message) (simp_all add: b(3) recv4 recvn unmask_unmask)
qed

lemma read_client_frames:
  assumes "frames \<noteq> []" "\<forall>(key, payload) \<in> set frames. length key = 4" "first \<longleftrightarrow> message = None"
    "length (so_far message) + length (concat (map snd frames)) \<le> WS_MAX_TEXT_PAYLOAD"
  shows "read_frames message (client_frames first frames @ rest) = Some (so_far message @ concat (map snd frames), rest)"
  using assms
proof (induction frames arbitrary: message first)
  case (Cons x frames)
  obtain key payload where x: "x = (key, payload)"
    by (cases x)
  have round: "ws_round message (client_frames first (x # frames) @ rest)
      = Some (frames = [], so_far message @ payload, client_frames False frames @ rest)"
    using Cons.prems round_of_client_frame [of key first message payload "frames = []" "client_frames False frames @ rest"]
    by (simp add: x)
  show ?case
  proof (cases "frames = []")
    case True
    then show ?thesis
      using round by (simp add: read_frames.simps [of message] x)
  next
    case False
    then have "read_frames (Some (so_far message @ payload)) (client_frames False frames @ rest)
        = Some (so_far (Some (so_far message @ payload)) @ concat (map snd frames), rest)"
      using Cons.prems by (intro Cons.IH) (simp_all add: x so_far_def)
    then show ?thesis
      using round False by (simp add: read_frames.simps [of message] x so_far_def)
  qed
qed simp

section \<open>Messages\<close>

text \<open>
  C35. Whatever message of at most 192 MiB a client sends, masked with any keys and cut into frames at
  any places, the server reads this message, and the stream goes on behind its last frame.
\<close>

theorem client_message_is_read:
  assumes "frames \<noteq> []" "\<forall>(key, payload) \<in> set frames. length key = 4"
    "length (concat (map snd frames)) \<le> WS_MAX_TEXT_PAYLOAD"
  shows "read_ws_text_frame (client_frames True frames @ rest) = Some (concat (map snd frames), rest)"
  unfolding read_ws_text_frame_def
  using read_client_frames [of frames True None rest] assms by (simp add: so_far_def)

theorem client_message_is_read_witness:
  "read_ws_text_frame (client_frames True [([1, 2, 3, 4], [72, 105]), ([5, 6, 7, 8], [33])] @ [9]) = Some ([72, 105, 33], [9])"
  using client_message_is_read [of "[([1, 2, 3, 4], [72, 105]), ([5, 6, 7, 8], [33])]" "[9]"]
  by (simp add: WS_MAX_TEXT_PAYLOAD_def)







end
