(* ===== verification/Dmabuf_Import.thy ===== *)
theory Dmabuf_Import
  imports Layers
begin

text \<open>
  How a frame of a source becomes a texture (\<open>src/server/engine/compositor.c\<close>): the texture slot is
  (re)allocated, and the DMA-BUF of the frame is imported through a cache of 16 Vulkan buffers, keyed
  by the inode of the DMA-BUF. Vulkan answers through a record of outcomes; a handle is a number, and
  0 is \<open>VK_NULL_HANDLE\<close>. Images and views appear only as whether they exist. The cache of imported
  images (\<open>dmabuf_image_cache\<close>) has no caller and is left out.
\<close>

section \<open>The cache\<close>

definition SBS_DMABUF_BUF_CACHE_SIZE :: nat where
  [simp]: "SBS_DMABUF_BUF_CACHE_SIZE = 16"

text \<open>Row lengths of the two planes and the offset of the second one.\<close>

type_synonym planes = "u32 \<times> u32 \<times> u32"

record dmabuf_entry =
  de_buf :: nat
  de_inode :: u64
  de_width :: nat
  de_height :: nat
  de_drm_format :: u32
  de_planes :: planes
  de_alpha :: alpha_bounds
  de_age :: u32
  de_valid :: bool
  de_is_ycbcr :: bool

record import_texture = source_texture +
  it_image :: bool
  it_upload_pending :: bool
  it_cache :: "dmabuf_entry list"
  it_active_idx :: int
  it_frame_counter :: u32
  it_buf :: nat
  it_planes :: planes
  it_ycbcr_imported :: bool
  it_upload_filter_flags :: u32

text \<open>The pipelines beyond those of \<open>layer_comp\<close>, and the switch \<open>SBS_ENABLE_YCBCR_IMPORT\<close>.\<close>

record import_setup =
  is_compute_pipeline :: bool
  is_ycbcr_available :: bool
  is_ycbcr_direct_import_enabled :: bool

text \<open>What the kernel and Vulkan answer during one upload.\<close>

record upload_answers =
  ua_image :: bool
  ua_image_memory :: bool
  ua_image_view :: bool
  ua_inode :: "u64 option"
  ua_size :: int
  ua_ycbcr_dup :: bool
  ua_ycbcr_image :: bool
  ua_buffer :: "nat option"
  ua_mapping :: "(nat \<Rightarrow> byte) option"

definition zero_alpha :: alpha_bounds where
  "zero_alpha = \<lparr>alpha_x = 0, alpha_y = 0, alpha_w = 0, alpha_h = 0, alpha_rect_opaque = False\<rparr>"

definition no_dmabuf_entry :: dmabuf_entry where
  "no_dmabuf_entry = \<lparr>de_buf = 0, de_inode = 0, de_width = 0, de_height = 0, de_drm_format = 0,
     de_planes = (0, 0, 0), de_alpha = zero_alpha, de_age = 0, de_valid = False, de_is_ycbcr = False\<rparr>"

definition zero_texture :: import_texture where
  "zero_texture = \<lparr>tex_source_id = [], tex_width = 0, tex_height = 0, tex_allocated = False,
     tex_has_content = False, tex_dmabuf_imported = False, tex_y_buf = False, tex_view = False,
     tex_alpha = zero_alpha, tex_drm_format = 0, it_image = False, it_upload_pending = False,
     it_cache = replicate SBS_DMABUF_BUF_CACHE_SIZE no_dmabuf_entry, it_active_idx = 0,
     it_frame_counter = 0, it_buf = 0, it_planes = (0, 0, 0), it_ycbcr_imported = False,
     it_upload_filter_flags = 0\<rparr>"

section \<open>Allocating a texture slot\<close>

text \<open>
  A texture that is not allocated stays as it is; the others are set to zero at the end, which also
  overwrites the index \<open>-1\<close> that the function has stored before.
\<close>

definition destroy_source_texture :: "import_texture \<Rightarrow> import_texture" where
  "destroy_source_texture t = (if \<not> tex_allocated t then t else zero_texture)"

definition source_alpha_bounds_set_full :: "nat \<Rightarrow> nat \<Rightarrow> import_texture \<Rightarrow> import_texture" where
  "source_alpha_bounds_set_full width height t =
     t\<lparr>tex_alpha := \<lparr>alpha_x = 0, alpha_y = 0, alpha_w = width, alpha_h = height, alpha_rect_opaque = False\<rparr>\<rparr>"

definition sbs_compositor_alloc_source ::
    "upload_answers \<Rightarrow> nat \<Rightarrow> nat \<Rightarrow> import_texture \<Rightarrow> bool \<times> import_texture" where
  "sbs_compositor_alloc_source ua width height t =
     (if tex_allocated t \<and> tex_width t = width \<and> tex_height t = height \<and> it_image t \<and> tex_view t
      then (True, t)
      else
        let t = destroy_source_texture t in
        if \<not> ua_image ua then (False, t)
        else if \<not> ua_image_memory ua then (False, t\<lparr>it_image := False\<rparr>)
        else if \<not> ua_image_view ua then (False, t\<lparr>it_image := True\<rparr>)
        else (True, (source_alpha_bounds_set_full width height
               (t\<lparr>it_image := True, tex_view := True, tex_width := width, tex_height := height\<rparr>))
               \<lparr>tex_allocated := True, tex_has_content := False\<rparr>))"

definition sbs_compositor_alloc_direct_source :: "nat \<Rightarrow> nat \<Rightarrow> import_texture \<Rightarrow> import_texture" where
  "sbs_compositor_alloc_direct_source width height t =
     (if tex_allocated t \<and> tex_width t = width \<and> tex_height t = height \<and> \<not> it_image t \<and> \<not> tex_view t
      then t
      else (source_alpha_bounds_set_full width height
             ((destroy_source_texture t)\<lparr>tex_width := width, tex_height := height\<rparr>))
             \<lparr>tex_allocated := True, tex_has_content := False, it_active_idx := -1\<rparr>)"

section \<open>Importing a DMA-BUF\<close>

definition dmabuf_planes :: "u32 \<Rightarrow> u32 \<Rightarrow> u32 \<Rightarrow> u32 \<times> u32 \<Rightarrow> u32 \<times> u32 \<Rightarrow> planes" where
  "dmabuf_planes drm_format width height plane_offset plane_stride =
     (let or_else = (\<lambda>a b. if a \<noteq> (0 :: u32) then a else b) in
      if drm_format = DRM_P010 then
        let y_stride = or_else (fst plane_stride) (width * 2)
        in (y_stride, or_else (snd plane_stride) (width * 2), or_else (snd plane_offset) (y_stride * height))
      else if drm_format = SBS_DRM_FORMAT_AMLY then
        (or_else (fst plane_stride) ((width + 1) div 2 * 5), 0, 0)
      else if source_drm_format_is_rgba drm_format then (or_else (fst plane_stride) (width * 4), 0, 0)
      else (or_else (fst plane_stride) width, or_else (snd plane_stride) width,
            or_else (snd plane_offset) (width * height)))"

definition dmabuf_expected_size :: "u32 \<Rightarrow> u32 \<Rightarrow> u32 \<Rightarrow> planes \<Rightarrow> u32" where
  "dmabuf_expected_size drm_format width height planes =
     (case planes of (y_stride, uv_stride, uv_offset) \<Rightarrow>
        if drm_format = DRM_P010 then uv_offset + uv_stride * (height div 2)
        else if drm_format = SBS_DRM_FORMAT_AMLY then y_stride * height
        else if source_drm_format_is_rgba drm_format then y_stride * height
        else width * height * 3 div 2)"

definition cache_hit :: "u64 \<Rightarrow> nat \<Rightarrow> nat \<Rightarrow> u32 \<Rightarrow> bool \<Rightarrow> dmabuf_entry \<Rightarrow> bool" where
  "cache_hit inode width height drm_format force_compute e \<longleftrightarrow>
     de_valid e \<and> de_inode e = inode \<and> de_width e = width \<and> de_height e = height
       \<and> de_drm_format e = drm_format \<and> \<not> (force_compute \<and> de_is_ycbcr e)"

text \<open>
  The entry a new import is stored in: the first free one, or else the one of least age. There is
  none when every age is \<open>UINT32_MAX\<close>; the code then writes before the array.
\<close>

definition oldest_step :: "dmabuf_entry list \<Rightarrow> nat \<Rightarrow> u32 \<times> nat option \<Rightarrow> u32 \<times> nat option" where
  "oldest_step cache i best = (if de_age (cache ! i) < fst best then (de_age (cache ! i), Some i) else best)"

definition cache_target :: "dmabuf_entry list \<Rightarrow> nat option" where
  "cache_target cache =
     (case find (\<lambda>i. \<not> de_valid (cache ! i)) [0..<SBS_DMABUF_BUF_CACHE_SIZE] of
        Some i \<Rightarrow> Some i
      | None \<Rightarrow> snd (fold (oldest_step cache) [0..<SBS_DMABUF_BUF_CACHE_SIZE] (- 1, None)))"

definition use_ycbcr_entry :: "nat \<Rightarrow> import_texture \<Rightarrow> import_texture" where
  "use_ycbcr_entry i t =
     t\<lparr>it_ycbcr_imported := True, tex_dmabuf_imported := False, it_upload_pending := False,
       it_active_idx := int i\<rparr>"

definition use_buffer_entry :: "nat \<Rightarrow> dmabuf_entry \<Rightarrow> import_texture \<Rightarrow> import_texture" where
  "use_buffer_entry i e t =
     t\<lparr>it_buf := de_buf e, tex_y_buf := de_buf e \<noteq> 0, it_planes := de_planes e, tex_alpha := de_alpha e,
       tex_drm_format := de_drm_format e, tex_dmabuf_imported := True, it_ycbcr_imported := False,
       it_upload_pending := True, it_active_idx := int i\<rparr>"

definition drop_import_alias :: "import_texture \<Rightarrow> import_texture" where
  "drop_import_alias t =
     t\<lparr>it_buf := 0, tex_y_buf := False, tex_dmabuf_imported := False, it_ycbcr_imported := False\<rparr>"

definition imported_entry ::
    "u64 \<Rightarrow> nat \<Rightarrow> nat \<Rightarrow> u32 \<Rightarrow> planes \<Rightarrow> u32 \<Rightarrow> dmabuf_entry \<Rightarrow> dmabuf_entry" where
  "imported_entry inode width height drm_format planes age e =
     e\<lparr>de_inode := inode, de_width := width, de_height := height, de_drm_format := drm_format,
       de_planes := planes, de_age := age, de_valid := True\<rparr>"

definition imported_alpha :: "int \<Rightarrow> (nat \<Rightarrow> byte) option \<Rightarrow> nat \<Rightarrow> nat \<Rightarrow> u32 \<Rightarrow> planes \<Rightarrow> alpha_bounds" where
  "imported_alpha fd mapping width height drm_format planes =
     (if source_drm_format_is_rgba drm_format
      then source_alpha_bounds_scan_rgba_fd fd mapping width height (unat (fst planes))
      else \<lparr>alpha_x = 0, alpha_y = 0, alpha_w = width, alpha_h = height, alpha_rect_opaque = True\<rparr>)"

text \<open>A miss: \<open>i\<close> is the entry to use, \<open>t\<close> the texture with its counter advanced.\<close>

definition import_miss ::
    "import_setup \<Rightarrow> upload_answers \<Rightarrow> int \<Rightarrow> u64 \<Rightarrow> u32 \<Rightarrow> u32 \<Rightarrow> u32 \<Rightarrow> planes \<Rightarrow> bool \<Rightarrow> nat
       \<Rightarrow> import_texture \<Rightarrow> bool \<times> import_texture" where
  "import_miss setup ua fd inode width height drm_format planes force_compute i t =
     (let e = (if de_valid (it_cache t ! i) then no_dmabuf_entry else it_cache t ! i);
          t = drop_import_alias (t\<lparr>it_cache := (it_cache t)[i := e]\<rparr>);
          new = imported_entry inode (unat width) (unat height) drm_format planes (it_frame_counter t) e;
          ycbcr = (\<not> force_compute \<and> is_ycbcr_direct_import_enabled setup \<and> is_ycbcr_available setup
                   \<and> drm_is_yuv8 drm_format)
      in if ua_size ua < uint (dmabuf_expected_size drm_format width height planes) then (False, t)
         else if ycbcr \<and> \<not> ua_ycbcr_dup ua then (False, t)
         else if ycbcr \<and> ua_ycbcr_image ua
         then (True, use_ycbcr_entry i (t\<lparr>it_cache := (it_cache t)[i := new\<lparr>de_buf := 0, de_is_ycbcr := True\<rparr>]\<rparr>))
         else if \<not> source_drm_format_is_rgba drm_format \<and> \<not> is_compute_pipeline setup then (False, t)
         else case ua_buffer ua of
           None \<Rightarrow> (False, t)
         | Some buf \<Rightarrow>
             let new = new\<lparr>de_buf := buf,
                   de_alpha := imported_alpha fd (ua_mapping ua) (unat width) (unat height) drm_format planes\<rparr>
             in (True, use_buffer_entry i new (t\<lparr>it_cache := (it_cache t)[i := new]\<rparr>)))"

text \<open>The result is \<open>None\<close> when the code writes outside of the cache.\<close>

definition import_dmabuf_source ::
    "import_setup \<Rightarrow> upload_answers \<Rightarrow> int \<Rightarrow> u32 \<Rightarrow> u32 \<Rightarrow> u32 \<Rightarrow> u32 \<times> u32 \<Rightarrow> u32 \<times> u32 \<Rightarrow> bool
       \<Rightarrow> import_texture \<Rightarrow> (bool \<times> import_texture) option" where
  "import_dmabuf_source setup ua fd width height drm_format plane_offset plane_stride force_compute t =
     (if \<not> source_drm_format_is_rgba drm_format \<and> \<not> is_compute_pipeline setup \<and> \<not> is_ycbcr_available setup
      then Some (False, t)
      else case ua_inode ua of
        None \<Rightarrow> Some (False, t)
      | Some inode \<Rightarrow>
          let planes = dmabuf_planes drm_format width height plane_offset plane_stride;
              t = t\<lparr>it_frame_counter := it_frame_counter t + 1\<rparr>
          in case find (\<lambda>i. cache_hit inode (unat width) (unat height) drm_format force_compute (it_cache t ! i))
                    [0..<SBS_DMABUF_BUF_CACHE_SIZE] of
               Some i \<Rightarrow>
                 let e = (it_cache t ! i)\<lparr>de_age := it_frame_counter t\<rparr>;
                     t = t\<lparr>it_cache := (it_cache t)[i := e]\<rparr>
                 in Some (True, if de_is_ycbcr e then use_ycbcr_entry i t else use_buffer_entry i e t)
             | None \<Rightarrow>
                 (case cache_target (it_cache t) of
                    None \<Rightarrow> None
                  | Some i \<Rightarrow>
                      Some (import_miss setup ua fd inode width height drm_format planes force_compute i t)))"

definition release_dmabuf_import :: "int \<Rightarrow> u64 \<Rightarrow> import_texture \<Rightarrow> import_texture" where
  "release_dmabuf_import cache_idx inode t =
     (if cache_idx < 0 \<or> cache_idx \<ge> int SBS_DMABUF_BUF_CACHE_SIZE then t
      else
        let e = it_cache t ! nat cache_idx in
        if \<not> de_valid e \<or> de_inode e \<noteq> inode \<or> de_is_ycbcr e \<or> de_drm_format e \<noteq> SBS_DRM_FORMAT_AMLY then t
        else
          let was_active = (it_active_idx t = cache_idx \<and> it_buf t = de_buf e);
              t = t\<lparr>it_cache := (it_cache t)[nat cache_idx := no_dmabuf_entry]\<rparr>
          in if was_active
             then t\<lparr>it_buf := 0, tex_y_buf := False, tex_dmabuf_imported := False, it_upload_pending := False,
                    tex_has_content := False, it_active_idx := -1\<rparr>
             else t)"

definition sbs_compositor_release_source_dmabuf_import ::
    "nat \<Rightarrow> int \<Rightarrow> u64 \<Rightarrow> import_texture list \<Rightarrow> import_texture list" where
  "sbs_compositor_release_source_dmabuf_import slot cache_idx inode sources =
     (if slot \<ge> SBS_MAX_SOURCE_TEXTURES then sources
      else sources[slot := release_dmabuf_import cache_idx inode (sources ! slot)])"

section \<open>Uploading a frame\<close>

definition DRM_FORMAT_ABGR2101010 :: u32 where "DRM_FORMAT_ABGR2101010 = 0x30334241"

definition native_canvas_can_direct_upload_format ::
    "native_comp \<Rightarrow> layer_comp \<Rightarrow> import_setup \<Rightarrow> u32 \<Rightarrow> bool" where
  "native_canvas_can_direct_upload_format nc lc setup drm_format =
     (if \<not> nc_initialized nc \<or> \<not> lc_p010_direct_layout lc then False
      else if ne_color_mode (nc_entries nc ! 0) = SBS_EXPORT_COLOR_HDR10 then
        (if drm_format = DRM_P010 then lc_p010_direct lc
         else if drm_is_yuv8 drm_format then lc_yuv8_to_p010 lc \<and> \<not> is_ycbcr_direct_import_enabled setup
         else if drm_format = SBS_DRM_FORMAT_AMLY then lc_amly_to_p010 lc
         else False)
      else
        (if drm_format = DRM_P010 then lc_p010_to_nv21 lc
         else if drm_is_yuv8 drm_format then lc_yuv8_to_nv21 lc \<and> \<not> is_ycbcr_direct_import_enabled setup
         else if drm_format = SBS_DRM_FORMAT_AMLY then lc_amly_to_nv21 lc
         else False))"

record upload_request =
  ur_source_id :: string
  ur_fd :: int
  ur_width :: u32
  ur_height :: u32
  ur_drm_format :: u32
  ur_modifier :: u64
  ur_plane_offset :: "u32 \<times> u32"
  ur_plane_stride :: "u32 \<times> u32"
  ur_force_sampleable :: bool
  ur_filter_flags :: u32

text \<open>The texture after the slot was taken from another source, and after the allocation.\<close>

definition reassigned :: "upload_request \<Rightarrow> import_texture \<Rightarrow> import_texture" where
  "reassigned ur t =
     (if tex_allocated t \<and> ur_source_id ur \<noteq> [] \<and> tex_source_id t \<noteq> [] \<and> tex_source_id t \<noteq> ur_source_id ur
      then destroy_source_texture t else t)"

definition sbs_compositor_upload_source ::
    "native_comp \<Rightarrow> layer_comp \<Rightarrow> import_setup \<Rightarrow> upload_answers \<Rightarrow> nat \<Rightarrow> upload_request
       \<Rightarrow> import_texture list \<Rightarrow> (bool \<times> import_texture list) option" where
  "sbs_compositor_upload_source nc lc setup ua slot ur sources =
     (if slot \<ge> SBS_MAX_SOURCE_TEXTURES \<or> ur_fd ur < 0 then Some (False, sources)
      else if ur_drm_format ur = DRM_FORMAT_ABGR2101010 \<and> ur_modifier ur \<noteq> 0 then Some (False, sources)
      else
        let t = reassigned ur (sources ! slot);
            direct = (\<not> ur_force_sampleable ur
                      \<and> native_canvas_can_direct_upload_format nc lc setup (ur_drm_format ur));
            (ok, t) = (if direct
                       then (True, sbs_compositor_alloc_direct_source (unat (ur_width ur)) (unat (ur_height ur)) t)
                       else sbs_compositor_alloc_source ua (unat (ur_width ur)) (unat (ur_height ur)) t)
        in if \<not> ok then Some (False, sources[slot := t])
           else
             let t = t\<lparr>tex_source_id := take 127 (ur_source_id ur), it_upload_filter_flags := ur_filter_flags ur\<rparr>
             in case import_dmabuf_source setup ua (ur_fd ur) (ur_width ur) (ur_height ur) (ur_drm_format ur)
                       (ur_plane_offset ur) (ur_plane_stride ur) (ur_force_sampleable ur) t of
                  None \<Rightarrow> None
                | Some (False, t) \<Rightarrow> Some (False, sources[slot := t])
                | Some (True, t) \<Rightarrow>
                    Some (True, sources[slot := if \<not> it_upload_pending t \<or> \<not> it_image t \<or> \<not> tex_view t
                                                then t\<lparr>tex_has_content := True\<rparr> else t]))"

end
