(* ===== verification/Source_Frames.thy ===== *)
theory Source_Frames
  imports Dmabuf_Import Frame_Slot Native_Canvas_Props
begin

text \<open>
  What the compositor thread (\<open>src/server/engine/compositor_thread.c\<close>) does with the frames of the
  sources when it renders into the native canvas: it takes one frame of each source from its slot,
  imports it as a texture, keeps it on the canvas entry that the frame was submitted with, and returns
  it to its worker when the entry is no longer rendered. The steps of the thread work on the rings of
  theory Native_Canvas and on the slots of theory Frame_Slot. \<open>ct_released\<close> is the history of the
  frames handed to \<open>sbs_frame_fds_release\<close>. The pipeline that only uses GE2D, the pacing of the loop and
  its statistics are left out.
\<close>

section \<open>State\<close>

definition SBS_COMP_SCENE_MAX_ITEMS :: nat where
  [simp]: "SBS_COMP_SCENE_MAX_ITEMS = 32"

text \<open>The items of the active scene, with the number of the slot behind \<open>frame_slot\<close>.\<close>

record frame_item = comp_item +
  fi_slot :: nat
  fi_width :: u32
  fi_height :: u32
  fi_drm_format :: u32
  fi_modifier :: u64
  fi_plane_offset :: "u32 \<times> u32"
  fi_plane_stride :: "u32 \<times> u32"

text \<open>One column of the four arrays \<open>source_release_pending*\<close> of an entry.\<close>

record pending_release =
  pr_frame :: "frame_fds option"
  pr_slot :: nat
  pr_import_idx :: int
  pr_import_inode :: u64

record comp_thread =
  ct_native :: native_comp
  ct_pipelines :: layer_comp
  ct_setup :: import_setup
  ct_color_mode :: export_color_mode
  ct_sources :: "import_texture list"
  ct_slots :: "frame_fds frame_slot list"
  ct_items :: "frame_item list"
  ct_transition_active :: bool
  ct_scene_dirty :: bool
  ct_frame_count :: u64
  ct_content_serial :: u64
  ct_cached_entry :: nat
  ct_pending :: "pending_release list list"
  ct_pending_count :: "nat list"
  ct_released :: "frame_fds list"

definition no_pending :: pending_release where
  "no_pending = \<lparr>pr_frame = None, pr_slot = 0, pr_import_idx = -1, pr_import_inode = 0\<rparr>"

definition frames_of :: "pending_release \<Rightarrow> frame_fds list" where
  "frames_of p = (case pr_frame p of None \<Rightarrow> [] | Some f \<Rightarrow> [f])"

definition release_fds :: "frame_fds list \<Rightarrow> comp_thread \<Rightarrow> comp_thread" where
  "release_fds fs ct = ct\<lparr>ct_released := ct_released ct @ fs\<rparr>"

section \<open>The frames of an entry\<close>

definition pending_source_import_still_active ::
    "import_texture list \<Rightarrow> nat \<Rightarrow> int \<Rightarrow> u64 \<Rightarrow> bool" where
  "pending_source_import_still_active sources slot import_idx import_inode \<longleftrightarrow>
     slot < SBS_COMP_SCENE_MAX_ITEMS \<and> 0 \<le> import_idx \<and> import_idx < int SBS_DMABUF_BUF_CACHE_SIZE
       \<and> it_active_idx (sources ! slot) = import_idx
       \<and> de_valid (it_cache (sources ! slot) ! nat import_idx)
       \<and> de_inode (it_cache (sources ! slot) ! nat import_idx) = import_inode"

definition still_active :: "import_texture list \<Rightarrow> pending_release \<Rightarrow> bool" where
  "still_active sources p = pending_source_import_still_active sources (pr_slot p) (pr_import_idx p) (pr_import_inode p)"

text \<open>
  One round of the loop over an entry: \<open>kept\<close> columns are already kept, column \<open>i\<close> moves down to
  them or is released.
\<close>

definition release_pending_step ::
    "bool \<Rightarrow> nat \<Rightarrow> nat \<times> pending_release list \<times> import_texture list \<times> frame_fds list
      \<Rightarrow> nat \<times> pending_release list \<times> import_texture list \<times> frame_fds list" where
  "release_pending_step force i st =
     (case st of (kept, row, sources, released) \<Rightarrow>
        let p = row ! i in
        if \<not> force \<and> still_active sources p
        then (kept + 1, if kept \<noteq> i then row[kept := p] else row, sources, released)
        else (kept, row[i := p\<lparr>pr_frame := None\<rparr>],
              sbs_compositor_release_source_dmabuf_import (pr_slot p) (pr_import_idx p) (pr_import_inode p) sources,
              released @ frames_of p))"

definition clear_columns :: "nat \<Rightarrow> nat \<Rightarrow> pending_release list \<Rightarrow> pending_release list" where
  "clear_columns kept n row = fold (\<lambda>i row. row[i := no_pending]) [kept..<n] row"

definition release_pending_source_frames_for_entry :: "nat \<Rightarrow> bool \<Rightarrow> comp_thread \<Rightarrow> comp_thread" where
  "release_pending_source_frames_for_entry entry_idx force ct =
     (if entry_idx \<ge> NC_RING_SIZE then ct
      else
        let n = ct_pending_count ct ! entry_idx in
        case fold (release_pending_step force) [0..<n]
               (0, ct_pending ct ! entry_idx, ct_sources ct, ct_released ct) of
          (kept, row, sources, released) \<Rightarrow>
            ct\<lparr>ct_sources := sources,
               ct_pending := (ct_pending ct)[entry_idx := clear_columns kept n row],
               ct_pending_count := (ct_pending_count ct)[entry_idx := kept],
               ct_released := released\<rparr>)"

definition ready_step :: "nat \<Rightarrow> comp_thread \<Rightarrow> comp_thread" where
  "ready_step i ct =
     (if ct_pending_count ct ! i = 0 then ct
      else if ne_state (nc_entries (ct_native ct) ! i) \<noteq> ENTRY_RENDERING
              \<or> vkGetFenceStatus_ok (nc_entries (ct_native ct) ! i)
      then release_pending_source_frames_for_entry i False ct
      else ct)"

definition release_ready_source_frames :: "comp_thread \<Rightarrow> comp_thread" where
  "release_ready_source_frames ct =
     (if \<not> nc_initialized (ct_native ct) then ct else fold ready_step [0..<NC_RING_SIZE] ct)"

text \<open>The arrays of the caller as one list.\<close>

definition attach_step ::
    "nat \<Rightarrow> nat \<times> pending_release \<Rightarrow> pending_release list \<times> frame_fds list \<Rightarrow> pending_release list \<times> frame_fds list" where
  "attach_step start x st =
     (case (x, st) of ((i, p), (row, released)) \<Rightarrow>
        if start + i \<ge> SBS_COMP_SCENE_MAX_ITEMS then (row, released @ frames_of p)
        else (row[start + i := p], released))"

definition attach_source_releases_to_entry :: "nat \<Rightarrow> pending_release list \<Rightarrow> comp_thread \<Rightarrow> comp_thread" where
  "attach_source_releases_to_entry entry_idx frames ct =
     (if entry_idx \<ge> NC_RING_SIZE then release_fds (concat (map frames_of frames)) ct
      else
        let ct = release_pending_source_frames_for_entry entry_idx False ct;
            start = ct_pending_count ct ! entry_idx;
            (row, released) = fold (attach_step start) (enumerate 0 frames)
                                (ct_pending ct ! entry_idx, ct_released ct)
        in ct\<lparr>ct_pending := (ct_pending ct)[entry_idx := row],
              ct_pending_count := (ct_pending_count ct)[entry_idx := min (start + length frames) SBS_COMP_SCENE_MAX_ITEMS],
              ct_released := released\<rparr>)"

definition release_all_pending_source_frames :: "comp_thread \<Rightarrow> comp_thread" where
  "release_all_pending_source_frames ct =
     fold (\<lambda>i. release_pending_source_frames_for_entry i True) [0..<NC_RING_SIZE] ct"

section \<open>The entry kept for a transition\<close>

definition release_transition_cached_entry :: "comp_thread \<Rightarrow> comp_thread" where
  "release_transition_cached_entry ct =
     (if ct_cached_entry ct \<ge> NC_RING_SIZE then ct
      else ct\<lparr>ct_native := sbs_compositor_native_canvas_unref (ct_cached_entry ct) (ct_native ct),
              ct_cached_entry := UINT32_MAX\<rparr>)"

definition capture_transition_cached_entry :: "comp_thread \<Rightarrow> comp_thread" where
  "capture_transition_cached_entry ct =
     (if \<not> nc_initialized (ct_native ct) then ct
      else
        let ct = release_transition_cached_entry ct;
            e = nc_last_rendered (ct_native ct)
        in if e \<ge> NC_RING_SIZE then ct
           else case sbs_compositor_native_canvas_ref e (ct_native ct) of
             (ok, n) \<Rightarrow> if ok then ct\<lparr>ct_native := n, ct_cached_entry := e\<rparr> else ct\<lparr>ct_native := n\<rparr>)"

section \<open>Taking and importing the frames\<close>

definition same_source_before :: "frame_item list \<Rightarrow> nat \<Rightarrow> nat \<Rightarrow> bool" where
  "same_source_before items i j \<longleftrightarrow>
     ci_visible (items ! j) \<and> ci_frame_slot (items ! j) \<and> ci_source_id (items ! j) = ci_source_id (items ! i)"

definition source_texture_slot_for_active_item :: "import_texture list \<Rightarrow> frame_item list \<Rightarrow> nat \<Rightarrow> nat" where
  "source_texture_slot_for_active_item sources items item_idx =
     (if item_idx \<ge> length items then item_idx
      else case find (same_source_before items item_idx) [0..<min item_idx SBS_COMP_SCENE_MAX_ITEMS] of
        Some i \<Rightarrow> i
      | None \<Rightarrow>
          let sid = ci_source_id (items ! item_idx) in
          if item_idx \<ge> SBS_MAX_SOURCE_TEXTURES \<or> sid = [] then item_idx
          else if tex_source_id (sources ! item_idx) = [] \<or> tex_source_id (sources ! item_idx) = sid then item_idx
          else case find (\<lambda>i. tex_source_id (sources ! i) = sid) [0..<SBS_MAX_SOURCE_TEXTURES] of
            Some i \<Rightarrow> i | None \<Rightarrow> item_idx)"

definition item_has_vulkan_only_filters :: "export_color_mode \<Rightarrow> frame_item \<Rightarrow> bool" where
  "item_has_vulkan_only_filters mode item =
     (let flags = ci_filter_flags item;
          direct = or SBS_COMP_FILTER_GRAYSCALE (or SBS_COMP_FILTER_BRIGHTNESS (or SBS_COMP_FILTER_CONTRAST
            (or SBS_COMP_FILTER_HDR_TO_SDR_LUT (or SBS_COMP_FILTER_COLOR_CORRECTION SBS_COMP_FILTER_SDR_TO_HDR))));
          direct = (if mode = SBS_EXPORT_COLOR_SDR then or direct SBS_COMP_FILTER_LUMA_KEY else direct)
      in if flags = 0 then False
         else if mode = SBS_EXPORT_COLOR_HDR10 \<and> and flags SBS_COMP_FILTER_SDR_TO_HDR \<noteq> 0
                 \<and> drm_is_yuv8 (fi_drm_format item) then True
         else if and flags SBS_COMP_FILTER_LUMA_KEY \<noteq> 0 \<and> and flags SBS_COMP_FILTER_HDR_TO_SDR_LUT \<noteq> 0 then True
         else \<not> (and flags (not direct) = 0 \<and> ci_lut_path item = []))"

definition upload_of_item :: "export_color_mode \<Rightarrow> frame_item \<Rightarrow> frame_fds \<Rightarrow> upload_request" where
  "upload_of_item mode item f =
     \<lparr>ur_source_id = ci_source_id item, ur_fd = fd_dmabuf f, ur_width = fi_width item,
      ur_height = fi_height item, ur_drm_format = fi_drm_format item, ur_modifier = fi_modifier item,
      ur_plane_offset = fi_plane_offset item, ur_plane_stride = fi_plane_stride item,
      ur_force_sampleable = item_has_vulkan_only_filters mode item, ur_filter_flags = ci_filter_flags item\<rparr>"

text \<open>What is recorded with a frame: the import of its texture, for the packed format only.\<close>

definition release_record :: "nat \<Rightarrow> import_texture \<Rightarrow> frame_fds \<Rightarrow> pending_release" where
  "release_record slot t f =
     (let idx = it_active_idx t; e = it_cache t ! nat idx in
      if tex_drm_format t = SBS_DRM_FORMAT_AMLY \<and> 0 \<le> idx \<and> idx < int SBS_DMABUF_BUF_CACHE_SIZE
         \<and> de_valid e \<and> de_drm_format e = SBS_DRM_FORMAT_AMLY
      then \<lparr>pr_frame = Some f, pr_slot = slot, pr_import_idx = idx, pr_import_inode = de_inode e\<rparr>
      else \<lparr>pr_frame = Some f, pr_slot = slot, pr_import_idx = -1, pr_import_inode = 0\<rparr>)"

record poll_state =
  ps_thread :: comp_thread
  ps_releases :: "pending_release list"
  ps_uploaded :: nat
  ps_uploaded_ok :: nat

definition poll_source :: "(nat \<Rightarrow> upload_answers) \<Rightarrow> nat \<Rightarrow> poll_state \<Rightarrow> poll_state option" where
  "poll_source ua i ps =
     (let ct = ps_thread ps;
          item = ct_items ct ! i;
          slot = source_texture_slot_for_active_item (ct_sources ct) (ct_items ct) i
      in if list_ex (same_source_before (ct_items ct) i) [0..<i] then Some ps
         else if \<not> ci_frame_slot item \<or> \<not> ci_visible item then Some ps
         else if fi_width item = 0 \<or> fi_height item = 0 then Some ps
         else case sbs_frame_slot_take_oldest (ct_slots ct ! fi_slot item) of
           ((frame, _), fs) \<Rightarrow>
             let ct = ct\<lparr>ct_slots := (ct_slots ct)[fi_slot item := fs]\<rparr> in
             (case frame of
                None \<Rightarrow> Some (ps\<lparr>ps_thread := ct\<rparr>)
              | Some f \<Rightarrow>
                  if fd_dmabuf f \<le> 0 then Some (ps\<lparr>ps_thread := release_fds [f] ct\<rparr>)
                  else
                    (case sbs_compositor_upload_source (ct_native ct) (ct_pipelines ct) (ct_setup ct) (ua i) slot
                            (upload_of_item (ct_color_mode ct) item f) (ct_sources ct) of
                       None \<Rightarrow> None
                     | Some (ok, sources) \<Rightarrow>
                         let ct = ct\<lparr>ct_sources := sources\<rparr> in
                         if \<not> ok
                         then Some (ps\<lparr>ps_thread := release_fds [f] ct, ps_uploaded := ps_uploaded ps + 1\<rparr>)
                         else if nc_initialized (ct_native ct) \<and> length (ps_releases ps) < SBS_COMP_SCENE_MAX_ITEMS
                         then Some (ps\<lparr>ps_thread := ct,
                                       ps_releases := ps_releases ps @ [release_record slot (sources ! slot) f],
                                       ps_uploaded := ps_uploaded ps + 1, ps_uploaded_ok := ps_uploaded_ok ps + 1\<rparr>)
                         else Some (ps\<lparr>ps_thread := release_fds [f] ct, ps_uploaded := ps_uploaded ps + 1,
                                       ps_uploaded_ok := ps_uploaded_ok ps + 1\<rparr>))))"

fun poll_sources :: "(nat \<Rightarrow> upload_answers) \<Rightarrow> nat list \<Rightarrow> poll_state \<Rightarrow> poll_state option" where
  "poll_sources ua [] ps = Some ps"
| "poll_sources ua (i # is) ps =
     (case poll_source ua i ps of None \<Rightarrow> None | Some ps \<Rightarrow> poll_sources ua is ps)"

section \<open>Rendering\<close>

text \<open>
  The textures as the drawing functions of theory Layers see them, and what recording the pending
  conversions changes in them: \<open>staging_buf\<close> is never set.
\<close>

definition layers_of :: "comp_thread \<Rightarrow> layer_comp" where
  "layers_of ct = (ct_pipelines ct)\<lparr>lc_sources := \<lambda>i. source_texture.truncate (ct_sources ct ! i)\<rparr>"

definition native_record_source_uploads :: "import_setup \<Rightarrow> import_texture list \<Rightarrow> import_texture list" where
  "native_record_source_uploads setup sources =
     map (\<lambda>t. if \<not> tex_allocated t \<or> \<not> it_upload_pending t \<or> \<not> it_image t \<or> \<not> tex_view t then t
              else if tex_dmabuf_imported t \<and> tex_y_buf t
                      \<and> (source_drm_format_is_rgba (tex_drm_format t) \<or> is_compute_pipeline setup)
              then t\<lparr>it_upload_pending := False, tex_has_content := True\<rparr>
              else t) sources"

definition native_items_need_rgba_upload :: "export_color_mode \<Rightarrow> comp_thread \<Rightarrow> bool" where
  "native_items_need_rgba_upload mode ct =
     (let items = map comp_item.truncate (ct_items ct) in
      list_ex (\<lambda>i. let item = items ! i;
                       slot = native_source_texture_slot_for_item (layers_of ct) items i [];
                       t = ct_sources ct ! slot
        in slot < SBS_MAX_SOURCE_TEXTURES \<and> ci_visible item \<and> tex_allocated t
           \<and> source_texture_matches_item (source_texture.truncate t) item
           \<and> ci_render_width item > 0 \<and> ci_render_height item > 0
           \<and> \<not> native_source_can_direct_yuv (layers_of ct) mode (source_texture.truncate t) item
           \<and> it_upload_pending t \<and> tex_dmabuf_imported t \<and> it_image t \<and> tex_view t \<and> tex_y_buf t)
        [0..<min (length items) SBS_MAX_SOURCE_TEXTURES])"

text \<open>The colour mode of the entry whose command buffer \<open>sbs_compositor_render_native_frame\<close> begins.\<close>

definition native_frame_begins :: "vk_outcome \<Rightarrow> native_comp \<Rightarrow> export_color_mode option" where
  "native_frame_begins vk n =
     (if \<not> nc_initialized n then None
      else case sbs_compositor_native_canvas_acquire
                  (sbs_compositor_native_preview_poll_ready (sbs_compositor_native_canvas_poll_ready n)) of
        None \<Rightarrow> None
      | Some (i, n) \<Rightarrow>
          if ne_cmd_buffer (entry_at n i) \<and> vo_begin vk then Some (ne_color_mode (entry_at n i)) else None)"

definition record_uploads :: "vk_outcome \<Rightarrow> comp_thread \<Rightarrow> comp_thread" where
  "record_uploads vk ct =
     (case native_frame_begins vk (ct_native ct) of
        None \<Rightarrow> ct
      | Some mode \<Rightarrow>
          if native_items_need_rgba_upload mode ct
          then ct\<lparr>ct_sources := native_record_source_uploads (ct_setup ct) (ct_sources ct)\<rparr> else ct)"

text \<open>
  The rest of a round: the last picture is published again when nothing changed; otherwise a frame is
  rendered and keeps the frames it was drawn from. The renderer of the other export paths
  (without native canvas) is left out.
\<close>

definition render_new_frame ::
    "vk_outcome \<Rightarrow> vk_outcome \<Rightarrow> u64 \<Rightarrow> u64 \<Rightarrow> pending_release list \<Rightarrow> comp_thread \<Rightarrow> comp_thread" where
  "render_new_frame vk vkp frame_number content rel ct =
     (let ct = record_uploads vk ct in
      case sbs_compositor_render_native_frame vk vkp frame_number content (ct_native ct) of
        (entry, n) \<Rightarrow>
          let ct = ct\<lparr>ct_native := n\<rparr> in
          (case entry of
             None \<Rightarrow> release_fds (concat (map frames_of rel)) ct
           | Some e \<Rightarrow>
               let ct = ct\<lparr>ct_content_serial := content, ct_scene_dirty := False\<rparr>
               in if e < NC_RING_SIZE then attach_source_releases_to_entry e rel ct
                  else release_fds (concat (map frames_of rel)) ct))"

definition render_round :: "vk_outcome \<Rightarrow> vk_outcome \<Rightarrow> poll_state \<Rightarrow> comp_thread" where
  "render_round vk vkp ps =
     (let ct = ps_thread ps;
          rel = ps_releases ps;
          frame_number = ct_frame_count ct + 1;
          content_changed = (ps_uploaded_ok ps > 0 \<or> ct_scene_dirty ct \<or> ct_transition_active ct);
          content = (if content_changed \<or> ct_content_serial ct = 0 then ct_content_serial ct + 1
                     else ct_content_serial ct);
          (repeated, n) = (if \<not> ct_transition_active ct \<and> ps_uploaded ps = 0 \<and> \<not> ct_scene_dirty ct
                           then sbs_compositor_native_canvas_republish_last vkp frame_number (ct_native ct)
                           else (False, ct_native ct));
          ct = ct\<lparr>ct_native := n\<rparr>;
          ct = (if repeated then release_fds (concat (map frames_of rel)) ct
                else render_new_frame vk vkp frame_number content rel ct)
      in ct\<lparr>ct_frame_count := ct_frame_count ct + 1\<rparr>)"

definition thread_round ::
    "(nat \<Rightarrow> upload_answers) \<Rightarrow> vk_outcome \<Rightarrow> vk_outcome \<Rightarrow> comp_thread \<Rightarrow> comp_thread option" where
  "thread_round ua vk vkp ct =
     map_option (render_round vk vkp)
       (poll_sources ua [0..<length (ct_items ct)]
          \<lparr>ps_thread = ct, ps_releases = [], ps_uploaded = 0, ps_uploaded_ok = 0\<rparr>)"

text \<open>The command \<open>SBS_COMP_CMD_SET_SCENE\<close>; \<open>new\<close> says whether it starts another transition.\<close>

definition apply_scene :: "frame_item list \<Rightarrow> bool \<Rightarrow> bool \<Rightarrow> comp_thread \<Rightarrow> comp_thread" where
  "apply_scene items transition new ct =
     (let ct = ct\<lparr>ct_items := items, ct_transition_active := transition\<rparr>;
          ct = (if transition \<and> new then capture_transition_cached_entry ct
                else if \<not> transition then release_transition_cached_entry ct
                else ct)
      in ct\<lparr>ct_scene_dirty := True\<rparr>)"

definition end_transition :: "comp_thread \<Rightarrow> comp_thread" where
  "end_transition ct =
     release_transition_cached_entry
       (ct\<lparr>ct_transition_active := False, ct_scene_dirty := ct_scene_dirty ct \<or> ct_transition_active ct\<rparr>)"

text \<open>What the thread does after its loop.\<close>

definition thread_exit :: "comp_thread \<Rightarrow> comp_thread" where
  "thread_exit ct = release_all_pending_source_frames (release_transition_cached_entry ct)"

section \<open>The thread and its surroundings\<close>

text \<open>
  What changes the rings meanwhile: the consumers of the mailboxes, the GPU, repeats of the last
  frame and the set-up of the preview ring.
\<close>

inductive rings_step :: "native_comp \<Rightarrow> native_comp \<Rightarrow> bool" where
  Mailbox: "rings_step n (snd (sbs_compositor_native_canvas_mailbox_acquire t n))"
| Release: "rings_step n (sbs_compositor_native_canvas_mailbox_release i n)"
| Repeat: "rings_step n (snd (sbs_compositor_native_canvas_republish_last vkp frame n))"
| Preview: "rings_step n (snd (sbs_compositor_configure_native_preview oks rels w h iv mode n))"
| Gpu: "rings_step n (gpu_finish i n)"

text \<open>The list holds the frames that the source supervisor publishes in a step.\<close>

inductive thread_step :: "comp_thread \<Rightarrow> frame_fds list \<Rightarrow> comp_thread \<Rightarrow> bool" where
  Ready: "thread_step ct [] (release_ready_source_frames ct)"
| Round: "thread_round ua vk vkp ct = Some ct' \<Longrightarrow> thread_step ct [] ct'"
| Scene: "length items \<le> SBS_COMP_SCENE_MAX_ITEMS \<Longrightarrow> \<forall>item \<in> set items. fi_slot item < length (ct_slots ct)
    \<Longrightarrow> thread_step ct [] (apply_scene items transition new ct)"
| Transition: "thread_step ct [] (end_transition ct)"
| Publish: "k < length (ct_slots ct)
    \<Longrightarrow> thread_step ct [f] (ct\<lparr>ct_slots := (ct_slots ct)[k := sbs_frame_slot_publish (Some f) ts (ct_slots ct ! k)]\<rparr>)"
| Flush: "k < length (ct_slots ct)
    \<Longrightarrow> thread_step ct [] (ct\<lparr>ct_slots := (ct_slots ct)[k := sbs_frame_slot_flush (ct_slots ct ! k)]\<rparr>)"
| Rings: "rings_step (ct_native ct) n \<Longrightarrow> thread_step ct [] (ct\<lparr>ct_native := n\<rparr>)"

end
