(* ===== verification/Canvas_Fences.thy ===== *)
theory Canvas_Fences
  imports Native_Canvas_Props
begin

text \<open>
  The fences of the canvas entries: which operation on the rings may touch an entry that the GPU
  renders (none), and that rendering starts only in an entry whose fence was signalled.
\<close>

section \<open>Entries the GPU renders\<close>

text \<open>
  What an operation on the rings does to the canvas entries whose fence is pending: nothing, and an
  entry only gets a pending fence together with the state of rendering.
\<close>

abbreviation gpu_busy :: "native_comp \<Rightarrow> nat \<Rightarrow> bool" where
  "gpu_busy n e \<equiv> ne_fence (nc_entries n ! e) = Pending"

abbreviation canvas_state :: "native_comp \<Rightarrow> nat \<Rightarrow> entry_state" where
  "canvas_state n e \<equiv> ne_state (nc_entries n ! e)"

definition calm :: "native_comp \<Rightarrow> native_comp \<Rightarrow> bool" where
  "calm n n' \<longleftrightarrow> length (nc_entries n') = length (nc_entries n)
     \<and> (\<forall>e < length (nc_entries n). (gpu_busy n e \<longrightarrow> gpu_busy n' e \<and> canvas_state n' e = canvas_state n e)
          \<and> (gpu_busy n' e \<longrightarrow> gpu_busy n e \<or> canvas_state n' e = ENTRY_RENDERING))"

lemma calm_same: "nc_entries n' = nc_entries n \<Longrightarrow> calm n n'"
  by (simp add: calm_def)

lemma calm_refl [simp]: "calm n n"
  by (simp add: calm_same)

lemma calm_trans: "calm a b \<Longrightarrow> calm b c \<Longrightarrow> calm a c"
  unfolding calm_def by metis

lemma calm_fields [simp]:
  "calm a (b\<lparr>nc_write_idx := x\<rparr>) = calm a b" "calm a (b\<lparr>nc_current_entry := x\<rparr>) = calm a b"
  "calm a (b\<lparr>nc_last_rendered := x\<rparr>) = calm a b" "calm a (b\<lparr>np_last_submit := w\<rparr>) = calm a b"
  "calm a (b\<lparr>np_write_idx := x\<rparr>) = calm a b" "calm a (b\<lparr>np_last_rendered := x\<rparr>) = calm a b"
  "calm a (b\<lparr>np_entries := es\<rparr>) = calm a b" "calm a (b\<lparr>np_initialized := i\<rparr>) = calm a b"
  "calm a (b\<lparr>np_width := v\<rparr>) = calm a b" "calm a (b\<lparr>np_height := v\<rparr>) = calm a b"
  "calm a (b\<lparr>np_interval := v\<rparr>) = calm a b" "calm a (b\<lparr>np_color_mode := m\<rparr>) = calm a b"
  by (simp_all add: calm_def)

lemma calm_mailbox [simp]: "calm a (mailbox_upd t f b) = calm a b"
  by (cases t) (simp_all add: mailbox_upd_def calm_def)

lemma calm_entry:
  assumes "i < 16 \<Longrightarrow> i < length (nc_entries n) \<Longrightarrow>
      (gpu_busy n i \<longrightarrow> ne_fence (f (nc_entries n ! i)) = Pending \<and> ne_state (f (nc_entries n ! i)) = canvas_state n i)
      \<and> (ne_fence (f (nc_entries n ! i)) = Pending \<longrightarrow> gpu_busy n i \<or> ne_state (f (nc_entries n ! i)) = ENTRY_RENDERING)"
  shows "calm n (entry_upd i f n)"
proof (cases "i < 16 \<and> i < length (nc_entries n)")
  case True
  have "(gpu_busy n e \<longrightarrow> gpu_busy (entry_upd i f n) e \<and> canvas_state (entry_upd i f n) e = canvas_state n e)
      \<and> (gpu_busy (entry_upd i f n) e \<longrightarrow> gpu_busy n e \<or> canvas_state (entry_upd i f n) e = ENTRY_RENDERING)"
    if "e < length (nc_entries n)" for e
    using assms True that by (cases "e = i") (simp_all add: entry_upd_def)
  then show ?thesis
    by (simp add: calm_def entry_upd_def)
next
  case False
  then show ?thesis
    by (cases "i < 16") (simp_all add: calm_def entry_upd_def list_update_beyond)
qed

lemma calm_preview_entry [simp]: "16 \<le> i \<Longrightarrow> calm n (entry_upd i f n)"
  by (simp add: calm_entry)

lemma calm_ref: "calm n (snd (sbs_compositor_native_canvas_ref i n))"
  by (simp add: sbs_compositor_native_canvas_ref_def calm_entry split: option.split)

lemma calm_unref: "calm n (sbs_compositor_native_canvas_unref i n)"
  by (simp add: sbs_compositor_native_canvas_unref_def calm_entry split: option.split)

lemma calm_unref_after [simp]: "calm a b \<Longrightarrow> calm a (sbs_compositor_native_canvas_unref i b)"
  using calm_unref calm_trans by blast

lemma calm_publish: "calm n (snd (sbs_compositor_native_canvas_mailbox_publish t i frame n))"
proof -
  obtain ok n1 where r: "sbs_compositor_native_canvas_ref i n = (ok, n1)"
    by fastforce
  then have "calm n n1"
    using calm_ref [of n i] by simp
  then show ?thesis
    using r by (cases ok) (simp_all add: sbs_compositor_native_canvas_mailbox_publish_def Let_def split: option.split)
qed

lemma calm_publish_after [simp]:
  "calm a b \<Longrightarrow> calm a (snd (sbs_compositor_native_canvas_mailbox_publish t i frame b))"
  using calm_publish calm_trans by blast

lemma calm_preview_entry_after [simp]: "calm a b \<Longrightarrow> 16 \<le> i \<Longrightarrow> calm a (entry_upd i f b)"
  using calm_preview_entry calm_trans by blast

lemma calm_poll_one: "calm n (canvas_poll_one i n)"
proof (cases "i < 16 \<and> vkGetFenceStatus_ok (entry_at n i)")
  case True
  then have "calm n (entry_upd i (\<lambda>e. e\<lparr>ne_frame_number := fr, ne_state := ENTRY_READY\<rparr>) n)" for fr
    by (intro calm_entry) (simp add: vkGetFenceStatus_ok_def entry_at_def)
  then show ?thesis
    using True by (simp add: canvas_poll_one_def sbs_compositor_native_canvas_mark_ready_def Let_def)
next
  case False
  then show ?thesis
    by (simp add: canvas_poll_one_def sbs_compositor_native_canvas_mark_ready_def)
qed

lemma calm_fold: "(\<And>x n. calm n (f x n)) \<Longrightarrow> calm n (fold f xs n)"
  by (induction xs arbitrary: n) (auto intro: calm_trans)

lemma calm_canvas_poll: "calm n (sbs_compositor_native_canvas_poll_ready n)"
  by (simp add: sbs_compositor_native_canvas_poll_ready_def calm_fold calm_poll_one)

lemma calm_preview_poll: "calm n (sbs_compositor_native_preview_poll_ready n)"
proof -
  have "calm n (preview_poll_one i n)" for i n
    by (simp add: preview_poll_one_def Let_def)
  then show ?thesis
    by (simp add: sbs_compositor_native_preview_poll_ready_def calm_fold)
qed

lemma calm_preview_acquire:
  "sbs_compositor_native_preview_acquire n = Some (i, n') \<Longrightarrow> calm n n'"
  by (auto simp: sbs_compositor_native_preview_acquire_def entry_upd_def calm_def split: if_splits option.splits)

lemma calm_submit: "calm n (snd (sbs_compositor_submit_native_preview_from_entry vk mode frame content n))"
proof (cases "sbs_compositor_native_preview_acquire n")
  case (Some x)
  obtain i n1 where x: "x = (i, n1)"
    by fastforce
  note c = calm_preview_acquire [OF Some [unfolded x]]
  show ?thesis
    using c by (simp add: sbs_compositor_submit_native_preview_from_entry_def Some x Let_def)
qed (simp add: sbs_compositor_submit_native_preview_from_entry_def)

lemma calm_republish: "calm n (snd (sbs_compositor_native_canvas_republish_last vk frame n))"
proof -
  have prev: "calm n (snd (republish_preview vk i fr m))" if "calm n m" for n m i fr
  proof -
    have "calm n (snd (sbs_compositor_submit_native_preview_from_entry vk mode fr content m))" for mode content
      using that calm_submit calm_trans by blast
    with that show ?thesis
      by (simp add: republish_preview_def Let_def)
  qed
  have "calm n (sbs_compositor_native_preview_poll_ready (sbs_compositor_native_canvas_poll_ready n))"
    using calm_canvas_poll calm_preview_poll calm_trans by blast
  then show ?thesis
    by (simp add: sbs_compositor_native_canvas_republish_last_def Let_def case_prod_unfold prev)
qed

text \<open>The preview ring is set up and torn down without touching the canvas.\<close>

lemma calm_drain: "calm a b \<Longrightarrow> calm a (drain_mailbox t b)"
proof -
  have "calm a b \<Longrightarrow> calm a (drain_loop k t b)" for k b
    by (induction k arbitrary: b) (simp_all add: Let_def)
  then show "calm a b \<Longrightarrow> calm a (drain_mailbox t b)"
    by (simp add: drain_mailbox_def)
qed

lemma calm_releases: "calm a b \<Longrightarrow> calm a (fold sbs_compositor_native_canvas_mailbox_release is b)"
  by (induction "is" arbitrary: b) (simp_all add: sbs_compositor_native_canvas_mailbox_release_def)

lemma calm_wait: "calm a b \<Longrightarrow> calm a (snd (snd (wait_native_preview_refs_released k rels b)))"
proof (induction k rels b rule: wait_native_preview_refs_released.induct)
  case (1 k rels b)
  show ?case
    using 1 calm_releases
    by (subst wait_native_preview_refs_released.simps) (auto simp: case_prod_unfold split: list.split)
qed

lemma calm_destroy: "calm a b \<Longrightarrow> calm a (snd (snd (destroy_native_preview_ring rels b)))"
  using calm_wait [OF calm_drain] by (simp add: destroy_native_preview_ring_def Let_def case_prod_unfold)

lemma calm_create: "calm a b \<Longrightarrow> calm a (snd (create_native_preview_ring oks w h iv mode b))"
  by (simp add: create_native_preview_ring_def Let_def calm_destroy)

lemma calm_configure: "calm n (snd (sbs_compositor_configure_native_preview oks rels w h iv mode n))"
  using calm_destroy [OF calm_refl] calm_create [OF calm_refl] calm_create [OF calm_destroy [OF calm_refl]]
  by (simp add: sbs_compositor_configure_native_preview_def case_prod_unfold)

lemma calm_mailbox_acquire: "calm n (snd (sbs_compositor_native_canvas_mailbox_acquire t n))"
  by (simp add: sbs_compositor_native_canvas_mailbox_acquire_def Let_def case_prod_unfold split: option.split)

lemma canvas_acquire_fields:
  assumes "sbs_compositor_native_canvas_acquire n = Some (i, n')"
  shows "i < 16 \<and> acquirable (nc_entries n ! i) \<and> nc_entries n' = (nc_entries n)[i := set_rendering (nc_entries n ! i)]"
proof -
  have f: "find (\<lambda>i. acquirable (entry_at n i)) (ring_scan (nc_write_idx n)) = Some i"
    and n': "n' = entry_upd i set_rendering (n\<lparr>nc_write_idx := (i + 1) mod NC_RING_SIZE, nc_current_entry := i\<rparr>)"
    using assms by (auto simp: sbs_compositor_native_canvas_acquire_def split: if_splits option.splits)
  have "i \<in> set (ring_scan (nc_write_idx n))" "acquirable (entry_at n i)"
    using find_SomeD [OF f] by simp_all
  then show ?thesis
    by (auto simp: n' ring_scan_def entry_at_def entry_upd_def)
qed

text \<open>An entry that is not pending may become anything but pending without rendering.\<close>

lemma calm_own_entry:
  assumes "calm a b" "i < 16" "\<not> gpu_busy a i" "i < length (nc_entries a)"
    and "ne_fence (f (nc_entries b ! i)) = Pending \<Longrightarrow> ne_state (f (nc_entries b ! i)) = ENTRY_RENDERING"
  shows "calm a (entry_upd i f b)"
proof -
  have "(gpu_busy a e \<longrightarrow> gpu_busy (entry_upd i f b) e \<and> canvas_state (entry_upd i f b) e = canvas_state a e)
      \<and> (gpu_busy (entry_upd i f b) e \<longrightarrow> gpu_busy a e \<or> canvas_state (entry_upd i f b) e = ENTRY_RENDERING)"
    if "e < length (nc_entries a)" for e
    using assms that by (cases "e = i") (simp_all add: entry_upd_def calm_def)
  then show ?thesis
    using assms(1) by (simp add: calm_def entry_upd_def)
qed

lemma calm_failed:
  assumes "calm a b" "i < 16" "\<not> gpu_busy a i" "i < length (nc_entries a)" "ne_fence (nc_entries b ! i) \<noteq> Pending"
  shows "calm a (sbs_compositor_native_canvas_release_failed i b)"
  using calm_own_entry [OF assms(1-4), of "\<lambda>e. e\<lparr>ne_refcount := 0, ne_state := ENTRY_FREE\<rparr>"] assms(2,5)
  by (simp add: sbs_compositor_native_canvas_release_failed_def)

lemma calm_render:
  assumes r: "sbs_compositor_render_native_frame vk vkp frame content n = (r, n')" and len: "length (nc_entries n) = 16"
  shows "calm n n' \<and> (\<forall>i. r = Some i \<longrightarrow> i < 16 \<and> \<not> gpu_busy n i)"
proof -
  let ?p = "sbs_compositor_native_preview_poll_ready (sbs_compositor_native_canvas_poll_ready n)"
  have p: "calm n ?p"
    using calm_canvas_poll calm_preview_poll calm_trans by blast
  show ?thesis
  proof (cases "nc_initialized n \<and> sbs_compositor_native_canvas_acquire ?p \<noteq> None")
    case False
    then have none: "nc_initialized n \<Longrightarrow> sbs_compositor_native_canvas_acquire ?p = None"
      by blast
    have "r = None \<and> (n' = n \<or> n' = ?p)"
      using r by (cases "nc_initialized n") (simp_all add: sbs_compositor_render_native_frame_def Let_def none)
    then show ?thesis
      using p by auto
  next
    case True
    then obtain i a where a: "sbs_compositor_native_canvas_acquire ?p = Some (i, a)"
      by auto
    note acq = canvas_acquire_fields [OF a]
    have i: "i < 16" "i < length (nc_entries n)" "i < length (nc_entries ?p)"
      using acq len p by (simp_all add: calm_def)
    have idle: "\<not> gpu_busy n i"
      using acq p i by (auto simp: calm_def acquirable_def vkGetFenceStatus_ok_def)
    have "calm n (entry_upd i set_rendering ?p)"
      using acq by (intro calm_own_entry [OF p i(1) idle i(2)]) (simp add: set_rendering_def)
    then have ca: "calm n a" and la: "i < length (nc_entries a)"
      using acq i by (simp_all add: calm_def entry_upd_def)
    let ?u = "entry_upd i (\<lambda>e. e\<lparr>ne_fence := Unsignaled\<rparr>) a"
    let ?m = "entry_upd i set_rendering ?u"
    let ?f = "entry_upd i (\<lambda>e. e\<lparr>ne_frame_number := frame,
                             ne_content_frame_number := submitted_content frame content\<rparr>) ?m"
    let ?s = "entry_upd i (\<lambda>e. e\<lparr>ne_fence := Pending\<rparr>) ?f"
    note own = calm_own_entry [OF _ i(1) idle i(2)]
    have fence: "ne_fence (nc_entries ?u ! i) \<noteq> Pending" "ne_fence (nc_entries ?f ! i) \<noteq> Pending"
      and state: "canvas_state ?f i = ENTRY_RENDERING"
      using i(1) la by (simp_all add: entry_upd_def set_rendering_def)
    have u: "calm n ?u"
      by (rule own [OF ca]) simp
    have m: "calm n ?m"
      by (rule own [OF u]) (simp add: set_rendering_def)
    have "ne_fence (nc_entries ?m ! i) \<noteq> Pending"
      using i(1) la by (simp add: entry_upd_def set_rendering_def)
    then have f: "calm n ?f"
      by (intro own [OF m]) simp
    have s: "calm n ?s"
      using state by (intro own [OF f]) simp
    note failed = calm_failed [OF _ i(1) idle i(2)]
    have shape: "r = None \<and> (n' = sbs_compositor_native_canvas_release_failed i a
          \<or> n' = sbs_compositor_native_canvas_release_failed i ?u
          \<or> n' = sbs_compositor_native_canvas_release_failed i ?f)
        \<or> r = Some i \<and> (n' = ?s \<or> (\<exists>m k. n' = snd (sbs_compositor_submit_native_preview_from_entry vkp m frame k ?s)
            \<or> n' = (snd (sbs_compositor_submit_native_preview_from_entry vkp m frame k ?s))\<lparr>np_last_submit := frame\<rparr>))"
    proof -
      consider "\<not> ne_cmd_buffer (entry_at a i)" | "ne_cmd_buffer (entry_at a i)" "\<not> vo_begin vk \<or> \<not> vo_end vk"
        | "ne_cmd_buffer (entry_at a i)" "vo_begin vk" "vo_end vk" "\<not> vo_submit vk"
        | (ok) "ne_cmd_buffer (entry_at a i)" "vo_begin vk" "vo_end vk" "vo_submit vk"
        by blast
      then show ?thesis
      proof cases
        case ok
        then show ?thesis
          using r True a i(1)
          by (auto simp: sbs_compositor_render_native_frame_def Let_def case_prod_unfold
              sbs_compositor_native_canvas_mark_rendering_def split: if_splits bool.splits)
      qed (use r True a i(1) in \<open>auto simp: sbs_compositor_render_native_frame_def Let_def
          sbs_compositor_native_canvas_mark_rendering_def\<close>)
    qed
    have "calm ?s (snd (sbs_compositor_submit_native_preview_from_entry vkp m frame k ?s))" for m k
      by (rule calm_submit)
    with shape have "r = None \<and> (n' = sbs_compositor_native_canvas_release_failed i a
          \<or> n' = sbs_compositor_native_canvas_release_failed i ?u
          \<or> n' = sbs_compositor_native_canvas_release_failed i ?f)
        \<or> r = Some i \<and> calm ?s n'"
      by (metis calm_fields(4) calm_refl)
    moreover have "ne_fence (nc_entries a ! i) \<noteq> Pending"
      using acq i by (simp add: set_rendering_def acquirable_def vkGetFenceStatus_ok_def)
    ultimately have "calm n n' \<and> (r = None \<or> r = Some i)"
      using failed [OF ca] failed [OF u fence(1)] failed [OF f fence(2)] calm_trans [OF s] by metis
    then show ?thesis
      using i(1) idle by auto
  qed
qed

end
