(* ===== verification/Source_Frames_Inv.thy ===== *)
theory Source_Frames_Inv
  imports Source_Frames Canvas_Fences
begin

text \<open>
  Where the frames of the sources are: each operation of the compositor thread keeps the account of
  the frames, and a frame pending on an entry that the GPU still renders stays there.
\<close>

section \<open>Releasing the frames of an entry\<close>

definition row_view :: "comp_thread \<Rightarrow> nat \<Rightarrow> pending_release list" where
  "row_view ct e = take (ct_pending_count ct ! e) (ct_pending ct ! e)"

definition all_frames :: "pending_release list \<Rightarrow> frame_fds list" where
  "all_frames ps = concat (map frames_of ps)"

lemma all_frames_simps [simp]:
  "all_frames [] = []" "all_frames (p # ps) = frames_of p @ all_frames ps"
  "all_frames (ps @ qs) = all_frames ps @ all_frames qs"
  by (simp_all add: all_frames_def)

lemma release_dmabuf_import_fields [simp]:
  "length (it_cache (release_dmabuf_import i inode t)) = length (it_cache t)"
  by (simp add: release_dmabuf_import_def Let_def)

lemma inactive_import_release:
  assumes "\<not> (it_active_idx t = i \<and> de_valid (it_cache t ! nat i) \<and> de_inode (it_cache t ! nat i) = inode)"
    and "0 \<le> i" "i < 16"
  shows "it_active_idx (release_dmabuf_import i inode t) = it_active_idx t"
    and "0 \<le> it_active_idx t \<Longrightarrow>
          it_cache (release_dmabuf_import i inode t) ! nat (it_active_idx t) = it_cache t ! nat (it_active_idx t)"
  using assms by (auto simp: release_dmabuf_import_def Let_def nth_list_update)

lemma still_active_release:
  assumes "\<not> still_active sources p"
  shows "still_active (sbs_compositor_release_source_dmabuf_import (pr_slot p) (pr_import_idx p) (pr_import_inode p)
      sources) q = still_active sources q"
proof (cases "pr_slot p < 32 \<and> 0 \<le> pr_import_idx p \<and> pr_import_idx p < 16 \<and> pr_slot p < length sources")
  case True
  let ?t = "sources ! pr_slot p"
  have "\<not> (it_active_idx ?t = pr_import_idx p \<and> de_valid (it_cache ?t ! nat (pr_import_idx p))
      \<and> de_inode (it_cache ?t ! nat (pr_import_idx p)) = pr_import_inode p)"
    using assms True by (auto simp: still_active_def pending_source_import_still_active_def)
  note r = inactive_import_release [OF this]
  show ?thesis
  proof (cases "pr_slot q = pr_slot p")
    case same: True
    then show ?thesis
      using True r by (auto simp: still_active_def pending_source_import_still_active_def
          sbs_compositor_release_source_dmabuf_import_def SBS_MAX_SOURCE_TEXTURES_def)
  qed (simp add: still_active_def pending_source_import_still_active_def
      sbs_compositor_release_source_dmabuf_import_def)
next
  case False
  then have "sbs_compositor_release_source_dmabuf_import (pr_slot p) (pr_import_idx p) (pr_import_inode p) sources
      = sources"
    by (auto simp: sbs_compositor_release_source_dmabuf_import_def release_dmabuf_import_def
        SBS_MAX_SOURCE_TEXTURES_def list_update_beyond)
  then show ?thesis
    by simp
qed

text \<open>The loop keeps the columns whose import is active, in order, and releases the frames of the others.\<close>

definition keeps_import :: "bool \<Rightarrow> import_texture list \<Rightarrow> pending_release \<Rightarrow> bool" where
  "keeps_import force sources p \<longleftrightarrow> \<not> force \<and> still_active sources p"

text \<open>What the drawing functions see of a texture; releasing an import that is not active keeps it.\<close>

definition drawn_from :: "import_texture \<Rightarrow> source_texture \<times> nat" where
  "drawn_from t = (source_texture.truncate t, it_buf t)"

lemma drawn_release:
  assumes "\<not> still_active sources p"
  shows "drawn_from (sbs_compositor_release_source_dmabuf_import (pr_slot p) (pr_import_idx p) (pr_import_inode p)
      sources ! k) = drawn_from (sources ! k)"
proof (cases "pr_slot p < 32 \<and> k = pr_slot p \<and> pr_slot p < length sources")
  case True
  then have "drawn_from (release_dmabuf_import (pr_import_idx p) (pr_import_inode p) (sources ! k)) = drawn_from (sources ! k)"
    using assms by (auto simp: release_dmabuf_import_def Let_def drawn_from_def source_texture.truncate_def
        still_active_def pending_source_import_still_active_def)
  then show ?thesis
    using True by (simp add: sbs_compositor_release_source_dmabuf_import_def)
next
  case False
  then show ?thesis
    by (cases "pr_slot p < length sources")
      (auto simp: sbs_compositor_release_source_dmabuf_import_def SBS_MAX_SOURCE_TEXTURES_def list_update_beyond nth_list_update)
qed

lemma release_loop:
  fixes force sources
  assumes "n \<le> length row"
  defines "K \<equiv> filter (keeps_import force sources) (take n row)"
  shows "\<exists>row' sources'. fold (release_pending_step force) [0..<n] (0, row, sources, released)
      = (length K, row', sources', released @ all_frames (filter (\<lambda>p. \<not> keeps_import force sources p) (take n row)))
    \<and> length row' = length row \<and> take (length K) row' = K \<and> drop n row' = drop n row
    \<and> length sources' = length sources \<and> (\<forall>q. keeps_import force sources' q = keeps_import force sources q)
    \<and> (\<not> force \<longrightarrow> (\<forall>k. drawn_from (sources' ! k) = drawn_from (sources ! k)))"
  using assms(1) unfolding K_def
proof (induction n)
  case 0
  then show ?case by auto
next
  case (Suc n)
  let ?K = "filter (keeps_import force sources) (take n row)"
  obtain row' sources' where f: "fold (release_pending_step force) [0..<n] (0, row, sources, released)
      = (length ?K, row', sources', released @ all_frames (filter (\<lambda>p. \<not> keeps_import force sources p) (take n row)))"
    and len: "length row' = length row" and K: "take (length ?K) row' = ?K" and d: "drop n row' = drop n row"
    and ls: "length sources' = length sources" and same: "\<forall>q. keeps_import force sources' q = keeps_import force sources q"
    and drawn: "\<not> force \<longrightarrow> (\<forall>k. drawn_from (sources' ! k) = drawn_from (sources ! k))"
    using Suc by auto
  have kn: "length ?K \<le> n"
    using length_filter_le [of "keeps_import force sources" "take n row"] Suc.prems by simp
  have "row' ! n = drop n row' ! 0"
    using Suc.prems len by simp
  then have at: "row' ! n = row ! n"
    using Suc.prems d by simp
  have tk: "take (Suc n) row = take n row @ [row ! n]"
    using Suc.prems by (simp add: take_Suc_conv_app_nth)
  have ds: "drop (Suc n) row' = drop (Suc n) row"
    using d by (metis drop_drop plus_1_eq_Suc)
  have next_step: "fold (release_pending_step force) [0..<Suc n] (0, row, sources, released)
      = release_pending_step force n (length ?K, row', sources', released
          @ all_frames (filter (\<lambda>p. \<not> keeps_import force sources p) (take n row)))"
    using f by simp
  show ?case
  proof (cases "keeps_import force sources (row ! n)")
    case True
    then have act: "\<not> force \<and> still_active sources' (row ! n)"
      using same by (simp add: keeps_import_def)
    let ?row = "if length ?K \<noteq> n then row'[length ?K := row ! n] else row'"
    have "take (Suc (length ?K)) ?row = ?K @ [row ! n]"
      using K kn len Suc.prems at by (auto simp: take_Suc_conv_app_nth)
    moreover have "drop (Suc n) ?row = drop (Suc n) row"
      using ds kn by simp
    moreover have "fold (release_pending_step force) [0..<Suc n] (0, row, sources, released)
        = (Suc (length ?K), ?row, sources', released
            @ all_frames (filter (\<lambda>p. \<not> keeps_import force sources p) (take n row)))"
      unfolding next_step using act at by (simp add: release_pending_step_def Let_def)
    ultimately show ?thesis
      using True len ls same drawn
      by (intro exI [of _ ?row] exI [of _ sources']) (simp add: tk del: upt_Suc)
  next
    case False
    then have act: "\<not> (\<not> force \<and> still_active sources' (row ! n))"
      using same by (simp add: keeps_import_def)
    let ?row = "row'[n := (row ! n)\<lparr>pr_frame := None\<rparr>]"
    let ?s = "sbs_compositor_release_source_dmabuf_import (pr_slot (row ! n)) (pr_import_idx (row ! n))
        (pr_import_inode (row ! n)) sources'"
    have "length ?s = length sources'"
      by (simp add: sbs_compositor_release_source_dmabuf_import_def)
    moreover have "\<forall>q. keeps_import force ?s q = keeps_import force sources q"
      using act same still_active_release [of sources' "row ! n"] by (auto simp: keeps_import_def)
    moreover have "take (length ?K) ?row = ?K" "drop (Suc n) ?row = drop (Suc n) row"
      using K kn ds by simp_all
    moreover have "fold (release_pending_step force) [0..<Suc n] (0, row, sources, released)
        = (length ?K, ?row, ?s, (released
            @ all_frames (filter (\<lambda>p. \<not> keeps_import force sources p) (take n row))) @ frames_of (row ! n))"
      unfolding next_step using act at by (simp add: release_pending_step_def Let_def)
    moreover have "\<not> force \<longrightarrow> (\<forall>k. drawn_from (?s ! k) = drawn_from (sources ! k))"
      using drawn act drawn_release [of sources' "row ! n"] by auto
    ultimately show ?thesis
      using False len ls
      by (intro exI [of _ ?row] exI [of _ ?s]) (simp add: tk del: upt_Suc)
  qed
qed

lemma clear_columns_fields [simp]:
  "length (clear_columns k n row) = length row" "take k (clear_columns k n row) = take k row"
proof -
  have "length (fold (\<lambda>i row. row[i := no_pending]) is row) = length row
      \<and> (list_all (\<lambda>i. k \<le> i) is \<longrightarrow> take k (fold (\<lambda>i row. row[i := no_pending]) is row) = take k row)" for "is"
    by (induction "is" arbitrary: row) simp_all
  from this [of "[k..<n]"] show "length (clear_columns k n row) = length row"
    "take k (clear_columns k n row) = take k row"
    by (simp_all add: clear_columns_def list_all_iff)
qed

text \<open>The arrays of the thread: 16 rows of 32 columns.\<close>

definition rows_ok :: "comp_thread \<Rightarrow> bool" where
  "rows_ok ct \<longleftrightarrow> length (ct_pending ct) = 16 \<and> length (ct_pending_count ct) = 16
     \<and> (\<forall>e < 16. length (ct_pending ct ! e) = 32 \<and> ct_pending_count ct ! e \<le> 32)"

text \<open>Everything but the rows, the textures and the history of releases.\<close>

definition same_rest :: "comp_thread \<Rightarrow> comp_thread \<Rightarrow> bool" where
  "same_rest ct ct' \<longleftrightarrow> ct_native ct' = ct_native ct \<and> ct_slots ct' = ct_slots ct \<and> ct_items ct' = ct_items ct
     \<and> length (ct_sources ct') = length (ct_sources ct)"

lemma same_rest_refl [simp]: "same_rest ct ct"
  by (simp add: same_rest_def)

lemma same_rest_trans: "same_rest a b \<Longrightarrow> same_rest b c \<Longrightarrow> same_rest a c"
  by (simp add: same_rest_def)

lemma release_entry:
  fixes force ct
  assumes "rows_ok ct" "e < 16"
  defines "ct' \<equiv> release_pending_source_frames_for_entry e force ct"
    and "keep \<equiv> keeps_import force (ct_sources ct)"
  shows "rows_ok ct'" "same_rest ct ct'"
    and "row_view ct' e = filter keep (row_view ct e)"
    and "j < 16 \<Longrightarrow> j \<noteq> e \<Longrightarrow> row_view ct' j = row_view ct j"
    and "ct_released ct' = ct_released ct @ all_frames (filter (\<lambda>p. \<not> keep p) (row_view ct e))"
    and "\<not> force \<Longrightarrow> drawn_from (ct_sources ct' ! k) = drawn_from (ct_sources ct ! k)"
proof -
  let ?n = "ct_pending_count ct ! e" and ?row = "ct_pending ct ! e"
  let ?K = "filter keep (take ?n ?row)"
  have n: "?n \<le> length ?row"
    using assms(1,2) by (simp add: rows_ok_def)
  obtain row' sources' where
    f: "fold (release_pending_step force) [0..<?n] (0, ?row, ct_sources ct, ct_released ct)
      = (length ?K, row', sources', ct_released ct @ all_frames (filter (\<lambda>p. \<not> keep p) (take ?n ?row)))"
    and r: "length row' = length ?row" "take (length ?K) row' = ?K" "length sources' = length (ct_sources ct)"
    "\<not> force \<longrightarrow> (\<forall>k. drawn_from (sources' ! k) = drawn_from (ct_sources ct ! k))"
    using release_loop [OF n, of force "ct_sources ct" "ct_released ct"] unfolding keep_def by blast
  have ct': "ct' = ct\<lparr>ct_sources := sources',
      ct_pending := (ct_pending ct)[e := clear_columns (length ?K) ?n row'],
      ct_pending_count := (ct_pending_count ct)[e := length ?K],
      ct_released := ct_released ct @ all_frames (filter (\<lambda>p. \<not> keep p) (take ?n ?row))\<rparr>"
    unfolding ct'_def release_pending_source_frames_for_entry_def using assms(2) f by (simp add: Let_def)
  have "length ?K \<le> 32"
    using length_filter_le [of keep "take ?n ?row"] assms(1,2) by (simp add: rows_ok_def)
  then show "rows_ok ct'"
    using assms(1,2) r(1) by (auto simp: ct' rows_ok_def nth_list_update)
  show "same_rest ct ct'"
    using r(3) by (simp add: ct' same_rest_def)
  show "row_view ct' e = filter keep (row_view ct e)"
    using assms(1,2) r(2) by (simp add: ct' row_view_def rows_ok_def)
  show "row_view ct' j = row_view ct j" if "j < 16" "j \<noteq> e"
    using that by (simp add: ct' row_view_def)
  show "ct_released ct' = ct_released ct @ all_frames (filter (\<lambda>p. \<not> keep p) (row_view ct e))"
    by (simp add: ct' row_view_def)
  show "drawn_from (ct_sources ct' ! k) = drawn_from (ct_sources ct ! k)" if "\<not> force"
    using r(4) that by (simp add: ct')
qed

section \<open>The account of the frames\<close>

definition slot_frames :: "comp_thread \<Rightarrow> frame_fds multiset" where
  "slot_frames ct = (\<Sum>s \<leftarrow> ct_slots ct. mset (fs_released s) + mset (map fst (fs_view s)))"

definition pending_frames :: "comp_thread \<Rightarrow> frame_fds multiset" where
  "pending_frames ct = (\<Sum>e < 16. mset (all_frames (row_view ct e)))"

definition account :: "comp_thread \<Rightarrow> frame_fds multiset" where
  "account ct = slot_frames ct + mset (ct_released ct) + pending_frames ct"

lemma pending_split: "e < 16 \<Longrightarrow>
    pending_frames ct = mset (all_frames (row_view ct e)) + (\<Sum>j \<in> {..<16} - {e}. mset (all_frames (row_view ct j)))"
  unfolding pending_frames_def by (intro sum.remove) simp_all

lemma pending_change:
  assumes "e < 16" "\<And>j. j < 16 \<Longrightarrow> j \<noteq> e \<Longrightarrow> row_view ct' j = row_view ct j"
  shows "pending_frames ct' + mset (all_frames (row_view ct e))
    = pending_frames ct + mset (all_frames (row_view ct' e))"
proof -
  have "(\<Sum>j \<in> {..<16} - {e}. mset (all_frames (row_view ct' j)))
      = (\<Sum>j \<in> {..<16} - {e}. mset (all_frames (row_view ct j)))"
    using assms(2) by (intro sum.cong) auto
  then show ?thesis
    using pending_split [OF assms(1), of ct] pending_split [OF assms(1), of ct'] by simp
qed

lemma all_frames_filter: "mset (all_frames ps) = mset (all_frames (filter P ps)) + mset (all_frames (filter (\<lambda>p. \<not> P p) ps))"
  by (induction ps) auto

lemma account_release_fds [simp]: "account (release_fds fs ct) = account ct + mset fs"
  by (simp add: account_def release_fds_def slot_frames_def pending_frames_def row_view_def)

lemma release_entry_account:
  assumes "rows_ok ct" "e < 16"
  shows "account (release_pending_source_frames_for_entry e force ct) = account ct"
proof -
  let ?ct = "release_pending_source_frames_for_entry e force ct"
  note r = release_entry [OF assms, where force = force]
  have "pending_frames ?ct + mset (all_frames (row_view ct e)) = pending_frames ct + mset (all_frames (row_view ?ct e))"
    using r(4) by (intro pending_change [OF assms(2)]) simp
  then have "pending_frames ct
      = mset (all_frames (filter (\<lambda>p. \<not> keeps_import force (ct_sources ct) p) (row_view ct e))) + pending_frames ?ct"
    using all_frames_filter [of "row_view ct e" "keeps_import force (ct_sources ct)"] r(3) by (simp add: add.commute)
  then show ?thesis
    using r(2,5) by (simp add: account_def slot_frames_def same_rest_def)
qed

lemma rows_ok_release_fds [simp]: "rows_ok (release_fds fs ct) = rows_ok ct"
  "row_view (release_fds fs ct) = row_view ct"
  by (simp_all add: rows_ok_def release_fds_def row_view_def fun_eq_iff)

lemma release_fds_fields [simp]:
  "ct_native (release_fds fs ct) = ct_native ct" "ct_items (release_fds fs ct) = ct_items ct"
  "ct_sources (release_fds fs ct) = ct_sources ct" "ct_slots (release_fds fs ct) = ct_slots ct"
  by (simp_all add: release_fds_def)

lemma attach_step_simp [simp]:
  "attach_step start (i, p) (row, released) =
     (if start + i \<ge> 32 then (row, released @ frames_of p) else (row[start + i := p], released))"
  by (simp add: attach_step_def)

lemma attach_loop:
  assumes "length row = 32"
  shows "\<exists>row'. fold (attach_step start) (enumerate k ps) (row, released)
      = (row', released @ all_frames (drop (32 - (start + k)) ps)) \<and> length row' = 32
    \<and> take (min (start + k + length ps) 32) row' = take (start + k) row @ take (32 - (start + k)) ps"
  using assms
proof (induction ps arbitrary: k row released)
  case Nil
  then have "take (min (start + k) 32) row = take (start + k) row"
    by (metis min.commute take_all_iff take_take order_refl)
  with Nil show ?case by simp
next
  case (Cons p ps)
  show ?case
  proof (cases "start + k \<ge> 32")
    case True
    then show ?thesis
      using Cons.IH [of row "Suc k" "released @ frames_of p"] Cons.prems
      by (auto simp: min_def)
  next
    case False
    then have less: "32 - (start + k) = Suc (32 - (start + Suc k))"
      by simp
    obtain row' where r: "fold (attach_step start) (enumerate (Suc k) ps) (row[start + k := p], released)
        = (row', released @ all_frames (drop (32 - (start + Suc k)) ps))" "length row' = 32"
      "take (min (start + Suc k + length ps) 32) row'
        = take (start + Suc k) (row[start + k := p]) @ take (32 - (start + Suc k)) ps"
      using Cons.IH [of "row[start + k := p]" "Suc k" released] Cons.prems by auto
    have "take (start + Suc k) (row[start + k := p]) = take (start + k) row @ [p]"
      using False Cons.prems by (simp add: take_Suc_conv_app_nth)
    then show ?thesis
      using r False by (simp add: less)
  qed
qed

lemma attach_entry:
  fixes ct ps
  assumes "rows_ok ct" "e < 16"
  defines "ct' \<equiv> attach_source_releases_to_entry e ps ct"
  shows "rows_ok ct'" "same_rest ct ct'" "j < 16 \<Longrightarrow> j \<noteq> e \<Longrightarrow> row_view ct' j = row_view ct j"
    and "account ct' = account ct + mset (all_frames ps)"
    and "\<exists>K. row_view ct' e = K @ take (32 - length K) ps"
proof -
  let ?ct = "release_pending_source_frames_for_entry e False ct"
  let ?start = "ct_pending_count ?ct ! e"
  note r = release_entry [OF assms(1,2), where force = False]
  note acc = release_entry_account [OF assms(1,2), of False]
  have ok: "length (ct_pending ?ct ! e) = 32" "?start \<le> 32" "length (ct_pending ?ct) = 16" "length (ct_pending_count ?ct) = 16"
    using r(1) assms(2) by (simp_all add: rows_ok_def)
  obtain row' where f: "fold (attach_step ?start) (enumerate 0 ps) (ct_pending ?ct ! e, ct_released ?ct)
      = (row', ct_released ?ct @ all_frames (drop (32 - ?start) ps))" "length row' = 32"
    "take (min (?start + length ps) 32) row' = take ?start (ct_pending ?ct ! e) @ take (32 - ?start) ps"
    using attach_loop [OF ok(1), of ?start 0 ps "ct_released ?ct"] by auto
  have ct': "ct' = ?ct\<lparr>ct_pending := (ct_pending ?ct)[e := row'],
      ct_pending_count := (ct_pending_count ?ct)[e := min (?start + length ps) 32],
      ct_released := ct_released ?ct @ all_frames (drop (32 - ?start) ps)\<rparr>"
    unfolding ct'_def attach_source_releases_to_entry_def using assms(2) f(1) by (simp add: Let_def)
  show "rows_ok ct'"
    using r(1) f(2) assms(2) by (auto simp: ct' rows_ok_def nth_list_update)
  show "same_rest ct ct'"
    using r(2) by (simp add: ct' same_rest_def)
  have rows: "row_view ct' j = row_view ?ct j" if "j \<noteq> e" for j
    using that by (simp add: ct' row_view_def)
  then show "row_view ct' j = row_view ct j" if "j < 16" "j \<noteq> e"
    using that r(4) by simp
  have e: "row_view ct' e = row_view ?ct e @ take (32 - ?start) ps"
    using f(3) ok assms(2) by (simp add: ct' row_view_def)
  have "length (row_view ?ct e) = ?start"
    using ok by (simp add: row_view_def)
  then show "\<exists>K. row_view ct' e = K @ take (32 - length K) ps"
    using e by metis
  have "pending_frames ct' + mset (all_frames (row_view ?ct e)) = pending_frames ?ct + mset (all_frames (row_view ct' e))"
    using rows by (intro pending_change [OF assms(2)]) simp
  then have "pending_frames ct' = pending_frames ?ct + mset (all_frames (take (32 - ?start) ps))"
    by (simp add: e)
  moreover have "mset (all_frames ps) = mset (all_frames (take (32 - ?start) ps)) + mset (all_frames (drop (32 - ?start) ps))"
    by (metis all_frames_simps(3) append_take_drop_id mset_append)
  moreover have "slot_frames ct' = slot_frames ?ct" "ct_released ct' = ct_released ?ct @ all_frames (drop (32 - ?start) ps)"
    by (simp_all add: ct' slot_frames_def)
  ultimately have "account ct' = account ?ct + mset (all_frames ps)"
    by (simp add: account_def)
  then show "account ct' = account ct + mset (all_frames ps)"
    using acc by simp
qed

text \<open>A fold of operations on entries.\<close>

lemma entries_fold:
  assumes "\<And>e ct. e \<in> set es \<Longrightarrow> rows_ok ct \<Longrightarrow> rows_ok (f e ct) \<and> same_rest ct (f e ct) \<and> account (f e ct) = account ct"
    and "rows_ok ct"
  shows "rows_ok (fold f es ct) \<and> same_rest ct (fold f es ct) \<and> account (fold f es ct) = account ct"
  using assms
proof (induction es arbitrary: ct)
  case (Cons e es)
  have "rows_ok (f e ct) \<and> same_rest ct (f e ct) \<and> account (f e ct) = account ct"
    using Cons.prems by simp
  then show ?case
    using Cons.IH [of "f e ct"] Cons.prems(1) same_rest_trans by fastforce
qed simp

lemma ready_step_account:
  assumes "rows_ok ct" "e < 16"
  shows "rows_ok (ready_step e ct) \<and> same_rest ct (ready_step e ct) \<and> account (ready_step e ct) = account ct"
  using release_entry(1,2) [OF assms, where force = False] release_entry_account [OF assms, of False] assms(1)
  by (simp add: ready_step_def)

lemma release_ready_account:
  assumes "rows_ok ct"
  shows "rows_ok (release_ready_source_frames ct) \<and> same_rest ct (release_ready_source_frames ct)
    \<and> account (release_ready_source_frames ct) = account ct"
  using entries_fold [of "[0..<16]" ready_step, OF _ assms] ready_step_account assms
  by (simp add: release_ready_source_frames_def)

lemma release_all_account:
  assumes "rows_ok ct"
  shows "rows_ok (release_all_pending_source_frames ct) \<and> same_rest ct (release_all_pending_source_frames ct)
    \<and> account (release_all_pending_source_frames ct) = account ct"
  using entries_fold [of "[0..<16]" "\<lambda>i. release_pending_source_frames_for_entry i True", OF _ assms]
    release_entry(1,2) [where force = True] release_entry_account [where force = True]
  by (simp add: release_all_pending_source_frames_def)

section \<open>Taking the frames\<close>

definition slot_all :: "frame_fds frame_slot \<Rightarrow> frame_fds multiset" where
  "slot_all s = mset (fs_released s) + mset (map fst (fs_view s))"

lemma sum_list_change:
  fixes g :: "'a \<Rightarrow> 'b multiset"
  shows "k < length xs \<Longrightarrow> (\<Sum>x \<leftarrow> xs[k := y]. g x) + g (xs ! k) = (\<Sum>x \<leftarrow> xs. g x) + g y"
proof (induction xs arbitrary: k)
  case (Cons x xs)
  then show ?case
    by (cases k) (auto simp: ac_simps)
qed simp

lemma account_slot:
  assumes "k < length (ct_slots ct)"
  shows "account (ct\<lparr>ct_slots := (ct_slots ct)[k := s]\<rparr>) + slot_all (ct_slots ct ! k) = account ct + slot_all s"
proof -
  have "slot_frames (ct\<lparr>ct_slots := (ct_slots ct)[k := s]\<rparr>) + slot_all (ct_slots ct ! k) = slot_frames ct + slot_all s"
    using sum_list_change [OF assms, of slot_all s] by (simp add: slot_frames_def slot_all_def)
  then show ?thesis
    by (simp add: account_def pending_frames_def row_view_def ac_simps)
qed

text \<open>The invariant of the thread's state.\<close>

definition thread_ok :: "comp_thread \<Rightarrow> bool" where
  "thread_ok ct \<longleftrightarrow> rows_ok ct \<and> (\<forall>s \<in> set (ct_slots ct). fs_inv s \<and> fs_release_fn s)
     \<and> (\<forall>item \<in> set (ct_items ct). fi_slot item < length (ct_slots ct))"

lemma thread_ok_slots:
  assumes "thread_ok ct" "k < length (ct_slots ct)" "fs_inv s" "fs_release_fn s"
  shows "thread_ok (ct\<lparr>ct_slots := (ct_slots ct)[k := s]\<rparr>)"
  using assms set_update_subset_insert [of "ct_slots ct" k s] by (auto simp: thread_ok_def rows_ok_def)

lemma thread_ok_rows: "thread_ok ct \<Longrightarrow> rows_ok ct"
  by (simp add: thread_ok_def)

lemma thread_ok_same: "thread_ok ct \<Longrightarrow> rows_ok ct' \<Longrightarrow> same_rest ct ct' \<Longrightarrow> thread_ok ct'"
  by (simp add: thread_ok_def same_rest_def)

lemma thread_ok_fields [simp]:
  "thread_ok (release_fds fs ct) = thread_ok ct"
  "thread_ok (ct\<lparr>ct_sources := src\<rparr>) = thread_ok ct" "thread_ok (ct\<lparr>ct_native := n\<rparr>) = thread_ok ct"
  "thread_ok (ct\<lparr>ct_content_serial := c\<rparr>) = thread_ok ct" "thread_ok (ct\<lparr>ct_scene_dirty := d\<rparr>) = thread_ok ct"
  "thread_ok (ct\<lparr>ct_frame_count := m\<rparr>) = thread_ok ct" "thread_ok (ct\<lparr>ct_cached_entry := e\<rparr>) = thread_ok ct"
  "thread_ok (ct\<lparr>ct_transition_active := t\<rparr>) = thread_ok ct"
  by (simp_all add: thread_ok_def rows_ok_def release_fds_def)

lemma account_fields [simp]:
  "account (ct\<lparr>ct_sources := src\<rparr>) = account ct" "account (ct\<lparr>ct_native := n\<rparr>) = account ct"
  "account (ct\<lparr>ct_content_serial := c\<rparr>) = account ct" "account (ct\<lparr>ct_scene_dirty := d\<rparr>) = account ct"
  "account (ct\<lparr>ct_frame_count := m\<rparr>) = account ct" "account (ct\<lparr>ct_cached_entry := e\<rparr>) = account ct"
  "account (ct\<lparr>ct_transition_active := t\<rparr>) = account ct" "account (ct\<lparr>ct_items := items\<rparr>) = account ct"
  by (simp_all add: account_def slot_frames_def pending_frames_def row_view_def)

lemma row_view_fields [simp]:
  "row_view (ct\<lparr>ct_sources := src\<rparr>) = row_view ct" "row_view (ct\<lparr>ct_native := n\<rparr>) = row_view ct"
  "row_view (ct\<lparr>ct_content_serial := c\<rparr>) = row_view ct" "row_view (ct\<lparr>ct_scene_dirty := d\<rparr>) = row_view ct"
  "row_view (ct\<lparr>ct_frame_count := m\<rparr>) = row_view ct" "row_view (ct\<lparr>ct_cached_entry := e\<rparr>) = row_view ct"
  "row_view (ct\<lparr>ct_transition_active := t\<rparr>) = row_view ct" "row_view (ct\<lparr>ct_items := items\<rparr>) = row_view ct"
  "row_view (ct\<lparr>ct_slots := slots\<rparr>) = row_view ct"
  by (simp_all add: row_view_def fun_eq_iff)

text \<open>What a round has done when it has polled some of the sources.\<close>

definition poll_ok :: "poll_state \<Rightarrow> poll_state \<Rightarrow> bool" where
  "poll_ok ps ps' \<longleftrightarrow> thread_ok (ps_thread ps') \<and> ct_native (ps_thread ps') = ct_native (ps_thread ps)
     \<and> ct_items (ps_thread ps') = ct_items (ps_thread ps) \<and> row_view (ps_thread ps') = row_view (ps_thread ps)
     \<and> length (ct_sources (ps_thread ps')) = length (ct_sources (ps_thread ps))
     \<and> length (ct_slots (ps_thread ps')) = length (ct_slots (ps_thread ps))
     \<and> account (ps_thread ps') + mset (all_frames (ps_releases ps'))
       = account (ps_thread ps) + mset (all_frames (ps_releases ps))"

lemma upload_length:
  "sbs_compositor_upload_source nc lc setup ua slot ur sources = Some (ok, sources') \<Longrightarrow> length sources' = length sources"
  by (auto simp: sbs_compositor_upload_source_def Let_def split: if_splits prod.splits option.splits bool.splits)

lemma take_oldest_account:
  assumes "fs_inv s" "fs_release_fn s" "sbs_frame_slot_take_oldest s = ((frame, ts), s')"
  shows "fs_inv s' \<and> fs_release_fn s' \<and> slot_all s = slot_all s' + (case frame of None \<Rightarrow> {#} | Some f \<Rightarrow> {#f#})"
proof (cases "fs_count s")
  case 0
  then show ?thesis
    using assms by (auto simp: sbs_frame_slot_take_oldest_def)
next
  case (Suc m)
  then obtain x xs where v: "fs_view s = x # xs"
    using fs_view_nonempty by blast
  then show ?thesis
    using take_oldest_result [OF assms(1) Suc] assms(2,3) by (simp add: slot_all_def)
qed

lemma release_record_frame [simp]: "frames_of (release_record slot t f) = [f]"
  by (simp add: release_record_def Let_def frames_of_def)

lemma poll_source_ok:
  assumes "poll_source ua i ps = Some ps'" "thread_ok (ps_thread ps)" "i < length (ct_items (ps_thread ps))"
  shows "poll_ok ps ps'"
proof -
  let ?ct = "ps_thread ps" and ?item = "ct_items (ps_thread ps) ! i"
  let ?slot = "ct_slots ?ct ! fi_slot ?item"
  have k: "fi_slot ?item < length (ct_slots ?ct)" and s: "fs_inv ?slot" "fs_release_fn ?slot"
    using assms(2,3) by (simp_all add: thread_ok_def)
  obtain frame ts fs where t: "sbs_frame_slot_take_oldest ?slot = ((frame, ts), fs)"
    by (metis prod.collapse)
  note fs = take_oldest_account [OF s t]
  let ?taken = "?ct\<lparr>ct_slots := (ct_slots ?ct)[fi_slot ?item := fs]\<rparr>"
  have taken: "thread_ok ?taken" and acc: "account ?taken + (case frame of None \<Rightarrow> {#} | Some f \<Rightarrow> {#f#}) = account ?ct"
    using thread_ok_slots [OF assms(2) k] account_slot [OF k, of fs] fs by (simp_all add: ac_simps)
  have skip: ?thesis if "ps' = ps"
    using that assms(2) by (simp add: poll_ok_def)
  show ?thesis
  proof (cases "ps' = ps \<or> frame = None")
    case True
    then show ?thesis
      using skip assms(1) taken acc t by (auto simp: poll_source_def Let_def poll_ok_def split: if_splits)
  next
    case False
    then obtain f where f: "frame = Some f"
      by blast
    have "(\<exists>src. length src = length (ct_sources ?ct)
          \<and> (ps_thread ps' = release_fds [f] (?taken\<lparr>ct_sources := src\<rparr>) \<and> ps_releases ps' = ps_releases ps
            \<or> ps_thread ps' = ?taken\<lparr>ct_sources := src\<rparr>
              \<and> (\<exists>p. ps_releases ps' = ps_releases ps @ [p] \<and> frames_of p = [f])))"
    proof (cases "fd_dmabuf f \<le> 0")
      case True
      then have "ps' = ps\<lparr>ps_thread := release_fds [f] ?taken\<rparr>"
        using assms(1) False t f by (auto simp: poll_source_def Let_def split: if_splits)
      then show ?thesis
        by (intro exI [of _ "ct_sources ?ct"]) simp
    next
      case pos: False
      let ?up = "sbs_compositor_upload_source (ct_native ?ct) (ct_pipelines ?ct) (ct_setup ?ct) (ua i)
          (source_texture_slot_for_active_item (ct_sources ?ct) (ct_items ?ct) i)
          (upload_of_item (ct_color_mode ?ct) ?item f) (ct_sources ?ct)"
      have "?up = None \<Longrightarrow> poll_source ua i ps = Some ps \<or> poll_source ua i ps = None"
        using pos t f by (simp add: poll_source_def Let_def)
      then obtain ok src where up: "?up = Some (ok, src)"
        using assms(1) False by (cases ?up) auto
      have "ps_thread ps' = release_fds [f] (?taken\<lparr>ct_sources := src\<rparr>) \<and> ps_releases ps' = ps_releases ps
          \<or> ps_thread ps' = ?taken\<lparr>ct_sources := src\<rparr>
            \<and> (\<exists>p. ps_releases ps' = ps_releases ps @ [p] \<and> frames_of p = [f])"
        using assms(1) False pos t f up by (auto simp: poll_source_def Let_def split: if_splits)
      then show ?thesis
        using upload_length [OF up] by blast
    qed
    then show ?thesis
      using taken acc f by (auto simp: poll_ok_def)
  qed
qed

lemma poll_ok_trans: "poll_ok a b \<Longrightarrow> poll_ok b c \<Longrightarrow> poll_ok a c"
  by (simp add: poll_ok_def)

lemma poll_sources_ok:
  assumes "poll_sources ua is ps = Some ps'" "thread_ok (ps_thread ps)"
    and "\<forall>i \<in> set is. i < length (ct_items (ps_thread ps))"
  shows "poll_ok ps ps'"
  using assms
proof (induction "is" arbitrary: ps)
  case Nil
  then show ?case by (simp add: poll_ok_def)
next
  case (Cons i "is")
  then obtain ps1 where p: "poll_source ua i ps = Some ps1" "poll_sources ua is ps1 = Some ps'"
    by (auto split: option.splits)
  have one: "poll_ok ps ps1"
    using poll_source_ok [OF p(1)] Cons.prems by simp
  then have "poll_ok ps1 ps'"
    using Cons.IH [OF p(2)] Cons.prems(3) by (simp add: poll_ok_def)
  with one show ?case
    by (rule poll_ok_trans)
qed

section \<open>Rendering and the other steps\<close>

lemma record_uploads_fields [simp]:
  "thread_ok (record_uploads vk ct) = thread_ok ct" "account (record_uploads vk ct) = account ct"
  "ct_native (record_uploads vk ct) = ct_native ct" "row_view (record_uploads vk ct) = row_view ct"
  by (simp_all add: record_uploads_def split: option.split)

lemma render_new_frame_account:
  assumes "thread_ok ct"
  shows "thread_ok (render_new_frame vk vkp frame content rel ct)
    \<and> account (render_new_frame vk vkp frame content rel ct) = account ct + mset (all_frames rel)"
proof -
  obtain entry n where r: "sbs_compositor_render_native_frame vk vkp frame content (ct_native ct) = (entry, n)"
    by fastforce
  let ?ct = "(record_uploads vk ct)\<lparr>ct_native := n, ct_content_serial := content, ct_scene_dirty := False\<rparr>"
  have ok: "thread_ok ?ct" "account ?ct = account ct"
    using assms by simp_all
  have "thread_ok (attach_source_releases_to_entry e rel ?ct)
      \<and> account (attach_source_releases_to_entry e rel ?ct) = account ct + mset (all_frames rel)" if "e < 16" for e
    using attach_entry(1,2,4) [of ?ct e rel] ok that thread_ok_same [OF ok(1)] thread_ok_rows [OF ok(1)] by simp
  then show ?thesis
    using r ok by (cases entry) (simp_all add: render_new_frame_def Let_def assms flip: all_frames_def)
qed

lemma render_round_account:
  assumes "thread_ok (ps_thread ps)"
  shows "thread_ok (render_round vk vkp ps)
    \<and> account (render_round vk vkp ps) = account (ps_thread ps) + mset (all_frames (ps_releases ps))"
  using assms render_new_frame_account
  by (simp add: render_round_def Let_def case_prod_unfold flip: all_frames_def)

lemma round_account:
  assumes "thread_round ua vk vkp ct = Some ct'" "thread_ok ct"
  shows "thread_ok ct' \<and> account ct' = account ct"
proof -
  let ?ps = "\<lparr>ps_thread = ct, ps_releases = [], ps_uploaded = 0, ps_uploaded_ok = 0\<rparr>"
  obtain ps where p: "poll_sources ua [0..<length (ct_items ct)] ?ps = Some ps" and ct': "ct' = render_round vk vkp ps"
    using assms(1) by (auto simp: thread_round_def)
  have "poll_ok ?ps ps"
    using poll_sources_ok [OF p] assms(2) by simp
  then show ?thesis
    using render_round_account [of ps vk vkp] by (simp add: ct' poll_ok_def)
qed

lemma transition_entry_fields [simp]:
  "thread_ok (release_transition_cached_entry ct) = thread_ok ct"
  "account (release_transition_cached_entry ct) = account ct"
  "row_view (release_transition_cached_entry ct) = row_view ct"
  "ct_slots (release_transition_cached_entry ct) = ct_slots ct"
  "thread_ok (capture_transition_cached_entry ct) = thread_ok ct"
  "account (capture_transition_cached_entry ct) = account ct"
  "row_view (capture_transition_cached_entry ct) = row_view ct"
  "ct_slots (capture_transition_cached_entry ct) = ct_slots ct"
  by (simp_all add: release_transition_cached_entry_def capture_transition_cached_entry_def Let_def case_prod_unfold)

lemma thread_ok_items:
  "thread_ok ct \<Longrightarrow> \<forall>item \<in> set items. fi_slot item < length (ct_slots ct) \<Longrightarrow> thread_ok (ct\<lparr>ct_items := items\<rparr>)"
  by (simp add: thread_ok_def rows_ok_def)

lemma slot_calls:
  assumes "fs_inv s" "fs_release_fn s"
  shows "fs_inv (sbs_frame_slot_publish (Some f) ts s) \<and> fs_release_fn (sbs_frame_slot_publish (Some f) ts s)
      \<and> slot_all (sbs_frame_slot_publish (Some f) ts s) = slot_all s + {#f#}"
    and "fs_inv (sbs_frame_slot_flush s) \<and> fs_release_fn (sbs_frame_slot_flush s)
      \<and> slot_all (sbs_frame_slot_flush s) = slot_all s"
proof -
  have "slot_all (sbs_frame_slot_publish (Some f) ts s) = slot_all s + {#f#}"
  proof (cases "fs_count s = SBS_FRAME_SLOT_RING_SIZE")
    case True
    then obtain x xs where "fs_view s = x # xs"
      using fs_view_nonempty [of s 3] by (auto simp: SBS_FRAME_SLOT_RING_SIZE_def)
    then show ?thesis
      using publish_result [OF assms(1), of f ts] assms(2) True by (simp add: slot_all_def)
  qed (use publish_result [OF assms(1), of f ts] in \<open>simp add: slot_all_def\<close>)
  then show "fs_inv (sbs_frame_slot_publish (Some f) ts s) \<and> fs_release_fn (sbs_frame_slot_publish (Some f) ts s)
      \<and> slot_all (sbs_frame_slot_publish (Some f) ts s) = slot_all s + {#f#}"
    using publish_result [OF assms(1), of f ts] assms(2) by simp
  show "fs_inv (sbs_frame_slot_flush s) \<and> fs_release_fn (sbs_frame_slot_flush s)
      \<and> slot_all (sbs_frame_slot_flush s) = slot_all s"
    using flush_result [OF assms(1)] assms(2) by (simp add: slot_all_def)
qed

lemma thread_step_account:
  assumes "thread_step ct fs ct'" "thread_ok ct"
  shows "thread_ok ct' \<and> account ct' = account ct + mset fs"
  using assms(1)
proof (cases rule: thread_step.cases)
  case Ready
  then show ?thesis
    using release_ready_account [of ct] assms(2) thread_ok_same [OF assms(2)] thread_ok_rows [OF assms(2)] by simp
next
  case (Round ua vk vkp)
  then show ?thesis
    using round_account assms(2) by simp
next
  case (Scene items transition new)
  then show ?thesis
    using thread_ok_items [OF assms(2), of items] assms(2) by (simp add: apply_scene_def Let_def)
next
  case Transition
  then show ?thesis
    using assms(2) by (simp add: end_transition_def)
next
  case (Publish k f ts)
  then have "fs_inv (ct_slots ct ! k)" "fs_release_fn (ct_slots ct ! k)"
    using assms(2) by (simp_all add: thread_ok_def)
  note p = slot_calls(1) [OF this, of f ts]
  show ?thesis
    using Publish p thread_ok_slots [OF assms(2)] account_slot [of k ct "sbs_frame_slot_publish (Some f) ts (ct_slots ct ! k)"]
    by (simp add: ac_simps)
next
  case (Flush k)
  then have "fs_inv (ct_slots ct ! k)" "fs_release_fn (ct_slots ct ! k)"
    using assms(2) by (simp_all add: thread_ok_def)
  note p = slot_calls(2) [OF this]
  show ?thesis
    using Flush p thread_ok_slots [OF assms(2)] account_slot [of k ct "sbs_frame_slot_flush (ct_slots ct ! k)"]
    by simp
next
  case (Rings n)
  then show ?thesis
    using assms(2) by simp
qed

section \<open>Rows of busy entries\<close>

definition rings_ok :: "native_comp \<Rightarrow> bool" where
  "rings_ok n \<longleftrightarrow> length (nc_entries n) = 16 \<and> (\<forall>e < 16. gpu_busy n e \<longrightarrow> canvas_state n e = ENTRY_RENDERING)"

lemma calm_rings_ok: "calm n n' \<Longrightarrow> rings_ok n \<Longrightarrow> rings_ok n'"
  unfolding calm_def rings_ok_def by metis

lemma gpu_finish_rings_ok: "rings_ok n \<Longrightarrow> rings_ok (gpu_finish i n)"
  by (auto simp: rings_ok_def gpu_finish_def entry_upd_def nth_list_update)

lemma rings_step_ok: "rings_step n n' \<Longrightarrow> rings_ok n \<Longrightarrow> rings_ok n'"
proof (induction rule: rings_step.induct)
  case (Gpu n i)
  then show ?case by (rule gpu_finish_rings_ok)
qed (auto intro: calm_rings_ok calm_mailbox_acquire calm_unref calm_republish calm_configure
    simp: sbs_compositor_native_canvas_mailbox_release_def)

definition rows_kept :: "comp_thread \<Rightarrow> comp_thread \<Rightarrow> bool" where
  "rows_kept ct ct' \<longleftrightarrow> (\<forall>e < 16. gpu_busy (ct_native ct) e \<longrightarrow> row_view ct' e = row_view ct e)"

lemma ready_fold:
  assumes "rows_ok ct" "set es \<subseteq> {..<16}" "\<And>j. e = j \<Longrightarrow> j \<in> set es \<Longrightarrow> canvas_state (ct_native ct) j = ENTRY_RENDERING
      \<and> \<not> vkGetFenceStatus_ok (nc_entries (ct_native ct) ! j)" "e < 16"
  shows "row_view (fold ready_step es ct) e = row_view ct e"
  using assms
proof (induction es arbitrary: ct)
  case (Cons i es)
  have i: "i < 16"
    using Cons.prems(2) by simp
  have "row_view (ready_step i ct) e = row_view ct e"
    using release_entry(4) [OF Cons.prems(1) i, of e] Cons.prems(3) [of e] Cons.prems(4)
    by (cases "e = i") (simp_all add: ready_step_def)
  moreover have "row_view (fold ready_step es (ready_step i ct)) e = row_view (ready_step i ct) e"
    using ready_step_account [OF Cons.prems(1) i] Cons.prems by (intro Cons.IH) (auto simp: same_rest_def)
  ultimately show ?case
    by simp
qed simp

lemma ready_rows_kept: "rows_ok ct \<Longrightarrow> rings_ok (ct_native ct) \<Longrightarrow> rows_kept ct (release_ready_source_frames ct)"
  by (auto simp: rows_kept_def release_ready_source_frames_def rings_ok_def vkGetFenceStatus_ok_def intro!: ready_fold)

lemma render_new_frame_rows:
  fixes vk vkp frame content rel ct
  assumes "thread_ok ct" "rings_ok (ct_native ct)"
  defines "ct' \<equiv> render_new_frame vk vkp frame content rel ct"
  shows "calm (ct_native ct) (ct_native ct') \<and> rows_kept ct ct'"
proof -
  obtain r n where r: "sbs_compositor_render_native_frame vk vkp frame content (ct_native ct) = (r, n)"
    by fastforce
  have c: "calm (ct_native ct) n" "\<And>i. r = Some i \<Longrightarrow> i < 16 \<and> \<not> gpu_busy (ct_native ct) i"
    using calm_render [OF r] assms(2) by (simp_all add: rings_ok_def)
  let ?ct = "(record_uploads vk ct)\<lparr>ct_native := n, ct_content_serial := content, ct_scene_dirty := False\<rparr>"
  have ok: "rows_ok ?ct"
    using assms(1) by (intro thread_ok_rows) simp
  show ?thesis
  proof (cases r)
    case None
    then show ?thesis
      using c(1) r by (simp add: ct'_def render_new_frame_def Let_def rows_kept_def)
  next
    case (Some i)
    then have i: "i < 16" "\<not> gpu_busy (ct_native ct) i"
      using c(2) by auto
    then have "ct' = attach_source_releases_to_entry i rel ?ct"
      using Some r by (simp add: ct'_def render_new_frame_def Let_def)
    then show ?thesis
      using attach_entry(2,3) [OF ok i(1), where ps = rel] c(1) i(2) by (auto simp: same_rest_def rows_kept_def)
  qed
qed

lemma round_rows:
  assumes "thread_round ua vk vkp ct = Some ct'" "thread_ok ct" "rings_ok (ct_native ct)"
  shows "calm (ct_native ct) (ct_native ct') \<and> rows_kept ct ct'"
proof -
  let ?ps = "\<lparr>ps_thread = ct, ps_releases = [], ps_uploaded = 0, ps_uploaded_ok = 0\<rparr>"
  obtain ps where p: "poll_sources ua [0..<length (ct_items ct)] ?ps = Some ps" and ct': "ct' = render_round vk vkp ps"
    using assms(1) by (auto simp: thread_round_def)
  let ?t = "ps_thread ps"
  have poll: "thread_ok ?t" "ct_native ?t = ct_native ct" "row_view ?t = row_view ct"
    using poll_sources_ok [OF p] assms(2) by (simp_all add: poll_ok_def)
  obtain rep n where n: "(if \<not> ct_transition_active ?t \<and> ps_uploaded ps = 0 \<and> \<not> ct_scene_dirty ?t
      then sbs_compositor_native_canvas_republish_last vkp (ct_frame_count ?t + 1) (ct_native ?t)
      else (False, ct_native ?t)) = (rep, n)"
    by fastforce
  then have c: "calm (ct_native ct) n"
    using calm_republish [of "ct_native ct" vkp "ct_frame_count ?t + 1"] poll(2) by (auto split: if_splits)
  let ?u = "?t\<lparr>ct_native := n\<rparr>"
  have u: "thread_ok ?u" "rings_ok (ct_native ?u)"
    using poll(1) calm_rings_ok [OF c assms(3)] by simp_all
  have "\<exists>frame content. ct' = (if rep then release_fds (concat (map frames_of (ps_releases ps))) ?u
      else render_new_frame vk vkp frame content (ps_releases ps) ?u)\<lparr>ct_frame_count := ct_frame_count ct' \<rparr>"
    unfolding ct' render_round_def Let_def n prod.case by auto
  then obtain frame content where e: "ct' = (if rep then release_fds (concat (map frames_of (ps_releases ps))) ?u
      else render_new_frame vk vkp frame content (ps_releases ps) ?u)\<lparr>ct_frame_count := ct_frame_count ct' \<rparr>"
    by blast
  have "calm n (ct_native ct') \<and> rows_kept ?u ct'"
    using render_new_frame_rows [OF u, of vk vkp frame content "ps_releases ps"]
    by (subst (1 2) e) (simp add: rows_kept_def)
  moreover have "gpu_busy n e" if "gpu_busy (ct_native ct) e" "e < 16" for e
    using c that assms(3) by (simp add: calm_def rings_ok_def)
  ultimately show ?thesis
    using c calm_trans poll(3) by (auto simp: rows_kept_def)
qed

lemma transition_native [simp]:
  "calm (ct_native ct) (ct_native (release_transition_cached_entry ct))"
  "calm (ct_native ct) (ct_native (capture_transition_cached_entry ct))"
proof -
  show rel: "calm (ct_native ct) (ct_native (release_transition_cached_entry ct))" for ct
    by (simp add: release_transition_cached_entry_def)
  have ref: "calm a b \<Longrightarrow> calm a (snd (sbs_compositor_native_canvas_ref e b))" for a b e
    using calm_ref calm_trans by blast
  show "calm (ct_native ct) (ct_native (capture_transition_cached_entry ct))"
    using ref [OF rel [of ct]] rel [of ct]
    by (simp add: capture_transition_cached_entry_def Let_def case_prod_unfold)
qed

lemma thread_step_rows:
  assumes "thread_step ct fs ct'" "thread_ok ct" "rings_ok (ct_native ct)"
  shows "rings_ok (ct_native ct') \<and> rows_kept ct ct'"
  using assms(1)
proof (cases rule: thread_step.cases)
  case Ready
  then show ?thesis
    using ready_rows_kept release_ready_account [of ct] assms(3) thread_ok_rows [OF assms(2)] by (simp add: same_rest_def)
next
  case (Round ua vk vkp)
  then show ?thesis
    using round_rows assms calm_rings_ok by blast
next
  case (Scene items transition new)
  let ?ct = "ct\<lparr>ct_items := items, ct_transition_active := transition\<rparr>"
  have "calm (ct_native ct) (ct_native ct') \<and> row_view ct' = row_view ct"
    using Scene transition_native [of ?ct] by (cases transition) (simp_all add: apply_scene_def Let_def)
  then show ?thesis
    using calm_rings_ok assms(3) by (simp add: rows_kept_def) blast
next
  case Transition
  have "calm (ct_native ct) (ct_native ct') \<and> row_view ct' = row_view ct"
    using Transition transition_native(1)
      [of "ct\<lparr>ct_transition_active := False, ct_scene_dirty := ct_scene_dirty ct \<or> ct_transition_active ct\<rparr>"]
    by (simp add: end_transition_def)
  then show ?thesis
    using calm_rings_ok assms(3) by (simp add: rows_kept_def) blast
next
  case (Rings n)
  then show ?thesis
    using rings_step_ok assms(3) by (simp add: rows_kept_def)
qed (simp_all add: rows_kept_def assms(3))

section \<open>Reachable states\<close>

definition new_thread :: "nat \<Rightarrow> layer_comp \<Rightarrow> import_setup \<Rightarrow> export_color_mode \<Rightarrow> comp_thread" where
  "new_thread k pipelines setup mode =
     \<lparr>ct_native = started mode, ct_pipelines = pipelines, ct_setup = setup, ct_color_mode = mode,
      ct_sources = replicate SBS_MAX_SOURCE_TEXTURES (zero_texture\<lparr>it_active_idx := -1\<rparr>),
      ct_slots = replicate k source_slot, ct_items = [], ct_transition_active = False, ct_scene_dirty = True,
      ct_frame_count = 0, ct_content_serial = 0, ct_cached_entry = UINT32_MAX,
      ct_pending = replicate NC_RING_SIZE (replicate SBS_COMP_SCENE_MAX_ITEMS (no_pending\<lparr>pr_import_idx := 0\<rparr>)),
      ct_pending_count = replicate NC_RING_SIZE 0, ct_released = []\<rparr>"

text \<open>The states a thread reaches, with the frames published so far.\<close>

inductive thread_reach :: "comp_thread \<Rightarrow> frame_fds list \<Rightarrow> comp_thread \<Rightarrow> bool" for c0 where
  Start: "thread_reach c0 [] c0"
| Step: "thread_reach c0 fs ct \<Longrightarrow> thread_step ct gs ct' \<Longrightarrow> thread_reach c0 (fs @ gs) ct'"

lemma new_thread_ok:
  "thread_ok (new_thread k pipelines setup mode)" "account (new_thread k pipelines setup mode) = {#}"
  "rings_ok (ct_native (new_thread k pipelines setup mode))"
proof -
  have s: "fs_inv (source_slot :: frame_fds frame_slot) \<and> fs_release_fn (source_slot :: frame_fds frame_slot)
      \<and> slot_all source_slot = {#}"
    using fs_inv_init by (simp add: source_slot_def sbs_frame_slot_set_release_func_def fs_inv_def slot_all_def
        sbs_frame_slot_init_def fs_view_def fs_window_def)
  show "thread_ok (new_thread k pipelines setup mode)"
    using s by (simp add: thread_ok_def rows_ok_def new_thread_def)
  have "sum_list (replicate k (slot_all source_slot)) = {#}"
    using s by (induction k) simp_all
  then show "account (new_thread k pipelines setup mode) = {#}"
    by (simp add: account_def slot_frames_def pending_frames_def row_view_def new_thread_def slot_all_def)
  show "rings_ok (ct_native (new_thread k pipelines setup mode))"
    by (simp add: rings_ok_def new_thread_def started_def create_native_canvas_ring_def blank_comp_def
        create_preview_entry_def)
qed

lemma thread_reach_ok:
  assumes "thread_reach (new_thread k pipelines setup mode) fs ct"
  shows "thread_ok ct \<and> rings_ok (ct_native ct) \<and> account ct = mset fs"
  using assms
proof (induction rule: thread_reach.induct)
  case Start
  then show ?case
    using new_thread_ok by simp
next
  case (Step fs ct gs ct')
  then show ?case
    using thread_step_account thread_step_rows by simp
qed

text \<open>Leaving the loop releases what is pending.\<close>

lemma exit_rows:
  assumes "rows_ok ct" "e < 16" "e \<in> set es" "set es \<subseteq> {..<16}"
  shows "row_view (fold (\<lambda>i. release_pending_source_frames_for_entry i True) es ct) e = []"
  using assms
proof (induction es arbitrary: ct rule: rev_induct)
  case (snoc i es)
  let ?c = "fold (\<lambda>i. release_pending_source_frames_for_entry i True) es ct"
  have "rows_ok ?c \<and> same_rest ct ?c \<and> account ?c = account ct"
    using snoc.prems(1,4) by (intro entries_fold) (auto simp: release_entry release_entry_account)
  then have ok: "rows_ok ?c"
    by simp
  have i: "i < 16"
    using snoc.prems(4) by simp
  show ?case
  proof (cases "e = i")
    case True
    then show ?thesis
      using release_entry(3) [OF ok i, where force = True] by (simp add: keeps_import_def)
  next
    case False
    then have "row_view ?c e = []"
      using snoc by simp
    then show ?thesis
      using release_entry(4) [OF ok i snoc.prems(2) False, where force = True] by simp
  qed
qed simp

lemma thread_exit_result:
  assumes "thread_ok ct"
  shows "account (thread_exit ct) = account ct" "pending_frames (thread_exit ct) = {#}"
proof -
  have ok: "rows_ok (release_transition_cached_entry ct)"
    using assms by (intro thread_ok_rows) simp
  show "account (thread_exit ct) = account ct"
    using release_all_account [OF ok] by (simp add: thread_exit_def)
  show "pending_frames (thread_exit ct) = {#}"
    using exit_rows [OF ok, of _ "[0..<16]"]
    by (simp add: pending_frames_def thread_exit_def release_all_pending_source_frames_def lessThan_atLeast0)
qed

text \<open>What a pass over finished entries does to a frame without an import, and to the textures.\<close>

lemma ready_step_drawn:
  assumes "rows_ok ct" "i < 16"
  shows "drawn_from (ct_sources (ready_step i ct) ! k) = drawn_from (ct_sources ct ! k)
    \<and> set (ct_released ct) \<subseteq> set (ct_released (ready_step i ct))"
  using release_entry(5,6) [OF assms, where force = False] by (simp add: ready_step_def)

lemma ready_fold_drawn:
  assumes "rows_ok ct" "set es \<subseteq> {..<16}"
  shows "drawn_from (ct_sources (fold ready_step es ct) ! k) = drawn_from (ct_sources ct ! k)
    \<and> set (ct_released ct) \<subseteq> set (ct_released (fold ready_step es ct))"
  using assms
proof (induction es arbitrary: ct)
  case (Cons i es)
  then show ?case
    using ready_step_drawn [of ct i k] ready_step_account [of ct i] Cons.IH [of "ready_step i ct"] by auto
qed simp

lemma ready_fold_releases:
  assumes "rows_ok ct" "set es \<subseteq> {..<16}" "e \<in> set es" "p \<in> set (row_view ct e)" "pr_import_idx p = -1"
    and "canvas_state (ct_native ct) e \<noteq> ENTRY_RENDERING \<or> vkGetFenceStatus_ok (nc_entries (ct_native ct) ! e)"
  shows "set (frames_of p) \<subseteq> set (ct_released (fold ready_step es ct))"
  using assms
proof (induction es arbitrary: ct)
  case (Cons i es)
  have i: "i < 16"
    using Cons.prems(2) by simp
  note step = ready_step_account [OF Cons.prems(1) i]
  show ?case
  proof (cases "e = i")
    case True
    have "ct_pending_count ct ! e \<noteq> 0"
      using Cons.prems(4) by (metis row_view_def empty_iff list.set(1) take0)
    then have r: "ready_step i ct = release_pending_source_frames_for_entry e False ct"
      using Cons.prems(6) True by (simp add: ready_step_def)
    have "\<not> keeps_import False (ct_sources ct) p"
      using Cons.prems(5) by (simp add: keeps_import_def still_active_def pending_source_import_still_active_def)
    then have "set (frames_of p) \<subseteq> set (ct_released (ready_step i ct))"
      using release_entry(5) [OF Cons.prems(1), of e False] Cons.prems(4) i True r by (auto simp: all_frames_def)
    then show ?thesis
      using ready_fold_drawn [of "ready_step i ct" es] step Cons.prems(2) by auto
  next
    case False
    then have "row_view (ready_step i ct) e = row_view ct e"
      using release_entry(4) [OF Cons.prems(1) i, of e] Cons.prems(2,3) by (auto simp: ready_step_def)
    then show ?thesis
      using Cons.IH [of "ready_step i ct"] Cons.prems step False by (simp add: same_rest_def)
  qed
qed simp

end
