(* ===== verification/Source_Frames_Props.thy ===== *)
theory Source_Frames_Props
  imports Source_Frames_Inv Layer_Visibility
begin

text \<open>
  The properties of the compositor thread's handling of source frames, with a run of one camera: its
  frame is published, taken, imported, rendered into entry 0 and returned.
\<close>

section \<open>A run with one camera\<close>

definition sample_pipelines :: layer_comp where
  "sample_pipelines = \<lparr>lc_sources = \<lambda>_. source_texture.truncate zero_texture, lc_p010_direct_layout = True,
     lc_p010_direct = True, lc_yuv8_to_p010 = True, lc_amly_to_p010 = True, lc_p010_to_nv21 = True,
     lc_yuv8_to_nv21 = True, lc_amly_to_nv21 = True\<rparr>"

definition sample_setup :: import_setup where
  "sample_setup = \<lparr>is_compute_pipeline = True, is_ycbcr_available = False, is_ycbcr_direct_import_enabled = False\<rparr>"

definition sample_camera :: frame_item where
  "sample_camera = \<lparr>ci_source_id = ''cam'', ci_visible = True, ci_crop = (Fin 0, Fin 0, Fin 0, Fin 0), ci_opacity = Fin 1,
     ci_filter_flags = 0, ci_lut_path = [], ci_render_x = 0, ci_render_y = 0, ci_render_width = 1920,
     ci_render_height = 1080, ci_flip_horizontal = False, ci_flip_vertical = False, ci_rotation_deg = Fin 0,
     ci_frame_slot = True, fi_slot = 0, fi_width = 1920, fi_height = 1080, fi_drm_format = DRM_NV12,
     fi_modifier = 0, fi_plane_offset = (0, 0), fi_plane_stride = (0, 0)\<rparr>"

definition sample_frame :: frame_fds where
  "sample_frame = \<lparr>fd_dmabuf = 7, fd_dmabuf2 = -1, fd_release_sock = 9, fd_release_sequence = 1, fd_needs_release_ack = True\<rparr>"

definition sample_answers :: upload_answers where
  "sample_answers = \<lparr>ua_image = True, ua_image_memory = True, ua_image_view = True, ua_inode = Some 42,
     ua_size = 3110400, ua_ycbcr_dup = True, ua_ycbcr_image = True, ua_buffer = Some 5, ua_mapping = None\<rparr>"

definition waiting_thread :: comp_thread where
  "waiting_thread = (let ct = apply_scene [sample_camera] False False
       (new_thread 1 sample_pipelines sample_setup SBS_EXPORT_COLOR_SDR)
     in ct\<lparr>ct_slots := (ct_slots ct)[0 := sbs_frame_slot_publish (Some sample_frame) 100 (ct_slots ct ! 0)]\<rparr>)"

definition no_textures :: "import_texture list" where
  "no_textures = replicate SBS_MAX_SOURCE_TEXTURES (zero_texture\<lparr>it_active_idx := -1\<rparr>)"

definition camera_bounds :: alpha_bounds where
  "camera_bounds = \<lparr>alpha_x = 0, alpha_y = 0, alpha_w = 1920, alpha_h = 1080, alpha_rect_opaque = True\<rparr>"

definition camera_texture :: import_texture where
  "camera_texture = \<lparr>tex_source_id = ''cam'', tex_width = 1920, tex_height = 1080, tex_allocated = True,
     tex_has_content = True, tex_dmabuf_imported = True, tex_y_buf = True, tex_view = False,
     tex_alpha = camera_bounds, tex_drm_format = DRM_NV12, it_image = False, it_upload_pending = True,
     it_cache = (replicate 16 no_dmabuf_entry)[0 := \<lparr>de_buf = 5, de_inode = 42, de_width = 1920, de_height = 1080,
       de_drm_format = DRM_NV12, de_planes = (1920, 1920, 2073600), de_alpha = camera_bounds,
       de_age = 1, de_valid = True, de_is_ycbcr = False\<rparr>],
     it_active_idx = 0, it_frame_counter = 1, it_buf = 5, it_planes = (1920, 1920, 2073600),
     it_ycbcr_imported = False, it_upload_filter_flags = 0\<rparr>"

lemma waiting_thread_eq: "waiting_thread = (new_thread 1 sample_pipelines sample_setup SBS_EXPORT_COLOR_SDR)
    \<lparr>ct_items := [sample_camera], ct_slots := [sbs_frame_slot_publish (Some sample_frame) 100 source_slot]\<rparr>"
  by (simp add: waiting_thread_def apply_scene_def Let_def release_transition_cached_entry_def new_thread_def
      UINT32_MAX_def)

lemma camera_upload: "sbs_compositor_upload_source (started SBS_EXPORT_COLOR_SDR) sample_pipelines sample_setup
    sample_answers 0 (upload_of_item SBS_EXPORT_COLOR_SDR sample_camera sample_frame) no_textures
  = Some (True, no_textures[0 := camera_texture])"
  by code_simp

definition taken_slot :: "frame_fds frame_slot" where
  "taken_slot = snd (sbs_frame_slot_take_oldest (sbs_frame_slot_publish (Some sample_frame) 100 source_slot))"

lemma taken_slot_eq: "sbs_frame_slot_take_oldest (sbs_frame_slot_publish (Some sample_frame) 100 source_slot)
    = ((Some sample_frame, 100), taken_slot)"
  unfolding taken_slot_def by code_simp

definition polled_thread :: poll_state where
  "polled_thread = \<lparr>ps_thread = waiting_thread\<lparr>ct_slots := [taken_slot], ct_sources := no_textures[0 := camera_texture]\<rparr>,
     ps_releases = [release_record 0 camera_texture sample_frame], ps_uploaded = 1, ps_uploaded_ok = 1\<rparr>"

lemma poll_camera: "poll_sources (\<lambda>_. sample_answers) [0..<length (ct_items waiting_thread)]
    \<lparr>ps_thread = waiting_thread, ps_releases = [], ps_uploaded = 0, ps_uploaded_ok = 0\<rparr> = Some polled_thread"
proof -
  have f: "ct_items waiting_thread = [sample_camera]"
    "ct_slots waiting_thread = [sbs_frame_slot_publish (Some sample_frame) 100 source_slot]"
    "ct_sources waiting_thread = no_textures" "ct_native waiting_thread = started SBS_EXPORT_COLOR_SDR"
    "ct_color_mode waiting_thread = SBS_EXPORT_COLOR_SDR" "ct_pipelines waiting_thread = sample_pipelines"
    "ct_setup waiting_thread = sample_setup"
    by (simp_all add: waiting_thread_eq new_thread_def no_textures_def)
  have c: "ci_frame_slot sample_camera" "ci_visible sample_camera" "fi_width sample_camera \<noteq> 0"
    "fi_height sample_camera \<noteq> 0" "fi_slot sample_camera = 0" "fd_dmabuf sample_frame = 7"
    by (simp_all add: sample_camera_def sample_frame_def)
  have slot: "source_texture_slot_for_active_item no_textures [sample_camera] 0 = 0" and len: "0 < length no_textures"
    by (simp_all add: no_textures_def source_texture_slot_for_active_item_def SBS_MAX_SOURCE_TEXTURES_def
        zero_texture_def Let_def)
  have i: "nc_initialized (started SBS_EXPORT_COLOR_SDR)"
    by (simp add: started_def create_native_canvas_ring_def)
  have "poll_source (\<lambda>_. sample_answers) 0
      \<lparr>ps_thread = waiting_thread, ps_releases = [], ps_uploaded = 0, ps_uploaded_ok = 0\<rparr> = Some polled_thread"
    unfolding poll_source_def Let_def using camera_upload len
    by (simp add: f c taken_slot_eq slot i polled_thread_def)
  then show ?thesis
    by (simp add: f)
qed




definition rendered_thread :: comp_thread where
  "rendered_thread = render_round all_ok all_ok polled_thread"


lemma rendered_thread_reachable:
  "thread_reach (new_thread 1 sample_pipelines sample_setup SBS_EXPORT_COLOR_SDR) [sample_frame] rendered_thread"
proof -
  let ?n = "new_thread 1 sample_pipelines sample_setup SBS_EXPORT_COLOR_SDR"
  let ?s = "apply_scene [sample_camera] False False ?n"
  have "\<forall>item \<in> set [sample_camera]. fi_slot item < length (ct_slots ?n)"
    by (simp add: sample_camera_def new_thread_def)
  then have "thread_step ?n [] ?s"
    by (intro thread_step.Scene) simp_all
  from thread_reach.Step [OF thread_reach.Start this] have s: "thread_reach ?n [] ?s"
    by simp
  have "thread_step ?s [sample_frame] waiting_thread"
    unfolding waiting_thread_def Let_def
    by (intro thread_step.Publish) (simp add: apply_scene_def Let_def new_thread_def)
  from thread_reach.Step [OF s this] have w: "thread_reach ?n [sample_frame] waiting_thread"
    by simp
  have "thread_step waiting_thread [] rendered_thread"
    using poll_camera by (intro thread_step.Round [of "\<lambda>_. sample_answers" all_ok all_ok])
      (simp add: thread_round_def rendered_thread_def)
  from thread_reach.Step [OF w this] show ?thesis
    by simp
qed

section \<open>Properties\<close>

text \<open>
  C37. Every frame that a source publishes is accounted for: in every reachable state of the compositor
  thread it was released by its slot or still waits there, was released by the thread, or is pending
  on a canvas entry, and exactly one of these once; when the thread has ended, none is pending.
\<close>

theorem source_frames_are_accounted:
  assumes "thread_reach (new_thread k pipelines setup mode) pub ct"
  shows "mset pub = slot_frames ct + mset (ct_released ct) + pending_frames ct
    \<and> mset pub = slot_frames (thread_exit ct) + mset (ct_released (thread_exit ct))"
proof -
  have "thread_ok ct" "account ct = mset pub"
    using thread_reach_ok [OF assms] by simp_all
  then show ?thesis
    using thread_exit_result [of ct] by (simp add: account_def)
qed

lemma source_frames_are_accounted_witness:
  "{#sample_frame#} = slot_frames rendered_thread + mset (ct_released rendered_thread) + pending_frames rendered_thread"
  using source_frames_are_accounted [OF rendered_thread_reachable] by simp





end
