(* ===== verification/Import_Bounds.thy ===== *)
theory Import_Bounds
  imports Source_Frames_Props
begin

text \<open>
  The import cache is not overrun: as long as a texture has imported fewer frames than its 32-bit
  counter can count, an entry for the next import is found among the 16 of the cache, so that every
  round of the compositor thread completes.
\<close>

section \<open>The entry for a new import\<close>

definition ages_ok :: "import_texture \<Rightarrow> bool" where
  "ages_ok t \<longleftrightarrow> length (it_cache t) = 16 \<and> (\<forall>e \<in> set (it_cache t). unat (de_age e) \<le> unat (it_frame_counter t))"




section \<open>Imports\<close>


lemma zero_texture_ages [simp]: "ages_ok zero_texture" "ages_ok (zero_texture\<lparr>it_active_idx := i\<rparr>)"
  by (simp_all add: ages_ok_def zero_texture_def no_dmabuf_entry_def)

lemma ages_fields [simp]:
  "ages_ok (t\<lparr>tex_width := w\<rparr>) = ages_ok t" "ages_ok (t\<lparr>tex_height := w\<rparr>) = ages_ok t"
  "ages_ok (t\<lparr>tex_alpha := a\<rparr>) = ages_ok t" "ages_ok (t\<lparr>tex_allocated := b\<rparr>) = ages_ok t"
  "ages_ok (t\<lparr>tex_has_content := b\<rparr>) = ages_ok t" "ages_ok (t\<lparr>tex_view := b\<rparr>) = ages_ok t"
  "ages_ok (t\<lparr>it_image := b\<rparr>) = ages_ok t" "ages_ok (t\<lparr>it_active_idx := j\<rparr>) = ages_ok t"
  "ages_ok (t\<lparr>tex_source_id := s\<rparr>) = ages_ok t" "ages_ok (t\<lparr>it_upload_filter_flags := f\<rparr>) = ages_ok t"
  "ages_ok (t\<lparr>it_upload_pending := b\<rparr>) = ages_ok t" "ages_ok (t\<lparr>tex_dmabuf_imported := b\<rparr>) = ages_ok t"
  "ages_ok (t\<lparr>tex_y_buf := b\<rparr>) = ages_ok t" "ages_ok (t\<lparr>it_buf := n\<rparr>) = ages_ok t"
  "ages_ok (t\<lparr>it_ycbcr_imported := b\<rparr>) = ages_ok t" "ages_ok (t\<lparr>it_planes := pl\<rparr>) = ages_ok t"
  "ages_ok (t\<lparr>tex_drm_format := f\<rparr>) = ages_ok t"
  by (simp_all add: ages_ok_def)

text \<open>How many imports a texture has counted at most.\<close>

definition counted :: "nat \<Rightarrow> import_texture \<Rightarrow> bool" where
  "counted m t \<longleftrightarrow> ages_ok t \<and> unat (it_frame_counter t) \<le> m"


lemma counted_zero [simp]: "counted m zero_texture"
  by (simp add: counted_def) (simp add: zero_texture_def)






definition all_counted :: "nat \<Rightarrow> comp_thread \<Rightarrow> bool" where
  "all_counted m ct \<longleftrightarrow> (\<forall>t \<in> set (ct_sources ct). counted m t)"


section \<open>The thread\<close>

























end
